(* ===== verification/Js_Prelude.thy ===== *)
theory Js_Prelude
  imports Complex_Main
begin

text \<open>
  The fragment of JavaScript that the modelled scripts rely on: numbers, dynamic values,
  strings and the library functions of the language that the scripts call, together with
  the lemmas about them that the component theories share.

  Numbers. A JavaScript number is a double. The model keeps the special values apart
  (NaN and the two infinities compare the way the language says) and computes with finite
  numbers exactly, as rationals; the rounding of the 53-bit significand is not modelled.
  Strings are lists of characters. The scripts test and cut only ASCII characters, so
  the characters of a string stand for its UTF-16 code units.
\<close>

section \<open>Collections of simplification rules\<close>

named_theorems js_num_simps \<open>comparison and arithmetic of numbers\<close>
named_theorems js_str_simps \<open>string functions on concrete strings\<close>

section \<open>Numbers\<close>

datatype js_num = NaN | NegInf | PosInf | Fin rat

fun num_lt :: "js_num \<Rightarrow> js_num \<Rightarrow> bool" where
  "num_lt NaN _ = False"
| "num_lt _ NaN = False"
| "num_lt NegInf y = (y \<noteq> NegInf)"
| "num_lt PosInf _ = False"
| "num_lt (Fin _) NegInf = False"
| "num_lt (Fin _) PosInf = True"
| "num_lt (Fin x) (Fin y) = (x < y)"

definition num_eq :: "js_num \<Rightarrow> js_num \<Rightarrow> bool" where
  "num_eq x y \<longleftrightarrow> x \<noteq> NaN \<and> x = y"

definition num_le :: "js_num \<Rightarrow> js_num \<Rightarrow> bool" where
  "num_le x y \<longleftrightarrow> num_lt x y \<or> num_eq x y"

abbreviation num_gt :: "js_num \<Rightarrow> js_num \<Rightarrow> bool" where
  "num_gt x y \<equiv> num_lt y x"

abbreviation num_ge :: "js_num \<Rightarrow> js_num \<Rightarrow> bool" where
  "num_ge x y \<equiv> num_le y x"

fun is_finite :: "js_num \<Rightarrow> bool" where
  "is_finite (Fin _) = True"
| "is_finite _ = False"

fun the_fin :: "js_num \<Rightarrow> rat" where
  "the_fin (Fin x) = x"
| "the_fin _ = 0"

lemma num_le_Fin [simp]: "num_le (Fin x) (Fin y) \<longleftrightarrow> x \<le> y"
  by (auto simp: num_le_def num_eq_def)

lemma num_lt_NaN [simp]: "\<not> num_lt x NaN" "\<not> num_lt NaN x"
  by (cases x; simp)+

lemma num_le_NaN [simp]: "\<not> num_le x NaN" "\<not> num_le NaN x"
  by (auto simp: num_le_def num_eq_def)

lemma is_finite_iff: "is_finite x \<longleftrightarrow> (\<exists>r. x = Fin r)"
  by (cases x) auto

text \<open>\<^verbatim>\<open>Math.round\<close> rounds half-way cases towards plus infinity.\<close>

definition math_round :: "rat \<Rightarrow> int" where
  "math_round x = \<lfloor>x + 1 / 2\<rfloor>"

lemma math_round_of_int [simp]: "math_round (of_int n) = n"
proof -
  have "\<lfloor>of_int n + 1 / 2 :: rat\<rfloor> = n + \<lfloor>1 / 2 :: rat\<rfloor>"
    by (simp add: floor_add_int)
  moreover have "\<lfloor>1 / 2 :: rat\<rfloor> = 0" by (simp add: floor_eq_iff)
  ultimately show ?thesis by (simp add: math_round_def)
qed

lemma math_round_mono: "x \<le> y \<Longrightarrow> math_round x \<le> math_round y"
  by (simp add: math_round_def floor_mono)

lemma math_round_error: "\<bar>of_int (math_round x) - x\<bar> \<le> 1 / 2"
proof -
  have "of_int \<lfloor>x + 1 / 2\<rfloor> \<le> x + 1 / 2" by simp
  moreover have "x + 1 / 2 < of_int \<lfloor>x + 1 / 2\<rfloor> + 1" by linarith
  ultimately show ?thesis unfolding math_round_def by linarith
qed

text \<open>Clamping, written in the scripts as \<^verbatim>\<open>Math.min(Math.max(x, lo), hi)\<close>.\<close>

definition clamp :: "'a::linorder \<Rightarrow> 'a \<Rightarrow> 'a \<Rightarrow> 'a" where
  "clamp lo hi x = min (max x lo) hi"

lemma clamp_bounds: "lo \<le> hi \<Longrightarrow> lo \<le> clamp lo hi x \<and> clamp lo hi x \<le> hi"
  by (simp add: clamp_def)

lemma clamp_id: "lo \<le> x \<Longrightarrow> x \<le> hi \<Longrightarrow> clamp lo hi x = x"
  by (simp add: clamp_def)

lemma clamp_mono: "x \<le> y \<Longrightarrow> clamp lo hi x \<le> clamp lo hi y"
  by (auto simp: clamp_def min_def max_def)

subsection \<open>Arithmetic\<close>

text \<open>The two zeros are not distinguished: dividing by zero uses the sign of the dividend.\<close>

fun num_add :: "js_num \<Rightarrow> js_num \<Rightarrow> js_num" where
  "num_add NaN _ = NaN"
| "num_add _ NaN = NaN"
| "num_add PosInf NegInf = NaN"
| "num_add NegInf PosInf = NaN"
| "num_add PosInf _ = PosInf"
| "num_add NegInf _ = NegInf"
| "num_add (Fin _) PosInf = PosInf"
| "num_add (Fin _) NegInf = NegInf"
| "num_add (Fin x) (Fin y) = Fin (x + y)"

fun num_neg :: "js_num \<Rightarrow> js_num" where
  "num_neg NaN = NaN"
| "num_neg PosInf = NegInf"
| "num_neg NegInf = PosInf"
| "num_neg (Fin x) = Fin (- x)"

definition num_sub :: "js_num \<Rightarrow> js_num \<Rightarrow> js_num" where
  "num_sub x y = num_add x (num_neg y)"

fun num_sgn :: "js_num \<Rightarrow> int" where
  "num_sgn NaN = 0"
| "num_sgn PosInf = 1"
| "num_sgn NegInf = - 1"
| "num_sgn (Fin x) = (if x > 0 then 1 else if x < 0 then - 1 else 0)"

definition inf_of_sgn :: "int \<Rightarrow> js_num" where
  "inf_of_sgn k = (if k > 0 then PosInf else if k < 0 then NegInf else NaN)"

fun num_mul :: "js_num \<Rightarrow> js_num \<Rightarrow> js_num" where
  "num_mul (Fin x) (Fin y) = Fin (x * y)"
| "num_mul x y = (if x = NaN \<or> y = NaN then NaN else inf_of_sgn (num_sgn x * num_sgn y))"

fun num_div :: "js_num \<Rightarrow> js_num \<Rightarrow> js_num" where
  "num_div (Fin x) (Fin y) = (if y = 0 then inf_of_sgn (num_sgn (Fin x)) else Fin (x / y))"
| "num_div (Fin x) y = (if y = NaN then NaN else Fin 0)"
| "num_div x (Fin y) = (if x = NaN then NaN else inf_of_sgn (num_sgn x * (if y < 0 then - 1 else 1)))"
| "num_div _ _ = NaN"

fun num_abs :: "js_num \<Rightarrow> js_num" where
  "num_abs NaN = NaN"
| "num_abs (Fin x) = Fin \<bar>x\<bar>"
| "num_abs _ = PosInf"

fun num_round :: "js_num \<Rightarrow> js_num" where
  "num_round (Fin x) = Fin (of_int (math_round x))"
| "num_round x = x"

fun num_floor :: "js_num \<Rightarrow> js_num" where
  "num_floor (Fin x) = Fin (of_int \<lfloor>x\<rfloor>)"
| "num_floor x = x"

definition num_max :: "js_num \<Rightarrow> js_num \<Rightarrow> js_num" where
  "num_max x y = (if x = NaN \<or> y = NaN then NaN else if num_lt x y then y else x)"

definition num_min :: "js_num \<Rightarrow> js_num \<Rightarrow> js_num" where
  "num_min x y = (if x = NaN \<or> y = NaN then NaN else if num_lt y x then y else x)"

lemma num_sub_Fin [simp]: "num_sub (Fin x) (Fin y) = Fin (x - y)"
  by (simp add: num_sub_def)

lemma num_max_Fin [simp]: "num_max (Fin x) (Fin y) = Fin (max x y)"
  by (simp add: num_max_def max_def)

lemma num_min_Fin [simp]: "num_min (Fin x) (Fin y) = Fin (min x y)"
  by (simp add: num_min_def min_def)

lemma num_NaN_absorb [simp]:
  "num_add x NaN = NaN" "num_sub NaN y = NaN" "num_sub x NaN = NaN"
  "num_mul NaN y = NaN" "num_mul x NaN = NaN" "num_div NaN y = NaN" "num_div x NaN = NaN"
  by (cases x; cases y; simp add: num_sub_def)+

section \<open>Characters and strings\<close>

definition is_digit :: "char \<Rightarrow> bool" where
  "is_digit c \<longleftrightarrow> c \<in> set ''0123456789''"

definition is_word_char :: "char \<Rightarrow> bool" where
  "is_word_char c \<longleftrightarrow> (let n = (of_char c :: nat) in
     48 \<le> n \<and> n \<le> 57 \<or> 65 \<le> n \<and> n \<le> 90 \<or> n = 95 \<or> 97 \<le> n \<and> n \<le> 122)"

definition is_space :: "char \<Rightarrow> bool" where
  "is_space c \<longleftrightarrow> (let n = (of_char c :: nat) in 9 \<le> n \<and> n \<le> 13 \<or> n = 32 \<or> n = 160)"

definition lower_char :: "char \<Rightarrow> char" where
  "lower_char c = (let n = (of_char c :: nat) in
     if 65 \<le> n \<and> n \<le> 90 then char_of (n + 32) else c)"

abbreviation to_lower :: "string \<Rightarrow> string" where
  "to_lower \<equiv> map lower_char"

definition js_trim :: "string \<Rightarrow> string" where
  "js_trim s = rev (dropWhile is_space (rev (dropWhile is_space s)))"

text \<open>\<^verbatim>\<open>s.split(/[...]/)\<close> for a class of one-character separators.\<close>

fun split_on :: "(char \<Rightarrow> bool) \<Rightarrow> string \<Rightarrow> string list" where
  "split_on p [] = [[]]"
| "split_on p (c # s) =
     (if p c then [] # split_on p s
      else (case split_on p s of [] \<Rightarrow> [[c]] | w # ws \<Rightarrow> (c # w) # ws))"

text \<open>\<^verbatim>\<open>arr.join(sep)\<close>.\<close>

fun join :: "string \<Rightarrow> string list \<Rightarrow> string" where
  "join sep [] = []"
| "join sep [w] = w"
| "join sep (w # v # ws) = w @ sep @ join sep (v # ws)"

text \<open>\<^verbatim>\<open>s.indexOf(c)\<close>, \<open>None\<close> standing for -1.\<close>

fun index_of :: "char \<Rightarrow> string \<Rightarrow> nat option" where
  "index_of c [] = None"
| "index_of c (d # s) = (if c = d then Some 0 else map_option Suc (index_of c s))"

definition starts_with :: "string \<Rightarrow> string \<Rightarrow> bool" where
  "starts_with p s \<longleftrightarrow> take (length p) s = p"

lemma split_on_nonempty [simp]: "split_on p s \<noteq> []"
  by (induction s) (auto split: list.splits)

lemma split_on_no_sep: "\<forall>c \<in> set s. \<not> p c \<Longrightarrow> split_on p s = [s]"
  by (induction s) auto

lemma split_on_append_sep:
  "\<forall>c \<in> set w. \<not> p c \<Longrightarrow> p d \<Longrightarrow> split_on p (w @ d # s) = w # split_on p s"
  by (induction w) auto

lemma split_on_parts: "w \<in> set (split_on p s) \<Longrightarrow> c \<in> set w \<Longrightarrow> \<not> p c \<and> c \<in> set s"
  by (induction s arbitrary: w c) (fastforce split: if_splits list.splits)+

lemma split_on_join:
  assumes "ws \<noteq> []" and "\<forall>w \<in> set ws. \<forall>c \<in> set w. \<not> p c" and "p d"
  shows "split_on p (join [d] ws) = ws"
  using assms
proof (induction "[d]" ws rule: join.induct)
  case (3 w v ws)
  then show ?case by (simp add: split_on_append_sep)
qed (auto simp: split_on_no_sep)

lemma index_of_None [simp]: "index_of c s = None \<longleftrightarrow> c \<notin> set s"
  by (induction s) auto

lemma index_of_Some:
  "index_of c s = Some i \<Longrightarrow> i < length s \<and> s ! i = c \<and> c \<notin> set (take i s)"
  by (induction s arbitrary: i) (auto split: if_splits)

lemma index_of_append: "c \<notin> set p \<Longrightarrow> index_of c (p @ c # s) = Some (length p)"
  by (induction p) auto

lemma starts_with_append [simp]: "starts_with p (p @ s)"
  by (simp add: starts_with_def)

lemma lower_char_idem [simp]: "lower_char (lower_char c) = lower_char c"
  by (auto simp: lower_char_def Let_def)

lemma to_lower_idem [simp]: "to_lower (to_lower s) = to_lower s"
  by simp

lemma js_trim_Nil [simp]: "js_trim [] = []"
  by (simp add: js_trim_def)

lemma js_trim_id:
  assumes "s = [] \<or> \<not> is_space (hd s) \<and> \<not> is_space (last s)"
  shows "js_trim s = s"
proof (cases s)
  case (Cons c r)
  then have "dropWhile is_space s = s" using assms by simp
  moreover have "rev s = last s # rev (butlast s)"
    using Cons by (metis append_butlast_last_id list.simps(3) rev_eq_Cons_iff rev_rev_ident)
  then have "dropWhile is_space (rev s) = rev s" using assms Cons by simp
  ultimately show ?thesis by (simp add: js_trim_def)
qed simp

lemma js_trim_set: "set (js_trim s) \<subseteq> set s"
  by (auto simp: js_trim_def dest!: set_dropWhileD)

lemma js_trim_ends:
  assumes "js_trim s \<noteq> []"
  shows "\<not> is_space (hd (js_trim s)) \<and> \<not> is_space (last (js_trim s))"
proof -
  let ?d = "dropWhile is_space s"
  let ?e = "dropWhile is_space (rev ?d)"
  have e: "?e \<noteq> []" using assms by (simp add: js_trim_def)
  then have "\<not> is_space (hd ?e)" by (rule hd_dropWhile)
  then have last_ok: "\<not> is_space (last (js_trim s))"
    using e by (simp add: js_trim_def last_rev)
  obtain ys where ys: "rev ?d = ys @ ?e"
    by (metis takeWhile_dropWhile_id)
  then have d: "?d = rev ?e @ rev ys" by (metis rev_append rev_rev_ident)
  with e have "?d \<noteq> []" by (metis Nil_is_append_conv rev_is_Nil_conv)
  then have "\<not> is_space (hd ?d)" by (rule hd_dropWhile)
  moreover have "hd ?d = hd (js_trim s)"
    unfolding js_trim_def using d e by (metis hd_append2 rev_is_Nil_conv)
  ultimately show ?thesis using last_ok by simp
qed

lemma js_trim_idem [simp]: "js_trim (js_trim s) = js_trim s"
  by (rule js_trim_id) (use js_trim_ends in blast)

end
