(* ===== verification/Js_Text.thy ===== *)
theory Js_Text
  imports Js_Prelude
begin

text \<open>
  Numbers as text and dynamically typed values: \<^verbatim>\<open>String(n)\<close>, \<^verbatim>\<open>parseInt\<close>,
  \<^verbatim>\<open>parseFloat\<close>, truthiness. Form fields, URL parameters and JSON replies reach the
  scripts as strings, so every component that reads a number goes through these.
\<close>

section \<open>Printing integers\<close>

definition digit_char :: "nat \<Rightarrow> char" where
  "digit_char d = ''0123456789'' ! d"

definition digit_val :: "char \<Rightarrow> nat" where
  "digit_val c = of_char c - 48"

fun nat_to_str :: "nat \<Rightarrow> string" where
  "nat_to_str n =
     (if n < 10 then [digit_char n] else nat_to_str (n div 10) @ [digit_char (n mod 10)])"

declare nat_to_str.simps [simp del]

definition int_to_str :: "int \<Rightarrow> string" where
  "int_to_str n = (if n < 0 then CHR ''-'' # nat_to_str (nat (- n)) else nat_to_str (nat n))"

definition digits_val :: "nat \<Rightarrow> (char \<Rightarrow> nat) \<Rightarrow> string \<Rightarrow> nat" where
  "digits_val r f s = foldl (\<lambda>a c. r * a + f c) 0 s"

section \<open>\<^verbatim>\<open>parseInt\<close>\<close>

definition digit36 :: "char \<Rightarrow> nat" where
  "digit36 c = (let n = (of_char c :: nat) in
     if 48 \<le> n \<and> n \<le> 57 then n - 48
     else if 65 \<le> n \<and> n \<le> 90 then n - 55
     else if 97 \<le> n \<and> n \<le> 122 then n - 87
     else 36)"

definition split_sign :: "string \<Rightarrow> bool \<times> string" where
  "split_sign s = (case s of
     [] \<Rightarrow> (False, [])
   | c # r \<Rightarrow> if c = CHR ''-'' then (True, r) else if c = CHR ''+'' then (False, r) else (False, s))"

definition strip_hex :: "string \<Rightarrow> string option" where
  "strip_hex s = (if starts_with ''0x'' s \<or> starts_with ''0X'' s then Some (drop 2 s) else None)"

definition digits_prefix :: "nat \<Rightarrow> string \<Rightarrow> int option" where
  "digits_prefix r s = (let ds = takeWhile (\<lambda>c. digit36 c < r) s in
     if ds = [] then None else Some (int (digits_val r digit36 ds)))"

definition apply_sign :: "bool \<Rightarrow> 'a::uminus \<Rightarrow> 'a" where
  "apply_sign neg x = (if neg then - x else x)"

text \<open>
  \<^verbatim>\<open>parseInt(s)\<close> without a radix reads a hexadecimal number after \<^verbatim>\<open>0x\<close>, with radix
  16 it skips that prefix, with any other radix it does not. \<open>None\<close> is NaN.
\<close>

definition parseInt :: "string \<Rightarrow> int option" where
  "parseInt s = (let (neg, t) = split_sign (dropWhile is_space s) in
     map_option (apply_sign neg)
       (case strip_hex t of Some u \<Rightarrow> digits_prefix 16 u | None \<Rightarrow> digits_prefix 10 t))"

definition parseInt10 :: "string \<Rightarrow> int option" where
  "parseInt10 s = (let (neg, t) = split_sign (dropWhile is_space s) in
     map_option (apply_sign neg) (digits_prefix 10 t))"

definition parseInt16 :: "string \<Rightarrow> int option" where
  "parseInt16 s = (let (neg, t) = split_sign (dropWhile is_space s) in
     map_option (apply_sign neg)
       (case strip_hex t of Some u \<Rightarrow> digits_prefix 16 u | None \<Rightarrow> digits_prefix 16 t))"

definition num_of_int :: "int option \<Rightarrow> js_num" where
  "num_of_int v = (case v of None \<Rightarrow> NaN | Some n \<Rightarrow> Fin (of_int n))"

section \<open>\<^verbatim>\<open>parseFloat\<close>\<close>

definition pow10 :: "int \<Rightarrow> rat" where
  "pow10 e = (if 0 \<le> e then 10 ^ nat e else 1 / 10 ^ nat (- e))"

definition exponent_part :: "string \<Rightarrow> int" where
  "exponent_part s = (case s of
     [] \<Rightarrow> 0
   | c # r \<Rightarrow> if c = CHR ''e'' \<or> c = CHR ''E'' then
        (let (neg, t) = split_sign r; ds = takeWhile is_digit t
         in apply_sign neg (int (digits_val 10 digit_val ds)))
      else 0)"

definition parse_decimal :: "string \<Rightarrow> rat option" where
  "parse_decimal s = (let ip = takeWhile is_digit s; r1 = dropWhile is_digit s;
       dot = (case r1 of [] \<Rightarrow> False | c # _ \<Rightarrow> c = CHR ''.'');
       fp = (if dot then takeWhile is_digit (tl r1) else []);
       r2 = (if dot then dropWhile is_digit (tl r1) else r1)
     in if ip = [] \<and> fp = [] then None
        else Some (of_nat (digits_val 10 digit_val (ip @ fp)) / 10 ^ length fp
                   * pow10 (exponent_part r2)))"

definition parseFloat :: "string \<Rightarrow> js_num" where
  "parseFloat s = (let (neg, t) = split_sign (dropWhile is_space s) in
     if starts_with ''Infinity'' t then (if neg then NegInf else PosInf)
     else (case parse_decimal t of None \<Rightarrow> NaN | Some x \<Rightarrow> Fin (apply_sign neg x)))"

section \<open>Printing numbers\<close>

text \<open>
  The digits after the point of a number in \<open>[0, 1)\<close>, at most \<open>n\<close> of them. Every
  number the scripts print has been rounded to two decimals first, or is an integer, so
  seventeen digits, what a double needs at most, always reach the end of the expansion.
\<close>

fun frac_digits :: "nat \<Rightarrow> rat \<Rightarrow> string" where
  "frac_digits 0 x = []"
| "frac_digits (Suc n) x =
     (if x = 0 then [] else digit_char (nat \<lfloor>10 * x\<rfloor>) # frac_digits n (10 * x - of_int \<lfloor>10 * x\<rfloor>))"

definition pos_to_str :: "rat \<Rightarrow> string" where
  "pos_to_str x = (let n = \<lfloor>x\<rfloor>; f = x - of_int n in
     nat_to_str (nat n) @ (if f = 0 then [] else CHR ''.'' # frac_digits 17 f))"

definition rat_to_str :: "rat \<Rightarrow> string" where
  "rat_to_str x = (if x < 0 then CHR ''-'' # pos_to_str (- x) else pos_to_str x)"

fun num_to_str :: "js_num \<Rightarrow> string" where
  "num_to_str NaN = ''NaN''"
| "num_to_str NegInf = ''-Infinity''"
| "num_to_str PosInf = ''Infinity''"
| "num_to_str (Fin x) = rat_to_str x"

section \<open>Dynamically typed values\<close>

datatype jsval = JUndef | JNull | JBool bool | JNum js_num | JStr string

fun truthy :: "jsval \<Rightarrow> bool" where
  "truthy JUndef = False"
| "truthy JNull = False"
| "truthy (JBool b) = b"
| "truthy (JNum x) = (x \<noteq> NaN \<and> x \<noteq> Fin 0)"
| "truthy (JStr s) = (s \<noteq> [])"

fun js_string :: "jsval \<Rightarrow> string" where
  "js_string JUndef = ''undefined''"
| "js_string JNull = ''null''"
| "js_string (JBool b) = (if b then ''true'' else ''false'')"
| "js_string (JNum x) = num_to_str x"
| "js_string (JStr s) = s"

text \<open>\<^verbatim>\<open>x || ''\<close> for a value that is a string or missing.\<close>

fun str_or_empty :: "jsval \<Rightarrow> string" where
  "str_or_empty v = (if truthy v then js_string v else [])"

section \<open>Number inputs and fixed-point text\<close>

text \<open>
  Assigning a number to an \<^verbatim>\<open><input type="number">\<close> stores its text, except that what is not
  a finite number leaves the field empty. Such a field therefore holds the empty string or
  the text of a number, and \<^verbatim>\<open>Number(value)\<close> (as in \<^verbatim>\<open>value - 1\<close>) reads it like
  \<^verbatim>\<open>parseFloat\<close>, with 0 for the empty string.
\<close>

definition field_of_num :: "js_num \<Rightarrow> string" where
  "field_of_num x = (case x of Fin r \<Rightarrow> rat_to_str r | _ \<Rightarrow> [])"

definition js_Number :: "string \<Rightarrow> js_num" where
  "js_Number s = (if s = [] then Fin 0 else parseFloat s)"

text \<open>What a number input accepts as its text: a valid floating-point number of HTML.\<close>

definition valid_exponent :: "string \<Rightarrow> bool" where
  "valid_exponent s = (case s of
     [] \<Rightarrow> True
   | c # r \<Rightarrow> (c = CHR ''e'' \<or> c = CHR ''E'') \<and>
       (let d = snd (split_sign r) in d \<noteq> [] \<and> list_all is_digit d))"

definition valid_float :: "string \<Rightarrow> bool" where
  "valid_float s = (let t = (if starts_with ''-'' s then tl s else s);
       ip = takeWhile is_digit t; r = dropWhile is_digit t
     in (case r of
           [] \<Rightarrow> ip \<noteq> []
         | c # q \<Rightarrow> if c = CHR ''.'' then takeWhile is_digit q \<noteq> [] \<and> valid_exponent (dropWhile is_digit q)
                    else ip \<noteq> [] \<and> valid_exponent r))"

definition two_digits :: "nat \<Rightarrow> string" where
  "two_digits n = [digit_char (n div 10 mod 10), digit_char (n mod 10)]"

text \<open>\<^verbatim>\<open>x.toFixed(2)\<close>.\<close>

fun toFixed2 :: "js_num \<Rightarrow> string" where
  "toFixed2 (Fin x) =
     (let n = math_round (\<bar>x\<bar> * 100)
      in (if x < 0 then ''-'' else []) @ int_to_str (n div 100) @ ''.'' @ two_digits (nat (n mod 100)))"
| "toFixed2 x = num_to_str x"

section \<open>Round trips\<close>

lemma less_10_cases:
  "(n::nat) < 10 \<Longrightarrow> n = 0 \<or> n = 1 \<or> n = 2 \<or> n = 3 \<or> n = 4 \<or> n = 5 \<or> n = 6 \<or> n = 7 \<or> n = 8 \<or> n = 9"
  by arith

lemma digit_char_digit:
  assumes "d < 10"
  shows "is_digit (digit_char d)" "digit36 (digit_char d) = d" "digit_val (digit_char d) = d"
    "\<not> is_space (digit_char d)" "is_word_char (digit_char d)"
  using less_10_cases [OF assms]
  by (auto simp: is_digit_def digit_char_def digit36_def digit_val_def is_space_def is_word_char_def)

lemma digits_val_snoc [simp]: "digits_val r f (s @ [c]) = r * digits_val r f s + f c"
  by (simp add: digits_val_def)

lemma nat_to_str_nonempty [simp]: "nat_to_str n \<noteq> []"
  by (subst nat_to_str.simps) simp

lemma nat_to_str_props:
  "(\<forall>c \<in> set (nat_to_str n). is_digit c \<and> digit36 c < 10 \<and> is_word_char c \<and> \<not> is_space c)
   \<and> digits_val 10 digit36 (nat_to_str n) = n \<and> digits_val 10 digit_val (nat_to_str n) = n"
proof (induction n rule: nat_to_str.induct)
  case (1 n)
  show ?case
  proof (cases "n < 10")
    case True
    then show ?thesis
      by (subst (1 2 3) nat_to_str.simps) (simp add: digit_char_digit digits_val_def)
  next
    case False
    then have "n mod 10 < 10" by simp
    with False 1 show ?thesis
      by (subst (1 2 3) nat_to_str.simps) (auto simp: digit_char_digit)
  qed
qed

lemmas nat_to_str_digits = nat_to_str_props [THEN conjunct1, rule_format]
lemmas nat_to_str_val = nat_to_str_props [THEN conjunct2]

lemma nat_to_str_inj: "nat_to_str a = nat_to_str b \<longleftrightarrow> a = b"
  using nat_to_str_val by metis

lemma digit36_not_sign: "digit36 c < 10 \<Longrightarrow> c \<noteq> CHR ''-'' \<and> c \<noteq> CHR ''+'' \<and> \<not> is_space c"
  by (auto simp: digit36_def is_space_def Let_def split: if_splits)

lemma takeWhile_all: "\<forall>c \<in> set s. p c \<Longrightarrow> takeWhile p (s @ r) = s @ takeWhile p r"
  by (induction s) auto

lemma digits_prefix_nat:
  assumes "r = [] \<or> \<not> digit36 (hd r) < 10"
  shows "digits_prefix 10 (nat_to_str n @ r) = Some (int n)"
proof -
  have "takeWhile (\<lambda>c. digit36 c < 10) r = []" using assms by (cases r) auto
  then have "takeWhile (\<lambda>c. digit36 c < 10) (nat_to_str n @ r) = nat_to_str n"
    using nat_to_str_digits [of _ n] by (subst takeWhile_all) auto
  then show ?thesis by (simp add: digits_prefix_def nat_to_str_val)
qed

lemma split_sign_nat: "split_sign (nat_to_str n @ r) = (False, nat_to_str n @ r)"
  using nat_to_str_digits [of "hd (nat_to_str n)" n] digit36_not_sign
  by (cases "nat_to_str n") (auto simp: split_sign_def)

lemma dropWhile_space_nat: "dropWhile is_space (nat_to_str n @ r) = nat_to_str n @ r"
  using nat_to_str_digits [of "hd (nat_to_str n)" n] by (cases "nat_to_str n") auto

lemma parseInt10_int_to_str [simp]: "parseInt10 (int_to_str k) = Some k"
proof -
  have "parseInt10 (nat_to_str n) = Some (int n)" for n
    using split_sign_nat [of n "[]"] dropWhile_space_nat [of n "[]"] digits_prefix_nat [of "[]" n]
    by (simp add: parseInt10_def apply_sign_def)
  moreover have "parseInt10 (CHR ''-'' # nat_to_str n) = Some (- int n)" for n
    using digits_prefix_nat [of "[]" n]
    by (simp add: parseInt10_def apply_sign_def is_space_def split_sign_def)
  ultimately show ?thesis by (simp add: int_to_str_def)
qed

lemma int_to_str_inj: "int_to_str a = int_to_str b \<Longrightarrow> a = b"
  by (metis option.inject parseInt10_int_to_str)


text \<open>
  A number with at most two decimals survives being written into a form field and read
  back: what the scripts compute with \<^verbatim>\<open>Math.round(x * 100) / 100\<close>.
\<close>

definition two_dp :: "rat \<Rightarrow> bool" where
  "two_dp x \<longleftrightarrow> (\<exists>n :: nat. x = of_nat n / 100)"

lemma frac_digits_tenths:
  assumes "0 < a" and "a < 10"
  shows "frac_digits (Suc k) (of_nat a / 10) = [digit_char a]"
proof -
  have "\<lfloor>10 * (of_nat a / 10) :: rat\<rfloor> = int a" by simp
  then show ?thesis using assms by (cases k) simp_all
qed

lemma frac_digits_hundredths:
  assumes "0 < r" and "r < 100"
  shows "frac_digits (Suc (Suc k)) (of_nat r / 100)
    = digit_char (r div 10) # (if r mod 10 = 0 then [] else [digit_char (r mod 10)])"
proof -
  have split: "(of_nat r :: rat) = 10 * of_nat (r div 10) + of_nat (r mod 10)"
    by (metis div_mult_mod_eq mult.commute of_nat_add of_nat_mult of_nat_numeral)
  have fl: "\<lfloor>10 * (of_nat r / 100) :: rat\<rfloor> = int (r div 10)"
    using split by (simp add: floor_eq_iff field_simps)
  have rest: "10 * (of_nat r / 100) - of_int \<lfloor>10 * (of_nat r / 100) :: rat\<rfloor> = of_nat (r mod 10) / (10 :: rat)"
    unfolding fl using split by (simp add: field_simps)
  show ?thesis
  proof (cases "r mod 10 = 0")
    case True
    with fl rest assms show ?thesis by (subst frac_digits.simps) simp
  next
    case False
    then have "frac_digits (Suc k) (of_nat (r mod 10) / 10) = [digit_char (r mod 10)]"
      by (intro frac_digits_tenths) auto
    then have "frac_digits (Suc k) (10 * (of_nat r / 100) - of_int \<lfloor>10 * (of_nat r / 100) :: rat\<rfloor>)
        = [digit_char (r mod 10)]" by (simp only: rest)
    moreover have "(of_nat r / 100 :: rat) \<noteq> 0" using assms(1) by simp
    ultimately show ?thesis using False
      by (subst frac_digits.simps) (simp only: fl if_False refl nat_int)
  qed
qed

lemma all_digits_nat: "\<forall>c \<in> set (nat_to_str n). is_digit c"
  using nat_to_str_digits by blast

lemma parse_decimal_eq:
  assumes "\<forall>c \<in> set ip. is_digit c" and "ip \<noteq> []"
  shows "parse_decimal ip = Some (of_nat (digits_val 10 digit_val ip))"
proof -
  have tw: "takeWhile is_digit ip = ip" and dw: "dropWhile is_digit ip = []"
    using assms by (simp_all only: takeWhile_eq_all_conv dropWhile_eq_Nil_conv)
  show ?thesis
    unfolding parse_decimal_def Let_def tw dw using assms(2) by (simp add: exponent_part_def pow10_def)
qed

lemma parse_decimal_nat:
  "parse_decimal (nat_to_str n) = Some (of_nat n)"
  by (simp add: parse_decimal_eq all_digits_nat nat_to_str_val)

lemma parse_decimal_frac:
  assumes "ds \<noteq> []" and "\<forall>c \<in> set ds. is_digit c"
  shows "parse_decimal (nat_to_str n @ ''.'' @ ds)
    = Some (of_nat (digits_val 10 digit_val (nat_to_str n @ ds)) / 10 ^ length ds)"
proof -
  have nd: "\<not> is_digit CHR ''.''" by (simp add: is_digit_def)
  have tw: "takeWhile is_digit (nat_to_str n @ ''.'' @ ds) = nat_to_str n"
    using all_digits_nat nd by (subst takeWhile_all) auto
  have dw: "dropWhile is_digit (nat_to_str n @ ''.'' @ ds) = ''.'' @ ds"
    using all_digits_nat nd by (subst dropWhile_append2) auto
  have tw2: "takeWhile is_digit ds = ds" and dw2: "dropWhile is_digit ds = []"
    using assms by (simp_all only: takeWhile_eq_all_conv dropWhile_eq_Nil_conv)
  show ?thesis
    unfolding parse_decimal_def Let_def tw dw
    using assms(1) by (simp add: tw2 dw2 exponent_part_def pow10_def)
qed

lemma parseFloat_nat_prefix:
  "parseFloat (nat_to_str n @ s) = (case parse_decimal (nat_to_str n @ s) of None \<Rightarrow> NaN | Some x \<Rightarrow> Fin x)"
proof -
  obtain c cs where c: "nat_to_str n = c # cs" by (cases "nat_to_str n") auto
  then have "is_digit c" using nat_to_str_digits [of c n] by simp
  then have "\<not> starts_with ''Infinity'' (nat_to_str n @ s)" by (auto simp: starts_with_def c is_digit_def)
  then show ?thesis
    by (simp add: parseFloat_def dropWhile_space_nat split_sign_nat apply_sign_def split: option.splits)
qed

lemma parseFloat_rat_to_str:
  assumes "two_dp x"
  shows "parseFloat (rat_to_str x) = Fin x"
proof -
  obtain n where n: "x = of_nat n / 100" using assms by (auto simp: two_dp_def)
  let ?q = "n div 100" and ?r = "n mod 100"
  have split: "(of_nat n :: rat) = 100 * of_nat ?q + of_nat ?r"
    by (metis div_mult_mod_eq mult.commute of_nat_add of_nat_mult of_nat_numeral)
  have "(of_nat ?r :: rat) < 100" by (metis mod_less_divisor of_nat_less_iff of_nat_numeral zero_less_numeral)
  then have fl: "\<lfloor>x\<rfloor> = int ?q" using split by (simp add: n floor_eq_iff field_simps)
  have fr: "x - of_int \<lfloor>x\<rfloor> = of_nat ?r / 100" unfolding fl using split by (simp add: n field_simps)
  have str: "rat_to_str x = nat_to_str ?q @ (if ?r = 0 then [] else CHR ''.'' # frac_digits 17 (of_nat ?r / 100))"
  proof -
    have "\<not> x < 0" by (simp add: n)
    then have "rat_to_str x = nat_to_str (nat \<lfloor>x\<rfloor>) @
        (if x - of_int \<lfloor>x\<rfloor> = 0 then [] else CHR ''.'' # frac_digits 17 (x - of_int \<lfloor>x\<rfloor>))"
      by (simp add: rat_to_str_def pos_to_str_def Let_def)
    then show ?thesis unfolding fr by (simp add: fl)
  qed
  show ?thesis
  proof (cases "?r = 0")
    case True
    then show ?thesis
      using str parseFloat_nat_prefix [of ?q "[]"] parse_decimal_nat [of ?q] split by (simp add: n field_simps)
  next
    case False
    let ?ds = "digit_char (?r div 10) # (if ?r mod 10 = 0 then [] else [digit_char (?r mod 10)])"
    have ds: "frac_digits 17 (of_nat ?r / 100) = ?ds"
    proof -
      have "17 = Suc (Suc 15)" by simp
      then show ?thesis using frac_digits_hundredths [of ?r 15] False by simp
    qed
    have lt: "?r div 10 < 10" "?r mod 10 < 10" by simp_all
    have dg: "\<forall>c \<in> set ?ds. is_digit c" using digit_char_digit(1) lt by simp
    have "parse_decimal (nat_to_str ?q @ ''.'' @ ?ds)
        = Some (of_nat (digits_val 10 digit_val (nat_to_str ?q @ ?ds)) / 10 ^ length ?ds)"
      using parse_decimal_frac [OF _ dg] by blast
    moreover have "of_nat (digits_val 10 digit_val (nat_to_str ?q @ ?ds)) / 10 ^ length ?ds = x"
    proof -
      have d1: "digits_val 10 digit_val (nat_to_str ?q @ [digit_char (?r div 10)]) = 10 * ?q + ?r div 10"
        using lt by (simp add: nat_to_str_val digit_char_digit)
      have d2: "digits_val 10 digit_val (nat_to_str ?q @ [digit_char (?r div 10), digit_char (?r mod 10)])
          = 10 * (10 * ?q + ?r div 10) + ?r mod 10"
        using d1 digits_val_snoc [of 10 digit_val "nat_to_str ?q @ [digit_char (?r div 10)]"] lt
        by (simp add: digit_char_digit)
      have r10: "(of_nat ?r :: rat) = 10 * of_nat (?r div 10) + of_nat (?r mod 10)"
        by (metis div_mult_mod_eq mult.commute of_nat_add of_nat_mult of_nat_numeral)
      show ?thesis using d1 d2 split r10 by (auto simp: n field_simps)
    qed
    ultimately show ?thesis using str ds False parseFloat_nat_prefix [of ?q "''.'' @ ?ds"] by simp
  qed
qed

lemma field_of_num_two_dp [simp]: "two_dp x \<Longrightarrow> parseFloat (field_of_num (Fin x)) = Fin x"
  by (simp add: field_of_num_def parseFloat_rat_to_str)

lemma rat_to_str_nonempty [simp]: "rat_to_str x \<noteq> []"
  by (simp add: rat_to_str_def pos_to_str_def Let_def)

lemma rat_to_str_of_nat: "rat_to_str (of_nat n) = nat_to_str n"
  by (simp add: rat_to_str_def pos_to_str_def)


text \<open>Any number that is not negative is read back as what its digits say: no more than it.\<close>

lemma digits_val_append:
  "digits_val 10 f (s @ t) = digits_val 10 f s * 10 ^ length t + digits_val 10 f t"
proof (induction t rule: rev_induct)
  case (snoc c t)
  then show ?case
    using digits_val_snoc [of 10 f "s @ t" c] by (simp add: algebra_simps)
qed (simp add: digits_val_def)

lemma frac_digits_bound:
  assumes "0 \<le> x" and "x < 1"
  shows "(\<forall>c \<in> set (frac_digits n x). is_digit c)
    \<and> of_nat (digits_val 10 digit_val (frac_digits n x)) / 10 ^ length (frac_digits n x) \<le> x"
  using assms
proof (induction n arbitrary: x)
  case (Suc n)
  show ?case
  proof (cases "x = 0")
    case False
    let ?d = "nat \<lfloor>10 * x\<rfloor>" and ?y = "10 * x - of_int \<lfloor>10 * x\<rfloor>"
    have d: "0 \<le> \<lfloor>10 * x\<rfloor>" "\<lfloor>10 * x\<rfloor> < 10" using Suc.prems by (simp_all add: floor_less_iff)
    then have d10: "?d < 10" by linarith
    have y: "0 \<le> ?y" "?y < 1" by linarith+
    let ?ds = "frac_digits n ?y"
    have ih: "\<forall>c \<in> set ?ds. is_digit c" "of_nat (digits_val 10 digit_val ?ds) / 10 ^ length ?ds \<le> ?y"
      using Suc.IH [OF y] by blast+
    have eq: "frac_digits (Suc n) x = digit_char ?d # ?ds" using False by simp
    have val: "digits_val 10 digit_val (digit_char ?d # ?ds) = ?d * 10 ^ length ?ds + digits_val 10 digit_val ?ds"
      using digits_val_append [of digit_val "[digit_char ?d]" ?ds] d10
      by (simp add: digits_val_def digit_char_digit)
    have "(of_nat ?d :: rat) = of_int \<lfloor>10 * x\<rfloor>" using d by simp
    then have "(of_nat ?d + of_nat (digits_val 10 digit_val ?ds) / 10 ^ length ?ds) / 10 \<le> x"
      using ih(2) by (simp add: field_simps)
    then have "of_nat (digits_val 10 digit_val (frac_digits (Suc n) x)) / 10 ^ length (frac_digits (Suc n) x) \<le> x"
      unfolding eq val by (simp add: field_simps)
    with ih(1) d10 eq show ?thesis by (simp add: digit_char_digit)
  qed (simp add: digits_val_def)
qed (simp add: digits_val_def)

lemma parseFloat_rat_to_str_bounds:
  assumes "0 \<le> x"
  shows "\<exists>y. parseFloat (rat_to_str x) = Fin y \<and> 0 \<le> y \<and> y \<le> x"
proof -
  let ?q = "nat \<lfloor>x\<rfloor>" and ?f = "x - of_int \<lfloor>x\<rfloor>"
  have q: "(of_nat ?q :: rat) = of_int \<lfloor>x\<rfloor>" using assms by simp
  have f: "0 \<le> ?f" "?f < 1" by linarith+
  have str: "rat_to_str x = nat_to_str ?q @ (if ?f = 0 then [] else CHR ''.'' # frac_digits 17 ?f)"
    using assms by (simp add: rat_to_str_def pos_to_str_def Let_def)
  show ?thesis
  proof (cases "?f = 0")
    case True
    then show ?thesis
      using str parseFloat_nat_prefix [of ?q "[]"] parse_decimal_nat [of ?q] q assms by simp
  next
    case False
    let ?ds = "frac_digits 17 ?f"
    have ds: "?ds \<noteq> []" using False by (simp add: numeral_eq_Suc)
    note b = frac_digits_bound [OF f, of 17]
    let ?v = "of_nat (digits_val 10 digit_val (nat_to_str ?q @ ?ds)) / 10 ^ length ?ds :: rat"
    have "parseFloat (rat_to_str x) = Fin ?v"
      using str False parseFloat_nat_prefix [of ?q "''.'' @ ?ds"] parse_decimal_frac [OF ds b [THEN conjunct1]]
      by simp
    moreover have "?v = of_nat ?q + of_nat (digits_val 10 digit_val ?ds) / 10 ^ length ?ds"
      by (simp add: digits_val_append nat_to_str_val field_simps)
    then have "?v \<le> x" using b [THEN conjunct2] q by linarith
    ultimately show ?thesis by (intro exI [of _ ?v]) simp
  qed
qed

lemma parseFloat_Nil [simp]: "parseFloat [] = NaN"
  by (simp add: parseFloat_def split_sign_def starts_with_def parse_decimal_def)


text \<open>The texts of numbers are what a number input accepts.\<close>

lemma split_sign_digit: "s \<noteq> [] \<Longrightarrow> is_digit (hd s) \<or> hd s = CHR ''.'' \<Longrightarrow> split_sign s = (False, s)"
  by (cases s) (auto simp: split_sign_def is_digit_def)

lemma valid_float_nat [simp]: "valid_float (nat_to_str n)"
proof -
  have tw: "takeWhile is_digit (nat_to_str n) = nat_to_str n" and dw: "dropWhile is_digit (nat_to_str n) = []"
    using all_digits_nat by (simp_all only: takeWhile_eq_all_conv dropWhile_eq_Nil_conv)
  have "\<not> starts_with ''-'' (nat_to_str n)"
    using all_digits_nat [of n] by (cases "nat_to_str n") (auto simp: starts_with_def is_digit_def)
  then show ?thesis unfolding valid_float_def Let_def by (simp only: if_False tw dw) simp
qed

lemma valid_float_frac:
  assumes "ds \<noteq> []" and "\<forall>c \<in> set ds. is_digit c"
  shows "valid_float (nat_to_str n @ ''.'' @ ds)"
proof -
  have nd: "\<not> is_digit CHR ''.''" by (simp add: is_digit_def)
  have dw: "dropWhile is_digit (nat_to_str n @ ''.'' @ ds) = ''.'' @ ds"
    using all_digits_nat nd by (subst dropWhile_append2) auto
  have tw2: "takeWhile is_digit ds = ds" and dw2: "dropWhile is_digit ds = []"
    using assms by (simp_all only: takeWhile_eq_all_conv dropWhile_eq_Nil_conv)
  have "\<not> starts_with ''-'' (nat_to_str n @ ''.'' @ ds)"
    using all_digits_nat [of n] by (cases "nat_to_str n") (auto simp: starts_with_def is_digit_def)
  then show ?thesis unfolding valid_float_def Let_def
    by (simp only: if_False dw) (simp add: tw2 dw2 assms(1) valid_exponent_def)
qed

lemma valid_float_neg: "valid_float (CHR ''-'' # nat_to_str n)"
proof -
  have tw: "takeWhile is_digit (nat_to_str n) = nat_to_str n" and dw: "dropWhile is_digit (nat_to_str n) = []"
    using all_digits_nat by (simp_all only: takeWhile_eq_all_conv dropWhile_eq_Nil_conv)
  have "starts_with ''-'' (CHR ''-'' # nat_to_str n)" by (simp add: starts_with_def)
  then show ?thesis unfolding valid_float_def Let_def by (simp only: if_True list.sel tw dw) simp
qed

lemma valid_float_int [simp]: "valid_float (int_to_str k)"
  by (simp add: int_to_str_def valid_float_neg)

lemma valid_float_pos:
  assumes "0 \<le> x"
  shows "valid_float (rat_to_str x)"
proof -
  let ?f = "x - of_int \<lfloor>x\<rfloor>"
  have f: "0 \<le> ?f" "?f < 1" by linarith+
  have str: "rat_to_str x = nat_to_str (nat \<lfloor>x\<rfloor>) @ (if ?f = 0 then [] else CHR ''.'' # frac_digits 17 ?f)"
    using assms by (simp add: rat_to_str_def pos_to_str_def Let_def)
  show ?thesis
  proof (cases "?f = 0")
    case False
    then have "frac_digits 17 ?f \<noteq> []" by (simp add: numeral_eq_Suc)
    then show ?thesis using str False frac_digits_bound [OF f, of 17] valid_float_frac by simp
  qed (use str in simp)
qed

lemma rat_to_str_of_int: "rat_to_str (of_int k) = int_to_str k"
  by (auto simp: rat_to_str_def pos_to_str_def int_to_str_def Let_def simp flip: of_int_minus)

lemma parseInt_int_to_str [simp]: "parseInt (int_to_str k) = Some k"
proof -
  have x: "\<not> is_digit CHR ''x''" "\<not> is_digit CHR ''X''" by (simp_all add: is_digit_def)
  have hex: "strip_hex (nat_to_str n) = None" for n
  proof (cases "nat_to_str n")
    case (Cons a as)
    then show ?thesis using all_digits_nat [of n] x
      by (cases as) (auto simp: strip_hex_def starts_with_def)
  qed simp
  have "parseInt (nat_to_str n) = Some (int n)" for n
    using split_sign_nat [of n "[]"] dropWhile_space_nat [of n "[]"] digits_prefix_nat [of "[]" n]
    by (simp add: parseInt_def hex apply_sign_def)
  moreover have "parseInt (CHR ''-'' # nat_to_str n) = Some (- int n)" for n
    using digits_prefix_nat [of "[]" n]
    by (simp add: parseInt_def hex apply_sign_def is_space_def split_sign_def)
  ultimately show ?thesis by (simp add: int_to_str_def)
qed

lemma parseInt_nat_to_str [simp]: "parseInt (nat_to_str n) = Some (int n)"
  using parseInt_int_to_str [of "int n"] by (simp add: int_to_str_def)

text \<open>A valid text reads as a finite number.\<close>

lemma valid_float_finite:
  assumes "valid_float s"
  shows "\<exists>r. parseFloat s = Fin r"
proof -
  define t where "t = (if starts_with ''-'' s then tl s else s)"
  have t: "t \<noteq> []" "is_digit (hd t) \<or> hd t = CHR ''.''" "parse_decimal t \<noteq> None"
    using assms unfolding valid_float_def parse_decimal_def Let_def t_def [symmetric]
    by (cases t; auto split: if_splits list.splits)+
  then have nospace: "\<not> is_space (hd t)" by (auto simp: is_space_def is_digit_def)
  have "split_sign (dropWhile is_space s) = (starts_with ''-'' s, t)"
  proof (cases "starts_with ''-'' s")
    case True
    then obtain r where "s = CHR ''-'' # r" by (cases s) (auto simp: starts_with_def)
    then show ?thesis using True by (simp add: t_def split_sign_def is_space_def)
  next
    case False
    then have "t = s" by (simp add: t_def)
    then have "dropWhile is_space s = s" using t(1) nospace by (cases s) auto
    with \<open>t = s\<close> False show ?thesis using split_sign_digit t by simp
  qed
  moreover have "\<not> starts_with ''Infinity'' t"
    using t(1,2) by (cases t) (auto simp: starts_with_def is_digit_def)
  ultimately show ?thesis using t(3) by (auto simp: parseFloat_def split: option.split)
qed

end
