(* ===== verification/Auth_Helpers.thy ===== *)
theory Auth_Helpers
  imports Js_Text "HOL-Library.Multiset"
begin

text \<open>
  \<^verbatim>\<open>web/js/auth-helpers.js\<close>: the page's credential (class \<^verbatim>\<open>ZMAuth\<close>), the
  functions that put it into URLs, and the page-global revalidation machine
  (\<^verbatim>\<open>goToLogin\<close>, \<^verbatim>\<open>revalidateAuth\<close>, \<^verbatim>\<open>whenAuthFresh\<close>, \<^verbatim>\<open>onAuthVisible\<close>).
  The regular expressions of the source all have the form \<^verbatim>\<open>(^|[?&])name=...\<close>; they are
  modelled by \<open>find_at\<close>, the leftmost match of a test on the rest of the string at the
  start of the text or after a separator. A missing string argument (\<^verbatim>\<open>x || ''\<close>) is the
  empty string.
\<close>

section \<open>Definitions\<close>

subsection \<open>Pure helpers\<close>

datatype auth_action = Login | Retry | Ignore

definition authFailureAction :: "int \<Rightarrow> auth_action" where
  "authFailureAction httpStatus =
     (if httpStatus = 401 \<or> httpStatus = 403 then Login
      else if httpStatus = 0 \<or> httpStatus = 408 \<or> httpStatus \<ge> 500 then Retry
      else Ignore)"

definition hex_digit :: "nat \<Rightarrow> char" where
  "hex_digit d = ''0123456789ABCDEF'' ! d"

definition pct_byte :: "nat \<Rightarrow> string" where
  "pct_byte n = [CHR ''%'', hex_digit (n div 16), hex_digit (n mod 16)]"

definition uri_unreserved :: "char \<Rightarrow> bool" where
  "uri_unreserved c \<longleftrightarrow> is_word_char c \<or> c \<in> set ''-.!~*()'' \<or> c = CHR 0x27"

definition encode_char :: "char \<Rightarrow> string" where
  "encode_char c = (let n = (of_char c :: nat) in
     if uri_unreserved c then [c]
     else if n < 128 then pct_byte n
     else pct_byte (192 + n div 64) @ pct_byte (128 + n mod 64))"

definition encodeURIComponent :: "string \<Rightarrow> string" where
  "encodeURIComponent s = concat (map encode_char s)"

definition loginRedirectUrl :: "string \<Rightarrow> string \<Rightarrow> string" where
  "loginRedirectUrl baseUrl view =
     baseUrl @ ''?view=login&postLoginQuery='' @
     encodeURIComponent (''view='' @ (if view \<noteq> [] then view else ''console''))"

definition appendQuery :: "string \<Rightarrow> string \<Rightarrow> string" where
  "appendQuery url query =
     (if query = [] then url
      else url @ (if CHR ''?'' \<notin> set url then ''?'' else ''&'') @ query)"

subsection \<open>Matching a parameter of a URL\<close>

definition url_sep :: "char \<Rightarrow> bool" where
  "url_sep c \<longleftrightarrow> c = CHR ''?'' \<or> c = CHR ''&''"

definition starts_ci :: "string \<Rightarrow> string \<Rightarrow> bool" where
  "starts_ci w s \<longleftrightarrow> to_lower (take (length w) s) = to_lower w"

text \<open>
  The leftmost match of \<^verbatim>\<open>(^|[?&])\<close> followed by text satisfying \<open>P\<close>: the text before
  the match, the captured separator (empty for \<^verbatim>\<open>^\<close>) and the text from there on.
\<close>

fun find_at :: "(string \<Rightarrow> bool) \<Rightarrow> bool \<Rightarrow> string \<Rightarrow> (string \<times> string \<times> string) option" where
  "find_at P st [] = (if st \<and> P [] then Some ([], [], []) else None)"
| "find_at P st (c # r) =
     (if st \<and> P (c # r) then Some ([], [], c # r)
      else if url_sep c \<and> P r then Some ([], [c], r)
      else map_option (\<lambda>(p, g, t). (c # p, g, t)) (find_at P False r))"

text \<open>
  The replacement text of \<^verbatim>\<open>String.prototype.replace\<close>: \<^verbatim>\<open>$$\<close>, \<^verbatim>\<open>$&\<close>, the text before
  and after the match, and \<^verbatim>\<open>$1\<close>, the only capture of the pattern; any other dollar is
  kept.
\<close>

fun expand_repl :: "string \<Rightarrow> string \<Rightarrow> string \<Rightarrow> string \<Rightarrow> string \<Rightarrow> string" where
  "expand_repl pre matched post g [] = []"
| "expand_repl pre matched post g [c] = [c]"
| "expand_repl pre matched post g (c # d # s) =
     (if c \<noteq> CHR ''$'' then c # expand_repl pre matched post g (d # s)
      else if d = CHR ''$'' then CHR ''$'' # expand_repl pre matched post g s
      else if d = CHR ''&'' then matched @ expand_repl pre matched post g s
      else if d = CHR 0x60 then pre @ expand_repl pre matched post g s
      else if d = CHR 0x27 then post @ expand_repl pre matched post g s
      else if d = CHR ''1'' then g @ expand_repl pre matched post g s
      else if d = CHR ''0'' \<and> s \<noteq> [] \<and> hd s = CHR ''1''
        then g @ expand_repl pre matched post g (tl s)
      else c # expand_repl pre matched post g (d # s))"

text \<open>\<open>name\<close> is one of the literal parameter names of the callers, free of pattern characters.\<close>

definition setUrlParam :: "string \<Rightarrow> string \<Rightarrow> string \<Rightarrow> string" where
  "setUrlParam url name val =
     (case find_at (starts_ci (name @ ''='')) True url of
        Some (pre, g, t) \<Rightarrow>
          (let post = dropWhile (\<lambda>c. c \<noteq> CHR ''&'') (drop (length name + 1) t);
               matched = g @ take (length t - length post) t
           in pre @ expand_repl pre matched post g (''$1'' @ name @ ''='' @ val) @ post)
      | None \<Rightarrow> appendQuery url (name @ ''='' @ val))"

definition hash_here :: "string \<Rightarrow> bool" where
  "hash_here s \<longleftrightarrow> starts_ci ''auth='' s \<and> (case drop 5 s of [] \<Rightarrow> False | c # _ \<Rightarrow> is_word_char c)"

definition authHashFromRelay :: "string \<Rightarrow> string" where
  "authHashFromRelay relay =
     (case find_at hash_here True relay of
        Some (_, _, t) \<Rightarrow> takeWhile is_word_char (drop 5 t)
      | None \<Rightarrow> [])"

definition rebuildStreamSrc :: "string \<Rightarrow> string \<Rightarrow> jsval \<Rightarrow> string" where
  "rebuildStreamSrc src authHash connKey =
     (let out = (if authHash \<noteq> [] then setUrlParam src ''auth'' authHash else src)
      in if connKey \<noteq> JUndef \<and> connKey \<noteq> JNull \<and> connKey \<noteq> JStr []
         then setUrlParam out ''connkey'' (js_string connKey) else out)"

subsection \<open>Class \<^verbatim>\<open>ZMAuth\<close>\<close>

record zm_auth =
  relay :: string

text \<open>The authentication fields of an AJAX reply; a missing field is the empty string.\<close>

record auth_reply =
  reply_relay :: string
  reply_auth :: string

definition ZMAuth_new :: "string \<Rightarrow> zm_auth" where
  "ZMAuth_new r = \<lparr>relay = r\<rparr>"

definition ZMAuth_hash :: "zm_auth \<Rightarrow> string" where
  "ZMAuth_hash a = authHashFromRelay (relay a)"

definition ZMAuth_update :: "auth_reply option \<Rightarrow> zm_auth \<Rightarrow> bool \<times> zm_auth" where
  "ZMAuth_update data a = (case data of
     None \<Rightarrow> (False, a)
   | Some d \<Rightarrow>
       (if reply_relay d \<noteq> [] then
          (if reply_relay d = relay a then (False, a)
           else (True, a\<lparr>relay := reply_relay d\<rparr>))
        else if reply_auth d \<noteq> [] \<and> reply_auth d \<noteq> ZMAuth_hash a then
          (True, a\<lparr>relay := setUrlParam (relay a) ''auth'' (reply_auth d)\<rparr>)
        else (False, a)))"

definition ZMAuth_appendTo :: "zm_auth \<Rightarrow> string \<Rightarrow> string" where
  "ZMAuth_appendTo a url = appendQuery url (relay a)"

definition ZMAuth_applyTo :: "zm_auth \<Rightarrow> string \<Rightarrow> jsval \<Rightarrow> string" where
  "ZMAuth_applyTo a src connKey =
     (if src = [] then []
      else
        let out = (if relay a \<noteq> [] then
                     (if find_at (starts_ci ''auth='') True src \<noteq> None then
                        (if ZMAuth_hash a \<noteq> [] then setUrlParam src ''auth'' (ZMAuth_hash a) else src)
                      else ZMAuth_appendTo a src)
                   else src)
        in rebuildStreamSrc out [] connKey)"

text \<open>\<^verbatim>\<open>addOrUpdateRandParam\<close> of skin.js; \<open>now\<close> is \<^verbatim>\<open>Date.now()\<close>.\<close>

fun set_rand :: "nat \<Rightarrow> string \<Rightarrow> string option" where
  "set_rand now [] = None"
| "set_rand now (c # s) =
     (let ds = takeWhile is_digit (drop 5 s)
      in if url_sep c \<and> starts_ci ''rand='' s \<and> ds \<noteq> []
         then Some (c # ''rand='' @ nat_to_str now @ dropWhile is_digit (drop 5 s))
         else map_option (\<lambda>t. c # t) (set_rand now s))"

definition addOrUpdateRandParam :: "nat \<Rightarrow> string \<Rightarrow> string" where
  "addOrUpdateRandParam now src = (case set_rand now src of Some t \<Rightarrow> t
     | None \<Rightarrow> src @ (if CHR ''?'' \<in> set src then ''&'' else ''?'') @ ''rand='' @ nat_to_str now)"

subsection \<open>Revalidation\<close>

text \<open>
  The module's variables. A callback is a name \<open>'cb\<close>; running it, sending a request and
  leaving the page are effects the functions emit in order. The callbacks of a reply run
  last and from a private copy of the queue, so what they do to the module's variables
  happens after the handler has finished with them.
\<close>

record 'cb auth_state =
  authGoingToLogin :: bool
  authRevalidating :: bool
  authPendingCallbacks :: "'cb list"
  zmAuth :: zm_auth

datatype 'cb auth_effect = Assign string | GetJSON string | Call 'cb

record page_env =
  thisUrl :: string
  currentView :: string

definition goToLogin :: "page_env \<Rightarrow> 'cb auth_state \<Rightarrow> 'cb auth_state \<times> 'cb auth_effect list" where
  "goToLogin pg s =
     (if authGoingToLogin s then (s, [])
      else (s\<lparr>authGoingToLogin := True\<rparr>, [Assign (loginRedirectUrl (thisUrl pg) (currentView pg))]))"

definition authProbeUrl :: "string \<Rightarrow> string" where
  "authProbeUrl baseUrl = baseUrl @ ''?view=request&request=status&entity=navBar''"

text \<open>What \<^verbatim>\<open>setNavBar\<close> (skin.js) does to the credential; the navbar widgets are not modelled.\<close>

definition setNavBar :: "auth_reply option \<Rightarrow> 'cb auth_state \<Rightarrow> 'cb auth_state" where
  "setNavBar data s = (case data of None \<Rightarrow> s
     | Some d \<Rightarrow> s\<lparr>zmAuth := snd (ZMAuth_update (Some d) (zmAuth s))\<rparr>)"

definition revalidateAuth ::
  "page_env \<Rightarrow> 'cb option \<Rightarrow> 'cb auth_state \<Rightarrow> 'cb auth_state \<times> 'cb auth_effect list" where
  "revalidateAuth pg onValid s =
     (let s1 = (case onValid of None \<Rightarrow> s
                | Some cb \<Rightarrow> s\<lparr>authPendingCallbacks := authPendingCallbacks s @ [cb]\<rparr>)
      in if authRevalidating s1 then (s1, [])
         else (s1\<lparr>authRevalidating := True\<rparr>, [GetJSON (authProbeUrl (thisUrl pg))]))"

datatype probe_result = Done "auth_reply option" | Fail int

definition revalidate_always :: "'cb auth_state \<Rightarrow> 'cb auth_state \<times> 'cb auth_effect list" where
  "revalidate_always s =
     (s\<lparr>authRevalidating := False, authPendingCallbacks := []\<rparr>,
      if authGoingToLogin s then [] else map Call (authPendingCallbacks s))"

definition revalidate_reply ::
  "page_env \<Rightarrow> probe_result \<Rightarrow> 'cb auth_state \<Rightarrow> 'cb auth_state \<times> 'cb auth_effect list" where
  "revalidate_reply pg r s =
     (let (s1, e1) = (case r of
            Done data \<Rightarrow> (setNavBar data s, [])
          | Fail status \<Rightarrow> if authFailureAction status = Login then goToLogin pg s else (s, []));
          (s2, e2) = revalidate_always s1
      in (s2, e1 @ e2))"

definition whenAuthFresh ::
  "page_env \<Rightarrow> 'cb \<Rightarrow> 'cb auth_state \<Rightarrow> 'cb auth_state \<times> 'cb auth_effect list" where
  "whenAuthFresh pg cb s =
     (if ZMAuth_hash (zmAuth s) = [] then (s, [Call cb]) else revalidateAuth pg (Some cb) s)"

definition onAuthVisible ::
  "page_env \<Rightarrow> 'cb \<Rightarrow> bool \<Rightarrow> 'cb auth_state \<Rightarrow> 'cb auth_state \<times> 'cb auth_effect list" where
  "onAuthVisible pg repaint visible s =
     (if \<not> visible then (s, []) else revalidateAuth pg (Some repaint) s)"


subsection \<open>The page as a transition system\<close>

text \<open>
  A run of the page: scripts ask for a revalidation or a fresh credential, the page becomes
  visible, any AJAX reply updates the credential, and the answer to a probe arrives while
  one is outstanding. \<open>inflight\<close> counts the outstanding probes, \<open>asked\<close> lists the
  callbacks handed in so far and \<open>trail\<close> the effects emitted so far.
\<close>

record 'cb auth_sys =
  page :: "'cb auth_state"
  inflight :: nat
  asked :: "'cb list"
  trail :: "'cb auth_effect list"

fun is_probe :: "'cb auth_effect \<Rightarrow> bool" where
  "is_probe (GetJSON _) = True"
| "is_probe _ = False"

fun is_assign :: "'cb auth_effect \<Rightarrow> bool" where
  "is_assign (Assign _) = True"
| "is_assign _ = False"

definition calls :: "'cb auth_effect list \<Rightarrow> 'cb list" where
  "calls es = concat (map (\<lambda>e. case e of Call cb \<Rightarrow> [cb] | _ \<Rightarrow> []) es)"

definition emit ::
  "'cb auth_sys \<Rightarrow> 'cb list \<Rightarrow> 'cb auth_state \<times> 'cb auth_effect list \<Rightarrow> 'cb auth_sys" where
  "emit y cbs r =
     \<lparr>page = fst r, inflight = inflight y + length (filter is_probe (snd r)),
      asked = asked y @ cbs, trail = trail y @ snd r\<rparr>"

definition auth_init :: "zm_auth \<Rightarrow> 'cb auth_sys" where
  "auth_init a =
     \<lparr>page = \<lparr>authGoingToLogin = False, authRevalidating = False, authPendingCallbacks = [], zmAuth = a\<rparr>,
      inflight = 0, asked = [], trail = []\<rparr>"

inductive auth_step :: "page_env \<Rightarrow> 'cb auth_sys \<Rightarrow> 'cb auth_sys \<Rightarrow> bool" for pg where
  ask: "auth_step pg y (emit y (case cb of None \<Rightarrow> [] | Some c \<Rightarrow> [c]) (revalidateAuth pg cb (page y)))"
| fresh: "auth_step pg y (emit y [cb] (whenAuthFresh pg cb (page y)))"
| visible: "auth_step pg y (emit y (if v then [cb] else []) (onAuthVisible pg cb v (page y)))"
| reply: "inflight y > 0 \<Longrightarrow>
    auth_step pg y ((emit y [] (revalidate_reply pg r (page y)))\<lparr>inflight := inflight y - 1\<rparr>)"
| ajax: "auth_step pg y (y\<lparr>page := (page y)\<lparr>zmAuth := snd (ZMAuth_update d (zmAuth (page y)))\<rparr>\<rparr>)"

inductive auth_reachable :: "page_env \<Rightarrow> 'cb auth_sys \<Rightarrow> bool" for pg where
  start: "auth_reachable pg (auth_init a)"
| step: "auth_reachable pg y \<Longrightarrow> auth_step pg y z \<Longrightarrow> auth_reachable pg z"

inductive_cases auth_stepE: "auth_step pg y z"

definition auth_inv :: "'cb auth_sys \<Rightarrow> bool" where
  "auth_inv y \<longleftrightarrow>
     inflight y = (if authRevalidating (page y) then 1 else 0)
   \<and> (\<not> authRevalidating (page y) \<longrightarrow> authPendingCallbacks (page y) = [])
   \<and> length (filter is_assign (trail y)) = (if authGoingToLogin (page y) then 1 else 0)
   \<and> (\<not> authGoingToLogin (page y) \<longrightarrow>
        mset (asked y) = mset (calls (trail y)) + mset (authPendingCallbacks (page y)))"

text \<open>Specification: the value a URL gives to a parameter, up to the next \<^verbatim>\<open>&\<close>.\<close>

definition url_param :: "string \<Rightarrow> string \<Rightarrow> string option" where
  "url_param name url =
     map_option (\<lambda>(p, g, t). takeWhile (\<lambda>c. c \<noteq> CHR ''&'') (drop (length name + 1) t))
       (find_at (starts_ci (name @ ''='')) True url)"

section \<open>URL parameters\<close>

text \<open>
  The segments of a URL between its separators. A match of \<open>find_at\<close> is the first
  segment that passes the test, for the tests of the source, which never look past a
  separator.
\<close>

abbreviation segments :: "string \<Rightarrow> string list" where
  "segments \<equiv> split_on url_sep"

abbreviation plain :: "string \<Rightarrow> bool" where
  "plain s \<equiv> \<forall>c \<in> set s. is_word_char c"

lemma split_on_append: "p d \<Longrightarrow> split_on p (a @ d # b) = split_on p a @ split_on p b"
  by (induction a) (auto split: list.splits)

lemma word_char_plain: "is_word_char c \<Longrightarrow> \<not> url_sep c \<and> c \<noteq> CHR ''$'' \<and> c \<noteq> CHR ''=''"
  by (auto simp: is_word_char_def url_sep_def)

lemma hd_segments: "hd (segments s) = takeWhile (\<lambda>c. \<not> url_sep c) s"
  by (induction s) (auto split: list.splits)

lemma segments_Cons: "segments s = takeWhile (\<lambda>c. \<not> url_sep c) s # tl (segments s)"
  using hd_segments [of s] by (cases "segments s") auto

definition seg_local :: "(string \<Rightarrow> bool) \<Rightarrow> bool" where
  "seg_local P \<longleftrightarrow> (\<forall>s. P s \<longleftrightarrow> P (takeWhile (\<lambda>c. \<not> url_sep c) s))"

lemma seg_localD: "seg_local P \<Longrightarrow> P s \<longleftrightarrow> P (hd (segments s))"
  by (simp add: seg_local_def hd_segments)

lemma find_at_None:
  assumes "seg_local P"
  shows "find_at P st s = None \<longleftrightarrow>
    (st \<longrightarrow> \<not> P (hd (segments s))) \<and> (\<forall>x \<in> set (tl (segments s)). \<not> P x)"
proof (induction s arbitrary: st)
  case (Cons c s)
  have "P (c # s) \<longleftrightarrow> P (hd (segments (c # s)))" "P s \<longleftrightarrow> P (hd (segments s))"
    using seg_localD [OF assms] by blast+
  moreover have "set (segments s) = insert (hd (segments s)) (set (tl (segments s)))"
    by (cases "segments s") auto
  ultimately show ?case
    using Cons.IH [of False] by (cases "segments s") (auto split: list.splits)
qed auto

lemma find_at_Some:
  assumes "find_at P st s = Some (p, g, t)"
  shows "s = p @ g @ t \<and> P t \<and> (g = [] \<and> p = [] \<and> st \<or> (\<exists>d. g = [d] \<and> url_sep d))"
  using assms
proof (induction s arbitrary: st p)
  case (Cons c s)
  then show ?case by (auto split: if_splits)
qed (auto split: if_splits)

lemma segments_glue:
  assumes "find_at P True s = Some (p, g, t)"
  shows "segments (p @ g @ u) = (if g = [] then [] else segments p) @ segments u"
proof -
  from find_at_Some [OF assms] consider "g = []" "p = []" | d where "g = [d]" "url_sep d" by blast
  then show ?thesis by cases (simp_all add: split_on_append)
qed

lemma find_at_Some_before:
  assumes "seg_local P" and "find_at P True s = Some (p, g, t)"
  shows "segments s = (if g = [] then [] else segments p) @ segments t
    \<and> (g \<noteq> [] \<longrightarrow> (\<forall>x \<in> set (segments p). \<not> P x))"
proof -
  note some = find_at_Some [OF assms(2)]
  have "find_at P st (p @ d # t) = Some (p, [d], t) \<Longrightarrow> url_sep d \<Longrightarrow>
      (st \<longrightarrow> \<not> P (hd (segments p))) \<and> (\<forall>x \<in> set (tl (segments p)). \<not> P x)" for st p d
  proof (induction p arbitrary: st)
    case Nil
    then show ?case using seg_localD [OF assms(1), of "d # t"] by (auto split: if_splits)
  next
    case (Cons c p)
    then have rec: "find_at P False (p @ d # t) = Some (p, [d], t)"
      and nP: "\<not> (st \<and> P (c # p @ d # t))" and nS: "\<not> (url_sep c \<and> P (p @ d # t))"
      by (auto split: if_splits)
    from Cons.IH [OF rec Cons.prems(2)] have tl: "\<forall>x \<in> set (tl (segments p)). \<not> P x" by simp
    have "hd (segments (c # p @ d # t)) = hd (segments (c # p))"
      "hd (segments (p @ d # t)) = hd (segments p)"
      using split_on_append [of url_sep d "c # p" t] split_on_append [of url_sep d p t] Cons.prems(2)
      by (metis append_Cons hd_append2 split_on_nonempty)+
    with nP nS seg_localD [OF assms(1)]
    have "\<not> (st \<and> P (hd (segments (c # p))))" "\<not> (url_sep c \<and> P (hd (segments p)))" by metis+
    with tl show ?case by (cases "segments p") (auto split: list.splits)
  qed
  from this [of True p] some assms(2) show ?thesis
    by (cases g) (auto simp: split_on_append, (cases "segments p"; auto)+)
qed

lemma find_at_segments:
  assumes "seg_local P"
  shows "(case find_at P True s of None \<Rightarrow> None | Some (p, g, t) \<Rightarrow> Some (takeWhile (\<lambda>c. \<not> url_sep c) t))
    = find P (segments s)"
proof (cases "find_at P True s")
  case None
  then have "\<forall>x \<in> set (segments s). \<not> P x"
    using find_at_None [OF assms, of True s] by (cases "segments s") auto
  then show ?thesis using None find_None_iff [of P "segments s"] by auto
next
  case (Some r)
  obtain p g t where r: "find_at P True s = Some (p, g, t)" using Some by (cases r) auto
  note b = find_at_Some_before [OF assms r]
  have "P (hd (segments t))" using find_at_Some [OF r] seg_localD [OF assms] by blast
  then have t: "find P (segments t) = Some (hd (segments t))" by (cases "segments t") auto
  have "find P (xs @ ys) = find P ys" if "\<forall>x \<in> set xs. \<not> P x" for xs ys
    using that by (induction xs) auto
  with b t have "find P (segments s) = Some (hd (segments t))" by (auto split: if_splits)
  with r show ?thesis by (simp add: hd_segments)
qed


lemma starts_ci_Nil [simp]: "starts_ci [] s"
  by (simp add: starts_ci_def)

lemma starts_ci_Cons [simp]:
  "starts_ci (a # w) s \<longleftrightarrow> (case s of [] \<Rightarrow> False | c # r \<Rightarrow> lower_char c = lower_char a \<and> starts_ci w r)"
  by (auto simp: starts_ci_def split: list.splits)

lemma lower_char_eqD:
  assumes "lower_char c = d" and "\<not> (97 \<le> (of_char d :: nat) \<and> of_char d \<le> (122 :: nat))"
  shows "c = d"
proof (cases "65 \<le> (of_char c :: nat) \<and> of_char c \<le> (90 :: nat)")
  case True
  then have "lower_char c = char_of (of_char c + (32 :: nat))" by (simp add: lower_char_def)
  then have "(of_char d :: nat) = of_char c + 32" using True assms(1) by auto
  with True assms(2) show ?thesis by simp
next
  case False
  with assms(1) show ?thesis by (simp add: lower_char_def Let_def split: if_splits)
qed

lemma url_sep_lower: "lower_char c = lower_char a \<Longrightarrow> url_sep c \<longleftrightarrow> url_sep a"
proof -
  have "url_sep (lower_char x) \<longleftrightarrow> url_sep x" for x
    using lower_char_eqD [of x "CHR ''?''"] lower_char_eqD [of x "CHR ''&''"]
    by (auto simp: url_sep_def lower_char_def)
  then show "lower_char c = lower_char a \<Longrightarrow> url_sep c \<longleftrightarrow> url_sep a" by metis
qed

lemma seg_local_starts_ci: "\<forall>c \<in> set w. \<not> url_sep c \<Longrightarrow> seg_local (starts_ci w)"
  unfolding seg_local_def
proof
  show "\<forall>c \<in> set w. \<not> url_sep c \<Longrightarrow>
      starts_ci w s \<longleftrightarrow> starts_ci w (takeWhile (\<lambda>c. \<not> url_sep c) s)" for s
  proof (induction w arbitrary: s)
    case (Cons a w)
    then show ?case by (cases s) (auto dest: url_sep_lower)
  qed simp
qed

lemma starts_ci_nosep:
  "starts_ci w s \<Longrightarrow> \<forall>c \<in> set w. \<not> url_sep c \<Longrightarrow> \<forall>c \<in> set (take (length w) s). \<not> url_sep c"
  by (induction w arbitrary: s) (auto split: list.splits dest: url_sep_lower)

lemma starts_ci_append: "starts_ci w (w @ s)"
  by (simp add: starts_ci_def)

lemma drop_segment:
  "starts_ci w s \<Longrightarrow> \<forall>c \<in> set w. \<not> url_sep c \<Longrightarrow>
    drop (length w) (takeWhile (\<lambda>c. \<not> url_sep c) s) = takeWhile (\<lambda>c. \<not> url_sep c) (drop (length w) s)"
  by (induction w arbitrary: s) (auto split: list.splits dest: url_sep_lower)

lemma drop_auth_segment:
  assumes "starts_ci ''auth='' s"
  shows "drop 5 (takeWhile (\<lambda>c. \<not> url_sep c) s) = takeWhile (\<lambda>c. \<not> url_sep c) (drop 5 s)"
  using drop_segment [OF assms] by (simp add: url_sep_def numeral_eq_Suc)

lemma hash_here_local: "seg_local hash_here"
proof -
  have "starts_ci ''auth='' s \<longleftrightarrow> starts_ci ''auth='' (takeWhile (\<lambda>c. \<not> url_sep c) s)" for s
    using seg_local_starts_ci [of "''auth=''"] unfolding seg_local_def url_sep_def by auto
  moreover have "(case u of [] \<Rightarrow> False | c # _ \<Rightarrow> is_word_char c) \<longleftrightarrow>
      (case takeWhile (\<lambda>c. \<not> url_sep c) u of [] \<Rightarrow> False | c # _ \<Rightarrow> is_word_char c)" for u
    by (cases u) (auto dest: word_char_plain)
  ultimately show ?thesis
    using drop_auth_segment unfolding seg_local_def hash_here_def by metis
qed

lemma expand_repl_plain:
  "CHR ''$'' \<notin> set s \<Longrightarrow> expand_repl pre m post g s = s"
proof (induction s)
  case (Cons c s)
  then show ?case by (cases s) auto
qed simp

lemma setUrlParam_present:
  assumes "find_at (starts_ci (name @ ''='')) True url = Some (p, g, t)"
    and "plain name" and "plain val"
  shows "setUrlParam url name val =
    p @ g @ name @ ''='' @ val @ dropWhile (\<lambda>c. c \<noteq> CHR ''&'') (drop (length name + 1) t)"
proof -
  have "CHR ''$'' \<notin> set (name @ ''='' @ val)"
    using assms(2,3) word_char_plain by fastforce
  from expand_repl_plain [OF this] show ?thesis
    unfolding setUrlParam_def assms(1) by (simp add: Let_def)
qed

lemma setUrlParam_absent:
  assumes "find_at (starts_ci (name @ ''='')) True url = None"
  shows "setUrlParam url name val =
    url @ (if CHR ''?'' \<notin> set url then ''?'' else ''&'') @ name @ ''='' @ val"
  using assms by (simp add: setUrlParam_def appendQuery_def)

lemma segments_head:
  assumes nosep: "\<forall>c \<in> set u. \<not> url_sep c" and "r = [] \<or> hd r = CHR ''&''"
  shows "segments (u @ r) = u # (if r = [] then [] else segments (tl r))"
proof (cases r)
  case Nil
  then show ?thesis using split_on_no_sep [OF nosep] by simp
next
  case (Cons c r')
  with assms(2) have "c = CHR ''&''" by simp
  with Cons nosep show ?thesis by (simp add: split_on_append_sep url_sep_def)
qed

lemma segments_value:
  assumes "plain name" and "plain val" and "r = [] \<or> hd r = CHR ''&''"
  shows "segments (name @ ''='' @ val @ r) = (name @ ''='' @ val) # (if r = [] then [] else segments (tl r))"
proof -
  have "\<forall>c \<in> set (name @ ''='' @ val). \<not> url_sep c"
    using assms(1,2) word_char_plain by (auto simp: url_sep_def)
  from segments_head [OF this assms(3)] show ?thesis by simp
qed

lemma dropWhile_amp: "dropWhile (\<lambda>c. c \<noteq> CHR ''&'') s = [] \<or> hd (dropWhile (\<lambda>c. c \<noteq> CHR ''&'') s) = CHR ''&''"
  using hd_dropWhile [of "\<lambda>c. c \<noteq> CHR ''&''" s] by blast

lemma plain_name_local: "plain name \<Longrightarrow> seg_local (starts_ci (name @ ''=''))"
  by (rule seg_local_starts_ci) (use word_char_plain in \<open>auto simp: url_sep_def\<close>)

text \<open>
  What \<open>setUrlParam\<close> does to the segments: those before the first match stay, the match
  becomes \<open>name=val\<close>; without a match the parameter is added at the end.
\<close>

lemma setUrlParam_segments:
  assumes "plain name" and "plain val"
  obtains xs ys where "segments (setUrlParam url name val) = xs @ (name @ ''='' @ val) # ys"
    and "\<forall>x \<in> set xs. \<not> starts_ci (name @ ''='') x"
    and "find_at (starts_ci (name @ ''='')) True url = None \<Longrightarrow> xs = segments url \<and> ys = []"
proof (cases "find_at (starts_ci (name @ ''='')) True url")
  case None
  let ?d = "if CHR ''?'' \<notin> set url then CHR ''?'' else CHR ''&''"
  have "setUrlParam url name val = url @ ?d # name @ ''='' @ val @ []"
    using setUrlParam_absent [OF None] by simp
  moreover have "url_sep ?d" by (simp add: url_sep_def)
  ultimately have "segments (setUrlParam url name val) = segments url @ [name @ ''='' @ val]"
    using segments_value [OF assms, of "[]"] by (simp add: split_on_append)
  moreover have "\<forall>x \<in> set (segments url). \<not> starts_ci (name @ ''='') x"
    using None find_at_None [OF plain_name_local [OF assms(1)], of True url]
    by (cases "segments url") auto
  ultimately show thesis using that by simp
next
  case (Some r)
  obtain p g t where f: "find_at (starts_ci (name @ ''='')) True url = Some (p, g, t)"
    using Some by (cases r) auto
  let ?post = "dropWhile (\<lambda>c. c \<noteq> CHR ''&'') (drop (length name + 1) t)"
  note some = find_at_Some [OF f] and before = find_at_Some_before [OF plain_name_local [OF assms(1)] f]
  have "segments (setUrlParam url name val) =
      (if g = [] then [] else segments p) @ segments (name @ ''='' @ val @ ?post)"
    using setUrlParam_present [OF f assms] some by (auto simp: split_on_append)
  with segments_value [OF assms dropWhile_amp [of "drop (length name + 1) t"]] before f show thesis
    using that by auto
qed


lemma find_at_first:
  assumes "seg_local P" and "url_sep d" and "P t"
    and "st \<longrightarrow> \<not> P (hd (segments p))" and "\<forall>x \<in> set (tl (segments p)). \<not> P x"
  shows "find_at P st (p @ d # t) = Some (p, [d], t)"
  using assms(4,5)
proof (induction p arbitrary: st)
  case Nil
  have "\<not> (st \<and> P (d # t))" using Nil assms(2) seg_localD [OF assms(1), of "d # t"] by auto
  with assms(2,3) show ?case by auto
next
  case (Cons c p)
  have "hd (segments (c # p @ d # t)) = hd (segments (c # p))"
    "hd (segments (p @ d # t)) = hd (segments p)"
    using split_on_append [of url_sep d "c # p" t] split_on_append [of url_sep d p t] assms(2)
    by (metis append_Cons hd_append2 split_on_nonempty)+
  with Cons.prems(1) seg_localD [OF assms(1)] have "\<not> (st \<and> P (c # p @ d # t))" by metis
  moreover have "\<not> (url_sep c \<and> P (p @ d # t))"
  proof
    assume "url_sep c \<and> P (p @ d # t)"
    then have "url_sep c" and "P (hd (segments p))"
      using seg_localD [OF assms(1)] \<open>hd (segments (p @ d # t)) = hd (segments p)\<close> by metis+
    with Cons.prems(2) show False by (cases "segments p") auto
  qed
  moreover have "find_at P False (p @ d # t) = Some (p, [d], t)"
    using Cons by (cases "segments p") (auto split: if_splits)
  ultimately show ?case by auto
qed

lemma find_append: "\<forall>x \<in> set xs. \<not> P x \<Longrightarrow> find P (xs @ ys) = find P ys"
  by (induction xs) auto

lemma hash_segments:
  "authHashFromRelay s = (case find hash_here (segments s) of None \<Rightarrow> []
     | Some x \<Rightarrow> takeWhile is_word_char (drop 5 x))"
proof (cases "find_at hash_here True s")
  case None
  then show ?thesis using find_at_segments [OF hash_here_local, of s] by (simp add: authHashFromRelay_def)
next
  case (Some r)
  obtain p g t where f: "find_at hash_here True s = Some (p, g, t)" using Some by (cases r) auto
  have "starts_ci ''auth='' t" using find_at_Some [OF f] by (simp add: hash_here_def)
  from drop_auth_segment [OF this]
  have "takeWhile is_word_char (drop 5 (takeWhile (\<lambda>c. \<not> url_sep c) t)) = takeWhile is_word_char (drop 5 t)"
    using word_char_plain by (metis (no_types, lifting) takeWhile_takeWhile takeWhile_cong)
  then show ?thesis
    using find_at_segments [OF hash_here_local, of s, symmetric] f by (simp add: authHashFromRelay_def)
qed

lemma hash_here_starts: "hash_here x \<Longrightarrow> starts_ci ''auth='' x"
  by (simp add: hash_here_def)

lemma hash_after_set:
  assumes "plain h" and "h \<noteq> []"
  shows "authHashFromRelay (setUrlParam url ''auth'' h) = h"
proof -
  have "plain ''auth''" by (simp add: is_word_char_def)
  from setUrlParam_segments [OF this assms(1), of url] obtain xs ys
    where seg: "segments (setUrlParam url ''auth'' h) = xs @ (''auth'' @ ''='' @ h) # ys"
      and xs: "\<forall>x \<in> set xs. \<not> starts_ci (''auth'' @ ''='') x" by blast
  have "\<forall>x \<in> set xs. \<not> hash_here x" using xs hash_here_starts by fastforce
  moreover have "hash_here (''auth='' @ h)"
    using assms starts_ci_append [of "''auth=''" h] by (cases h) (auto simp: hash_here_def)
  moreover have "takeWhile is_word_char h = h" using assms(1) by (simp add: takeWhile_eq_all_conv)
  ultimately show ?thesis using seg by (simp add: hash_segments find_append)
qed


lemma setUrlParam_find:
  assumes "plain name" and "plain val"
  obtains p g r where "find_at (starts_ci (name @ ''='')) True (setUrlParam url name val)
      = Some (p, g, name @ ''='' @ val @ r)"
    and "r = [] \<or> hd r = CHR ''&''"
proof (cases "find_at (starts_ci (name @ ''='')) True url")
  case None
  let ?d = "if CHR ''?'' \<notin> set url then CHR ''?'' else CHR ''&''"
  have "setUrlParam url name val = url @ ?d # name @ ''='' @ val @ []"
    using setUrlParam_absent [OF None] by simp
  moreover have "find_at (starts_ci (name @ ''='')) True (url @ ?d # name @ ''='' @ val @ [])
      = Some (url, [?d], name @ ''='' @ val @ [])"
    using None find_at_None [OF plain_name_local [OF assms(1)], of True url]
      starts_ci_append [of "name @ ''=''" val]
    by (intro find_at_first plain_name_local assms(1)) (auto simp: url_sep_def)
  ultimately show thesis using that by metis
next
  case (Some q)
  obtain p g t where f: "find_at (starts_ci (name @ ''='')) True url = Some (p, g, t)"
    using Some by (cases q) auto
  let ?post = "dropWhile (\<lambda>c. c \<noteq> CHR ''&'') (drop (length name + 1) t)"
  let ?t = "name @ ''='' @ val @ ?post"
  have P: "starts_ci (name @ ''='') ?t" using starts_ci_append [of "name @ ''=''"] by simp
  have res: "setUrlParam url name val = p @ g @ ?t" using setUrlParam_present [OF f assms] .
  have "find_at (starts_ci (name @ ''='')) True (p @ g @ ?t) = Some (p, g, ?t)"
  proof (cases "g = []")
    case True
    with find_at_Some [OF f] have "p = []" by simp
    with True P show ?thesis by (cases ?t) auto
  next
    case False
    with find_at_Some [OF f] obtain d where "g = [d]" "url_sep d" by auto
    moreover have "\<forall>x \<in> set (segments p). \<not> starts_ci (name @ ''='') x"
      using find_at_Some_before [OF plain_name_local [OF assms(1)] f] False by simp
    ultimately show ?thesis
      using find_at_first [OF plain_name_local [OF assms(1)] _ P, of d True p]
      by (cases "segments p") auto
  qed
  with res that dropWhile_amp show thesis by metis
qed

lemma takeWhile_amp:
  assumes "plain val" and "r = [] \<or> hd r = CHR ''&''"
  shows "takeWhile (\<lambda>c. c \<noteq> CHR ''&'') (val @ r) = val"
proof -
  have "\<forall>c \<in> set val. c \<noteq> CHR ''&''" using assms(1) word_char_plain by (auto simp: url_sep_def)
  then show ?thesis using assms(2) by (cases r) (auto simp: takeWhile_append2 takeWhile_eq_all_conv)
qed

text \<open>Setting the connkey does not disturb the auth hash.\<close>

lemma connkey_not_auth: "starts_ci (''connkey'' @ ''='') x \<Longrightarrow> \<not> hash_here x"
  by (auto simp: hash_here_def lower_char_def split: list.splits)

lemma hash_after_connkey:
  assumes "plain val"
    and nq: "\<And>v. url_param ''connkey'' url = Some v \<Longrightarrow> CHR ''?'' \<notin> set v"
  shows "authHashFromRelay (setUrlParam url ''connkey'' val) = authHashFromRelay url"
proof -
  have ck: "plain ''connkey''" by (simp add: is_word_char_def)
  have new: "\<not> hash_here (''connkey'' @ ''='' @ val)"
    using connkey_not_auth starts_ci_append [of "''connkey=''" val] by simp
  show ?thesis
  proof (cases "find_at (starts_ci (''connkey'' @ ''='')) True url")
    case None
    with setUrlParam_segments [OF ck assms(1), of url]
    have "segments (setUrlParam url ''connkey'' val) = segments url @ [''connkey'' @ ''='' @ val]"
      by metis
    moreover have "find hash_here (xs @ [x]) = find hash_here xs" if "\<not> hash_here x" for xs x
      using that by (induction xs) auto
    ultimately show ?thesis using new by (simp add: hash_segments)
  next
    case (Some q)
    obtain p g t where f: "find_at (starts_ci (''connkey'' @ ''='')) True url = Some (p, g, t)"
      using Some by (cases q) auto
    let ?old = "takeWhile (\<lambda>c. c \<noteq> CHR ''&'') (drop 8 t)"
    let ?post = "dropWhile (\<lambda>c. c \<noteq> CHR ''&'') (drop 8 t)"
    let ?A = "if g = [] then [] else segments p"
    let ?rest = "if ?post = [] then [] else segments (tl ?post)"
    have P: "starts_ci (''connkey'' @ ''='') t" using find_at_Some [OF f] by simp
    have "\<forall>c \<in> set (take 8 t). \<not> url_sep c"
      using starts_ci_nosep [OF P] by (simp add: url_sep_def numeral_eq_Suc)
    moreover have "\<forall>c \<in> set ?old. \<not> url_sep c"
      using nq [of ?old] f set_takeWhileD [of _ "\<lambda>c. c \<noteq> CHR ''&''" "drop 8 t"]
      by (auto simp: url_param_def url_sep_def numeral_eq_Suc)
    ultimately have nosep: "\<forall>c \<in> set (take 8 t @ ?old). \<not> url_sep c" by auto
    have "t = (take 8 t @ ?old) @ ?post" by simp
    with segments_head [OF nosep dropWhile_amp] have seg_t: "segments t = (take 8 t @ ?old) # ?rest"
      by metis
    then have "segments url = ?A @ (take 8 t @ ?old) # ?rest"
      using find_at_Some_before [OF plain_name_local [OF ck] f] by simp
    moreover have "\<not> hash_here (take 8 t @ ?old)"
      using P seg_localD [OF hash_here_local, of t] connkey_not_auth [OF P] seg_t by simp
    moreover have "segments (setUrlParam url ''connkey'' val)
        = ?A @ (''connkey'' @ ''='' @ val) # ?rest"
    proof -
      have "setUrlParam url ''connkey'' val = p @ g @ ''connkey'' @ ''='' @ val @ ?post"
        using setUrlParam_present [OF f ck assms(1)] by (simp add: numeral_eq_Suc)
      then show ?thesis
        using segments_value [OF ck assms(1) dropWhile_amp [of "drop 8 t"]] segments_glue [OF f] by metis
    qed
    moreover have "find hash_here (xs @ x # ys) = find hash_here (xs @ ys)" if "\<not> hash_here x" for xs x ys
      using that by (induction xs) auto
    ultimately show ?thesis using new unfolding hash_segments by metis
  qed
qed


section \<open>The revalidation machine\<close>

lemma calls_simps [simp]:
  "calls [] = []" "calls (xs @ ys) = calls xs @ calls ys" "calls (Call cb # xs) = cb # calls xs"
  "calls (Assign u # xs) = calls xs" "calls (GetJSON u # xs) = calls xs"
  "calls (map Call cbs) = cbs"
  by (induction cbs) (auto simp: calls_def)

lemma filter_map_Call [simp]:
  "filter is_probe (map Call cbs) = []" "filter is_assign (map Call cbs) = []"
  by (induction cbs) auto

lemmas auth_machine_defs =
  revalidateAuth_def revalidate_reply_def revalidate_always_def goToLogin_def whenAuthFresh_def
  onAuthVisible_def setNavBar_def emit_def Let_def

lemma auth_inv_init: "auth_inv (auth_init a)"
  by (simp add: auth_inv_def auth_init_def)

lemma auth_inv_revalidate:
  "auth_inv y \<Longrightarrow> auth_inv (emit y (case cb of None \<Rightarrow> [] | Some c \<Rightarrow> [c]) (revalidateAuth pg cb (page y)))"
  by (cases cb) (auto simp: auth_inv_def auth_machine_defs)

lemma auth_inv_reply:
  "auth_inv y \<Longrightarrow> inflight y > 0 \<Longrightarrow>
    auth_inv ((emit y [] (revalidate_reply pg r (page y)))\<lparr>inflight := inflight y - 1\<rparr>)"
  by (auto simp: auth_inv_def auth_machine_defs split: probe_result.splits option.splits if_splits)

lemma auth_inv_step: "auth_step pg y z \<Longrightarrow> auth_inv y \<Longrightarrow> auth_inv z"
proof (induction rule: auth_step.induct)
  case (ask y cb)
  then show ?case by (rule auth_inv_revalidate)
next
  case (fresh y cb)
  then show ?case
    using auth_inv_revalidate [of y "Some cb" pg]
    by (cases "ZMAuth_hash (zmAuth (page y)) = []") (auto simp: whenAuthFresh_def auth_inv_def emit_def)
next
  case (visible y v cb)
  then show ?case
    using auth_inv_revalidate [of y "Some cb" pg]
    by (cases v) (auto simp: onAuthVisible_def auth_inv_def emit_def)
next
  case (reply y r)
  then show ?case by (blast intro: auth_inv_reply)
next
  case (ajax y d)
  then show ?case by (simp add: auth_inv_def)
qed

lemma auth_reachable_inv: "auth_reachable pg y \<Longrightarrow> auth_inv y"
  by (induction rule: auth_reachable.induct) (auto intro: auth_inv_init auth_inv_step)

lemma hash_plain: "plain (authHashFromRelay s)"
proof (cases "find_at hash_here True s")
  case None
  then show ?thesis by (simp add: authHashFromRelay_def)
next
  case (Some r)
  then show ?thesis by (auto simp: authHashFromRelay_def dest: set_takeWhileD split: prod.splits)
qed

lemma hash_appendQuery:
  assumes "find_at (starts_ci ''auth='') True src = None"
  shows "authHashFromRelay (appendQuery src q) = authHashFromRelay q"
proof (cases "q = []")
  case True
  have "\<forall>x \<in> set (segments src). \<not> hash_here x"
    using assms find_at_None [OF seg_local_starts_ci [of "''auth=''"], of True src] hash_here_starts
    by (cases "segments src") (auto simp: url_sep_def)
  then have "find hash_here (segments src) = None" using find_None_iff by blast
  with True show ?thesis by (simp add: appendQuery_def hash_segments hash_here_def)
next
  case False
  let ?d = "if CHR ''?'' \<notin> set src then CHR ''?'' else CHR ''&''"
  have "appendQuery src q = src @ ?d # q" using False by (simp add: appendQuery_def)
  moreover have "url_sep ?d" by (simp add: url_sep_def)
  ultimately have "segments (appendQuery src q) = segments src @ segments q" by (simp add: split_on_append)
  moreover have "\<forall>x \<in> set (segments src). \<not> hash_here x"
    using assms find_at_None [OF seg_local_starts_ci [of "''auth=''"], of True src] hash_here_starts
    by (cases "segments src") (auto simp: url_sep_def)
  ultimately show ?thesis by (simp add: hash_segments find_append)
qed

lemma hash_nonempty_relay: "ZMAuth_hash a \<noteq> [] \<Longrightarrow> relay a \<noteq> []"
  by (auto simp: ZMAuth_hash_def authHashFromRelay_def hash_here_def)

section \<open>Properties\<close>

text \<open>
  \<^verbatim>\<open>setUrlParam\<close> writes the parameter: for a name and a value made of word characters,
  reading the parameter back from the result gives the value; where the parameter was
  present, only the text between its \<^verbatim>\<open>=\<close> and the next \<^verbatim>\<open>&\<close> changes (the name takes the
  given spelling), and where it was absent the whole URL is kept and the parameter
  appended.
\<close>

lemma setUrlParam_writes:
  assumes "plain name" and "plain val"
  shows "url_param name (setUrlParam url name val) = Some val
    \<and> (case find_at (starts_ci (name @ ''='')) True url of
         None \<Rightarrow> \<exists>d. url_sep d \<and> setUrlParam url name val = url @ [d] @ name @ ''='' @ val
       | Some (p, g, t) \<Rightarrow>
           \<exists>nm old post. url = p @ g @ nm @ ''='' @ old @ post \<and> to_lower nm = to_lower name
             \<and> url_param name url = Some old \<and> (post = [] \<or> hd post = CHR ''&'')
             \<and> setUrlParam url name val = p @ g @ name @ ''='' @ val @ post)"
proof -
  obtain p g r where f: "find_at (starts_ci (name @ ''='')) True (setUrlParam url name val)
      = Some (p, g, name @ ''='' @ val @ r)" and r: "r = [] \<or> hd r = CHR ''&''"
    using setUrlParam_find [OF assms] by blast
  then have "url_param name (setUrlParam url name val) = Some val"
    using takeWhile_amp [OF assms(2) r] by (simp add: url_param_def)
  moreover have "\<exists>d. url_sep d \<and> setUrlParam url name val = url @ [d] @ name @ ''='' @ val"
    if "find_at (starts_ci (name @ ''='')) True url = None"
    using setUrlParam_absent [OF that] by (auto simp: url_sep_def)
  moreover have "\<exists>nm old post. url = p @ g @ nm @ ''='' @ old @ post \<and> to_lower nm = to_lower name
      \<and> url_param name url = Some old \<and> (post = [] \<or> hd post = CHR ''&'')
      \<and> setUrlParam url name val = p @ g @ name @ ''='' @ val @ post"
    if f: "find_at (starts_ci (name @ ''='')) True url = Some (p, g, t)" for p g t
  proof (intro exI conjI)
    let ?rest = "drop (length name + 1) t"
    have st: "to_lower (take (length name + 1) t) = to_lower (name @ ''='')" and u: "url = p @ g @ t"
      using find_at_Some [OF f] by (auto simp: starts_ci_def)
    from st have len: "length name < length t"
      by (metis length_append_singleton length_map length_take lessI min_less_iff_conj)
    then have tk: "take (length name + 1) t = take (length name) t @ [t ! length name]"
      by (simp add: take_Suc_conv_app_nth)
    have nm: "to_lower (take (length name) t) = to_lower name" using st tk by simp
    have "lower_char (t ! length name) = CHR ''=''" using st tk by (simp add: lower_char_def)
    then have "t ! length name = CHR ''=''" by (rule lower_char_eqD) simp
    with tk have "t = take (length name) t @ ''='' @ ?rest" by (metis append.assoc append_take_drop_id)
    with u show "url = p @ g @ take (length name) t @ ''='' @
        takeWhile (\<lambda>c. c \<noteq> CHR ''&'') ?rest @ dropWhile (\<lambda>c. c \<noteq> CHR ''&'') ?rest" by simp
    show "to_lower (take (length name) t) = to_lower name" by (rule nm)
  qed (use f dropWhile_amp setUrlParam_present [OF f assms] in \<open>simp_all add: url_param_def\<close>)
  ultimately show ?thesis by (auto split: option.splits)
qed

text \<open>
  The credential follows the server. A reply with a relay installs exactly that relay
  and reports a change just when it differs; a reply with only a hash makes that hash the
  current one, whatever the relay looked like, and reports a change just when it differed.
  Applying the same reply again reports no change: streams are repainted only when there
  is something new.
\<close>

lemma ZMAuth_update_credential:
  assumes "plain h" and "h \<noteq> []"
  shows "let (chg, a') = ZMAuth_update (Some \<lparr>reply_relay = r, reply_auth = h\<rparr>) a in
     (if r \<noteq> [] then relay a' = r \<and> (chg \<longleftrightarrow> r \<noteq> relay a)
      else ZMAuth_hash a' = h \<and> (chg \<longleftrightarrow> h \<noteq> ZMAuth_hash a))
     \<and> ZMAuth_update (Some \<lparr>reply_relay = r, reply_auth = h\<rparr>) a' = (False, a')"
  using hash_after_set [OF assms, of "relay a"] assms(2)
  by (auto simp: ZMAuth_update_def ZMAuth_hash_def)

text \<open>
  A stream URL pointed at the current credential carries the current hash, whether the
  URL had a stale one or none, and the requested connkey. The connkey already in the URL
  must not contain a question mark.
\<close>

lemma applyTo_carries_credential:
  assumes "src \<noteq> []" and "ZMAuth_hash a \<noteq> []"
    and "plain (js_string ck)" and "ck \<notin> {JUndef, JNull, JStr []}"
    and "\<And>v. url_param ''connkey'' (ZMAuth_applyTo a src JUndef) = Some v \<Longrightarrow> CHR ''?'' \<notin> set v"
  shows "authHashFromRelay (ZMAuth_applyTo a src ck) = ZMAuth_hash a
    \<and> url_param ''connkey'' (ZMAuth_applyTo a src ck) = Some (js_string ck)"
proof -
  let ?out = "ZMAuth_applyTo a src JUndef"
  have r: "relay a \<noteq> []" using assms(2) by (rule hash_nonempty_relay)
  have ck: "ZMAuth_applyTo a src ck = setUrlParam ?out ''connkey'' (js_string ck)"
    using assms(1,4) by (simp add: ZMAuth_applyTo_def rebuildStreamSrc_def Let_def)
  have "authHashFromRelay ?out = ZMAuth_hash a"
    using assms(1,2) r hash_after_set [OF hash_plain, of "relay a" src] hash_appendQuery [of src "relay a"]
    by (cases "find_at (starts_ci ''auth='') True src")
      (simp_all add: ZMAuth_applyTo_def rebuildStreamSrc_def ZMAuth_hash_def ZMAuth_appendTo_def)
  moreover have "plain ''connkey''" by (simp add: is_word_char_def)
  from setUrlParam_find [OF this assms(3), of ?out] obtain p g q
    where "find_at (starts_ci (''connkey'' @ ''='')) True (setUrlParam ?out ''connkey'' (js_string ck))
        = Some (p, g, ''connkey'' @ ''='' @ js_string ck @ q)" and "q = [] \<or> hd q = CHR ''&''" by blast
  then have "url_param ''connkey'' (setUrlParam ?out ''connkey'' (js_string ck)) = Some (js_string ck)"
    using takeWhile_amp [OF assms(3)] by (simp add: url_param_def numeral_eq_Suc)
  ultimately show ?thesis using ck hash_after_connkey [OF assms(3,5)] by simp
qed



text \<open>
  A reply to the probe always ends the round: nothing waits any more and the next
  caller sends a new probe. The page leaves for login exactly when the server refused the
  session (401 or 403) or it was already leaving; otherwise every waiting callback runs
  once, in the order of the requests, also after a transient failure.
\<close>

lemma revalidate_reply_drains:
  "let (s', es) = revalidate_reply pg r s in
     \<not> authRevalidating s' \<and> authPendingCallbacks s' = []
   \<and> (authGoingToLogin s' \<longleftrightarrow> authGoingToLogin s \<or> r = Fail 401 \<or> r = Fail 403)
   \<and> calls es = (if authGoingToLogin s' then [] else authPendingCallbacks s)
   \<and> es = (if authGoingToLogin s then []
           else if r = Fail 401 \<or> r = Fail 403
           then [Assign (loginRedirectUrl (thisUrl pg) (currentView pg))]
           else map Call (authPendingCallbacks s))"
  by (cases r; cases "authPendingCallbacks s")
    (auto simp: auth_machine_defs authFailureAction_def split: option.splits)

text \<open>
  The hash-only branch of \<^verbatim>\<open>update\<close> on an empty relay produces a relay that starts with
  a question mark, so a URL authenticated with it gets two: the parameter's name then reads
  \<^verbatim>\<open>?auth\<close>.
\<close>

lemma hash_only_update_of_empty_relay:
  assumes "h \<noteq> []" and "CHR ''?'' \<notin> set url"
  shows "ZMAuth_appendTo (snd (ZMAuth_update (Some \<lparr>reply_relay = [], reply_auth = h\<rparr>) (ZMAuth_new []))) url
    = url @ ''??auth='' @ h"
proof -
  have "ZMAuth_hash (ZMAuth_new []) = []"
    by (simp add: ZMAuth_hash_def ZMAuth_new_def authHashFromRelay_def hash_here_def)
  then show ?thesis
    using assms by (simp add: ZMAuth_update_def ZMAuth_new_def ZMAuth_appendTo_def setUrlParam_def appendQuery_def)
qed

end
