(* ===== verification/Table_Helpers.thy ===== *)
theory Table_Helpers
  imports Auth_Helpers
begin

text \<open>
  \<^verbatim>\<open>web/js/table-helpers.js\<close>: tables whose request is skipped while the page is hidden are
  remembered and refreshed, through the credential gate \<^verbatim>\<open>whenAuthFresh\<close>, once it is shown
  again. What the tables rely on of the gate is the locale \<open>fresh_gate\<close>; it is
  interpreted on \<open>whenAuthFresh\<close> and on the direct call the script falls back to. A table
  is a name \<open>'t\<close>, the callback of a refresh is the list of tables it refreshes.
\<close>

section \<open>Definitions\<close>

definition deferTableRequestWhileHidden :: "bool \<Rightarrow> 't \<Rightarrow> 't list \<Rightarrow> bool \<times> 't list" where
  "deferTableRequestWhileHidden hid t ts =
     (if \<not> hid then (False, ts)
      else (True, if t \<notin> set ts then ts @ [t] else ts))"

text \<open>\<open>gate\<close> is \<open>None\<close> where \<^verbatim>\<open>typeof whenAuthFresh\<close> is not a function.\<close>

definition refreshTablesPendingVisibility ::
  "('t list \<Rightarrow> 's \<Rightarrow> 's \<times> 't list auth_effect list) option \<Rightarrow> bool \<Rightarrow> 't list \<times> 's
    \<Rightarrow> ('t list \<times> 's) \<times> 't list auth_effect list" where
  "refreshTablesPendingVisibility gate hid st =
     (let (ts, s) = st in
      if hid then ((ts, s), [])
      else if ts = [] then (([], s), [])
      else case gate of
             Some g \<Rightarrow> (let (s', es) = g ts s in (([], s'), es))
           | None \<Rightarrow> (([], s), [Call ts]))"

subsection \<open>Pages with tables\<close>

text \<open>
  A page with tables. \<open>due\<close> is a specification variable: the tables whose last request
  was skipped. A refresh calls the table's request function at once, so it is skipped again
  when the page has been hidden meanwhile.
\<close>

record 't table_page =
  pend :: "'t list"
  auth :: "'t list auth_state"
  hidden :: bool
  due :: "'t set"

definition request :: "'t \<Rightarrow> 't table_page \<Rightarrow> 't table_page" where
  "request t p =
     (let (skip, ts) = deferTableRequestWhileHidden (hidden p) t (pend p)
      in p\<lparr>pend := ts, due := (if skip then insert t (due p) else due p - {t})\<rparr>)"

fun run_effect :: "'t list auth_effect \<Rightarrow> 't table_page \<Rightarrow> 't table_page" where
  "run_effect (Call ts) p = fold request ts p"
| "run_effect _ p = p"

definition on_visible :: "page_env \<Rightarrow> 't table_page \<Rightarrow> 't table_page" where
  "on_visible pg p =
     (let ((ts, s), es) = refreshTablesPendingVisibility (Some (whenAuthFresh pg)) False (pend p, auth p)
      in fold run_effect es (p\<lparr>hidden := False, pend := ts, auth := s\<rparr>))"

definition on_probe :: "page_env \<Rightarrow> probe_result \<Rightarrow> 't table_page \<Rightarrow> 't table_page" where
  "on_probe pg r p =
     (let (s, es) = revalidate_reply pg r (auth p) in fold run_effect es (p\<lparr>auth := s\<rparr>))"

definition table_init :: "bool \<Rightarrow> zm_auth \<Rightarrow> 't table_page" where
  "table_init hid a =
     \<lparr>pend = [], auth = page (auth_init a), hidden = hid, due = {}\<rparr>"

inductive table_reachable :: "page_env \<Rightarrow> 't table_page \<Rightarrow> bool" for pg where
  start: "table_reachable pg (table_init hid a)"
| req: "table_reachable pg p \<Longrightarrow> table_reachable pg (request t p)"
| hide: "table_reachable pg p \<Longrightarrow> table_reachable pg (p\<lparr>hidden := True\<rparr>)"
| shown: "table_reachable pg p \<Longrightarrow> table_reachable pg (on_visible pg p)"
| reply: "table_reachable pg p \<Longrightarrow> authRevalidating (auth p) \<Longrightarrow> table_reachable pg (on_probe pg r p)"

definition awaiting :: "'t table_page \<Rightarrow> 't set" where
  "awaiting p = set (pend p) \<union> (\<Union>ts \<in> set (authPendingCallbacks (auth p)). set ts)"

definition table_inv :: "'t table_page \<Rightarrow> bool" where
  "table_inv p \<longleftrightarrow>
     distinct (pend p) \<and> (\<not> hidden p \<longrightarrow> pend p = [])
   \<and> (\<not> authRevalidating (auth p) \<longrightarrow> authPendingCallbacks (auth p) = [])
   \<and> (\<not> authGoingToLogin (auth p) \<longrightarrow> due p \<subseteq> awaiting p)"

section \<open>The credential gate as an interface\<close>

text \<open>
  A gate takes a callback and either runs it at once or keeps it waiting; it loses none.
\<close>

locale fresh_gate =
  fixes gate :: "'cb \<Rightarrow> 's \<Rightarrow> 's \<times> 'cb auth_effect list"
    and waiting :: "'s \<Rightarrow> 'cb list"
  assumes gate_accounts:
    "mset (calls (snd (gate cb s))) + mset (waiting (fst (gate cb s))) = add_mset cb (mset (waiting s))"
begin

lemma gate_sets: "set (calls (snd (gate cb s))) \<union> set (waiting (fst (gate cb s))) = insert cb (set (waiting s))"
  using arg_cong [OF gate_accounts, of set_mset] by simp

end

text \<open>A gate whose answers come later: an answer empties the queue, running all of it or none.\<close>

locale probe_gate = fresh_gate gate waiting
  for gate :: "'cb \<Rightarrow> 's \<Rightarrow> 's \<times> 'cb auth_effect list" and waiting :: "'s \<Rightarrow> 'cb list" +
  fixes answer :: "'r \<Rightarrow> 's \<Rightarrow> 's \<times> 'cb auth_effect list"
    and leaving :: "'s \<Rightarrow> bool"
  assumes answer_empties: "waiting (fst (answer r s)) = []"
    and answer_runs: "\<not> leaving (fst (answer r s)) \<Longrightarrow> calls (snd (answer r s)) = waiting s"
begin

lemma answer_accounts:
  "\<not> leaving (fst (answer r s)) \<Longrightarrow>
    mset (calls (snd (answer r s))) + mset (waiting (fst (answer r s))) = mset (waiting s)"
  by (simp add: answer_empties answer_runs)

end

lemma whenAuthFresh_accounts:
  "mset (calls (snd (whenAuthFresh pg cb s))) + mset (authPendingCallbacks (fst (whenAuthFresh pg cb s)))
    = add_mset cb (mset (authPendingCallbacks s))"
  by (auto simp: auth_machine_defs)

interpretation auth_gate: probe_gate "whenAuthFresh pg" authPendingCallbacks "revalidate_reply pg" authGoingToLogin
  for pg
  by unfold_locales
    (auto simp: whenAuthFresh_accounts auth_machine_defs split: probe_result.splits option.splits if_splits)

interpretation direct_gate: fresh_gate "\<lambda>cb s. (s, [Call cb])" "\<lambda>_. []"
  by unfold_locales simp

section \<open>No skipped table is forgotten\<close>

lemma request_simps [simp]:
  "auth (request t p) = auth p" "hidden (request t p) = hidden p"
  by (simp_all add: request_def deferTableRequestWhileHidden_def)

lemma fold_request_simps [simp]:
  "auth (fold request ts p) = auth p" "hidden (fold request ts p) = hidden p"
  by (induction ts arbitrary: p) auto

lemma run_effect_simps [simp]:
  "auth (run_effect e p) = auth p" "hidden (run_effect e p) = hidden p"
  by (cases e; simp)+

lemma fold_run_effect_simps [simp]:
  "auth (fold run_effect es p) = auth p" "hidden (fold run_effect es p) = hidden p"
  by (induction es arbitrary: p) auto

lemma request_visible: "\<not> hidden p \<Longrightarrow> request t p = p\<lparr>due := due p - {t}\<rparr>"
  by (simp add: request_def deferTableRequestWhileHidden_def)

lemma request_hidden:
  "hidden p \<Longrightarrow> request t p = p\<lparr>pend := (if t \<in> set (pend p) then pend p else pend p @ [t]), due := insert t (due p)\<rparr>"
  by (simp add: request_def deferTableRequestWhileHidden_def)

lemma fold_request_visible: "\<not> hidden p \<Longrightarrow> fold request ts p = p\<lparr>due := due p - set ts\<rparr>"
proof (induction ts arbitrary: p)
  case (Cons t ts)
  from Cons.IH [of "request t p"] Cons.prems show ?case
    by (simp add: request_visible set_diff_eq conj_ac)
qed simp

lemma fold_request_hidden:
  "hidden p \<Longrightarrow> distinct (pend p) \<Longrightarrow>
    distinct (pend (fold request ts p)) \<and> set (pend (fold request ts p)) = set (pend p) \<union> set ts
    \<and> due (fold request ts p) = due p \<union> set ts"
proof (induction ts arbitrary: p)
  case (Cons t ts)
  from Cons.IH [of "request t p"] Cons.prems show ?case by (auto simp: request_hidden)
qed simp

text \<open>Running the effects of a handler settles the tables of the callbacks it runs.\<close>

lemma run_effect_due:
  assumes "distinct (pend p)" and "\<not> hidden p \<longrightarrow> pend p = []"
  shows "distinct (pend (run_effect e p))" and "\<not> hidden p \<longrightarrow> pend (run_effect e p) = []"
    and "due (run_effect e p) \<subseteq> set (pend (run_effect e p)) \<union> (due p - (\<Union>ts \<in> set (calls [e]). set ts))"
    and "set (pend p) \<subseteq> set (pend (run_effect e p))"
  using assms fold_request_visible [of p] fold_request_hidden [of p]
  by (cases e; cases "hidden p"; auto)+

lemma fold_run_effect_due:
  assumes "distinct (pend p)" and "\<not> hidden p \<longrightarrow> pend p = []"
  shows "distinct (pend (fold run_effect es p))
    \<and> (\<not> hidden p \<longrightarrow> pend (fold run_effect es p) = [])
    \<and> due (fold run_effect es p)
        \<subseteq> set (pend (fold run_effect es p)) \<union> (due p - (\<Union>ts \<in> set (calls es). set ts))
    \<and> set (pend p) \<subseteq> set (pend (fold run_effect es p))"
  using assms
proof (induction es arbitrary: p)
  case (Cons e es)
  note one = run_effect_due [OF Cons.prems, of e]
  have "set (calls (e # es)) = set (calls [e]) \<union> set (calls es)"
    using calls_simps(2) [of "[e]" es] by simp
  moreover note Cons.IH [of "run_effect e p"] one
  ultimately show ?case by (simp add: subset_iff) blast
qed auto

lemma run_effects_inv:
  assumes "distinct (pend p)" and "\<not> hidden p \<longrightarrow> pend p = []"
    and "\<not> authRevalidating (auth p) \<longrightarrow> authPendingCallbacks (auth p) = []"
    and "\<not> authGoingToLogin (auth p) \<longrightarrow>
      due p \<subseteq> set (pend p) \<union> (\<Union>ts \<in> set (authPendingCallbacks (auth p)) \<union> set (calls es). set ts)"
  shows "table_inv (fold run_effect es p)"
  using fold_run_effect_due [OF assms(1,2), of es] assms(3,4)
  unfolding table_inv_def awaiting_def fold_run_effect_simps by blast

lemma table_inv_request: "table_inv p \<Longrightarrow> table_inv (request t p)"
  by (cases "hidden p") (auto simp: table_inv_def awaiting_def request_visible request_hidden)

lemma table_inv_visible:
  assumes "table_inv p"
  shows "table_inv (on_visible pg p)"
proof (cases "pend p = []")
  case True
  with assms show ?thesis
    by (simp add: on_visible_def refreshTablesPendingVisibility_def table_inv_def awaiting_def)
next
  case False
  let ?g = "whenAuthFresh pg (pend p) (auth p)"
  have eq: "on_visible pg p = fold run_effect (snd ?g) (p\<lparr>hidden := False, pend := [], auth := fst ?g\<rparr>)"
    using False by (simp add: on_visible_def refreshTablesPendingVisibility_def split: prod.splits)
  have "authGoingToLogin (fst ?g) = authGoingToLogin (auth p)"
    "\<not> authRevalidating (fst ?g) \<longrightarrow> authPendingCallbacks (fst ?g) = []"
    using assms by (auto simp: table_inv_def auth_machine_defs)
  moreover have "due p \<subseteq> (\<Union>ts \<in> set (authPendingCallbacks (fst ?g)) \<union> set (calls (snd ?g)). set ts)"
    if "\<not> authGoingToLogin (auth p)"
  proof -
    have "due p \<subseteq> (\<Union>ts \<in> insert (pend p) (set (authPendingCallbacks (auth p))). set ts)"
      using assms that by (simp add: table_inv_def awaiting_def)
    then show ?thesis using auth_gate.gate_sets [of pg "pend p" "auth p"] by (simp add: Un_commute)
  qed
  ultimately show ?thesis unfolding eq by (intro run_effects_inv) auto
qed

lemma table_inv_probe:
  assumes "table_inv p"
  shows "table_inv (on_probe pg r p)"
proof -
  let ?g = "revalidate_reply pg r (auth p)"
  have eq: "on_probe pg r p = fold run_effect (snd ?g) (p\<lparr>auth := fst ?g\<rparr>)"
    by (simp add: on_probe_def split: prod.splits)
  have "\<not> authGoingToLogin (fst ?g) \<Longrightarrow> \<not> authGoingToLogin (auth p)"
    by (auto simp: auth_machine_defs split: probe_result.splits option.splits if_splits)
  with assms auth_gate.answer_empties [of pg r "auth p"] auth_gate.answer_runs [of pg r "auth p"]
  show ?thesis unfolding eq by (intro run_effects_inv) (auto simp: table_inv_def awaiting_def)
qed

lemma table_reachable_inv: "table_reachable pg p \<Longrightarrow> table_inv p"
proof (induction rule: table_reachable.induct)
  case (start hid a)
  show ?case by (simp add: table_inv_def table_init_def auth_init_def)
next
  case (hide p)
  then show ?case by (simp add: table_inv_def awaiting_def)
qed (simp_all add: table_inv_request table_inv_visible table_inv_probe)

section \<open>Properties\<close>

text \<open>
  C27. No skipped table request is lost: in every run, once the page is visible again, no
  probe is outstanding and the page is not leaving for the login page, no table is waiting
  for data it asked for while hidden. Before that, every such table is remembered, once.
\<close>

theorem skipped_tables_refreshed:
  assumes "table_reachable pg p" and "\<not> authGoingToLogin (auth p)"
  shows "due p \<subseteq> awaiting p \<and> distinct (pend p)
    \<and> (\<not> hidden p \<and> \<not> authRevalidating (auth p) \<longrightarrow> due p = {})"
  using table_reachable_inv [OF assms(1)] assms(2) by (auto simp: table_inv_def awaiting_def)

theorem skipped_tables_refreshed_witness:
  "\<exists>p :: nat table_page. table_reachable \<lparr>thisUrl = ''u'', currentView = ''events''\<rparr> p
     \<and> \<not> authGoingToLogin (auth p) \<and> due p = {3} \<and> due p \<subseteq> awaiting p"
proof -
  let ?pg = "\<lparr>thisUrl = ''u'', currentView = ''events''\<rparr>"
  let ?i = "table_init True \<lparr>relay = ''auth=a1''\<rparr> :: nat table_page"
  have r: "table_reachable ?pg (request 3 ?i)" by (intro table_reachable.req table_reachable.start)
  have "\<not> authGoingToLogin (auth (request 3 ?i))" "due (request 3 ?i) = {3}"
    by (simp_all add: table_init_def auth_init_def request_hidden)
  with skipped_tables_refreshed [OF r] r show ?thesis by blast
qed

end
