(* ===== verification/Zms_Hints.thy ===== *)
theory Zms_Hints
  imports Js_Prelude "HOL-Library.AList"
begin

text \<open>
  \<^verbatim>\<open>web/skins/classic/views/js/event-zms-hints.js\<close> and the functions of \<^verbatim>\<open>event.js\<close> that
  drive it: the page looks up the neighbours of the event zms plays and sends them to zms
  (CMD_SET_EVENT), one command per direction. The object \<^verbatim>\<open>ZM_EventZmsHints.create()\<close>
  returns is the record \<open>hints_obj\<close>, its methods are the functions \<open>hints_*\<close>. Event ids
  are integers (\<^verbatim>\<open>parseInt\<close> has been applied), 0 is "no event", times are milliseconds.
\<close>

section \<open>Definitions\<close>

subsection \<open>The object\<close>

definition BOUNDARY_REFRESH_MS :: int where "BOUNDARY_REFRESH_MS = 5000"

definition LOOKUP_RETRY_MS :: int where "LOOKUP_RETRY_MS = 2000"

definition LOOKUP_TIMEOUT_MS :: int where "LOOKUP_TIMEOUT_MS = 5000"

datatype send_state = Unsent | Sending | Sent

record hint =
  h_src :: int
  h_next :: int
  h_prev :: int
  h_fetched :: int
  h_state :: send_state
  h_batch :: nat
  h_inflight :: nat
  h_failed :: bool

record lookup_rec =
  l_src :: int
  l_at :: int
  l_pending :: bool
  l_id :: nat

record hints_obj =
  hints :: "hint option"
  lookup :: "lookup_rec option"
  lookups :: nat
  batches :: nat
  unanswered :: "(nat \<times> nat) list"

record set_event =
  c_dir :: nat
  c_eventid :: int
  c_srcid :: int
  c_batch :: nat

definition hints_create :: hints_obj where
  "hints_create = \<lparr>hints = None, lookup = None, lookups = 0, batches = 0, unanswered = []\<rparr>"

definition hints_set :: "int \<Rightarrow> int \<Rightarrow> int \<Rightarrow> int \<Rightarrow> hints_obj \<Rightarrow> hints_obj" where
  "hints_set src nx pv now o1 =
     (let fresh = \<lparr>h_src = src, h_next = nx, h_prev = pv, h_fetched = now, h_state = Unsent,
                   h_batch = 0, h_inflight = 0, h_failed = False\<rparr>
      in case hints o1 of
           Some h \<Rightarrow> if h_src h = src \<and> h_next h = nx \<and> h_prev h = pv
                     then o1\<lparr>hints := Some (h\<lparr>h_fetched := now\<rparr>)\<rparr>
                     else o1\<lparr>hints := Some fresh\<rparr>
         | None \<Rightarrow> o1\<lparr>hints := Some fresh\<rparr>)"

definition hints_take :: "int \<Rightarrow> hints_obj \<Rightarrow> hints_obj \<times> set_event list" where
  "hints_take current o1 = (case hints o1 of
     None \<Rightarrow> (o1, [])
   | Some h \<Rightarrow>
       if h_src h \<noteq> current \<or> h_state h \<noteq> Unsent \<or> length (unanswered o1) \<noteq> 0 then (o1, [])
       else
         let b = batches o1 + 1 in
         (o1\<lparr>hints := Some (h\<lparr>h_state := Sending, h_batch := b, h_inflight := 2, h_failed := False\<rparr>),
             batches := b, unanswered := AList.update b 2 (unanswered o1)\<rparr>,
          [\<lparr>c_dir = 0, c_eventid = h_next h, c_srcid = h_src h, c_batch = b\<rparr>,
           \<lparr>c_dir = 1, c_eventid = h_prev h, c_srcid = h_src h, c_batch = b\<rparr>]))"

definition answer_one :: "nat \<Rightarrow> (nat \<times> nat) list \<Rightarrow> (nat \<times> nat) list" where
  "answer_one b u = (case map_of u b of
     None \<Rightarrow> u
   | Some n \<Rightarrow> if n - 1 > 0 then AList.update b (n - 1) u else AList.delete b u)"

definition hints_response :: "nat \<Rightarrow> bool \<Rightarrow> hints_obj \<Rightarrow> hints_obj" where
  "hints_response b delivered o1 =
     (let o2 = o1\<lparr>unanswered := answer_one b (unanswered o1)\<rparr>
      in case hints o2 of
           None \<Rightarrow> o2
         | Some h \<Rightarrow>
             if h_batch h \<noteq> b \<or> h_state h \<noteq> Sending then o2
             else
               let h1 = (if \<not> delivered then h\<lparr>h_failed := True\<rparr> else h);
                   h2 = h1\<lparr>h_inflight := h_inflight h1 - 1\<rparr>
               in if h_inflight h2 > 0 then o2\<lparr>hints := Some h2\<rparr>
                  else o2\<lparr>hints := Some (h2\<lparr>h_state := (if h_failed h2 then Unsent else Sent)\<rparr>)\<rparr>)"

definition hints_reset :: "hints_obj \<Rightarrow> hints_obj" where
  "hints_reset o1 =
     o1\<lparr>unanswered := [], hints := map_option (\<lambda>h. h\<lparr>h_state := Unsent, h_batch := 0\<rparr>) (hints o1)\<rparr>"

definition hints_needsLookup :: "int \<Rightarrow> bool \<Rightarrow> int \<Rightarrow> bool \<Rightarrow> hints_obj \<Rightarrow> bool" where
  "hints_needsLookup current reverse now paused o1 =
     (let same = (case lookup o1 of None \<Rightarrow> False | Some l \<Rightarrow> l_src l = current);
          pending = (case lookup o1 of None \<Rightarrow> False | Some l \<Rightarrow> l_pending l);
          asked = (case lookup o1 of None \<Rightarrow> 0 | Some l \<Rightarrow> l_at l)
      in if same \<and> pending \<and> now - asked < LOOKUP_TIMEOUT_MS then False
         else case hints o1 of
           None \<Rightarrow> \<not> same \<or> now - asked \<ge> LOOKUP_RETRY_MS
         | Some h \<Rightarrow>
             if h_src h \<noteq> current then \<not> same \<or> now - asked \<ge> LOOKUP_RETRY_MS
             else if \<not> paused \<and> (if reverse then h_prev h else h_next h) \<noteq> 0 then False
             else now - (if same then max asked (h_fetched h) else h_fetched h) \<ge> BOUNDARY_REFRESH_MS)"

definition hints_lookingUp :: "int \<Rightarrow> int \<Rightarrow> hints_obj \<Rightarrow> hints_obj \<times> nat" where
  "hints_lookingUp src now o1 =
     (let n = lookups o1 + 1
      in (o1\<lparr>lookups := n, lookup := Some \<lparr>l_src = src, l_at = now, l_pending = True, l_id = n\<rparr>\<rparr>, n))"

definition hints_isLatestLookup :: "nat \<Rightarrow> hints_obj \<Rightarrow> bool" where
  "hints_isLatestLookup i o1 = (case lookup o1 of None \<Rightarrow> False | Some l \<Rightarrow> l_id l = i)"

definition hints_lookupDone :: "nat \<Rightarrow> hints_obj \<Rightarrow> hints_obj" where
  "hints_lookupDone i o1 = (case lookup o1 of
     Some l \<Rightarrow> if l_id l = i then o1\<lparr>lookup := Some (l\<lparr>l_pending := False\<rparr>)\<rparr> else o1
   | None \<Rightarrow> o1)"

subsection \<open>The event view around it\<close>

text \<open>
  The variables of \<^verbatim>\<open>event.js\<close> these handlers use, on the zms path (\<^verbatim>\<open>vid == null\<close>), and
  the requests they send.
\<close>

record event_page =
  zmsHints :: hints_obj
  lastEventId :: int
  prevEventId :: int
  nextEventId :: int

datatype page_request = EventQuery int | AlarmCues int | NearEvents nat int | SetEvent set_event

definition sendZmsHints :: "int \<Rightarrow> event_page \<Rightarrow> event_page \<times> page_request list" where
  "sendZmsHints eventId p =
     (let (o1, cs) = hints_take eventId (zmsHints p) in (p\<lparr>zmsHints := o1\<rparr>, map SetEvent cs))"

definition nearEventsQuery :: "int \<Rightarrow> int \<Rightarrow> event_page \<Rightarrow> event_page \<times> page_request list" where
  "nearEventsQuery eventId now p =
     (let (o1, n) = hints_lookingUp eventId now (zmsHints p)
      in (p\<lparr>zmsHints := o1\<rparr>, [NearEvents n eventId]))"

definition getNearEventsResponse ::
  "int \<Rightarrow> int \<Rightarrow> int \<Rightarrow> int \<Rightarrow> event_page \<Rightarrow> event_page \<times> page_request list" where
  "getNearEventsResponse srcEventId nx pv now p =
     (if lastEventId p \<noteq> 0 \<and> srcEventId \<noteq> lastEventId p then (p, [])
      else
        let p1 = p\<lparr>prevEventId := pv, nextEventId := nx,
                   zmsHints := hints_set srcEventId nx pv now (zmsHints p)\<rparr>
        in if lastEventId p1 \<noteq> 0 then sendZmsHints (lastEventId p1) p1 else (p1, []))"

text \<open>The reply to a neighbour lookup: \<open>None\<close> where the request failed.\<close>

definition nearEvents_reply ::
  "nat \<Rightarrow> (int \<times> int \<times> int) option \<Rightarrow> int \<Rightarrow> event_page \<Rightarrow> event_page \<times> page_request list" where
  "nearEvents_reply n r now p =
     (let (p1, rs) = (case r of
            Some (src, nx, pv) \<Rightarrow>
              if hints_isLatestLookup n (zmsHints p) then getNearEventsResponse src nx pv now p else (p, [])
          | None \<Rightarrow> (p, []))
      in (p1\<lparr>zmsHints := hints_lookupDone n (zmsHints p1)\<rparr>, rs))"

text \<open>The part of \<^verbatim>\<open>getCmdResponse\<close> that follows the event zms reports playing.\<close>

definition getCmdResponse ::
  "int \<Rightarrow> bool \<Rightarrow> bool \<Rightarrow> int \<Rightarrow> event_page \<Rightarrow> event_page \<times> page_request list" where
  "getCmdResponse eventId reverse paused now p =
     (let rs1 = (if lastEventId p \<noteq> 0 \<and> eventId \<noteq> lastEventId p
                 then [EventQuery eventId, AlarmCues eventId] else []);
          p1 = p\<lparr>lastEventId := eventId\<rparr>;
          (p2, rs2) = (if hints_needsLookup eventId reverse now paused (zmsHints p1)
                       then nearEventsQuery eventId now p1 else (p1, []));
          (p3, rs3) = sendZmsHints eventId p2
      in (p3, rs1 @ rs2 @ rs3))"

text \<open>
  The reply to a CMD_SET_EVENT request: a refusal counts as delivered, it would not change
  on a retry; an error reply or a failed request does not.
\<close>

datatype set_event_reply = Applied | Refused | Undelivered

definition setEvent_reply :: "nat \<Rightarrow> set_event_reply \<Rightarrow> event_page \<Rightarrow> event_page" where
  "setEvent_reply b r p = p\<lparr>zmsHints := hints_response b (r \<noteq> Undelivered) (zmsHints p)\<rparr>"

definition zms_restarted :: "event_page \<Rightarrow> event_page" where
  "zms_restarted p = p\<lparr>zmsHints := hints_reset (zmsHints p)\<rparr>"

subsection \<open>Page, network and zms\<close>

text \<open>
  The system: commands on their way to zms, replies on their way back, and what zms holds
  per direction. Every item carries the number of the zms process it was sent to
  (\<open>epoch\<close>); a process that is gone no longer changes what the new one holds. Commands
  and replies travel independently, so any of them may be next; zms may move to another event
  at any time (\<open>playing\<close>). \<open>base\<close> is the number of batches at the last restart.

  Not every command that is answered is kept. The server may decline it; it replaces a
  neighbour that was deleted since by 0 (\<^verbatim>\<open>ajax/stream.php\<close>); and zms ignores a command for an event
  it is not playing and still answers OK (\<^verbatim>\<open>zm_eventstream.cpp\<close>). \<open>fates\<close> records these, with
  batch and direction.
\<close>

record item =
  i_cmd :: set_event
  i_epoch :: nat

datatype fate = Declined | Deleted | Stale int

record hint_sys =
  pg :: event_page
  transit :: "item list"
  replies :: "(item \<times> set_event_reply) list"
  zms :: "nat \<Rightarrow> (int \<times> int) option"
  playing :: int
  epoch :: nat
  base :: nat
  fates :: "(nat \<times> nat \<times> fate) set"

fun set_events :: "page_request list \<Rightarrow> set_event list" where
  "set_events [] = []"
| "set_events (SetEvent c # rs) = c # set_events rs"
| "set_events (_ # rs) = set_events rs"

definition post :: "hint_sys \<Rightarrow> event_page \<times> page_request list \<Rightarrow> hint_sys" where
  "post y r = y\<lparr>pg := fst r,
     transit := transit y @ map (\<lambda>c. \<lparr>i_cmd = c, i_epoch = epoch y\<rparr>) (set_events (snd r))\<rparr>"

text \<open>A command reaches zms; \<open>gone\<close>: the neighbour it names no longer exists.\<close>

definition zms_take :: "bool \<Rightarrow> item \<Rightarrow> hint_sys \<Rightarrow> hint_sys" where
  "zms_take gone i y =
     (let c = i_cmd i;
          y1 = (if gone then y\<lparr>fates := insert (c_batch c, c_dir c, Deleted) (fates y)\<rparr> else y)
      in if i_epoch i \<noteq> epoch y then y1
         else if c_srcid c \<noteq> playing y then y1\<lparr>fates := insert (c_batch c, c_dir c, Stale (playing y)) (fates y1)\<rparr>
         else y1\<lparr>zms := (zms y)(c_dir c \<mapsto> (if gone then 0 else c_eventid c, c_srcid c))\<rparr>)"

inductive hint_step :: "hint_sys \<Rightarrow> hint_sys \<Rightarrow> bool" where
  status: "hint_step y (post y (getCmdResponse e rv pa now (pg y)))"
| near: "hint_step y (post y (nearEvents_reply n r now (pg y)))"
| moves: "hint_step y (y\<lparr>playing := e\<rparr>)"
| taken: "transit y = xs @ i # ys \<Longrightarrow>
    hint_step y ((zms_take gone i y)\<lparr>transit := xs @ ys, replies := (i, Applied) # replies y\<rparr>)"
| refused: "transit y = xs @ i # ys \<Longrightarrow>
    hint_step y (y\<lparr>transit := xs @ ys, replies := (i, Refused) # replies y,
                    fates := insert (c_batch (i_cmd i), c_dir (i_cmd i), Declined) (fates y)\<rparr>)"
| lost: "transit y = xs @ i # ys \<Longrightarrow>
    hint_step y (y\<lparr>transit := xs @ ys, replies := (i, Undelivered) # replies y\<rparr>)"
| taken_unheard: "transit y = xs @ i # ys \<Longrightarrow>
    hint_step y ((zms_take gone i y)\<lparr>transit := xs @ ys, replies := (i, Undelivered) # replies y\<rparr>)"
| reply: "replies y = xs @ (i, r) # ys \<Longrightarrow>
    hint_step y (y\<lparr>pg := setEvent_reply (c_batch (i_cmd i)) r (pg y), replies := xs @ ys\<rparr>)"
| restart: "hint_step y (y\<lparr>pg := zms_restarted (pg y), zms := Map.empty, epoch := epoch y + 1,
                            base := batches (zmsHints (pg y))\<rparr>)"

definition hint_init :: hint_sys where
  "hint_init = \<lparr>pg = \<lparr>zmsHints = hints_create, lastEventId = 0, prevEventId = 0, nextEventId = 0\<rparr>,
     transit = [], replies = [], zms = Map.empty, playing = 0, epoch = 0, base = 0, fates = {}\<rparr>"

inductive hint_reachable :: "hint_sys \<Rightarrow> bool" where
  start: "hint_reachable hint_init"
| step: "hint_reachable y \<Longrightarrow> hint_step y z \<Longrightarrow> hint_reachable z"


subsection \<open>The invariant\<close>

text \<open>
  The items of the current process that are still under way belong to the last batch, and
  \<^verbatim>\<open>unanswered\<close> counts them; what was sent to earlier processes has smaller numbers. While
  a hint is being sent, each direction has reached zms, has been refused, is still under
  way, or is known to have failed.
\<close>

definition h_event :: "hint \<Rightarrow> nat \<Rightarrow> int" where
  "h_event h d = (if d = 0 then h_next h else h_prev h)"

abbreviation cur :: "nat \<Rightarrow> item list \<Rightarrow> item list" where
  "cur ep \<equiv> filter (\<lambda>i. i_epoch i = ep)"

abbreviation cur_replies :: "nat \<Rightarrow> (item \<times> set_event_reply) list \<Rightarrow> (item \<times> set_event_reply) list" where
  "cur_replies ep \<equiv> filter (\<lambda>(i, r). i_epoch i = ep)"

definition live :: "nat \<Rightarrow> item list \<Rightarrow> (item \<times> set_event_reply) list \<Rightarrow> nat" where
  "live ep T R = length (cur ep T) + length (cur_replies ep R)"

definition numbered :: "nat \<Rightarrow> nat \<Rightarrow> nat \<Rightarrow> item list \<Rightarrow> bool" where
  "numbered ep bs bt is \<longleftrightarrow> (\<forall>i \<in> set is.
     (i_epoch i = ep \<longrightarrow> c_batch (i_cmd i) = bt \<and> bs < bt) \<and>
     (i_epoch i \<noteq> ep \<longrightarrow> c_batch (i_cmd i) \<le> bs) \<and> i_epoch i \<le> ep)"

definition settled :: "(nat \<Rightarrow> (int \<times> int) option) \<Rightarrow> (nat \<times> nat \<times> fate) set \<Rightarrow> hint \<Rightarrow> nat \<Rightarrow> bool" where
  "settled z rf h d \<longleftrightarrow> z d = Some (h_event h d, h_src h)
     \<or> z d = Some (0, h_src h) \<and> (h_batch h, d, Deleted) \<in> rf
     \<or> (h_batch h, d, Declined) \<in> rf \<or> (\<exists>e. e \<noteq> h_src h \<and> (h_batch h, d, Stale e) \<in> rf)"

fun hint_ok :: "hint \<Rightarrow> nat \<Rightarrow> item list \<Rightarrow> (item \<times> set_event_reply) list
    \<Rightarrow> (nat \<Rightarrow> (int \<times> int) option) \<Rightarrow> nat \<Rightarrow> (nat \<times> nat \<times> fate) set \<Rightarrow> bool" where
  "hint_ok h bt T R z ep rf = (case h_state h of
     Unsent \<Rightarrow> True
   | Sent \<Rightarrow> live ep T R = 0 \<and> (\<forall>d < 2. settled z rf h d)
   | Sending \<Rightarrow>
       h_batch h = bt \<and> 0 < live ep T R \<and> h_inflight h = live ep T R
     \<and> (\<forall>i \<in> set (cur ep T). c_eventid (i_cmd i) = h_event h (c_dir (i_cmd i)) \<and> c_srcid (i_cmd i) = h_src h)
     \<and> (\<forall>d < 2. settled z rf h d \<or> h_failed h \<or> (\<exists>i \<in> set (cur ep T). c_dir (i_cmd i) = d)
          \<or> (\<exists>(i, r) \<in> set (cur_replies ep R). r = Undelivered)))"

definition hinv :: "hint option \<Rightarrow> nat \<Rightarrow> (nat \<times> nat) list \<Rightarrow> item list
    \<Rightarrow> (item \<times> set_event_reply) list \<Rightarrow> (nat \<Rightarrow> (int \<times> int) option) \<Rightarrow> nat \<Rightarrow> nat \<Rightarrow> (nat \<times> nat \<times> fate) set \<Rightarrow> bool" where
  "hinv hs bt un T R z ep bs rf \<longleftrightarrow>
     bs \<le> bt \<and> numbered ep bs bt T \<and> numbered ep bs bt (map fst R)
   \<and> un = (if live ep T R = 0 then [] else [(bt, live ep T R)])
   \<and> (case hs of None \<Rightarrow> True | Some h \<Rightarrow> hint_ok h bt T R z ep rf)"

definition hint_inv :: "hint_sys \<Rightarrow> bool" where
  "hint_inv y \<longleftrightarrow> hinv (hints (zmsHints (pg y))) (batches (zmsHints (pg y))) (unanswered (zmsHints (pg y)))
     (transit y) (replies y) (zms y) (epoch y) (base y) (fates y)"


subsection \<open>A run\<close>

text \<open>
  zms has come to event 5, whose neighbours are 6 and 4: the first status reply starts a lookup,
  its answer sends both commands (\<open>demo_sending\<close>), zms stores them and both replies come
  back (\<open>demo_sent\<close>).
\<close>

definition demo_cmd :: "nat \<Rightarrow> item" where
  "demo_cmd d = \<lparr>i_cmd = \<lparr>c_dir = d, c_eventid = (if d = 0 then 6 else 4), c_srcid = 5, c_batch = 1\<rparr>, i_epoch = 0\<rparr>"

definition demo_sending :: hint_sys where
  "demo_sending =
     post (post hint_init (getCmdResponse 5 False False 100 (pg hint_init)))
       (nearEvents_reply 1 (Some (5, 6, 4)) 150
         (pg (post hint_init (getCmdResponse 5 False False 100 (pg hint_init)))))"

definition demo_hint :: "send_state \<Rightarrow> nat \<Rightarrow> hint" where
  "demo_hint st n = \<lparr>h_src = 5, h_next = 6, h_prev = 4, h_fetched = 150, h_state = st,
     h_batch = 1, h_inflight = n, h_failed = False\<rparr>"

definition demo_sent :: hint_sys where
  "demo_sent = demo_sending\<lparr>playing := 5, transit := [], replies := [], zms := [0 \<mapsto> (6, 5), 1 \<mapsto> (4, 5)],
     pg := (pg demo_sending)\<lparr>zmsHints := (zmsHints (pg demo_sending))\<lparr>hints := Some (demo_hint Sent 0), unanswered := []\<rparr>\<rparr>\<rparr>"

section \<open>Every step keeps the invariant\<close>

lemma numbered_simps [simp]:
  "numbered ep bs bt []"
  "numbered ep bs bt (xs @ ys) \<longleftrightarrow> numbered ep bs bt xs \<and> numbered ep bs bt ys"
  "numbered ep bs bt (i # ys) \<longleftrightarrow>
     (i_epoch i = ep \<longrightarrow> c_batch (i_cmd i) = bt \<and> bs < bt) \<and>
     (i_epoch i \<noteq> ep \<longrightarrow> c_batch (i_cmd i) \<le> bs) \<and> i_epoch i \<le> ep \<and> numbered ep bs bt ys"
  by (auto simp: numbered_def)

lemma numbered_no_current:
  "numbered ep bs bt is \<Longrightarrow> cur ep is = [] \<Longrightarrow> bs \<le> bt' \<Longrightarrow> numbered ep bs bt' is"
  by (auto simp: numbered_def filter_empty_conv)

lemma numbered_restart: "numbered ep bs bt is \<Longrightarrow> bs \<le> bt \<Longrightarrow> numbered (Suc ep) bt bt is"
  by (fastforce simp: numbered_def)

lemma cur_empty_later: "numbered ep bs bt is \<Longrightarrow> cur (Suc ep) is = []"
  by (fastforce simp: numbered_def filter_empty_conv)

lemma cur_replies_map: "length (cur_replies ep R) = length (cur ep (map fst R))"
  by (induction R) auto

lemma numbered_live:
  assumes "numbered ep bs bt T" and "numbered ep bs bt (map fst R)" and "0 < live ep T R"
  shows "bs < bt"
proof -
  have pos: "cur ep is \<noteq> [] \<Longrightarrow> numbered ep bs bt is \<Longrightarrow> bs < bt" for "is"
    by (fastforce simp: numbered_def filter_empty_conv)
  from assms(3) have "cur ep T \<noteq> [] \<or> cur ep (map fst R) \<noteq> []"
    using cur_replies_map [of ep R] by (auto simp: live_def filter_map)
  with pos assms(1,2) show ?thesis by blast
qed

lemma set_events_map [simp]: "set_events (map SetEvent cs) = cs"
  by (induction cs) auto

lemma set_events_append [simp]: "set_events (xs @ ys) = set_events xs @ set_events ys"
  by (induction xs rule: set_events.induct) auto

declare hint_ok.simps [simp del]

lemma hint_ok_fetched [simp]: "hint_ok (h\<lparr>h_fetched := n\<rparr>) bt T R z ep rf = hint_ok h bt T R z ep rf"
  by (cases "h_state h") (simp_all add: hint_ok.simps settled_def h_event_def)

lemma settled_frame [simp]:
  "settled z rf (h\<lparr>h_failed := f\<rparr>) d = settled z rf h d"
  "settled z rf (h\<lparr>h_inflight := n\<rparr>) d = settled z rf h d"
  "settled z rf (h\<lparr>h_state := s\<rparr>) d = settled z rf h d"
  by (simp_all add: settled_def h_event_def)

lemma h_event_frame [simp]:
  "h_event (h\<lparr>h_failed := f\<rparr>) = h_event h" "h_event (h\<lparr>h_inflight := n\<rparr>) = h_event h"
  by (auto simp: h_event_def)

lemma hint_ok_unsent [simp]: "h_state h = Unsent \<Longrightarrow> hint_ok h bt T R z ep rf"
  by (simp add: hint_ok.simps)

lemma hinv_set:
  assumes "hinv (hints o1) (batches o1) (unanswered o1) T R z ep bs rf"
  shows "hinv (hints (hints_set s nx pv now o1)) (batches (hints_set s nx pv now o1))
    (unanswered (hints_set s nx pv now o1)) T R z ep bs rf"
  using assms
  by (auto simp: hinv_def hints_set_def Let_def split: option.splits)

lemma hinv_take:
  assumes "hinv (hints o1) (batches o1) (unanswered o1) T R z ep bs rf"
  shows "let (o2, cs) = hints_take c o1 in
    hinv (hints o2) (batches o2) (unanswered o2) (T @ map (\<lambda>c. \<lparr>i_cmd = c, i_epoch = ep\<rparr>) cs) R z ep bs rf"
proof (cases "hints o1")
  case (Some h)
  show ?thesis
  proof (cases "h_src h \<noteq> c \<or> h_state h \<noteq> Unsent \<or> length (unanswered o1) \<noteq> 0")
    case False
    then have un: "unanswered o1 = []" by simp
    with assms have l0: "live ep T R = 0" by (auto simp: hinv_def split: if_splits)
    then have "cur ep T = []" "cur ep (map fst R) = []"
      using cur_replies_map [of ep R] by (simp_all add: live_def filter_map)
    with assms have "numbered ep bs (batches o1 + 1) T" "numbered ep bs (batches o1 + 1) (map fst R)"
      using numbered_no_current by (auto simp: hinv_def)
    with False Some un l0 assms show ?thesis
      by (auto simp: hints_take_def hinv_def Let_def live_def h_event_def less_2_cases_iff hint_ok.simps)
  qed (use assms Some in \<open>simp add: hints_take_def\<close>)
qed (use assms in \<open>simp add: hints_take_def\<close>)


text \<open>Looking up neighbours touches neither the hints nor the counts.\<close>

lemma lookup_frame [simp]:
  "hints (fst (hints_lookingUp s now o1)) = hints o1"
  "batches (fst (hints_lookingUp s now o1)) = batches o1"
  "unanswered (fst (hints_lookingUp s now o1)) = unanswered o1"
  "hints (hints_lookupDone n o1) = hints o1"
  "batches (hints_lookupDone n o1) = batches o1"
  "unanswered (hints_lookupDone n o1) = unanswered o1"
  by (simp_all add: hints_lookingUp_def hints_lookupDone_def Let_def split: option.splits)

lemma hint_inv_send:
  assumes "hinv (hints (zmsHints p)) (batches (zmsHints p)) (unanswered (zmsHints p)) T R z ep bs rf"
  shows "hinv (hints (zmsHints (fst (sendZmsHints e p)))) (batches (zmsHints (fst (sendZmsHints e p))))
    (unanswered (zmsHints (fst (sendZmsHints e p))))
    (T @ map (\<lambda>c. \<lparr>i_cmd = c, i_epoch = ep\<rparr>) (set_events (snd (sendZmsHints e p)))) R z ep bs rf"
  using hinv_take [OF assms, of e] by (simp add: sendZmsHints_def split: prod.splits)

lemma hint_inv_near:
  assumes "hinv (hints (zmsHints p)) (batches (zmsHints p)) (unanswered (zmsHints p)) T R z ep bs rf"
  shows "hinv (hints (zmsHints (fst (getNearEventsResponse s nx pv now p))))
    (batches (zmsHints (fst (getNearEventsResponse s nx pv now p))))
    (unanswered (zmsHints (fst (getNearEventsResponse s nx pv now p))))
    (T @ map (\<lambda>c. \<lparr>i_cmd = c, i_epoch = ep\<rparr>) (set_events (snd (getNearEventsResponse s nx pv now p))))
    R z ep bs rf"
  using assms hinv_set [OF assms]
  by (auto simp: getNearEventsResponse_def Let_def intro!: hint_inv_send)

lemma hint_inv_status: "hint_inv y \<Longrightarrow> hint_inv (post y (getCmdResponse e rv pa now (pg y)))"
proof -
  assume inv: "hint_inv y"
  let ?p1 = "(pg y)\<lparr>lastEventId := e\<rparr>"
  define p2 where "p2 = (if hints_needsLookup e rv now pa (zmsHints ?p1) then fst (nearEventsQuery e now ?p1) else ?p1)"
  have p2: "hints (zmsHints p2) = hints (zmsHints (pg y))"
    "batches (zmsHints p2) = batches (zmsHints (pg y))"
    "unanswered (zmsHints p2) = unanswered (zmsHints (pg y))"
    unfolding p2_def by (auto simp: nearEventsQuery_def split: prod.splits) (metis fst_conv lookup_frame)+
  have r: "fst (getCmdResponse e rv pa now (pg y)) = fst (sendZmsHints e p2)"
    "set_events (snd (getCmdResponse e rv pa now (pg y))) = set_events (snd (sendZmsHints e p2))"
    unfolding p2_def by (auto simp: getCmdResponse_def nearEventsQuery_def Let_def split: prod.splits)
  show ?thesis
    using inv hint_inv_send [of p2 "transit y" "replies y" "zms y" "epoch y" "base y" "fates y" e]
    unfolding hint_inv_def post_def by (simp add: p2 r)
qed

lemma hint_inv_near_reply: "hint_inv y \<Longrightarrow> hint_inv (post y (nearEvents_reply n r now (pg y)))"
  using hint_inv_near [of "pg y" "transit y" "replies y" "zms y" "epoch y" "base y" "fates y"]
  by (auto simp: hint_inv_def post_def nearEvents_reply_def split: option.splits prod.splits if_splits)
    (metis fst_conv snd_conv)+

lemma hint_inv_restart:
  "hint_inv y \<Longrightarrow> hint_inv (y\<lparr>pg := zms_restarted (pg y), zms := Map.empty, epoch := epoch y + 1,
     base := batches (zmsHints (pg y))\<rparr>)"
proof -
  assume "hint_inv y"
  then have n: "numbered (epoch y) (base y) (batches (zmsHints (pg y))) (transit y)"
    "numbered (epoch y) (base y) (batches (zmsHints (pg y))) (map fst (replies y))"
    "base y \<le> batches (zmsHints (pg y))"
    by (simp_all add: hint_inv_def hinv_def)
  then have "live (Suc (epoch y)) (transit y) (replies y) = 0"
    using cur_empty_later cur_replies_map [of "Suc (epoch y)" "replies y"] by (simp add: live_def)
  with n show ?thesis
    by (auto simp: hint_inv_def hinv_def zms_restarted_def hints_reset_def numbered_restart split: option.splits)
qed


text \<open>
  A command leaves the network: zms stores it or the server's boundary in its place (\<open>z'\<close>), or what
  became of it is recorded (\<open>rf'\<close>), or its reply says it was not delivered. The reply takes its place among
  the live items.
\<close>

definition arrived :: "(nat \<Rightarrow> (int \<times> int) option) \<Rightarrow> (nat \<times> nat \<times> fate) set \<Rightarrow> set_event \<Rightarrow> bool" where
  "arrived z rf c \<longleftrightarrow> z (c_dir c) = Some (c_eventid c, c_srcid c)
     \<or> z (c_dir c) = Some (0, c_srcid c) \<and> (c_batch c, c_dir c, Deleted) \<in> rf
     \<or> (\<exists>e. e \<noteq> c_srcid c \<and> (c_batch c, c_dir c, Stale e) \<in> rf)"

lemma hinv_arrive:
  assumes inv: "hinv hs bt un (xs @ i # ys) R z ep bs rf"
    and out: "r = Applied \<and> (i_epoch i = ep \<longrightarrow> arrived z' rf' (i_cmd i))
      \<or> r = Refused \<and> (c_batch (i_cmd i), c_dir (i_cmd i), Declined) \<in> rf' \<or> r = Undelivered"
    and z': "z' = z \<or> i_epoch i = ep \<and> (\<forall>d. d \<noteq> c_dir (i_cmd i) \<longrightarrow> z' d = z d) \<and> arrived z' rf' (i_cmd i)"
    and rf: "rf \<subseteq> rf'"
  shows "hinv hs bt un (xs @ ys) ((i, r) # R) z' ep bs rf'"
proof -
  have live: "live ep (xs @ ys) ((i, r) # R) = live ep (xs @ i # ys) R" by (simp add: live_def)
  have "hint_ok h bt (xs @ ys) ((i, r) # R) z' ep rf'" if ok: "hint_ok h bt (xs @ i # ys) R z ep rf" for h
  proof (cases "h_state h")
    case Sent
    with ok have "live ep (xs @ i # ys) R = 0" and st: "\<forall>d < 2. settled z rf h d"
      by (simp_all add: hint_ok.simps)
    then have "i_epoch i \<noteq> ep" by (auto simp: live_def)
    with z' have "z' = z" by blast
    moreover have "\<forall>d < 2. settled z rf' h d" using st rf unfolding settled_def by (meson subsetD)
    ultimately show ?thesis using Sent live \<open>live ep (xs @ i # ys) R = 0\<close> by (simp add: hint_ok.simps)
  next
    case Sending
    let ?gone = "\<lambda>d. (\<exists>i \<in> set (cur ep (xs @ ys)). c_dir (i_cmd i) = d)
      \<or> (\<exists>(i, r) \<in> set (cur_replies ep ((i, r) # R)). r = Undelivered)"
    from ok Sending have b: "h_batch h = bt" and p: "0 < live ep (xs @ i # ys) R" "h_inflight h = live ep (xs @ i # ys) R"
      and c: "\<forall>i \<in> set (cur ep (xs @ i # ys)). c_eventid (i_cmd i) = h_event h (c_dir (i_cmd i)) \<and> c_srcid (i_cmd i) = h_src h"
      and d: "\<forall>d < 2. settled z rf h d \<or> h_failed h \<or> (\<exists>i \<in> set (cur ep (xs @ i # ys)). c_dir (i_cmd i) = d)
          \<or> (\<exists>(i, r) \<in> set (cur_replies ep R). r = Undelivered)"
      by (simp_all add: hint_ok.simps)
    have num: "i_epoch i = ep \<Longrightarrow> c_batch (i_cmd i) = bt" using inv by (simp add: hinv_def)
    have hit: "settled z' rf' h (c_dir (i_cmd i))" if "i_epoch i = ep" "arrived z' rf' (i_cmd i)"
      using that num c b by (auto simp: settled_def arrived_def)
    have mono: "settled z rf h e \<Longrightarrow> z' e = z e \<Longrightarrow> settled z' rf' h e" for e
      using rf unfolding settled_def by (metis subsetD)
    have keep: "settled z rf h e \<Longrightarrow> settled z' rf' h e" for e
      using z' hit mono by (cases "e = c_dir (i_cmd i)") auto
    have "settled z' rf' h e \<or> h_failed h \<or> ?gone e" if "e < 2" for e
    proof (cases "i_epoch i = ep \<and> c_dir (i_cmd i) = e")
      case True
      moreover have "c_batch (i_cmd i) = bt" using inv True by (simp add: hinv_def)
      ultimately show ?thesis using out hit b by (auto simp: settled_def)
    next
      case False
      from d that consider "settled z rf h e" | "h_failed h"
        | j where "j \<in> set (cur ep (xs @ i # ys))" "c_dir (i_cmd j) = e"
        | "\<exists>(i, r) \<in> set (cur_replies ep R). r = Undelivered" by blast
      then show ?thesis using False keep by cases auto
    qed
    moreover have "\<forall>i \<in> set (cur ep (xs @ ys)). c_eventid (i_cmd i) = h_event h (c_dir (i_cmd i)) \<and> c_srcid (i_cmd i) = h_src h"
      using c by auto
    ultimately show ?thesis unfolding hint_ok.simps Sending live using b p by simp
  qed simp
  with inv live show ?thesis by (auto simp: hinv_def split: option.splits)
qed

lemma hint_inv_store:
  assumes "hint_inv y" and "transit y = xs @ i # ys" and "r = Applied \<or> r = Undelivered"
  shows "hint_inv ((zms_take gone i y)\<lparr>transit := xs @ ys, replies := (i, r) # replies y\<rparr>)"
proof -
  from assms(1,2) have inv: "hinv (hints (zmsHints (pg y))) (batches (zmsHints (pg y)))
      (unanswered (zmsHints (pg y))) (xs @ i # ys) (replies y) (zms y) (epoch y) (base y) (fates y)"
    by (simp add: hint_inv_def)
  let ?t = "zms_take gone i y"
  have "i_epoch i = epoch y \<Longrightarrow> arrived (zms ?t) (fates ?t) (i_cmd i)"
    by (cases "c_srcid (i_cmd i) = playing y"; cases gone) (simp_all add: zms_take_def arrived_def Let_def, metis+)
  moreover have "zms ?t = zms y \<or> i_epoch i = epoch y \<and> (\<forall>d. d \<noteq> c_dir (i_cmd i) \<longrightarrow> zms ?t d = zms y d)"
    "fates y \<subseteq> fates ?t" "pg ?t = pg y" "epoch ?t = epoch y" "base ?t = base y"
    by (auto simp: zms_take_def Let_def)
  ultimately show ?thesis
    using hinv_arrive [OF inv, of r "zms ?t" "fates ?t"] assms(3) by (auto simp: hint_inv_def)
qed

lemma hinv_reply:
  assumes inv: "hinv (hints o1) (batches o1) (unanswered o1) T (xs @ (i, r) # ys) z ep bs rf"
  shows "hinv (hints (hints_response (c_batch (i_cmd i)) (r \<noteq> Undelivered) o1)) (batches o1)
    (unanswered (hints_response (c_batch (i_cmd i)) (r \<noteq> Undelivered) o1)) T (xs @ ys) z ep bs rf"
proof -
  let ?R = "xs @ (i, r) # ys" and ?b = "c_batch (i_cmd i)"
  from inv have un: "unanswered o1 = (if live ep T ?R = 0 then [] else [(batches o1, live ep T ?R)])"
    and num: "numbered ep bs (batches o1) T" "numbered ep bs (batches o1) (map fst (xs @ ys))" "bs \<le> batches o1"
    and cur: "i_epoch i = ep \<Longrightarrow> ?b = batches o1" and old: "i_epoch i \<noteq> ep \<Longrightarrow> ?b \<le> bs"
    by (simp_all add: hinv_def)
  have bat: "0 < live ep T ?R \<Longrightarrow> bs < batches o1"
    using inv numbered_live [of ep bs "batches o1" T ?R] by (simp add: hinv_def)
  show ?thesis
  proof (cases "i_epoch i = ep")
    case False
    then have live: "live ep T (xs @ ys) = live ep T ?R" by (simp add: live_def)
    have "answer_one ?b (unanswered o1) = unanswered o1"
      using un old [OF False] bat by (cases "live ep T ?R = 0") (auto simp: answer_one_def)
    moreover have "hint_ok h (batches o1) T (xs @ ys) z ep rf \<and> (h_batch h \<noteq> ?b \<or> h_state h \<noteq> Sending)"
      if "hint_ok h (batches o1) T ?R z ep rf" for h
      using that live old [OF False] bat False by (cases "h_state h") (auto simp: hint_ok.simps)
    ultimately show ?thesis
      using inv live num by (auto simp: hinv_def hints_response_def Let_def split: option.splits)
  next
    case True
    then have live: "live ep T ?R = Suc (live ep T (xs @ ys))" by (simp add: live_def)
    have ans: "answer_one ?b (unanswered o1)
        = (if live ep T (xs @ ys) = 0 then [] else [(batches o1, live ep T (xs @ ys))])"
      using un live cur [OF True] by (simp add: answer_one_def)
    have "hint_ok h' (batches o1) T (xs @ ys) z ep rf"
      if ok: "hint_ok h (batches o1) T ?R z ep rf"
        and h': "h' = (if h_state h \<noteq> Sending then h else
          let h1 = (if r = Undelivered then h\<lparr>h_failed := True\<rparr> else h);
              h2 = h1\<lparr>h_inflight := h_inflight h1 - 1\<rparr>
          in if h_inflight h2 > 0 then h2 else h2\<lparr>h_state := (if h_failed h2 then Unsent else Sent)\<rparr>)" for h h'
    proof (cases "h_state h")
      case Sent
      with ok live show ?thesis by (simp add: hint_ok.simps)
    next
      case Sending
      let ?out = "\<lambda>e. (\<exists>j \<in> set (cur ep T). c_dir (i_cmd j) = e)
        \<or> (\<exists>(j, q) \<in> set (cur_replies ep (xs @ ys)). q = Undelivered)"
      from ok Sending have b: "h_batch h = batches o1" and n: "h_inflight h = Suc (live ep T (xs @ ys))"
        and c: "\<forall>j \<in> set (cur ep T). c_eventid (i_cmd j) = h_event h (c_dir (i_cmd j)) \<and> c_srcid (i_cmd j) = h_src h"
        and d: "\<forall>e < 2. settled z rf h e \<or> h_failed h \<or> (\<exists>j \<in> set (cur ep T). c_dir (i_cmd j) = e)
          \<or> (\<exists>(j, q) \<in> set (cur_replies ep ?R). q = Undelivered)"
        using live by (simp_all add: hint_ok.simps)
      from d have d': "\<forall>e < 2. settled z rf h e \<or> (h_failed h \<or> r = Undelivered) \<or> ?out e"
        by (auto split: if_splits)
      show ?thesis
      proof (cases "live ep T (xs @ ys) = 0")
        case True
        then have "\<not> ?out e" for e by (auto simp: live_def filter_empty_conv)
        with d' True n h' Sending show ?thesis by (auto simp: hint_ok.simps Let_def)
      next
        case False
        with n h' Sending b c d' show ?thesis
          unfolding hint_ok.simps by (cases "r = Undelivered") (simp_all add: Let_def)
      qed
    qed (use h' in simp)
    note keep = this
    show ?thesis
    proof (cases "hints o1")
      case None
      with ans num show ?thesis by (simp add: hinv_def hints_response_def)
    next
      case (Some h)
      with inv have ok: "hint_ok h (batches o1) T ?R z ep rf" by (simp add: hinv_def)
      then have "h_state h = Sending \<Longrightarrow> h_batch h = ?b" using cur [OF True] by (simp add: hint_ok.simps)
      with Some have "hints (hints_response ?b (r \<noteq> Undelivered) o1) = Some (if h_state h \<noteq> Sending then h else
          let h1 = (if r = Undelivered then h\<lparr>h_failed := True\<rparr> else h);
              h2 = h1\<lparr>h_inflight := h_inflight h1 - 1\<rparr>
          in if h_inflight h2 > 0 then h2 else h2\<lparr>h_state := (if h_failed h2 then Unsent else Sent)\<rparr>)"
        by (simp add: hints_response_def Let_def)
      moreover have "unanswered (hints_response ?b (r \<noteq> Undelivered) o1) = answer_one ?b (unanswered o1)"
        by (simp add: hints_response_def Let_def split: option.splits)
      ultimately show ?thesis using keep [OF ok refl] ans num by (simp add: hinv_def)
    qed
  qed
qed


lemma hint_inv_step: "hint_step y z \<Longrightarrow> hint_inv y \<Longrightarrow> hint_inv z"
proof (induction rule: hint_step.induct)
  case (refused y xs i ys)
  then have inv: "hinv (hints (zmsHints (pg y))) (batches (zmsHints (pg y)))
      (unanswered (zmsHints (pg y))) (xs @ i # ys) (replies y) (zms y) (epoch y) (base y) (fates y)"
    by (simp add: hint_inv_def)
  show ?case using hinv_arrive [OF inv, of Refused "zms y" "insert (c_batch (i_cmd i), c_dir (i_cmd i), Declined) (fates y)"]
    by (auto simp: hint_inv_def)
next
  case (lost y xs i ys)
  then have inv: "hinv (hints (zmsHints (pg y))) (batches (zmsHints (pg y)))
      (unanswered (zmsHints (pg y))) (xs @ i # ys) (replies y) (zms y) (epoch y) (base y) (fates y)"
    by (simp add: hint_inv_def)
  show ?case using hinv_arrive [OF inv, of Undelivered "zms y" "fates y"] by (auto simp: hint_inv_def)
next
  case (moves y e)
  then show ?case by (simp add: hint_inv_def)
next
  case (reply y xs i r ys)
  have "batches (hints_response b d o1) = batches o1" for b d o1
    by (simp add: hints_response_def Let_def split: option.splits)
  then show ?case
    using reply hinv_reply [of "zmsHints (pg y)" "transit y" xs i r ys]
    by (simp add: hint_inv_def setEvent_reply_def)
qed (blast intro: hint_inv_status hint_inv_near_reply hint_inv_restart hint_inv_store)+

lemma hint_inv_init: "hint_inv hint_init"
  by (simp add: hint_inv_def hinv_def hint_init_def hints_create_def live_def)

lemma hint_reachable_inv: "hint_reachable y \<Longrightarrow> hint_inv y"
  by (induction rule: hint_reachable.induct) (auto intro: hint_inv_init hint_inv_step)

lemma demo_sending_reachable: "hint_reachable demo_sending"
  unfolding demo_sending_def
  by (rule hint_reachable.step [OF hint_reachable.step [OF hint_reachable.start hint_step.status] hint_step.near])

lemma demo_sending_simps:
  "hints (zmsHints (pg demo_sending)) = Some (demo_hint Sending 2)"
  "unanswered (zmsHints (pg demo_sending)) = [(1, 2)]"
  "transit demo_sending = [demo_cmd 0, demo_cmd 1]" "replies demo_sending = []"
  "zms demo_sending = Map.empty" "epoch demo_sending = 0" "fates demo_sending = {}"
  by (simp_all add: demo_sending_def post_def hint_init_def getCmdResponse_def hints_create_def
      hints_needsLookup_def nearEventsQuery_def hints_lookingUp_def sendZmsHints_def hints_take_def
      nearEvents_reply_def hints_isLatestLookup_def getNearEventsResponse_def hints_set_def
      hints_lookupDone_def demo_hint_def demo_cmd_def Let_def)

lemma demo_sent_reachable: "hint_reachable demo_sent"
proof -
  let ?y = "demo_sending\<lparr>playing := 5\<rparr>"
  let ?a = "(zms_take False (demo_cmd 0) ?y)\<lparr>transit := [] @ [demo_cmd 1], replies := (demo_cmd 0, Applied) # replies ?y\<rparr>"
  let ?b = "(zms_take False (demo_cmd 1) ?a)\<lparr>transit := [] @ [], replies := (demo_cmd 1, Applied) # replies ?a\<rparr>"
  let ?c = "?b\<lparr>pg := setEvent_reply (c_batch (i_cmd (demo_cmd 1))) Applied (pg ?b), replies := [] @ [(demo_cmd 0, Applied)]\<rparr>"
  let ?d = "?c\<lparr>pg := setEvent_reply (c_batch (i_cmd (demo_cmd 0))) Applied (pg ?c), replies := [] @ []\<rparr>"
  note [simp] = demo_sending_simps
  have y: "hint_step demo_sending ?y" by (rule hint_step.moves)
  have a: "hint_step ?y ?a" by (rule hint_step.taken) simp
  have b: "hint_step ?a ?b" by (rule hint_step.taken) simp
  have c: "hint_step ?b ?c" by (rule hint_step.reply) (simp add: zms_take_def)
  have d: "hint_step ?c ?d" by (rule hint_step.reply) simp
  have "hint_reachable ?d"
    by (rule hint_reachable.step [OF hint_reachable.step [OF hint_reachable.step [OF
          hint_reachable.step [OF hint_reachable.step [OF demo_sending_reachable y] a] b] c] d])
  moreover have "?d = demo_sent"
    by (simp add: demo_sent_def zms_take_def setEvent_reply_def hints_response_def answer_one_def
        demo_cmd_def demo_hint_def)
  ultimately show ?thesis by simp
qed

section \<open>Properties\<close>

text \<open>
  C17. When the page believes its hints sent, every command of them has arrived: in every run,
  whatever the order in which commands and replies travel, whenever zms moves to another event, however many restarts and whatever late
  replies of earlier sends arrive, a hint in state \<open>Sent\<close> means that in each direction zms
  holds exactly the page's neighbour for the event, or holds the boundary because the server found that neighbour deleted, or
  that very command was declined by the server, or reached zms while it was playing another event than the one the hint is for.
\<close>

theorem sent_hints_held_by_zms:
  assumes "hint_reachable y" and "hints (zmsHints (pg y)) = Some h" and "h_state h = Sent" and "d < 2"
  shows "zms y d = Some (if d = 0 then h_next h else h_prev h, h_src h)
    \<or> zms y d = Some (0, h_src h) \<and> (h_batch h, d, Deleted) \<in> fates y
    \<or> (h_batch h, d, Declined) \<in> fates y \<or> (\<exists>e. e \<noteq> h_src h \<and> (h_batch h, d, Stale e) \<in> fates y)"
  using hint_reachable_inv [OF assms(1)] assms(2-4)
  by (simp add: hint_inv_def hinv_def hint_ok.simps settled_def h_event_def)

theorem sent_hints_held_by_zms_witness: "zms demo_sent 1 = Some (4, 5)"
  using sent_hints_held_by_zms [OF demo_sent_reachable, of "demo_hint Sent 0" 1]
  by (simp add: demo_sent_def demo_hint_def demo_sending_simps)

text \<open>
  A send is never stuck: while a hint is in state \<open>Sending\<close>, as many of its commands or
  replies as it waits for are under way to the current zms, all of the last batch, so
  the replies that settle it will come; and no second batch is ever under way beside it.
\<close>

lemma sending_hint_not_stuck:
  assumes "hint_reachable y" and "hints (zmsHints (pg y)) = Some h" and "h_state h = Sending"
  shows "0 < h_inflight h
    \<and> h_inflight h = live (epoch y) (transit y) (replies y)
    \<and> unanswered (zmsHints (pg y)) = [(h_batch h, h_inflight h)]
    \<and> (\<forall>i \<in> set (transit y) \<union> fst ` set (replies y). i_epoch i = epoch y \<longrightarrow> c_batch (i_cmd i) = h_batch h)"
  using hint_reachable_inv [OF assms(1)] assms(2,3)
  by (auto simp: hint_inv_def hinv_def hint_ok.simps numbered_def)

text \<open>
  A reply settles only its own send: the reply to any other batch leaves the hints
  untouched, and the replies of a batch settle it as sent exactly when all were delivered.
\<close>

lemma late_reply_ignored:
  "hints o1 = Some h \<Longrightarrow>
   hints (hints_response b dl o1) =
     (if h_batch h \<noteq> b \<or> h_state h \<noteq> Sending then Some h
      else Some (h\<lparr>h_failed := (h_failed h \<or> \<not> dl), h_inflight := h_inflight h - 1,
        h_state := (if h_inflight h - 1 > 0 then Sending
                    else if h_failed h \<or> \<not> dl then Unsent else Sent)\<rparr>))"
  by (auto simp: hints_response_def Let_def)

end
