(* ===== verification/Zone_Editor.thy ===== *)
theory Zone_Editor
  imports Js_Text "HOL-Library.Word"
begin

unbundle bit_operations_syntax

text \<open>
  The zone editor, \<^verbatim>\<open>views/js/zone.js\<close>. The page state is the form (the text of every
  named element and whether it is disabled), the pixel twins of the six area thresholds, the
  colour picker, the polygon of the zone object with the inputs that show its corners, and
  the snapshot that change detection and the reset button use. Every function of the script
  that changes this state is a definition; what it only draws (the SVG outline, the handles,
  the highlighting of rows) is left out, and what it reads from the layout (the size of the
  feed, the position of a dragged handle) is an argument.
\<close>

section \<open>The form\<close>

datatype zfield = REFERER | VView | Action | Mid | Zid | NumCoords | Coords | AlarmRGB | Codec
  | ZName | ZType | presetSelector | Units | newAlarmRgbR | newAlarmRgbG | newAlarmRgbB
  | CheckMethod | MinPixelThreshold | MaxPixelThreshold | FilterX | FilterY | Area
  | MinAlarmPixels | MaxAlarmPixels | MinFilterPixels | MaxFilterPixels | MinBlobPixels
  | MaxBlobPixels | MinBlobs | MaxBlobs | OverloadFrames | ExtendAlarmFrames

text \<open>The named elements in document order, with the name each has in the form.\<close>

definition form_elements :: "(zfield \<times> string) list" where
  "form_elements =
    [(REFERER, ''REFERER''), (VView, ''view''), (Action, ''action''), (Mid, ''mid''), (Zid, ''zid''),
     (NumCoords, ''newZone[NumCoords]''), (Coords, ''newZone[Coords]''),
     (AlarmRGB, ''newZone[AlarmRGB]''), (Codec, ''codec''), (ZName, ''newZone[Name]''),
     (ZType, ''newZone[Type]''), (presetSelector, ''presetSelector''), (Units, ''newZone[Units]''),
     (newAlarmRgbR, ''newAlarmRgbR''), (newAlarmRgbG, ''newAlarmRgbG''), (newAlarmRgbB, ''newAlarmRgbB''),
     (CheckMethod, ''newZone[CheckMethod]''), (MinPixelThreshold, ''newZone[MinPixelThreshold]''),
     (MaxPixelThreshold, ''newZone[MaxPixelThreshold]''), (FilterX, ''newZone[FilterX]''),
     (FilterY, ''newZone[FilterY]''), (Area, ''newZone[Area]''),
     (MinAlarmPixels, ''newZone[MinAlarmPixels]''), (MaxAlarmPixels, ''newZone[MaxAlarmPixels]''),
     (MinFilterPixels, ''newZone[MinFilterPixels]''), (MaxFilterPixels, ''newZone[MaxFilterPixels]''),
     (MinBlobPixels, ''newZone[MinBlobPixels]''), (MaxBlobPixels, ''newZone[MaxBlobPixels]''),
     (MinBlobs, ''newZone[MinBlobs]''), (MaxBlobs, ''newZone[MaxBlobs]''),
     (OverloadFrames, ''newZone[OverloadFrames]''), (ExtendAlarmFrames, ''newZone[ExtendAlarmFrames]'')]"

text \<open>The elements with \<^verbatim>\<open>type="number"\<close>, and those with a pixel twin beside them.\<close>

definition number_fields :: "zfield list" where
  "number_fields = [newAlarmRgbR, newAlarmRgbG, newAlarmRgbB, MinPixelThreshold, MaxPixelThreshold,
     FilterX, FilterY, MinAlarmPixels, MaxAlarmPixels, MinFilterPixels, MaxFilterPixels,
     MinBlobPixels, MaxBlobPixels, MinBlobs, MaxBlobs, OverloadFrames, ExtendAlarmFrames]"

definition pixel_fields :: "zfield list" where
  "pixel_fields = [MinAlarmPixels, MaxAlarmPixels, MinFilterPixels, MaxFilterPixels,
     MinBlobPixels, MaxBlobPixels]"

type_synonym zpoint = "js_num \<times> js_num"

record zone_page =
  elems :: "zfield \<Rightarrow> string"
  off :: "zfield \<Rightarrow> bool"
  pxs :: "zfield \<Rightarrow> string"
  px_off :: "zfield \<Rightarrow> bool"
  picker :: string
  picker_off :: bool
  Points :: "zpoint list"
  zArea :: js_num
  pointInputs :: "(string \<times> string) list"
  changedPoints :: "bool list"
  areaPercent :: js_num
  areaPixels :: js_num
  resetOff :: bool
  initialState :: "string option"
  initialValues :: "(zfield \<Rightarrow> string) option"
  initialPoints :: "zpoint list option"

text \<open>What the server writes into the page, and the size of the feed element.\<close>

record preset =
  CheckMethodIndex :: nat
  presetValues :: "zfield \<Rightarrow> string"

record zone_env =
  monitorPixelArea :: rat
  presets :: "string \<Rightarrow> preset option"
  selfIntersecting :: bool

definition maxX :: js_num where "maxX = Fin 100"
definition maxY :: js_num where "maxY = Fin 100"
definition monitorArea :: js_num where "monitorArea = Fin 10000"

text \<open>
  A number input keeps only text that is a floating-point number; assigning anything else
  empties it.
\<close>

definition sanitise_number :: "string \<Rightarrow> string" where
  "sanitise_number s = (if valid_float s then s else [])"

definition set_value :: "zfield \<Rightarrow> string \<Rightarrow> zone_page \<Rightarrow> zone_page" where
  "set_value f v s =
     s\<lparr>elems := (elems s)(f := if f \<in> set number_fields then sanitise_number v else v)\<rparr>"

definition set_off :: "zfield list \<Rightarrow> bool \<Rightarrow> zone_page \<Rightarrow> zone_page" where
  "set_off fs b s = s\<lparr>off := (\<lambda>f. if f \<in> set fs then b else off s f)\<rparr>"

section \<open>Validation and submission\<close>

text \<open>\<^verbatim>\<open>ToInt32\<close> of a number and the packing of the three colour components.\<close>

definition trunc_rat :: "rat \<Rightarrow> int" where
  "trunc_rat x = (if x < 0 then - \<lfloor>- x\<rfloor> else \<lfloor>x\<rfloor>)"

fun to_int32 :: "js_num \<Rightarrow> 32 word" where
  "to_int32 (Fin x) = word_of_int (trunc_rat x)"
| "to_int32 _ = 0"

definition packRGB :: "zone_page \<Rightarrow> string" where
  "packRGB s = (let c = (\<lambda>f. to_int32 (js_Number (elems s f))) in
     int_to_str (sint (push_bit 16 (c newAlarmRgbR) OR push_bit 8 (c newAlarmRgbG) OR c newAlarmRgbB)))"

datatype zone_error = SelfIntersecting | AlarmRGBUnset | MinPixelThresUnset | MinPixelThresLtMax
  | FilterUnset | MinAlarmAreaUnset | MinAlarmAreaLtMax | MinFilterAreaUnset | MinFilterAreaLtMax
  | MinFilterLtMinAlarm | MinBlobAreaUnset | MinBlobAreaLtMax | MinBlobLtMinFilter
  | MinBlobsUnset | MinBlobsLtMax

text \<open>
  The comparisons of one pair of limits: unset or not positive, then not below a positive
  maximum. \<open>rd\<close> is \<^verbatim>\<open>parseInt\<close> or \<^verbatim>\<open>parseFloat\<close>.
\<close>

definition min_unset :: "(string \<Rightarrow> js_num) \<Rightarrow> string \<Rightarrow> bool" where
  "min_unset rd v \<longleftrightarrow> v = [] \<or> num_le (rd v) (Fin 0)"

definition min_not_below :: "(string \<Rightarrow> js_num) \<Rightarrow> string \<Rightarrow> string \<Rightarrow> bool" where
  "min_not_below rd v w \<longleftrightarrow> num_ge (rd v) (rd w) \<and> num_gt (rd w) (Fin 0)"

abbreviation readInt :: "string \<Rightarrow> js_num" where
  "readInt s \<equiv> num_of_int (parseInt s)"

definition is_inert :: "zone_page \<Rightarrow> bool" where
  "is_inert s \<longleftrightarrow> elems s ZType = ''Inactive'' \<or> elems s ZType = ''Privacy''"

definition uses_filter :: "zone_page \<Rightarrow> bool" where
  "uses_filter s \<longleftrightarrow> elems s CheckMethod = ''FilteredPixels'' \<or> elems s CheckMethod = ''Blobs''"

definition zone_errors :: "zone_page \<Rightarrow> zone_error list" where
  "zone_errors s = (let e = elems s in
     (if e newAlarmRgbR = [] \<or> e newAlarmRgbG = [] \<or> e newAlarmRgbB = [] then [AlarmRGBUnset] else [])
   @ (if min_unset readInt (e MinPixelThreshold) then [MinPixelThresUnset]
      else if min_not_below readInt (e MinPixelThreshold) (e MaxPixelThreshold) then [MinPixelThresLtMax]
      else [])
   @ (if uses_filter s \<and> (e FilterX = [] \<or> e FilterY = []) then [FilterUnset] else [])
   @ (if min_unset parseFloat (e MinAlarmPixels) then [MinAlarmAreaUnset]
      else if min_not_below parseFloat (e MinAlarmPixels) (e MaxAlarmPixels) then [MinAlarmAreaLtMax]
      else [])
   @ (if uses_filter s then
        (if min_unset parseFloat (e MinFilterPixels) then [MinFilterAreaUnset]
         else if min_not_below parseFloat (e MinFilterPixels) (e MaxFilterPixels) then [MinFilterAreaLtMax]
         else if num_lt (parseFloat (e MinAlarmPixels)) (parseFloat (e MinFilterPixels)) then [MinFilterLtMinAlarm]
         else [])
      @ (if e CheckMethod = ''Blobs'' then
           (if min_unset parseFloat (e MinBlobPixels) then [MinBlobAreaUnset]
            else if min_not_below parseFloat (e MinBlobPixels) (e MaxBlobPixels) then [MinBlobAreaLtMax]
            else if num_lt (parseFloat (e MinFilterPixels)) (parseFloat (e MinBlobPixels)) then [MinBlobLtMinFilter]
            else [])
         @ (if min_unset readInt (e MinBlobs) then [MinBlobsUnset]
            else if min_not_below readInt (e MinBlobs) (e MaxBlobs) then [MinBlobsLtMax]
            else [])
         else [])
      else []))"

text \<open>The errors (empty when the form is accepted) and the page with the packed colour.\<close>

definition validateForm :: "zone_env \<Rightarrow> zone_page \<Rightarrow> zone_error list \<times> zone_page" where
  "validateForm env s =
     (let e0 = (if selfIntersecting env then [SelfIntersecting] else []) in
      if is_inert s then (e0, s)
      else (e0 @ zone_errors s, set_value AlarmRGB (packRGB s) s))"

definition getCoordString :: "zone_page \<Rightarrow> string" where
  "getCoordString s = join '' '' (map (\<lambda>(x, y). toFixed2 x @ '','' @ toFixed2 y) (Points s))"

text \<open>A submitted form posts the elements that are not disabled.\<close>

definition posted :: "zone_page \<Rightarrow> (string \<times> string) list" where
  "posted s = map (\<lambda>(f, n). (n, elems s f)) (filter (\<lambda>(f, n). \<not> off s f) form_elements)"

definition submitForm :: "zone_page \<Rightarrow> zone_page" where
  "submitForm s =
     set_value Area (num_to_str (zArea s))
       (set_value Coords (getCoordString s)
         (set_value NumCoords (nat_to_str (length (Points s)))
           (set_value AlarmRGB (packRGB s) s)))"

datatype zone_effect = AlertErrors "zone_error list" | Submit "(string \<times> string) list"
  | AlertPrivacy | StopMonitors

definition saveChanges :: "zone_env \<Rightarrow> zone_page \<Rightarrow> bool \<times> zone_page \<times> zone_effect list" where
  "saveChanges env s = (let (errs, s1) = validateForm env s in
     if errs = [] then
       (let s2 = submitForm s1
        in (True, s2, [Submit (posted s2)]
             @ (if elems s2 ZType = ''Privacy'' then [AlertPrivacy] else []) @ [StopMonitors]))
     else (False, s1, [AlertErrors errs]))"

section \<open>Change detection\<close>

definition constrainValue :: "js_num \<Rightarrow> js_num \<Rightarrow> js_num \<Rightarrow> js_num" where
  "constrainValue v lo hi = (if num_lt v lo then lo else if num_gt v hi then hi else v)"

text \<open>
  The point inputs stand at the end of the form, in two tables filled in turn: first the
  points with an even index, then the others.
\<close>

definition point_order :: "nat \<Rightarrow> nat list" where
  "point_order n = filter even [0..<n] @ filter odd [0..<n]"

definition point_name :: "nat \<Rightarrow> string \<Rightarrow> string" where
  "point_name i c = ''newZone[Points]['' @ nat_to_str i @ '']['' @ c @ '']''"

definition state_item :: "bool \<Rightarrow> string \<Rightarrow> string \<Rightarrow> string" where
  "state_item number n v = n @ ''='' @ (if number \<and> v \<noteq> [] then num_to_str (parseFloat v) else v)"

definition formState :: "zone_page \<Rightarrow> string" where
  "formState s = join ''&''
     (map (\<lambda>(f, n). state_item (f \<in> set number_fields) n (elems s f))
          (filter (\<lambda>(f, n). f \<noteq> presetSelector) form_elements)
      @ concat (map (\<lambda>i. [state_item True (point_name i ''x'') (fst (pointInputs s ! i)),
                          state_item True (point_name i ''y'') (snd (pointInputs s ! i))])
                    (point_order (length (pointInputs s)))))"

definition point_changed :: "zpoint list \<Rightarrow> nat \<Rightarrow> zpoint \<Rightarrow> bool" where
  "point_changed ps i q \<longleftrightarrow> i \<ge> length ps
     \<or> toFixed2 (fst q) \<noteq> toFixed2 (fst (ps ! i)) \<or> toFixed2 (snd q) \<noteq> toFixed2 (snd (ps ! i))"

definition markChangedPoints :: "zone_page \<Rightarrow> zone_page" where
  "markChangedPoints s = (case initialPoints s of
     None \<Rightarrow> s
   | Some ps \<Rightarrow> s\<lparr>changedPoints :=
       map (\<lambda>i. point_changed ps i (Points s ! i)) [0..<length (Points s)]\<rparr>)"

definition checkDirty :: "zone_page \<Rightarrow> zone_page" where
  "checkDirty s = (case initialState s of
     None \<Rightarrow> s
   | Some st \<Rightarrow> markChangedPoints (s\<lparr>resetOff := (formState s = st)\<rparr>))"

section \<open>Enabling and disabling\<close>

definition syncPixelInputStates :: "zone_page \<Rightarrow> zone_page" where
  "syncPixelInputStates s =
     s\<lparr>px_off := (\<lambda>f. if f \<in> set pixel_fields then off s f else px_off s f)\<rparr>"

text \<open>The colour picker: two hexadecimal digits per component; it keeps valid colours only.\<close>

definition hex_char :: "nat \<Rightarrow> char" where
  "hex_char d = ''0123456789abcdef'' ! d"

fun nat_to_hex :: "nat \<Rightarrow> string" where
  "nat_to_hex n = (if n < 16 then [hex_char n] else nat_to_hex (n div 16) @ [hex_char (n mod 16)])"

declare nat_to_hex.simps [simp del]

definition int_to_hex :: "int \<Rightarrow> string" where
  "int_to_hex n = (if n < 0 then CHR ''-'' # nat_to_hex (nat (- n)) else nat_to_hex (nat n))"

definition hex2 :: "string \<Rightarrow> string" where
  "hex2 v = (let t = ''0'' @ int_to_hex (case parseInt v of None \<Rightarrow> 0 | Some n \<Rightarrow> n)
     in drop (length t - 2) t)"

definition sanitise_colour :: "string \<Rightarrow> string" where
  "sanitise_colour c =
     (if length c = 7 \<and> hd c = CHR ''#'' \<and> list_all (\<lambda>d. digit36 d < 16) (tl c)
      then to_lower c else ''#000000'')"

definition alarmColourFromInputs :: "zone_page \<Rightarrow> zone_page" where
  "alarmColourFromInputs s =
     s\<lparr>picker := sanitise_colour (''#'' @ hex2 (elems s newAlarmRgbR) @ hex2 (elems s newAlarmRgbG)
                                  @ hex2 (elems s newAlarmRgbB)),
       picker_off := off s newAlarmRgbR\<rparr>"

definition substr2 :: "nat \<Rightarrow> string \<Rightarrow> string" where
  "substr2 i s = take 2 (drop i s)"

definition alarmColourToInputs :: "zone_page \<Rightarrow> zone_page" where
  "alarmColourToInputs s = (let c = (\<lambda>i. num_to_str (num_of_int (parseInt16 (substr2 i (picker s))))) in
     checkDirty (set_value newAlarmRgbB (c 5) (set_value newAlarmRgbG (c 3) (set_value newAlarmRgbR (c 1) s))))"

definition filter_fields :: "zfield list" where
  "filter_fields = [FilterX, FilterY, MinFilterPixels, MaxFilterPixels]"

definition blob_fields :: "zfield list" where
  "blob_fields = [MinBlobPixels, MaxBlobPixels, MinBlobs, MaxBlobs]"

definition applyCheckMethod :: "zone_page \<Rightarrow> zone_page" where
  "applyCheckMethod s = syncPixelInputStates
     (if elems s CheckMethod = ''AlarmedPixels'' then set_off (filter_fields @ blob_fields) True s
      else if elems s CheckMethod = ''FilteredPixels'' then set_off blob_fields True (set_off filter_fields False s)
      else set_off (filter_fields @ blob_fields) False s)"

definition rgb_fields :: "zfield list" where
  "rgb_fields = [newAlarmRgbR, newAlarmRgbG, newAlarmRgbB]"

definition detection_fields :: "zfield list" where
  "detection_fields = [presetSelector, CheckMethod, MinPixelThreshold, MaxPixelThreshold,
     MinAlarmPixels, MaxAlarmPixels, OverloadFrames]"

definition applyZoneType :: "zone_page \<Rightarrow> zone_page" where
  "applyZoneType s = alarmColourFromInputs (syncPixelInputStates
     (if is_inert s then
        set_off (rgb_fields @ detection_fields @ filter_fields @ blob_fields @ [ExtendAlarmFrames]) True s
      else if elems s ZType = ''Preclusive'' then
        applyCheckMethod (set_off rgb_fields True
          (set_off (detection_fields @ [ExtendAlarmFrames]) False s))
      else
        applyCheckMethod (set_off [ExtendAlarmFrames] True
          (set_off (rgb_fields @ detection_fields) False s))))"

section \<open>Percentages and pixels\<close>

definition pixelArea :: "zone_env \<Rightarrow> zone_page \<Rightarrow> js_num" where
  "pixelArea env s = num_round (num_mul (num_div (zArea s) monitorArea) (Fin (monitorPixelArea env)))"

definition updatePixelFromPercent :: "zone_env \<Rightarrow> zfield \<Rightarrow> zone_page \<Rightarrow> zone_page" where
  "updatePixelFromPercent env f s =
     (if f \<in> set pixel_fields then
        s\<lparr>pxs := (pxs s)(f :=
          if elems s f \<noteq> [] \<and> num_gt (pixelArea env s) (Fin 0)
          then field_of_num (num_round (num_div (num_mul (parseFloat (elems s f)) (pixelArea env s)) (Fin 100)))
          else [])\<rparr>
      else s)"

definition updatePercentFromPixel :: "zone_env \<Rightarrow> zfield \<Rightarrow> zone_page \<Rightarrow> zone_page" where
  "updatePercentFromPixel env f s =
     (if pxs s f \<noteq> [] \<and> num_gt (pixelArea env s) (Fin 0) then
        (let px = num_max (Fin 0) (num_min (readInt (pxs s f)) (pixelArea env s))
         in set_value f (num_to_str (num_div (num_round (num_mul (num_div px (pixelArea env s)) (Fin 10000))) (Fin 100)))
              (s\<lparr>pxs := (pxs s)(f := field_of_num px)\<rparr>))
      else set_value f [] s)"

definition updateAllPixelDisplays :: "zone_env \<Rightarrow> zone_page \<Rightarrow> zone_page" where
  "updateAllPixelDisplays env s =
     (let pct = num_round (num_mul (num_div (zArea s) monitorArea) (Fin 100));
          s1 = (set_value Area (num_to_str pct) s)\<lparr>areaPercent := pct, areaPixels := pixelArea env s\<rparr>
      in foldl (\<lambda>t f. updatePixelFromPercent env f t) s1 pixel_fields)"

text \<open>The list of check methods in the form, by index.\<close>

definition checkMethods :: "string list" where
  "checkMethods = [''AlarmedPixels'', ''FilteredPixels'', ''Blobs'']"

definition applyPreset :: "zone_env \<Rightarrow> zone_page \<Rightarrow> zone_page" where
  "applyPreset env s = (case presets env (elems s presetSelector) of
     None \<Rightarrow> s
   | Some p \<Rightarrow>
      (let s1 = set_value CheckMethod
                  (if CheckMethodIndex p < length checkMethods then checkMethods ! CheckMethodIndex p else []) s;
           s2 = foldl (\<lambda>t f. set_value f (presetValues p f) t) s1
                  [MinPixelThreshold, MaxPixelThreshold, FilterX, FilterY, MinAlarmPixels, MaxAlarmPixels,
                   MinFilterPixels, MaxFilterPixels, MinBlobPixels, MaxBlobPixels, MinBlobs, MaxBlobs,
                   OverloadFrames, ExtendAlarmFrames]
       in updateAllPixelDisplays env (set_value Area ''100'' (applyCheckMethod s2))))"

section \<open>Limits on what is typed\<close>

definition limitRange :: "zfield \<Rightarrow> js_num \<Rightarrow> js_num \<Rightarrow> zone_page \<Rightarrow> zone_page" where
  "limitRange f lo hi s =
     (if elems s f \<noteq> [] then
        (let cur = parseFloat (elems s f); k = constrainValue cur lo hi
         in if num_eq k cur then s else set_value f (num_to_str k) s)
      else s)"

definition limitRangeToUnsignedByte :: "zfield \<Rightarrow> zone_page \<Rightarrow> zone_page" where
  "limitRangeToUnsignedByte f s =
     (if elems s f \<noteq> [] then
        set_value f (num_to_str (constrainValue (readInt (elems s f)) (Fin 0) (Fin 255))) s
      else s)"

definition limitFilter :: "zfield \<Rightarrow> zone_page \<Rightarrow> zone_page" where
  "limitFilter f s =
     (let odd = num_add (num_mul (num_floor (num_div (num_sub (js_Number (elems s f)) (Fin 1)) (Fin 2))) (Fin 2)) (Fin 1);
          s1 = set_value f (num_to_str odd) s
      in set_value f (num_to_str (constrainValue (readInt (elems s1 f)) (Fin 3) (Fin 15))) s1)"

definition limitArea :: "zone_env \<Rightarrow> zfield \<Rightarrow> zone_page \<Rightarrow> zone_page" where
  "limitArea env f s = updatePixelFromPercent env f (limitRange f (Fin 0) (Fin 100) s)"

section \<open>The polygon\<close>

definition trap_area :: "zpoint \<Rightarrow> zpoint \<Rightarrow> js_num" where
  "trap_area p q = num_div (num_sub (num_mul (fst p) (snd q)) (num_mul (fst q) (snd p))) (Fin 2)"

text \<open>
  The loop over consecutive corners and the closing edge. For an empty polygon the source
  raises; the editor never has fewer than three corners.
\<close>

fun trap_sum :: "js_num \<Rightarrow> zpoint list \<Rightarrow> js_num" where
  "trap_sum a (p # q # ps) = trap_sum (num_add a (trap_area p q)) (q # ps)"
| "trap_sum a _ = a"

definition Polygon_calcArea :: "zpoint list \<Rightarrow> js_num option" where
  "Polygon_calcArea ps = (if ps = [] then None
     else Some (num_round (num_abs (num_add (trap_sum (Fin 0) ps) (trap_area (last ps) (hd ps))))))"

text \<open>An exception leaves \<^verbatim>\<open>zone.Area\<close> alone and ends the handler.\<close>

definition updateArea :: "zone_env \<Rightarrow> zone_page \<Rightarrow> zone_page" where
  "updateArea env s = (case Polygon_calcArea (Points s) of
     None \<Rightarrow> s
   | Some a \<Rightarrow> checkDirty (updateAllPixelDisplays env (s\<lparr>zArea := a\<rparr>)))"

definition point_text :: "js_num \<Rightarrow> string" where
  "point_text x = sanitise_number (toFixed2 x)"

definition drawZonePoints :: "zone_page \<Rightarrow> zone_page" where
  "drawZonePoints s = checkDirty
     (s\<lparr>pointInputs := map (\<lambda>(x, y). (point_text x, point_text y)) (Points s),
        changedPoints := replicate (length (Points s)) False\<rparr>)"

definition coord_of_px :: "js_num \<Rightarrow> js_num \<Rightarrow> js_num \<Rightarrow> js_num" where
  "coord_of_px p frame hi =
     constrainValue
       (num_div (num_round (num_mul (num_mul (num_div (num_max p (Fin 0)) frame) hi) (Fin 100))) (Fin 100))
       (Fin 0) hi"

text \<open>\<open>pos\<close> is the position of the dragged handle in the feed of size \<open>fw\<close> by \<open>fh\<close>.\<close>

definition updateActivePoint :: "zone_env \<Rightarrow> nat \<times> nat \<Rightarrow> nat \<Rightarrow> int \<times> int \<Rightarrow> zone_page \<Rightarrow> zone_page" where
  "updateActivePoint env frame i pos s =
     (if i < length (Points s) then
        (let x = coord_of_px (Fin (of_int (fst pos))) (Fin (of_nat (fst frame))) maxX;
             y = coord_of_px (Fin (of_int (snd pos))) (Fin (of_nat (snd frame))) maxY
         in updateArea env
              (s\<lparr>Points := (Points s)[i := (x, y)],
                 pointInputs := (pointInputs s)[i := (point_text x, point_text y)]\<rparr>))
      else s)"

definition midpoint2 :: "js_num \<Rightarrow> js_num \<Rightarrow> js_num" where
  "midpoint2 a b = num_div (num_round (num_mul (num_div (num_add a b) (Fin 2)) (Fin 100))) (Fin 100)"

definition addPoint :: "nat \<Rightarrow> zone_page \<Rightarrow> zone_page" where
  "addPoint i s = (let ps = Points s; j = (if i \<ge> length ps - 1 then 0 else i + 1);
       p = (midpoint2 (fst (ps ! i)) (fst (ps ! j)), midpoint2 (snd (ps ! i)) (snd (ps ! j)))
     in drawZonePoints (s\<lparr>Points := (if j = 0 then ps @ [p] else take j ps @ p # drop j ps)\<rparr>))"

definition delPoint :: "nat \<Rightarrow> zone_page \<Rightarrow> zone_page" where
  "delPoint i s = drawZonePoints (s\<lparr>Points := take i (Points s) @ drop (Suc i) (Points s)\<rparr>)"

definition limitPointValue :: "string \<Rightarrow> js_num \<Rightarrow> js_num \<Rightarrow> string" where
  "limitPointValue v lo hi = field_of_num (constrainValue (parseFloat v) lo hi)"

definition updateX :: "zone_env \<Rightarrow> nat \<Rightarrow> zone_page \<Rightarrow> zone_page" where
  "updateX env i s = (let v = limitPointValue (fst (pointInputs s ! i)) (Fin 0) maxX; x = parseFloat v in
     updateArea env (s\<lparr>pointInputs := (pointInputs s)[i := (v, snd (pointInputs s ! i))],
                       Points := (Points s)[i := (x, snd (Points s ! i))]\<rparr>))"

definition updateY :: "zone_env \<Rightarrow> nat \<Rightarrow> zone_page \<Rightarrow> zone_page" where
  "updateY env i s = (let v = limitPointValue (snd (pointInputs s ! i)) (Fin 0) maxY; y = parseFloat v in
     updateArea env (s\<lparr>pointInputs := (pointInputs s)[i := (fst (pointInputs s ! i), v)],
                       Points := (Points s)[i := (fst (Points s ! i), y)]\<rparr>))"

section \<open>Reset and load\<close>

text \<open>
  The loop over \<^verbatim>\<open>initialValues\<close> assigns every named element but the point inputs; the
  preset selector goes back to its first entry (\<^verbatim>\<open>0\<close>, no preset).
\<close>

definition restore_values :: "(zfield \<Rightarrow> string) \<Rightarrow> zone_page \<Rightarrow> zone_page" where
  "restore_values vs s = foldl (\<lambda>t (f, n). set_value f (vs f) t) s form_elements"

definition resetChanges :: "zone_env \<Rightarrow> zone_page \<Rightarrow> zone_page" where
  "resetChanges env s = (case (initialPoints s, initialValues s) of
     (Some ps, Some vs) \<Rightarrow>
       checkDirty (updateArea env (alarmColourFromInputs (applyZoneType
         (set_value presetSelector ''0'' (restore_values vs (drawZonePoints (s\<lparr>Points := ps\<rparr>)))))))
   | _ \<Rightarrow> s)"

definition initPage :: "zone_env \<Rightarrow> zone_page \<Rightarrow> zone_page" where
  "initPage env s =
     (let s1 = set_off ([presetSelector, CheckMethod, MinPixelThreshold, MaxPixelThreshold] @ rgb_fields
                 @ [FilterX, FilterY] @ pixel_fields @ [MinBlobs, MaxBlobs, OverloadFrames]) True s;
          s2 = updateAllPixelDisplays env (applyCheckMethod (applyZoneType s1));
          s3 = drawZonePoints (alarmColourFromInputs s2);
          s4 = s3\<lparr>initialPoints := Some (Points s3), initialValues := Some (elems s3)\<rparr>
      in checkDirty (s4\<lparr>initialState := Some (formState s4)\<rparr>))"

section \<open>User actions\<close>

text \<open>
  What the user can do to the page: type into or choose from an element (the element's
  handler, then the form's listener, which compares with the snapshot), drag a handle, use
  the buttons of a point's row, whose delete button exists only for more than three points.
\<close>

datatype zone_event = Edit zfield string | EditPx zfield string | PickColour string
  | EditX nat string | EditY nat string | Drag nat "int \<times> int" | AddPoint nat | DelPoint nat
  | PresetBlur | Reset | Save

definition element_handler :: "zone_env \<Rightarrow> zfield \<Rightarrow> zone_page \<Rightarrow> zone_page" where
  "element_handler env f s =
     (if f \<in> set [MinPixelThreshold, MaxPixelThreshold] then limitRangeToUnsignedByte f s
      else if f \<in> set rgb_fields then alarmColourFromInputs (limitRangeToUnsignedByte f s)
      else if f \<in> set [FilterX, FilterY] then limitFilter f s
      else if f \<in> set pixel_fields then limitArea env f s
      else if f = CheckMethod then applyCheckMethod s
      else if f = ZType then applyZoneType s
      else if f = presetSelector then applyPreset env s
      else s)"

fun zone_handle :: "zone_env \<Rightarrow> nat \<times> nat \<Rightarrow> zone_event \<Rightarrow> zone_page \<Rightarrow> zone_page" where
  "zone_handle env fr (Edit f v) s =
     (if off s f then s else checkDirty (element_handler env f (set_value f v s)))"
| "zone_handle env fr (EditPx f v) s =
     (if f \<in> set pixel_fields \<and> \<not> px_off s f
      then checkDirty (updatePercentFromPixel env f (s\<lparr>pxs := (pxs s)(f := sanitise_number v)\<rparr>)) else s)"
| "zone_handle env fr (PickColour c) s =
     (if picker_off s then s else checkDirty (alarmColourToInputs (s\<lparr>picker := sanitise_colour c\<rparr>)))"
| "zone_handle env fr (EditX i v) s =
     (if i < length (Points s)
      then checkDirty (updateX env i
             (s\<lparr>pointInputs := (pointInputs s)[i := (sanitise_number v, snd (pointInputs s ! i))]\<rparr>))
      else s)"
| "zone_handle env fr (EditY i v) s =
     (if i < length (Points s)
      then checkDirty (updateY env i
             (s\<lparr>pointInputs := (pointInputs s)[i := (fst (pointInputs s ! i), sanitise_number v)]\<rparr>))
      else s)"
| "zone_handle env fr (Drag i pos) s = updateActivePoint env fr i pos s"
| "zone_handle env fr (AddPoint i) s = (if i < length (Points s) then addPoint i s else s)"
| "zone_handle env fr (DelPoint i) s =
     (if i < length (Points s) \<and> length (Points s) > 3 then delPoint i s else s)"
| "zone_handle env fr PresetBlur s = set_value presetSelector ''0'' s"
| "zone_handle env fr Reset s = (if resetOff s then s else resetChanges env s)"
| "zone_handle env fr Save s = fst (snd (saveChanges env s))"

inductive zone_reachable :: "zone_env \<Rightarrow> zone_page \<Rightarrow> zone_page \<Rightarrow> bool" for env s0 where
  loaded: "zone_reachable env s0 (initPage env s0)"
| act: "zone_reachable env s0 s \<Longrightarrow> zone_reachable env s0 (zone_handle env fr ev s)"


section \<open>What each operation leaves alone\<close>

lemma sanitise_number_idem [simp]: "sanitise_number (sanitise_number v) = sanitise_number v"
  by (simp add: sanitise_number_def)

definition fields_ok :: "zone_page \<Rightarrow> bool" where
  "fields_ok s \<longleftrightarrow> (\<forall>f \<in> set number_fields. elems s f = [] \<or> valid_float (elems s f))"

lemma fields_ok_set_value: "fields_ok s \<Longrightarrow> fields_ok (set_value f v s)"
  by (simp add: fields_ok_def set_value_def sanitise_number_def)

definition same_frame :: "zone_page \<Rightarrow> zone_page \<Rightarrow> bool" where
  "same_frame s t \<longleftrightarrow> Points t = Points s \<and> pointInputs t = pointInputs s \<and> zArea t = zArea s
     \<and> initialState t = initialState s \<and> initialValues t = initialValues s \<and> initialPoints t = initialPoints s
     \<and> (fields_ok s \<longrightarrow> fields_ok t)"

lemma same_frame_refl [simp]: "same_frame s s"
  by (simp add: same_frame_def)

lemma same_frame_trans: "same_frame s t \<Longrightarrow> same_frame t u \<Longrightarrow> same_frame s u"
  by (simp add: same_frame_def)

lemma same_frame_step:
  "same_frame s (set_value f v s)" "same_frame s (set_off fs b s)"
  "same_frame s (syncPixelInputStates s)" "same_frame s (alarmColourFromInputs s)"
  "same_frame s (updatePixelFromPercent env f s)" "same_frame s (markChangedPoints s)"
  "same_frame s (checkDirty s)"
  using fields_ok_set_value [of s f v]
  by (simp_all add: same_frame_def fields_ok_def set_value_def set_off_def syncPixelInputStates_def
      alarmColourFromInputs_def updatePixelFromPercent_def markChangedPoints_def checkDirty_def
      split: option.splits)

lemma same_frame_foldl:
  assumes "\<And>t x. same_frame t (g t x)"
  shows "same_frame s (foldl g s xs)"
proof (induction xs arbitrary: s)
  case (Cons x xs)
  from assms [of s x] Cons [of "g s x"] show ?case by (simp add: same_frame_def)
qed simp

lemma same_frame_upd:
  "same_frame s (s\<lparr>pxs := p\<rparr>)" "same_frame s (s\<lparr>picker := c\<rparr>)" "same_frame s (s\<lparr>resetOff := b\<rparr>)"
  "same_frame s (s\<lparr>areaPercent := x, areaPixels := y\<rparr>)"
  by (simp_all add: same_frame_def fields_ok_def)

lemma same_frame_after:
  assumes "same_frame s t"
  shows "same_frame s (set_value f v t)" "same_frame s (set_off fs b t)"
    "same_frame s (syncPixelInputStates t)" "same_frame s (alarmColourFromInputs t)"
    "same_frame s (updatePixelFromPercent env f t)" "same_frame s (checkDirty t)"
    "same_frame s (t\<lparr>areaPercent := x, areaPixels := y\<rparr>)" "same_frame s (t\<lparr>pxs := p\<rparr>)"
  by (auto intro: same_frame_trans [OF assms] same_frame_step same_frame_upd)

lemma same_frame_displays: "same_frame s (updateAllPixelDisplays env s)"
  unfolding updateAllPixelDisplays_def Let_def
  by (rule same_frame_trans [OF _ same_frame_foldl]) (intro same_frame_after same_frame_refl)+

lemma same_frame_method: "same_frame s (applyCheckMethod s)"
  unfolding applyCheckMethod_def by (simp add: same_frame_after)

lemma same_frame_type: "same_frame s (applyZoneType s)"
proof -
  have "same_frame t (applyCheckMethod (set_off a b (set_off c d t)))" for a b c d t
    using same_frame_trans same_frame_method same_frame_after same_frame_refl by meson
  then show ?thesis unfolding applyZoneType_def by (simp add: same_frame_after)
qed

lemma same_frame_ops:
  "same_frame s (limitRange f lo hi s)" "same_frame s (limitRangeToUnsignedByte f s)"
  "same_frame s (limitFilter f s)" "same_frame s (limitArea env f s)"
  "same_frame s (updatePercentFromPixel env f s)" "same_frame s (alarmColourToInputs s)"
proof -
  have r: "same_frame s (limitRange f l h s)" for l h
    by (simp add: limitRange_def Let_def same_frame_step)
  then show "same_frame s (limitRange f lo hi s)" .
  show "same_frame s (limitRangeToUnsignedByte f s)"
    by (simp add: limitRangeToUnsignedByte_def same_frame_step)
  show "same_frame s (limitFilter f s)"
    unfolding limitFilter_def Let_def by (intro same_frame_after same_frame_refl)
  show "same_frame s (limitArea env f s)"
    unfolding limitArea_def by (intro same_frame_after r)
  show "same_frame s (updatePercentFromPixel env f s)"
    unfolding updatePercentFromPixel_def Let_def by (simp add: same_frame_after)
  show "same_frame s (alarmColourToInputs s)"
    unfolding alarmColourToInputs_def Let_def by (intro same_frame_after same_frame_refl)
qed

lemma same_frame_preset: "same_frame s (applyPreset env s)"
proof (cases "presets env (elems s presetSelector)")
  case (Some p)
  have a: "same_frame s (foldl (\<lambda>t f. set_value f (presetValues p f) t) (set_value f0 v0 s) fs)" for f0 v0 fs
    by (rule same_frame_trans [OF same_frame_step(1) same_frame_foldl]) (rule same_frame_step(1))
  have b: "same_frame t (updateAllPixelDisplays env (set_value Area v (applyCheckMethod t)))" for t v
    using same_frame_trans same_frame_displays same_frame_after(1) same_frame_method by meson
  show ?thesis
    unfolding applyPreset_def Some option.case Let_def by (rule same_frame_trans [OF a b])
qed (simp add: applyPreset_def)

lemma same_frame_validate: "same_frame s (snd (validateForm env s))"
  by (simp add: validateForm_def Let_def same_frame_step)

lemma same_frame_save: "same_frame s (fst (snd (saveChanges env s)))"
proof -
  obtain errs t where v: "validateForm env s = (errs, t)" by (cases "validateForm env s")
  then have "same_frame s t" using same_frame_validate [of s env] by simp
  then have "same_frame s (submitForm t)" unfolding submitForm_def by (intro same_frame_after)
  with v \<open>same_frame s t\<close> show ?thesis by (simp add: saveChanges_def Let_def)
qed

lemma same_frame_handler: "same_frame s (element_handler env f s)"
  unfolding element_handler_def
  by (simp add: same_frame_ops same_frame_after same_frame_method same_frame_type same_frame_preset)


section \<open>The invariant of the page\<close>

fun coord_ok :: "js_num \<Rightarrow> bool" where
  "coord_ok NaN = True"
| "coord_ok (Fin r) = (0 \<le> r \<and> r \<le> 100)"
| "coord_ok _ = False"

lemma coord_ok_iff: "coord_ok x \<longleftrightarrow> x = NaN \<or> (\<exists>r. x = Fin r \<and> 0 \<le> r \<and> r \<le> 100)"
  by (cases x) auto

definition points_ok :: "zpoint list \<Rightarrow> bool" where
  "points_ok ps \<longleftrightarrow> 3 \<le> length ps \<and> (\<forall>p \<in> set ps. coord_ok (fst p) \<and> coord_ok (snd p))"

lemma constrainValue_ok: "coord_ok (constrainValue v (Fin 0) (Fin 100))"
  by (cases v) (auto simp: constrainValue_def coord_ok_iff)

lemma constrainValue_id: "coord_ok v \<Longrightarrow> constrainValue v (Fin 0) (Fin 100) = v"
  by (auto simp: constrainValue_def coord_ok_iff)

lemma coord_of_px_ok: "coord_ok (coord_of_px p frame (Fin 100))"
  by (simp add: coord_of_px_def constrainValue_ok)

lemma round_percent_range:
  assumes "0 \<le> r" and "r \<le> 100"
  shows "0 \<le> math_round (r * 100) \<and> math_round (r * 100) \<le> 10000"
proof -
  have "0 \<le> r * 100" "r * 100 \<le> 10000" using assms by simp_all
  then have "math_round (of_int 0) \<le> math_round (r * 100)" "math_round (r * 100) \<le> math_round (of_int 10000)"
    by (auto intro: math_round_mono)
  then show ?thesis by (simp only: math_round_of_int)
qed

lemma midpoint2_ok:
  assumes "coord_ok a" and "coord_ok b"
  shows "coord_ok (midpoint2 a b)"
proof (cases "a = NaN \<or> b = NaN")
  case False
  then obtain x y where xy: "a = Fin x" "b = Fin y" "0 \<le> x" "x \<le> 100" "0 \<le> y" "y \<le> 100"
    using assms by (auto simp: coord_ok_iff)
  then have "0 \<le> math_round ((x + y) / 2 * 100) \<and> math_round ((x + y) / 2 * 100) \<le> 10000"
    by (intro round_percent_range) simp_all
  then have "0 \<le> (of_int (math_round ((x + y) / 2 * 100)) :: rat)"
    "(of_int (math_round ((x + y) / 2 * 100)) :: rat) \<le> 10000"
    by (simp, metis of_int_le_iff of_int_numeral)
  then have "0 \<le> (of_int (math_round ((x + y) / 2 * 100)) / 100 :: rat)
      \<and> (of_int (math_round ((x + y) / 2 * 100)) / 100 :: rat) \<le> 100" by simp
  then show ?thesis by (simp add: xy midpoint2_def)
qed (auto simp: midpoint2_def)

lemma parseFloat_field:
  "coord_ok (parseFloat (field_of_num (constrainValue x (Fin 0) (Fin 100))))"
proof -
  have "coord_ok (constrainValue x (Fin 0) (Fin 100))" by (rule constrainValue_ok)
  then consider "constrainValue x (Fin 0) (Fin 100) = NaN"
    | r where "constrainValue x (Fin 0) (Fin 100) = Fin r" "0 \<le> r" "r \<le> 100"
    by (auto simp: coord_ok_iff)
  then show ?thesis
  proof cases
    case (2 r)
    then show ?thesis using parseFloat_rat_to_str_bounds [of r]
      by (auto simp: field_of_num_def coord_ok_iff)
  qed (simp add: field_of_num_def coord_ok_iff)
qed

text \<open>
  The invariant: at least three corners, all inside the frame (or not a number), one pair of
  inputs per corner, every number element valid or empty, the pixel twins enabled exactly
  when their thresholds are, and the snapshot of the loaded zone in place.
\<close>

definition twins_ok :: "zone_page \<Rightarrow> bool" where
  "twins_ok s \<longleftrightarrow> (\<forall>f \<in> set pixel_fields. px_off s f = off s f)"

definition zone_inv :: "zone_page \<Rightarrow> zone_page \<Rightarrow> bool" where
  "zone_inv l s \<longleftrightarrow> points_ok (Points s) \<and> length (pointInputs s) = length (Points s)
     \<and> fields_ok s \<and> twins_ok s
     \<and> initialPoints s = initialPoints l \<and> initialValues s = initialValues l
     \<and> initialState s = initialState l"

lemma points_ok_update:
  assumes "points_ok ps" and "coord_ok (fst p)" and "coord_ok (snd p)"
  shows "points_ok (ps[i := p])"
  using assms by (auto simp: points_ok_def dest!: set_update_subset_insert [THEN subsetD])

lemma points_ok_insert:
  assumes "points_ok ps" and "coord_ok (fst p)" and "coord_ok (snd p)"
  shows "points_ok (ps @ [p])" "points_ok (take j ps @ p # drop j ps)"
  using assms by (auto simp: points_ok_def dest: in_set_takeD in_set_dropD)

lemma points_ok_delete:
  assumes "points_ok ps" and "i < length ps" and "3 < length ps"
  shows "points_ok (take i ps @ drop (Suc i) ps)"
  using assms by (auto simp: points_ok_def dest: in_set_takeD in_set_dropD)

lemma same_off [simp]:
  "off (set_value f v s) = off s" "px_off (set_value f v s) = px_off s"
  "off (alarmColourFromInputs s) = off s" "px_off (alarmColourFromInputs s) = px_off s"
  "off (updatePixelFromPercent env f s) = off s" "px_off (updatePixelFromPercent env f s) = px_off s"
  "off (markChangedPoints s) = off s" "px_off (markChangedPoints s) = px_off s"
  by (simp_all add: set_value_def alarmColourFromInputs_def updatePixelFromPercent_def
      markChangedPoints_def split: option.splits)

lemma same_off_dirty [simp]: "off (checkDirty s) = off s" "px_off (checkDirty s) = px_off s"
  by (simp_all add: checkDirty_def split: option.splits)

lemma same_off_foldl:
  assumes "\<And>t x. off (g t x) = off t \<and> px_off (g t x) = px_off t"
  shows "off (foldl g s xs) = off s \<and> px_off (foldl g s xs) = px_off s"
  by (induction xs arbitrary: s) (simp_all add: assms)

lemma same_off_displays [simp]:
  "off (updateAllPixelDisplays env s) = off s" "px_off (updateAllPixelDisplays env s) = px_off s"
  unfolding updateAllPixelDisplays_def Let_def by (simp_all add: same_off_foldl)

lemma same_off_ops [simp]:
  "off (limitRange f lo hi s) = off s" "px_off (limitRange f lo hi s) = px_off s"
  "off (limitRangeToUnsignedByte f s) = off s" "px_off (limitRangeToUnsignedByte f s) = px_off s"
  "off (limitFilter f s) = off s" "px_off (limitFilter f s) = px_off s"
  "off (updatePercentFromPixel env f s) = off s" "px_off (updatePercentFromPixel env f s) = px_off s"
  "off (alarmColourToInputs s) = off s" "px_off (alarmColourToInputs s) = px_off s"
  by (simp_all add: limitRange_def limitRangeToUnsignedByte_def limitFilter_def Let_def
      updatePercentFromPixel_def alarmColourToInputs_def)

lemma twins_ok_cong: "off t = off s \<Longrightarrow> px_off t = px_off s \<Longrightarrow> twins_ok s \<Longrightarrow> twins_ok t"
  by (simp add: twins_ok_def)

lemma twins_ok_sync: "twins_ok (syncPixelInputStates s)"
  by (simp add: twins_ok_def syncPixelInputStates_def)

lemma twins_ok_method: "twins_ok (applyCheckMethod s)"
  unfolding applyCheckMethod_def by (rule twins_ok_sync)

lemma twins_ok_type: "twins_ok (applyZoneType s)"
  unfolding applyZoneType_def by (rule twins_ok_cong [OF _ _ twins_ok_sync]) simp_all

lemma twins_ok_preset: "twins_ok s \<Longrightarrow> twins_ok (applyPreset env s)"
  unfolding applyPreset_def Let_def
  by (simp split: option.split) (auto intro!: twins_ok_cong [OF _ _ twins_ok_method])

lemma twins_ok_handler: "twins_ok s \<Longrightarrow> twins_ok (element_handler env f s)"
  by (simp add: element_handler_def limitArea_def twins_ok_method twins_ok_type twins_ok_preset)
    (simp add: twins_ok_def)

lemma twins_ok_area: "twins_ok s \<Longrightarrow> twins_ok (updateArea env s)"
  by (simp add: updateArea_def twins_ok_def split: option.split)

lemma zone_inv_frame:
  "same_frame s t \<Longrightarrow> twins_ok t \<Longrightarrow> zone_inv l s \<Longrightarrow> zone_inv l t"
  by (simp add: same_frame_def zone_inv_def)

lemma zone_inv_set_points:
  assumes "zone_inv l s" and "points_ok ps" and "length qs = length ps"
  shows "zone_inv l (s\<lparr>Points := ps, pointInputs := qs\<rparr>)"
  using assms by (simp add: zone_inv_def fields_ok_def twins_ok_def)

lemma zone_inv_dirty: "zone_inv l s \<Longrightarrow> zone_inv l (checkDirty s)"
  by (rule zone_inv_frame [OF same_frame_step(7)]) (simp_all add: zone_inv_def twins_ok_def)

lemma zone_inv_area:
  assumes "zone_inv l s"
  shows "zone_inv l (updateArea env s)"
proof (cases "Polygon_calcArea (Points s)")
  case (Some a)
  let ?s = "s\<lparr>zArea := a\<rparr>"
  have "zone_inv l ?s" using assms by (simp add: zone_inv_def fields_ok_def twins_ok_def)
  moreover from this have "twins_ok (updateAllPixelDisplays env ?s)"
    by (simp add: zone_inv_def twins_ok_def)
  ultimately have "zone_inv l (updateAllPixelDisplays env ?s)"
    using zone_inv_frame [OF same_frame_displays] by blast
  with Some show ?thesis by (simp add: updateArea_def zone_inv_dirty)
qed (use assms in \<open>simp add: updateArea_def\<close>)

lemma zone_inv_draw:
  assumes "zone_inv l s" and "points_ok ps"
  shows "zone_inv l (drawZonePoints (s\<lparr>Points := ps\<rparr>))"
proof -
  have "zone_inv l (s\<lparr>Points := ps, pointInputs := map (\<lambda>(x, y). (point_text x, point_text y)) ps,
      changedPoints := replicate (length ps) False\<rparr>)"
    using assms by (simp add: zone_inv_def fields_ok_def twins_ok_def)
  then show ?thesis unfolding drawZonePoints_def using zone_inv_dirty by fastforce
qed

lemma zone_inv_update:
  assumes "zone_inv l s" and "i < length (Points s)"
  shows "zone_inv l (updateX env i s)" "zone_inv l (updateY env i s)"
    "zone_inv l (updateActivePoint env fr i pos s)"
proof -
  have nth: "coord_ok (fst (Points s ! i))" "coord_ok (snd (Points s ! i))"
    using assms by (auto simp: zone_inv_def points_ok_def)
  have area: "zone_inv l (updateArea env (s\<lparr>Points := (Points s)[i := p], pointInputs := (pointInputs s)[i := q]\<rparr>))"
    if "coord_ok (fst p)" "coord_ok (snd p)" for p q
    using assms that by (intro zone_inv_area zone_inv_set_points points_ok_update) (simp_all add: zone_inv_def)
  have swap: "s\<lparr>pointInputs := b, Points := a\<rparr> = s\<lparr>Points := a, pointInputs := b\<rparr>" for a b
    by simp
  show "zone_inv l (updateX env i s)" "zone_inv l (updateY env i s)"
    unfolding updateX_def updateY_def Let_def limitPointValue_def swap maxX_def maxY_def
    using nth parseFloat_field by (auto intro!: area)
  show "zone_inv l (updateActivePoint env fr i pos s)"
    using assms(2) by (auto simp: updateActivePoint_def Let_def maxX_def maxY_def coord_of_px_ok intro!: area)
qed

lemma zone_inv_reset:
  assumes inv: "zone_inv l s" and l: "initialPoints l = Some ps" and ok: "points_ok ps"
  shows "zone_inv l (resetChanges env s)"
proof (cases "initialValues s")
  case (Some vs)
  let ?d = "drawZonePoints (s\<lparr>Points := ps\<rparr>)"
  have d: "zone_inv l ?d" using inv ok by (rule zone_inv_draw)
  let ?r = "set_value presetSelector ''0'' (restore_values vs ?d)"
  have "same_frame ?d (restore_values vs ?d)"
    unfolding restore_values_def by (rule same_frame_foldl) (simp split: prod.split add: same_frame_step)
  then have "same_frame ?d ?r" by (rule same_frame_after)
  then have "same_frame ?d (alarmColourFromInputs (applyZoneType ?r))"
    using same_frame_trans same_frame_type same_frame_after(4) by meson
  moreover have "twins_ok (alarmColourFromInputs (applyZoneType ?r))"
    by (rule twins_ok_cong [OF _ _ twins_ok_type]) simp_all
  ultimately have "zone_inv l (alarmColourFromInputs (applyZoneType ?r))"
    using zone_inv_frame d by blast
  moreover have "initialPoints s = Some ps" using inv l by (simp add: zone_inv_def)
  ultimately show ?thesis
    using Some by (simp add: resetChanges_def zone_inv_area zone_inv_dirty)
qed (use inv in \<open>simp add: resetChanges_def split: option.split\<close>)

lemma zone_inv_form_events:
  assumes inv: "zone_inv l s"
  shows "zone_inv l (zone_handle env fr (Edit f v) s)"
    "zone_inv l (zone_handle env fr (EditPx f v) s)" "zone_inv l (zone_handle env fr (PickColour v) s)"
proof -
  have tw: "twins_ok s" using inv by (simp add: zone_inv_def)
  note frame = zone_inv_frame [OF _ _ inv, THEN zone_inv_dirty]
  have "same_frame s (element_handler env f (set_value f v s))"
    using same_frame_trans same_frame_step(1) same_frame_handler by blast
  moreover have "twins_ok (element_handler env f (set_value f v s))"
    using tw by (intro twins_ok_handler) (simp add: twins_ok_def)
  ultimately show "zone_inv l (zone_handle env fr (Edit f v) s)" using inv frame by simp
  let ?s = "s\<lparr>pxs := (pxs s)(f := sanitise_number v)\<rparr>"
  have "same_frame s (updatePercentFromPixel env f ?s)"
    using same_frame_trans same_frame_upd(1) same_frame_ops(5) by blast
  moreover have "twins_ok (updatePercentFromPixel env f ?s)" using tw by (simp add: twins_ok_def)
  ultimately show "zone_inv l (zone_handle env fr (EditPx f v) s)" using inv frame by simp
  have "same_frame s (alarmColourToInputs (s\<lparr>picker := sanitise_colour v\<rparr>))"
    using same_frame_trans same_frame_upd(2) same_frame_ops(6) by blast
  moreover have "twins_ok (alarmColourToInputs (s\<lparr>picker := sanitise_colour v\<rparr>))"
    using tw by (simp add: twins_ok_def)
  ultimately show "zone_inv l (zone_handle env fr (PickColour v) s)" using inv frame by simp
qed

lemma zone_inv_point_events:
  assumes inv: "zone_inv l s"
  shows "zone_inv l (zone_handle env fr (EditX i v) s)" "zone_inv l (zone_handle env fr (EditY i v) s)"
    "zone_inv l (zone_handle env fr (Drag i pos) s)"
    "zone_inv l (zone_handle env fr (AddPoint i) s)" "zone_inv l (zone_handle env fr (DelPoint i) s)"
proof -
  note tw = inv [unfolded zone_inv_def]
  have "3 \<le> length (Points s)" using tw by (simp add: points_ok_def)
  then have len: "0 < length (Points s)" by linarith
  let ?x = "s\<lparr>pointInputs := (pointInputs s)[i := (sanitise_number v, snd (pointInputs s ! i))]\<rparr>"
  have "zone_inv l ?x" using tw by (simp add: zone_inv_def fields_ok_def twins_ok_def)
  then show "zone_inv l (zone_handle env fr (EditX i v) s)"
    using inv zone_inv_update(1) [of l ?x i env] zone_inv_dirty by simp
  let ?y = "s\<lparr>pointInputs := (pointInputs s)[i := (fst (pointInputs s ! i), sanitise_number v)]\<rparr>"
  have "zone_inv l ?y" using tw by (simp add: zone_inv_def fields_ok_def twins_ok_def)
  then show "zone_inv l (zone_handle env fr (EditY i v) s)"
    using inv zone_inv_update(2) [of l ?y i env] zone_inv_dirty by simp
  show "zone_inv l (zone_handle env fr (Drag i pos) s)"
    using inv zone_inv_update(3) [OF inv] by (cases "i < length (Points s)") (simp_all add: updateActivePoint_def)
  have "coord_ok (fst (Points s ! j))" "coord_ok (snd (Points s ! j))" if "j < length (Points s)" for j
    using tw that by (auto simp: points_ok_def)
  then show "zone_inv l (zone_handle env fr (AddPoint i) s)" using inv tw len
    by (auto simp: addPoint_def Let_def midpoint2_ok points_ok_insert intro!: zone_inv_draw)
  show "zone_inv l (zone_handle env fr (DelPoint i) s)"
    using inv tw by (auto simp: delPoint_def points_ok_delete intro!: zone_inv_draw)
qed

lemma zone_inv_button_events:
  assumes inv: "zone_inv l s"
  shows "zone_inv l (zone_handle env fr PresetBlur s)" "zone_inv l (zone_handle env fr Save s)"
proof -
  have tw: "twins_ok s" using inv by (simp add: zone_inv_def)
  then show "zone_inv l (zone_handle env fr PresetBlur s)"
    using inv by (auto simp: twins_ok_def intro!: zone_inv_frame [OF same_frame_step(1)])
  have "off (fst (snd (saveChanges env s))) = off s \<and> px_off (fst (snd (saveChanges env s))) = px_off s"
    by (simp add: saveChanges_def validateForm_def submitForm_def Let_def)
  then have "twins_ok (fst (snd (saveChanges env s)))" using tw by (simp add: twins_ok_def)
  then show "zone_inv l (zone_handle env fr Save s)" using inv zone_inv_frame [OF same_frame_save] by simp
qed

lemma zone_inv_handle:
  assumes inv: "zone_inv l s" and l: "initialPoints l = Some ps" "points_ok ps"
  shows "zone_inv l (zone_handle env fr ev s)"
proof (cases ev)
  case Reset
  then show ?thesis using inv l zone_inv_reset by simp
qed (use inv zone_inv_form_events zone_inv_point_events zone_inv_button_events in \<open>auto simp del: zone_handle.simps\<close>)

text \<open>What the server promises of a page it renders.\<close>

definition zone_rendered :: "zone_page \<Rightarrow> bool" where
  "zone_rendered s \<longleftrightarrow> points_ok (Points s) \<and> fields_ok s \<and> Polygon_calcArea (Points s) = Some (zArea s)
     \<and> initialState s = None \<and> initialValues s = None \<and> initialPoints s = None"

lemma same_frame_init:
  "same_frame s (alarmColourFromInputs (updateAllPixelDisplays env (applyCheckMethod (applyZoneType (set_off fs b s)))))"
  using same_frame_trans same_frame_displays same_frame_method same_frame_type same_frame_step(2)
    same_frame_after(4) by meson

lemma zone_inv_init:
  assumes "zone_rendered s0"
  shows "zone_inv (initPage env s0) (initPage env s0)"
    "initialPoints (initPage env s0) = Some (Points s0)"
proof -
  obtain t fs b where t: "t = alarmColourFromInputs (updateAllPixelDisplays env (applyCheckMethod (applyZoneType (set_off fs b s0))))"
    and init: "initPage env s0 = (let s3 = drawZonePoints t;
          s4 = s3\<lparr>initialPoints := Some (Points s3), initialValues := Some (elems s3)\<rparr>
      in checkDirty (s4\<lparr>initialState := Some (formState s4)\<rparr>))"
    unfolding initPage_def Let_def by blast
  have fr: "same_frame s0 t" unfolding t by (rule same_frame_init)
  have tw: "twins_ok t" unfolding t by (rule twins_ok_cong [OF _ _ twins_ok_method]) simp_all
  let ?d = "drawZonePoints t"
  have "zone_inv t (t\<lparr>pointInputs := map (\<lambda>(x, y). (point_text x, point_text y)) (Points t),
      changedPoints := replicate (length (Points t)) False\<rparr>)"
    using fr tw assms by (simp add: zone_rendered_def same_frame_def zone_inv_def fields_ok_def twins_ok_def)
  then have d: "zone_inv t ?d" unfolding drawZonePoints_def by (rule zone_inv_dirty)
  let ?s = "?d\<lparr>initialPoints := Some (Points ?d), initialValues := Some (elems ?d)\<rparr>"
  let ?l = "?s\<lparr>initialState := Some (formState ?s)\<rparr>"
  have "zone_inv ?l ?l" using d by (simp add: zone_inv_def fields_ok_def twins_ok_def)
  then have "zone_inv ?l (initPage env s0)" unfolding init Let_def by (rule zone_inv_dirty)
  then show "zone_inv (initPage env s0) (initPage env s0)" by (simp add: zone_inv_def)
  have "same_frame ?l (initPage env s0)" unfolding init Let_def by (rule same_frame_step(7))
  moreover have "Points ?d = Points t"
    using same_frame_step(7) [of "t\<lparr>pointInputs := map (\<lambda>(x, y). (point_text x, point_text y)) (Points t),
      changedPoints := replicate (length (Points t)) False\<rparr>"] by (simp add: drawZonePoints_def same_frame_def)
  ultimately show "initialPoints (initPage env s0) = Some (Points s0)"
    using fr by (simp add: same_frame_def)
qed

lemma zone_reachable_inv:
  assumes "zone_reachable env s0 s" and "zone_rendered s0"
  shows "zone_inv (initPage env s0) s"
  using assms
proof (induction rule: zone_reachable.induct)
  case loaded
  then show ?case using zone_inv_init(1) by blast
next
  case (act s fr ev)
  then show ?case
    using zone_inv_handle zone_inv_init(2) [OF act.prems] by (simp add: zone_rendered_def)
qed

subsection \<open>The values of the elements\<close>

lemma same_elems [simp]:
  "elems (set_off fs b s) = elems s" "elems (syncPixelInputStates s) = elems s"
  "elems (alarmColourFromInputs s) = elems s" "elems (updatePixelFromPercent env f s) = elems s"
  "elems (markChangedPoints s) = elems s"
  by (simp_all add: set_off_def syncPixelInputStates_def alarmColourFromInputs_def
      updatePixelFromPercent_def markChangedPoints_def split: option.splits)

lemma same_elems_ops [simp]:
  "elems (checkDirty s) = elems s" "elems (applyCheckMethod s) = elems s" "elems (applyZoneType s) = elems s"
  "elems (drawZonePoints s) = elems s"
  by (simp_all add: checkDirty_def applyCheckMethod_def applyZoneType_def drawZonePoints_def split: option.splits)

definition area_text :: "js_num \<Rightarrow> string" where
  "area_text a = num_to_str (num_round (num_mul (num_div a monitorArea) (Fin 100)))"

lemma elems_displays: "elems (updateAllPixelDisplays env s) = (elems s)(Area := area_text (zArea s))"
proof -
  have "elems (foldl (\<lambda>t f. updatePixelFromPercent env f t) t fs) = elems t" for t fs
    by (induction fs arbitrary: t) simp_all
  then show ?thesis
    by (simp add: updateAllPixelDisplays_def Let_def set_value_def area_text_def number_fields_def)
qed

lemma elems_restore_fold:
  "elems (foldl (\<lambda>t (f, n). set_value f (vs f) t) s xs) f =
     (if f \<in> fst ` set xs then (if f \<in> set number_fields then sanitise_number (vs f) else vs f) else elems s f)"
proof (induction xs arbitrary: s)
  case (Cons x xs)
  then show ?case by (cases x) (auto simp: set_value_def)
qed simp

lemma all_form_elements: "f \<in> fst ` set form_elements"
proof -
  have "fst ` set form_elements = set (map fst form_elements)" by simp
  then show ?thesis unfolding form_elements_def list.map fst_conv
    by (cases f; simp only: list.set insert_iff simp_thms)
qed

lemma elems_restore:
  assumes "\<forall>f \<in> set number_fields. vs f = [] \<or> valid_float (vs f)"
  shows "elems (restore_values vs s) = vs"
proof
  fix f
  have "f \<in> set number_fields \<Longrightarrow> sanitise_number (vs f) = vs f"
    using assms by (auto simp: sanitise_number_def)
  then show "elems (restore_values vs s) f = vs f"
    using all_form_elements [of f] by (simp add: restore_values_def elems_restore_fold)
qed

lemma formState_cong:
  assumes "pointInputs t = pointInputs s" and "\<And>f. f \<noteq> presetSelector \<Longrightarrow> elems t f = elems s f"
  shows "formState t = formState s"
proof -
  have m: "map (\<lambda>(f, n). state_item (f \<in> set number_fields) n (elems t f)) (filter (\<lambda>(f, n). f \<noteq> presetSelector) xs)
      = map (\<lambda>(f, n). state_item (f \<in> set number_fields) n (elems s f)) (filter (\<lambda>(f, n). f \<noteq> presetSelector) xs)"
    for xs by (induction xs) (auto simp: assms(2))
  show ?thesis unfolding formState_def assms(1) m ..
qed

lemma same_frame_formState: "same_frame s t \<Longrightarrow> elems t = elems s \<Longrightarrow> formState t = formState s"
  by (rule formState_cong) (simp_all add: same_frame_def)

abbreviation input_texts :: "zpoint list \<Rightarrow> (string \<times> string) list" where
  "input_texts \<equiv> map (\<lambda>(x, y). (point_text x, point_text y))"

lemma draw_frame:
  "Points (drawZonePoints s) = Points s" "pointInputs (drawZonePoints s) = input_texts (Points s)"
  "initialPoints (drawZonePoints s) = initialPoints s" "initialValues (drawZonePoints s) = initialValues s"
  "initialState (drawZonePoints s) = initialState s" "zArea (drawZonePoints s) = zArea s"
  using same_frame_step(7) [of "s\<lparr>pointInputs := input_texts (Points s), changedPoints := replicate (length (Points s)) False\<rparr>"]
  by (simp_all add: drawZonePoints_def same_frame_def)

lemma loaded_snapshot:
  fixes env :: zone_env
  assumes "zone_rendered s0"
  defines "l \<equiv> initPage env s0"
  shows "initialValues l = Some (elems l)" "initialState l = Some (formState l)"
    "pointInputs l = input_texts (Points s0)" "elems l Area = area_text (zArea s0)" "fields_ok l"
proof -
  obtain t u fs b where t: "t = alarmColourFromInputs (updateAllPixelDisplays env u)"
    and u: "u = applyCheckMethod (applyZoneType (set_off fs b s0))"
    and init: "l = (let s3 = drawZonePoints t;
          s4 = s3\<lparr>initialPoints := Some (Points s3), initialValues := Some (elems s3)\<rparr>
      in checkDirty (s4\<lparr>initialState := Some (formState s4)\<rparr>))"
    unfolding l_def initPage_def Let_def by blast
  have fr: "same_frame s0 t" unfolding t u by (rule same_frame_init)
  have fu: "same_frame s0 u" unfolding u
    using same_frame_trans same_frame_method same_frame_type same_frame_step(2) by meson
  let ?d = "drawZonePoints t"
  let ?s = "?d\<lparr>initialPoints := Some (Points ?d), initialValues := Some (elems ?d)\<rparr>"
  let ?l = "?s\<lparr>initialState := Some (formState ?s)\<rparr>"
  have l: "same_frame ?l l" "elems l = elems ?d" unfolding init Let_def by (simp_all add: same_frame_step)
  show "initialValues l = Some (elems l)" using l by (simp add: same_frame_def)
  have "formState l = formState ?s"
    by (rule formState_cong) (use l in \<open>simp_all add: same_frame_def\<close>)
  then show "initialState l = Some (formState l)" using l by (simp add: same_frame_def)
  show "pointInputs l = input_texts (Points s0)"
    using l fr by (simp add: same_frame_def draw_frame)
  show "elems l Area = area_text (zArea s0)"
    using l fu by (simp add: t elems_displays same_frame_def)
  show "fields_ok l" using zone_inv_init(1) [OF assms(1)] by (simp add: l_def zone_inv_def)
qed

subsection \<open>Corners that are numbers\<close>

definition coord_in :: "bool \<Rightarrow> js_num \<Rightarrow> bool" where
  "coord_in b x \<longleftrightarrow> b \<and> x = NaN \<or> (\<exists>r. x = Fin r \<and> 0 \<le> r \<and> r \<le> 100)"

definition corner_in :: "bool \<Rightarrow> zpoint \<Rightarrow> bool" where
  "corner_in b p \<longleftrightarrow> coord_in b (fst p) \<and> coord_in b (snd p)"

text \<open>The actions after which a coordinate can be no number: emptying its input, dragging in a feed without width or height.\<close>

fun unnumbers :: "(nat \<times> nat) \<times> zone_event \<Rightarrow> bool" where
  "unnumbers (fr, EditX i v) \<longleftrightarrow> sanitise_number v = []"
| "unnumbers (fr, EditY i v) \<longleftrightarrow> sanitise_number v = []"
| "unnumbers (fr, Drag i pos) \<longleftrightarrow> fst fr = 0 \<or> snd fr = 0"
| "unnumbers _ \<longleftrightarrow> False"

definition zone_run :: "zone_env \<Rightarrow> ((nat \<times> nat) \<times> zone_event) list \<Rightarrow> zone_page \<Rightarrow> zone_page" where
  "zone_run env evs s0 = fold (\<lambda>(fr, ev). zone_handle env fr ev) evs (initPage env s0)"

lemma zone_run_reachable: "zone_reachable env s0 (zone_run env evs s0)"
proof (induction evs rule: rev_induct)
  case Nil
  show ?case by (simp add: zone_run_def loaded)
next
  case (snoc x evs)
  then show ?case by (cases x) (simp add: zone_run_def act)
qed

definition numbered :: "zone_page \<Rightarrow> bool" where
  "numbered s \<longleftrightarrow> list_all (\<lambda>p. fst p \<noteq> NaN \<and> snd p \<noteq> NaN) (Points s)"

lemma numbered_cong: "Points t = Points s \<Longrightarrow> numbered t = numbered s"
  by (simp add: numbered_def)

lemma points_area [simp]: "Points (updateArea env s) = Points s"
proof (cases "Polygon_calcArea (Points s)")
  case (Some a)
  have "same_frame (s\<lparr>zArea := a\<rparr>) (checkDirty (updateAllPixelDisplays env (s\<lparr>zArea := a\<rparr>)))"
    by (rule same_frame_after(6)) (rule same_frame_displays)
  then show ?thesis using Some by (simp add: updateArea_def same_frame_def)
qed (simp add: updateArea_def)

lemma points_dirty [simp]: "Points (checkDirty s) = Points s"
  using same_frame_step(7) [of s] by (simp add: same_frame_def)

lemma constrain_NaN: "x \<noteq> NaN \<Longrightarrow> constrainValue x (Fin 0) (Fin 100) \<noteq> NaN"
  by (auto simp: constrainValue_def)

lemma typed_number:
  assumes "sanitise_number v \<noteq> []"
  shows "parseFloat (limitPointValue (sanitise_number v) (Fin 0) (Fin 100)) \<noteq> NaN"
proof -
  have "valid_float v" using assms by (auto simp: sanitise_number_def split: if_splits)
  then obtain r where r: "parseFloat v = Fin r" using valid_float_finite by blast
  have "sanitise_number v = v" using \<open>valid_float v\<close> by (simp add: sanitise_number_def)
  moreover obtain q where "constrainValue (Fin r) (Fin 0) (Fin 100) = Fin q" "0 \<le> q" "q \<le> 100"
    using constrainValue_ok [of "Fin r"] constrain_NaN [of "Fin r"] by (auto simp: coord_ok_iff)
  ultimately show ?thesis using parseFloat_rat_to_str_bounds [of q] r
    by (auto simp: limitPointValue_def field_of_num_def)
qed

lemma dragged_number: "0 < f \<Longrightarrow> coord_of_px (Fin x) (Fin (of_nat f)) (Fin 100) \<noteq> NaN"
  by (simp add: coord_of_px_def constrain_NaN num_max_def)

lemma midpoint_number: "x = Fin a \<Longrightarrow> y = Fin b \<Longrightarrow> midpoint2 x y \<noteq> NaN"
  by (simp add: midpoint2_def)

lemma same_points_form:
  "Points (zone_handle env fr (Edit f v) s) = Points s" "Points (zone_handle env fr (EditPx f v) s) = Points s"
  "Points (zone_handle env fr (PickColour v) s) = Points s" "Points (zone_handle env fr PresetBlur s) = Points s"
  "Points (zone_handle env fr Save s) = Points s"
proof -
  have e: "same_frame s (element_handler env f (set_value f v s))"
    using same_frame_trans same_frame_step(1) same_frame_handler by blast
  have p: "same_frame s (updatePercentFromPixel env f (s\<lparr>pxs := (pxs s)(f := sanitise_number v)\<rparr>))"
    using same_frame_trans same_frame_upd(1) same_frame_ops(5) by blast
  have c: "same_frame s (alarmColourToInputs (s\<lparr>picker := sanitise_colour v\<rparr>))"
    using same_frame_trans same_frame_upd(2) same_frame_ops(6) by blast
  show "Points (zone_handle env fr (Edit f v) s) = Points s" "Points (zone_handle env fr (EditPx f v) s) = Points s"
    "Points (zone_handle env fr (PickColour v) s) = Points s"
    using e p c by (simp_all add: same_frame_def)
  show "Points (zone_handle env fr PresetBlur s) = Points s" "Points (zone_handle env fr Save s) = Points s"
    using same_frame_step(1) [of s] same_frame_save [of s env] by (simp_all add: same_frame_def)
qed

lemma numbered_update: "numbered s \<Longrightarrow> fst p \<noteq> NaN \<Longrightarrow> snd p \<noteq> NaN \<Longrightarrow> list_all (\<lambda>p. fst p \<noteq> NaN \<and> snd p \<noteq> NaN) ((Points s)[i := p])"
  by (auto simp: numbered_def list.pred_set dest!: set_update_subset_insert [THEN subsetD])

lemma numbered_nth: "numbered s \<Longrightarrow> i < length (Points s) \<Longrightarrow> fst (Points s ! i) \<noteq> NaN \<and> snd (Points s ! i) \<noteq> NaN"
  by (simp add: numbered_def list_all_length)

lemma numbered_add:
  assumes "zone_inv l s" "numbered s" "i < length (Points s)"
  shows "numbered (addPoint i s)"
proof -
  let ?j = "if i \<ge> length (Points s) - 1 then 0 else i + 1"
  have j: "?j < length (Points s)" using assms(3) by auto
  have fin: "\<exists>a. c = Fin a" if "c \<noteq> NaN" "coord_ok c" for c using that by (auto simp: coord_ok_iff)
  have ok: "coord_ok (fst (Points s ! k))" "coord_ok (snd (Points s ! k))" if "k < length (Points s)" for k
    using assms(1) that by (auto simp: zone_inv_def points_ok_def)
  obtain a b c d where "fst (Points s ! i) = Fin a" "fst (Points s ! ?j) = Fin b" "snd (Points s ! i) = Fin c" "snd (Points s ! ?j) = Fin d"
    using fin ok [OF assms(3)] ok [OF j] numbered_nth [OF assms(2,3)] numbered_nth [OF assms(2) j] by metis
  then have m: "midpoint2 (fst (Points s ! i)) (fst (Points s ! ?j)) \<noteq> NaN" "midpoint2 (snd (Points s ! i)) (snd (Points s ! ?j)) \<noteq> NaN"
    using midpoint_number by blast+
  have "set (Points (addPoint i s)) \<subseteq> insert (midpoint2 (fst (Points s ! i)) (fst (Points s ! ?j)), midpoint2 (snd (Points s ! i)) (snd (Points s ! ?j))) (set (Points s))"
    unfolding addPoint_def Let_def draw_frame by (auto dest: in_set_takeD in_set_dropD)
  then show ?thesis using m assms(2) by (fastforce simp: numbered_def list.pred_set)
qed

lemma numbered_handle:
  assumes inv: "zone_inv l s" and n: "numbered s" and e: "\<not> unnumbers (fr, ev)"
    and l: "initialPoints l = Some ps" "list_all (\<lambda>p. fst p \<noteq> NaN \<and> snd p \<noteq> NaN) ps"
  shows "numbered (zone_handle env fr ev s)"
proof (cases ev)
  case (EditX i v)
  then show ?thesis using n e numbered_nth [OF n] typed_number [of v] inv
    by (auto simp: updateX_def Let_def numbered_def maxX_def zone_inv_def intro!: numbered_update [unfolded numbered_def])
next
  case (EditY i v)
  then show ?thesis using n e numbered_nth [OF n] typed_number [of v] inv
    by (auto simp: updateY_def Let_def numbered_def maxY_def zone_inv_def intro!: numbered_update [unfolded numbered_def])
next
  case (Drag i pos)
  then show ?thesis using n e
    by (auto simp: updateActivePoint_def Let_def numbered_def maxX_def maxY_def dragged_number intro!: numbered_update [unfolded numbered_def])
next
  case (AddPoint i)
  then show ?thesis using numbered_add [OF inv n] n by simp
next
  case (DelPoint i)
  then show ?thesis using n by (auto simp: delPoint_def draw_frame numbered_def list.pred_set dest: in_set_takeD in_set_dropD)
next
  case Reset
  have "Points (resetChanges env s) = ps \<or> Points (resetChanges env s) = Points s"
  proof (cases "initialValues s")
    case (Some vs)
    let ?d = "drawZonePoints (s\<lparr>Points := ps\<rparr>)"
    have "same_frame ?d (restore_values vs ?d)"
      unfolding restore_values_def by (rule same_frame_foldl) (simp split: prod.split add: same_frame_step)
    then have "same_frame ?d (set_value presetSelector ''0'' (restore_values vs ?d))" by (rule same_frame_after)
    then have "same_frame ?d (alarmColourFromInputs (applyZoneType (set_value presetSelector ''0'' (restore_values vs ?d))))"
      using same_frame_trans same_frame_type same_frame_after(4) by meson
    moreover have "initialPoints s = Some ps" using inv l(1) by (simp add: zone_inv_def)
    ultimately show ?thesis using Some by (simp add: resetChanges_def same_frame_def draw_frame)
  qed (simp add: resetChanges_def split: option.split)
  then show ?thesis using Reset n l(2) by (auto simp: numbered_def)
qed (use n same_points_form in \<open>simp_all add: numbered_def\<close>)

lemma zone_run_corners:
  assumes "zone_rendered s0" "list_all (corner_in False) (Points s0)"
  shows "list_all (corner_in (list_ex unnumbers evs)) (Points (zone_run env evs s0))"
proof -
  let ?l = "initPage env s0"
  have inv: "zone_inv ?l (zone_run env es s0)" for es using zone_reachable_inv [OF zone_run_reachable assms(1)] .
  have p0: "list_all (\<lambda>p. fst p \<noteq> NaN \<and> snd p \<noteq> NaN) (Points s0)"
    using assms(2) by (auto simp: list.pred_set corner_in_def coord_in_def)
  note init = zone_inv_init [OF assms(1), of env]
  have num: "\<not> list_ex unnumbers es \<Longrightarrow> numbered (zone_run env es s0)" for es
  proof (induction es rule: rev_induct)
    case Nil
    have "Points ?l = Points s0"
      using loaded_snapshot(3) [OF assms(1), of env] same_frame_init [of s0] zone_inv_init(1) [OF assms(1), of env]
      by (simp add: initPage_def Let_def draw_frame) (simp add: same_frame_def)
    then show ?case using p0 by (simp add: zone_run_def numbered_def)
  next
    case (snoc x es)
    obtain fr ev where x: "x = (fr, ev)" by fastforce
    have "numbered (zone_handle env fr ev (zone_run env es s0))"
      using snoc x by (intro numbered_handle [OF inv _ _ init(2) p0]) simp_all
    then show ?case by (simp add: zone_run_def x)
  qed
  have ok: "coord_ok c \<Longrightarrow> b \<or> c \<noteq> NaN \<Longrightarrow> coord_in b c" for b c by (auto simp: coord_in_def coord_ok_iff)
  show ?thesis
    using inv [of evs] num [of evs] ok
    by (cases "list_ex unnumbers evs") (auto simp: zone_inv_def points_ok_def numbered_def corner_in_def list.pred_set)
qed

text \<open>
  C2. Whatever the user does on a zone page that was loaded with corners inside the frame, the polygon keeps at least three corners and
  all of them lie inside the frame, each coordinate a number between 0 and 100; only after an input of a corner was
  emptied, or a handle dragged in a feed without width or height, can a coordinate be no number instead. There is one
  pair of inputs per corner, every number field holds a number or nothing, a pixel input is enabled exactly when the threshold it
  mirrors is, and the corners that were loaded are remembered.
\<close>

theorem zone_page_invariant:
  assumes "zone_rendered s0" "list_all (corner_in False) (Points s0)"
  shows "3 \<le> length (Points (zone_run env evs s0))
    \<and> list_all (corner_in (list_ex unnumbers evs)) (Points (zone_run env evs s0))
    \<and> length (pointInputs (zone_run env evs s0)) = length (Points (zone_run env evs s0))
    \<and> fields_ok (zone_run env evs s0) \<and> twins_ok (zone_run env evs s0)
    \<and> initialPoints (zone_run env evs s0) = Some (Points s0)"
  using zone_run_corners [OF assms, of evs env] zone_reachable_inv [OF zone_run_reachable [of env s0 evs] assms(1)]
    zone_inv_init(2) [OF assms(1), of env]
  by (simp add: zone_inv_def points_ok_def)

text \<open>
  C30. The reset button undoes every edit: from any state of the page it brings back the
  polygon and the text of every named element that change detection looks at, marks no
  corner as changed and disables itself.
\<close>

theorem reset_restores_loaded_zone:
  assumes "zone_rendered s0" and "zone_reachable env s0 s"
  defines "r \<equiv> resetChanges env s"
  shows "Points r = Points s0 \<and> formState r = formState (initPage env s0)
    \<and> (\<forall>f. f \<noteq> presetSelector \<longrightarrow> elems r f = elems (initPage env s0) f)
    \<and> resetOff r \<and> \<not> list_ex id (changedPoints r)"
proof -
  let ?l = "initPage env s0" and ?ps = "Points s0"
  note snap = loaded_snapshot [OF assms(1), of env]
  have inv: "zone_inv ?l s" using zone_reachable_inv [OF assms(2,1)] .
  then have init: "initialPoints s = Some ?ps" "initialValues s = Some (elems ?l)" "initialState s = Some (formState ?l)"
    using snap zone_inv_init(2) [OF assms(1), of env] by (simp_all add: zone_inv_def)
  let ?d = "drawZonePoints (s\<lparr>Points := ?ps\<rparr>)"
  let ?r = "set_value presetSelector ''0'' (restore_values (elems ?l) ?d)"
  let ?c = "alarmColourFromInputs (applyZoneType ?r)"
  have "same_frame ?d (restore_values (elems ?l) ?d)"
    unfolding restore_values_def by (rule same_frame_foldl) (simp split: prod.split add: same_frame_step)
  then have "same_frame ?d ?r" by (rule same_frame_after)
  then have fc: "same_frame ?d ?c"
    using same_frame_trans same_frame_type same_frame_after(4) by meson
  have "elems (restore_values (elems ?l) ?d) = elems ?l"
    using snap(5) by (intro elems_restore) (simp add: fields_ok_def)
  then have ec: "elems ?c f = elems ?l f" if "f \<noteq> presetSelector" for f
    using that by (simp add: set_value_def)
  have area: "Polygon_calcArea (Points ?c) = Some (zArea s0)"
    using assms(1) fc by (simp add: zone_rendered_def same_frame_def draw_frame)
  let ?u = "updateAllPixelDisplays env (?c\<lparr>zArea := zArea s0\<rparr>)"
  have fu: "same_frame (?c\<lparr>zArea := zArea s0\<rparr>) ?u" by (rule same_frame_displays)
  have r: "r = checkDirty (checkDirty ?u)"
    unfolding r_def resetChanges_def using init area by (simp add: updateArea_def)
  have fr: "same_frame ?u r" unfolding r using same_frame_trans same_frame_step(7) by blast
  have er: "elems r f = elems ?l f" if "f \<noteq> presetSelector" for f
    using that ec snap(4) by (simp add: r elems_displays)
  have pts: "Points r = ?ps" "pointInputs r = input_texts ?ps" "initialPoints r = Some ?ps"
    "initialState r = Some (formState ?l)"
    using fr fu fc init by (simp_all add: same_frame_def draw_frame)
  have st: "formState r = formState ?l"
    by (rule formState_cong) (use pts snap(3) er in simp_all)
  have dirty: "resetOff (checkDirty x) = (formState x = formState ?l)
      \<and> changedPoints (checkDirty x) = map (\<lambda>i. point_changed ?ps i (Points x ! i)) [0..<length (Points x)]"
    if "initialState x = Some (formState ?l)" "initialPoints x = Some ?ps" for x
    using that by (simp add: checkDirty_def markChangedPoints_def)
  have fx: "same_frame (checkDirty ?u) r" "elems r = elems (checkDirty ?u)" unfolding r by (simp_all add: same_frame_step)
  then have "formState (checkDirty ?u) = formState ?l" using st same_frame_formState by metis
  then have "resetOff r" "changedPoints r = map (\<lambda>i. point_changed ?ps i (?ps ! i)) [0..<length ?ps]"
    using dirty [of "checkDirty ?u"] fx pts unfolding r [symmetric] by (simp_all add: same_frame_def)
  moreover have "\<not> point_changed ?ps i (?ps ! i)" if "i < length ?ps" for i
    using that by (simp add: point_changed_def)
  ultimately show ?thesis using pts st er by (auto simp: list_ex_iff)
qed

section \<open>Colours\<close>

lemma byte_bits:
  assumes "n < 256" and "bit (word_of_nat n :: 32 word) k"
  shows "k < 8"
proof -
  have "take_bit 8 n = n" using assms(1) by (simp add: take_bit_nat_eq_self)
  then have "(word_of_nat n :: 32 word) = take_bit 8 (word_of_nat n)" by (simp add: take_bit_of_nat)
  with assms(2) show ?thesis by (metis bit_take_bit_iff)
qed

lemma pack_bytes:
  assumes "r < 256" and "g < 256" and "b < 256"
  shows "sint (push_bit 16 (word_of_nat r) OR push_bit 8 (word_of_nat g) OR word_of_nat b :: 32 word)
    = int (65536 * r + 256 * g + b)"
proof -
  let ?r = "word_of_nat r :: 32 word" and ?g = "word_of_nat g :: 32 word" and ?b = "word_of_nat b :: 32 word"
  have gb: "push_bit 8 ?g OR ?b = push_bit 8 ?g + ?b"
    using byte_bits [OF assms(3)] by (intro disjunctive_add [symmetric]) (fastforce simp: bit_push_bit_iff)
  have "bit (push_bit 8 ?g OR ?b) k \<Longrightarrow> k < 16" for k
    using byte_bits [OF assms(3), of k] byte_bits [OF assms(2), of "k - 8"]
    by (auto simp: bit_or_iff bit_push_bit_iff)
  then have rgb: "push_bit 16 ?r OR (push_bit 8 ?g OR ?b) = push_bit 16 ?r + (push_bit 8 ?g OR ?b)"
    by (intro disjunctive_add [symmetric]) (fastforce simp: bit_push_bit_iff)
  have "push_bit 16 ?r OR push_bit 8 ?g OR ?b = word_of_nat (65536 * r + 256 * g + b)"
    using rgb gb by (simp add: or.assoc push_bit_eq_mult mult.commute)
  moreover have "sint (word_of_nat n :: 32 word) = int n" if "n < 2 ^ 31" for n
    using that by (simp add: signed_of_nat signed_take_bit_int_eq_self)
  moreover have "65536 * r + 256 * g + b < 2 ^ 31" using assms by simp
  ultimately show ?thesis by metis
qed

lemma js_Number_nat: "js_Number (nat_to_str n) = Fin (of_nat n)"
  using parseFloat_nat_prefix [of n "[]"] by (simp add: js_Number_def parse_decimal_nat)

lemma hex_char_cases:
  assumes "d < 16"
  shows "digit36 (hex_char d) = d \<and> lower_char (hex_char d) = hex_char d"
proof -
  have "d \<in> set [0..<16]" using assms by simp
  moreover have "\<forall>d \<in> set [0..<16]. digit36 (hex_char d) = d \<and> lower_char (hex_char d) = hex_char d"
    by code_simp
  ultimately show ?thesis by blast
qed

lemma hex2_byte:
  assumes "n < 256"
  shows "hex2 (nat_to_str n) = [hex_char (n div 16), hex_char (n mod 16)]"
proof (cases "n < 16")
  case True
  then show ?thesis by (simp add: hex2_def int_to_hex_def nat_to_hex.simps hex_char_def Let_def)
next
  case False
  moreover have "n div 16 < 16" using assms by auto
  ultimately have "nat_to_hex n = [hex_char (n div 16), hex_char (n mod 16)]"
    using assms by (simp add: nat_to_hex.simps [of n] nat_to_hex.simps [of "n div 16"])
  then show ?thesis by (simp add: hex2_def int_to_hex_def Let_def)
qed

lemma parseInt16_hex2:
  assumes "n < 256"
  shows "parseInt16 [hex_char (n div 16), hex_char (n mod 16)] = Some (int n)"
proof -
  have lt: "n div 16 < 16" "n mod 16 < 16" using assms by auto
  let ?a = "hex_char (n div 16)" and ?b = "hex_char (n mod 16)"
  have d: "digit36 ?a = n div 16" "digit36 ?b = n mod 16" using hex_char_cases lt by blast+
  have "\<not> is_space c \<and> c \<noteq> CHR ''-'' \<and> c \<noteq> CHR ''+'' \<and> c \<noteq> CHR ''x'' \<and> c \<noteq> CHR ''X''"
    if "digit36 c < 16" for c
    using that by (auto simp: digit36_def is_space_def Let_def split: if_splits)
  then have "\<not> is_space ?a" "?a \<noteq> CHR ''-''" "?a \<noteq> CHR ''+''" "?b \<noteq> CHR ''x''" "?b \<noteq> CHR ''X''"
    using d lt by simp_all
  then show ?thesis using d lt
    by (simp add: parseInt16_def split_sign_def strip_hex_def starts_with_def digits_prefix_def
        digits_val_def apply_sign_def)
qed

lemma substr2_colour:
  "substr2 1 [a, b, c, d, e, f, g] = [b, c]" "substr2 (Suc 0) [a, b, c, d, e, f, g] = [b, c]"
  "substr2 3 [a, b, c, d, e, f, g] = [d, e]" "substr2 5 [a, b, c, d, e, f, g] = [f, g]"
  by (simp_all add: substr2_def numeral_eq_Suc)

text \<open>
  The colour of a zone has three views that agree: for byte-valued components the
  packed \<^verbatim>\<open>AlarmRGB\<close> is \<^verbatim>\<open>0xRRGGBB\<close> (the 32-bit shifts lose nothing), and writing the
  components into the picker and reading the picker back gives the same components.
\<close>

lemma colour_views_agree:
  assumes "r < 256" and "g < 256" and "b < 256"
    and "elems s newAlarmRgbR = nat_to_str r" and "elems s newAlarmRgbG = nat_to_str g"
    and "elems s newAlarmRgbB = nat_to_str b"
  shows "packRGB s = nat_to_str (65536 * r + 256 * g + b)
    \<and> elems (alarmColourToInputs (alarmColourFromInputs s)) = elems s"
proof -
  have c: "to_int32 (js_Number (nat_to_str n)) = word_of_nat n" for n
    by (simp add: js_Number_nat trunc_rat_def)
  have pack: "packRGB s = nat_to_str (65536 * r + 256 * g + b)"
    unfolding packRGB_def Let_def assms(4-6) c pack_bytes [OF assms(1-3)] by (simp only: int_to_str_def nat_int) simp
  let ?h = "\<lambda>n. [hex_char (n div 16), hex_char (n mod 16)]"
  have lt: "n div 16 < 16" "n mod 16 < 16" if "n < 256" for n :: nat using that by auto
  let ?p = "picker (alarmColourFromInputs s)"
  have "?p = ''#'' @ ?h r @ ?h g @ ?h b"
    using assms lt hex_char_cases
    by (simp add: alarmColourFromInputs_def hex2_byte sanitise_colour_def) (simp add: lower_char_def)
  then have sub: "substr2 1 ?p = ?h r" "substr2 3 ?p = ?h g" "substr2 5 ?p = ?h b"
    by (simp_all add: substr2_colour)
  have shown: "num_to_str (num_of_int (Some (int n))) = nat_to_str n" for n
    by (simp add: num_of_int_def rat_to_str_of_nat)
  have "set_value f (nat_to_str n) t = t\<lparr>elems := (elems t)(f := nat_to_str n)\<rparr>" for f n t
    by (simp add: set_value_def sanitise_number_def)
  then have "elems (alarmColourToInputs (alarmColourFromInputs s))
      = (elems s)(newAlarmRgbR := nat_to_str r, newAlarmRgbG := nat_to_str g, newAlarmRgbB := nat_to_str b)"
    unfolding alarmColourToInputs_def Let_def sub
    by (simp only: parseInt16_hex2 assms(1-3) shown same_elems_ops same_elems) simp
  with pack assms(4-6) show ?thesis by (metis fun_upd_triv)
qed

section \<open>Limits\<close>

text \<open>
  Whatever is typed into a filter size, the field ends up holding an odd number between
  3 and 15, and a value that already is one stays.
\<close>

lemma limitFilter_odd:
  assumes "f = FilterX \<or> f = FilterY" and "elems s f = [] \<or> valid_float (elems s f)"
  shows "\<exists>k. elems (limitFilter f s) f = nat_to_str k \<and> odd k \<and> 3 \<le> k \<and> k \<le> 15
    \<and> (\<forall>n. elems s f = nat_to_str n \<and> odd n \<and> 3 \<le> n \<and> n \<le> 15 \<longrightarrow> k = n)"
proof -
  obtain x where x: "js_Number (elems s f) = Fin x"
    using assms(2) valid_float_finite by (fastforce simp: js_Number_def)
  define m where "m = \<lfloor>(x - 1) / 2\<rfloor> * 2 + 1"
  define k where "k = (if m < 3 then 3 else if m > 15 then 15 else m)"
  have nf: "f \<in> set number_fields" using assms(1) by (auto simp: number_fields_def)
  have "num_add (num_mul (num_floor (num_div (num_sub (js_Number (elems s f)) (Fin 1)) (Fin 2))) (Fin 2)) (Fin 1)
      = Fin (of_int m)" by (simp add: x m_def)
  moreover have "constrainValue (Fin (of_int m)) (Fin 3) (Fin 15) = Fin (of_int k)"
    unfolding k_def constrainValue_def
    by simp
  ultimately have "elems (limitFilter f s) f = int_to_str k"
    using nf by (simp add: limitFilter_def Let_def set_value_def sanitise_number_def rat_to_str_of_int num_of_int_def)
  moreover have "3 \<le> k" "k \<le> 15" unfolding k_def by simp_all
  moreover have "odd k" by (simp add: k_def m_def)
  moreover have same: "nat k = n" if n: "elems s f = nat_to_str n" "odd n" "3 \<le> n" "n \<le> 15" for n
  proof -
    have "x = of_nat n" using x n(1) by (simp add: js_Number_nat)
    moreover obtain j where "n = 2 * j + 1" using n(2) by (metis oddE)
    ultimately have "m = int n" by (simp add: m_def)
    then show ?thesis using n by (simp add: k_def)
  qed
  ultimately show ?thesis
    by (intro exI [of _ "nat k"]) (auto simp: int_to_str_def even_nat_iff)
qed

text \<open>A positive limit that lies below its maximum, where that is a positive number.\<close>

definition positive_below :: "js_num \<Rightarrow> js_num \<Rightarrow> bool" where
  "positive_below m M \<longleftrightarrow> (\<exists>a. m = Fin a \<and> 0 < a \<and> (\<forall>b. M = Fin b \<and> 0 < b \<longrightarrow> a < b))"

lemma float_limits:
  assumes "v = [] \<or> valid_float v" "w = [] \<or> valid_float w"
  shows "\<not> min_unset parseFloat v \<and> \<not> min_not_below parseFloat v w \<longleftrightarrow> v \<noteq> [] \<and> positive_below (parseFloat v) (parseFloat w)"
proof -
  have w: "parseFloat w = NaN \<or> (\<exists>r. parseFloat w = Fin r)"
    using assms(2) valid_float_finite [of w] by auto
  show ?thesis
  proof (cases "v = []")
    case False
    then obtain r where "parseFloat v = Fin r" using assms(1) valid_float_finite by blast
    then show ?thesis using False w by (auto simp: min_unset_def min_not_below_def positive_below_def not_le)
  qed (simp add: min_unset_def)
qed

lemma int_limits:
  "\<not> min_unset readInt v \<and> \<not> min_not_below readInt v w \<longleftrightarrow>
    v \<noteq> [] \<and> (parseInt v = None \<or> positive_below (readInt v) (readInt w))"
  by (cases "parseInt v"; cases "parseInt w") (auto simp: min_unset_def min_not_below_def positive_below_def num_of_int_def not_le)


section \<open>Pixels and percentages\<close>

lemma pixelArea_set [simp]:
  "pixelArea env (set_value f v s) = pixelArea env s" "pixelArea env (s\<lparr>pxs := p\<rparr>) = pixelArea env s"
  by (simp_all add: pixelArea_def set_value_def)

lemma math_round_close:
  assumes "\<bar>x - of_int n\<bar> < 1 / 2"
  shows "math_round x = n"
  using assms unfolding math_round_def by (intro floor_unique) linarith+

text \<open>
  Typing a number of pixels sets the percentage, and the pixel display recomputed from
  that percentage is off by at most half a pixel plus one 20000th of the zone, the two
  roundings; a zone of less than 10000 pixels shows exactly what was typed.
\<close>

lemma pixels_survive_percent:
  assumes "f \<in> set pixel_fields" and "pixelArea env s = Fin (of_nat A)" and "0 < A" and "p \<le> A"
    and "pxs s f = nat_to_str p"
  defines "t \<equiv> updatePixelFromPercent env f (updatePercentFromPixel env f s)"
  shows "\<exists>p'. pxs t f = nat_to_str p' \<and> 20000 * \<bar>int p' - int p\<bar> \<le> int A + 10000 \<and> (A < 10000 \<longrightarrow> p' = p)"
proof -
  define q where "q = math_round (of_nat p / of_nat A * 10000 :: rat)"
  have q0: "0 \<le> q" using math_round_mono [of "of_int 0" "of_nat p / of_nat A * 10000 :: rat"]
    by (simp only: q_def math_round_of_int) simp
  let ?u = "updatePercentFromPixel env f s"
  have nf: "f \<in> set number_fields" using assms(1) by (auto simp: pixel_fields_def number_fields_def)
  have px: "num_max (Fin 0) (num_min (readInt (pxs s f)) (pixelArea env s)) = Fin (of_nat p)"
    using assms(2,4,5) by (simp add: num_of_int_def)
  have "?u = set_value f (num_to_str (Fin (of_int q / 100))) (s\<lparr>pxs := (pxs s)(f := nat_to_str p)\<rparr>)"
    unfolding updatePercentFromPixel_def px using assms(2,3,5)
    by (simp add: q_def field_of_num_def rat_to_str_of_nat)
  then have u: "elems ?u f = rat_to_str (of_int q / 100)" "pixelArea env ?u = Fin (of_nat A)"
    using nf q0 assms(2) valid_float_pos [of "of_int q / 100"]
    by (simp_all add: set_value_def sanitise_number_def pixelArea_def)
  have "two_dp (of_int q / 100)" using q0 by (auto simp: two_dp_def intro: exI [of _ "nat q"])
  then have "parseFloat (rat_to_str (of_int q / 100)) = Fin (of_int q / 100)" by (rule parseFloat_rat_to_str)
  moreover define r where "r = math_round (of_int q / 100 * of_nat A / 100 :: rat)"
  ultimately have t: "pxs t f = int_to_str r"
    unfolding t_def updatePixelFromPercent_def using assms(1,3) u
    by (simp add: field_of_num_def rat_to_str_of_int)
  have r0: "0 \<le> r" using math_round_mono [of "of_int 0" "of_int q / 100 * of_nat A / 100 :: rat"] q0
    by (simp only: r_def math_round_of_int) simp
  have A: "(0 :: rat) < of_nat A" using assms(3) by simp
  have "\<bar>of_int q - of_nat p / of_nat A * 10000 :: rat\<bar> \<le> 1 / 2" unfolding q_def by (rule math_round_error)
  then have "\<bar>of_int q - of_nat p / of_nat A * 10000 :: rat\<bar> * (of_nat A / 10000) \<le> 1 / 2 * (of_nat A / 10000)"
    by (rule mult_right_mono) simp
  moreover have "\<bar>of_int q - of_nat p / of_nat A * 10000 :: rat\<bar> * (of_nat A / 10000)
      = \<bar>of_int q / 100 * of_nat A / 100 - of_nat p\<bar>"
  proof -
    have "(of_int q / 100 * of_nat A / 100 - of_nat p :: rat)
        = (of_int q - of_nat p / of_nat A * 10000) * (of_nat A / 10000)" using A by (simp add: field_simps)
    then show ?thesis by (simp only: abs_mult abs_divide abs_of_nat abs_numeral)
  qed
  ultimately have "\<bar>of_int q / 100 * of_nat A / 100 - of_nat p :: rat\<bar> \<le> 1 / 2 * (of_nat A / 10000)" by (simp only:)
  then have err: "\<bar>of_int q / 100 * of_nat A / 100 - of_int (int p) :: rat\<bar> \<le> of_nat A / 20000" by simp
  have "\<bar>of_int r - of_int q / 100 * of_nat A / 100 :: rat\<bar> \<le> 1 / 2" unfolding r_def by (rule math_round_error)
  with err have "\<bar>of_int r - of_int (int p) :: rat\<bar> \<le> of_nat A / 20000 + 1 / 2" by linarith
  then have "(of_int (20000 * \<bar>r - int p\<bar>) :: rat) \<le> of_int (int A + 10000)" by simp
  then have b: "20000 * \<bar>r - int p\<bar> \<le> int A + 10000" by (simp only: of_int_le_iff)
  have ex: "r = int p" if "A < 10000"
  proof -
    have "(of_nat A / 20000 :: rat) < 1 / 2" using that by simp
    with err have "\<bar>of_int q / 100 * of_nat A / 100 - of_int (int p) :: rat\<bar> < 1 / 2" by linarith
    then show ?thesis unfolding r_def by (rule math_round_close)
  qed
  show ?thesis using t r0 b ex by (intro exI [of _ "nat r"]) (auto simp: int_to_str_def)
qed

section \<open>Area of the polygon\<close>

text \<open>The specification: the signed sum over the closed outline, on plain coordinates.\<close>

definition cross :: "rat \<times> rat \<Rightarrow> rat \<times> rat \<Rightarrow> rat" where
  "cross p q = (fst p * snd q - fst q * snd p) / 2"

fun path_sum :: "(rat \<times> rat) list \<Rightarrow> rat" where
  "path_sum (p # q # ps) = cross p q + path_sum (q # ps)"
| "path_sum _ = 0"

definition signed_area :: "(rat \<times> rat) list \<Rightarrow> rat" where
  "signed_area ps = path_sum (ps @ [hd ps])"

definition fin_point :: "rat \<times> rat \<Rightarrow> zpoint" where
  "fin_point p = (Fin (fst p), Fin (snd p))"

lemma trap_area_fin [simp]: "trap_area (fin_point p) (fin_point q) = Fin (cross p q)"
  by (simp add: trap_area_def fin_point_def cross_def)

lemma trap_sum_fin: "trap_sum (Fin a) (map fin_point ps) = Fin (a + path_sum ps)"
  by (induction ps arbitrary: a rule: path_sum.induct) simp_all

lemma path_sum_append: "path_sum (ps @ [p, q]) = path_sum (ps @ [p]) + cross p q"
proof (induction ps)
  case (Cons r ps)
  then show ?case by (cases ps) simp_all
qed simp

lemma path_sum_snoc: "ps \<noteq> [] \<Longrightarrow> path_sum (ps @ [q]) = path_sum ps + cross (last ps) q"
  using path_sum_append [of "butlast ps" "last ps" q]
  by (metis append.assoc append_Cons append_Nil append_butlast_last_id)

lemma Polygon_calcArea_fin:
  assumes "ps \<noteq> []"
  shows "Polygon_calcArea (map fin_point ps) = Some (Fin (of_int (math_round \<bar>signed_area ps\<bar>)))"
  using assms by (simp add: Polygon_calcArea_def trap_sum_fin signed_area_def path_sum_snoc last_map hd_map)

lemma path_sum_rev: "path_sum (rev ps) = - path_sum ps"
proof (induction ps rule: path_sum.induct)
  case (1 p q ps)
  then show ?case using path_sum_append [of "rev ps" q p] by (simp add: cross_def field_simps)
qed simp_all

lemma signed_area_rotate1: "ps \<noteq> [] \<Longrightarrow> signed_area (rotate1 ps) = signed_area ps"
proof (cases ps)
  case (Cons p qs)
  then show ?thesis
    using path_sum_append [of qs p "hd qs"] by (cases qs) (simp_all add: signed_area_def cross_def)
qed simp

lemma signed_area_rev:
  assumes "ps \<noteq> []"
  shows "signed_area (rev ps) = - signed_area ps"
proof -
  have "rev ps @ [hd (rev ps)] = rev (last ps # ps)" using assms by (simp add: hd_rev)
  then have "signed_area (rev ps) = - path_sum (last ps # ps)"
    unfolding signed_area_def by (simp only: path_sum_rev)
  moreover have "path_sum (last ps # ps) = cross (last ps) (hd ps) + path_sum ps"
    using assms by (cases ps) simp_all
  ultimately show ?thesis using path_sum_snoc [OF assms, of "hd ps"] by (simp add: signed_area_def)
qed

text \<open>
  C40. The area the editor computes is the rounded absolute value of the shoelace sum over
  the closed outline, and does not depend on the corner the list starts with nor on the
  direction the outline is drawn in.
\<close>

theorem Polygon_calcArea_correct:
  assumes "ps \<noteq> []"
  shows "Polygon_calcArea (map fin_point ps) = Some (Fin (of_int (math_round \<bar>signed_area ps\<bar>)))
    \<and> Polygon_calcArea (map fin_point (rotate n ps)) = Polygon_calcArea (map fin_point ps)
    \<and> Polygon_calcArea (map fin_point (rev ps)) = Polygon_calcArea (map fin_point ps)"
proof -
  have "signed_area (rotate n ps) = signed_area ps"
    by (induction n) (simp_all add: signed_area_rotate1 assms)
  then show ?thesis using assms by (simp add: Polygon_calcArea_fin signed_area_rev)
qed

section \<open>A zone to look at\<close>

definition demo_zone :: zone_page where
  "demo_zone = \<lparr>
     elems = (\<lambda>_. [])(ZType := ''Active'', CheckMethod := ''Blobs'', newAlarmRgbR := ''255'',
       newAlarmRgbG := ''0'', newAlarmRgbB := ''16'', MinPixelThreshold := ''25'', FilterX := ''3'',
       FilterY := ''3'', MinAlarmPixels := ''5'', MinFilterPixels := ''3.5'', MinBlobPixels := ''3'',
       MinBlobs := ''1'', Units := ''Percent''),
     off = (\<lambda>_. False), pxs = (\<lambda>_. []), px_off = (\<lambda>_. False), picker = ''#ff0010'', picker_off = False,
     Points = map fin_point [(0, 0), (100, 0), (100, 100), (0, 100)], zArea = Fin 10000,
     pointInputs = [], changedPoints = [], areaPercent = Fin 0, areaPixels = Fin 0, resetOff = True,
     initialState = None, initialValues = None, initialPoints = None\<rparr>"

definition demo_env :: zone_env where
  "demo_env = \<lparr>monitorPixelArea = 921600, presets = Map.empty, selfIntersecting = False\<rparr>"

lemma demo_zone_rendered: "zone_rendered demo_zone"
  by code_simp


lemma Points_ops [simp]:
  "Points (checkDirty s) = Points s" "Points (drawZonePoints s) = Points s"
  "Points (updateAllPixelDisplays env s) = Points s" "zArea (updateAllPixelDisplays env s) = zArea s"
  "zArea (checkDirty s) = zArea s"
  using same_frame_step(7) [of s] same_frame_displays [of s env]
  by (simp_all add: draw_frame same_frame_def)

lemma Points_area [simp]: "Points (updateArea env s) = Points s"
  by (simp add: updateArea_def split: option.split)

lemma Points_init [simp]: "Points (initPage env s) = Points s" "zArea (initPage env s) = zArea s"
  using same_frame_init [of s env] by (simp_all add: initPage_def Let_def draw_frame same_frame_def)

lemma demo_values:
  "elems demo_zone newAlarmRgbR = ''255''" "elems demo_zone newAlarmRgbG = ''0''"
  "elems demo_zone newAlarmRgbB = ''16''" "elems demo_zone FilterX = ''3''"
  "elems demo_zone CheckMethod = ''Blobs''" "elems demo_zone ZType = ''Active''"
  "Points demo_zone = map fin_point [(0, 0), (100, 0), (100, 100), (0, 100)]" "zArea demo_zone = Fin 10000"
  by (simp_all add: demo_zone_def)

text \<open>A page on which the first corner was dragged out of the frame and the last deleted.\<close>

definition demo_edited :: zone_page where
  "demo_edited = zone_handle demo_env (640, 360) (DelPoint 3)
     (zone_handle demo_env (640, 360) (Drag 0 (-20, 500)) (initPage demo_env demo_zone))"

lemma demo_edited_reachable: "zone_reachable demo_env demo_zone demo_edited"
  unfolding demo_edited_def by (intro zone_reachable.intros)

theorem zone_page_invariant_witness:
  "3 \<le> length (Points demo_edited) \<and> list_all (corner_in False) (Points demo_edited) \<and> twins_ok demo_edited \<and> length (Points demo_edited) = 3
   \<and> Points demo_edited ! 0 = (Fin 0, Fin 100)"
proof -
  have "coord_of_px (Fin (- 20)) (Fin 640) (Fin 100) = Fin 0" "coord_of_px (Fin 500) (Fin 360) (Fin 100) = Fin 100"
    by code_simp+
  then have "length (Points demo_edited) = 3 \<and> Points demo_edited ! 0 = (Fin 0, Fin 100)"
    by (simp add: demo_edited_def delPoint_def updateActivePoint_def demo_values maxX_def maxY_def Let_def)
  moreover have "demo_edited = zone_run demo_env [((640, 360), Drag 0 (-20, 500)), ((640, 360), DelPoint 3)] demo_zone"
    by (simp add: demo_edited_def zone_run_def)
  moreover have "list_all (corner_in False) (Points demo_zone)" by (simp add: demo_values corner_in_def coord_in_def fin_point_def)
  ultimately show ?thesis
    using zone_page_invariant [OF demo_zone_rendered, of demo_env "[((640, 360), Drag 0 (-20, 500)), ((640, 360), DelPoint 3)]"]
    by simp
qed

theorem reset_restores_loaded_zone_witness:
  "resetOff (resetChanges demo_env demo_edited) \<and> Points (resetChanges demo_env demo_edited) = Points demo_zone
   \<and> Points demo_edited \<noteq> Points demo_zone"
proof -
  have "length (Points demo_edited) \<noteq> length (Points demo_zone)"
    by (simp add: demo_edited_def delPoint_def updateActivePoint_def demo_values Let_def)
  then show ?thesis
    using reset_restores_loaded_zone [OF demo_zone_rendered demo_edited_reachable] by auto
qed


theorem Polygon_calcArea_correct_witness:
  "Polygon_calcArea (map fin_point (rotate 1 [(0, 0), (50, 0), (50, 20)])) = Some (Fin 500)"
proof -
  have "Polygon_calcArea (map fin_point [(0, 0), (50, 0), (50, 20)]) = Some (Fin 500)" by code_simp
  then show ?thesis using Polygon_calcArea_correct [of "[(0, 0), (50, 0), (50, 20)]" 1] by simp
qed

text \<open>
  Adding or deleting a corner redraws the outline but does not recompute the area: what
  is submitted is the area before the change, and there is a sequence of user actions after
  which it is not the area of the submitted polygon.
\<close>

lemma deleted_corner_area_stale:
  "elems (submitForm (delPoint i s)) Area = num_to_str (zArea s)
   \<and> elems (submitForm (addPoint i s)) Area = num_to_str (zArea s)
   \<and> (\<exists>s1. zone_reachable demo_env demo_zone s1 \<and> Polygon_calcArea (Points s1) = Some (Fin 5000)
        \<and> elems (submitForm s1) Area = ''10000'')"
proof -
  have sub: "elems (submitForm t) Area = num_to_str (zArea t)" for t
    by (simp add: submitForm_def set_value_def number_fields_def)
  let ?s = "zone_handle demo_env (640, 360) (DelPoint 3) (initPage demo_env demo_zone)"
  have "zone_reachable demo_env demo_zone ?s" by (intro zone_reachable.intros)
  moreover have "Polygon_calcArea (map fin_point [(0, 0), (100, 0), (100, 100)]) = Some (Fin 5000)" by code_simp
  then have "Polygon_calcArea (Points ?s) = Some (Fin 5000)" "zArea ?s = Fin 10000"
    by (simp_all add: delPoint_def demo_values draw_frame)
  moreover have "num_to_str (Fin 10000) = ''10000''"
    using rat_to_str_of_nat [of 10000] by (simp add: nat_to_str.simps digit_char_def)
  moreover have "zArea (drawZonePoints (s\<lparr>Points := ps\<rparr>)) = zArea s" for ps by (simp add: draw_frame)
  ultimately show ?thesis unfolding sub by (auto simp: delPoint_def addPoint_def Let_def)
qed

end
