(* ===== verification/Zone_Object_Size.thy ===== *)
theory Zone_Object_Size
  imports Zone_Editor
begin

text \<open>
  The rectangle tool of the zone editor, \<^verbatim>\<open>views/js/zone-object-size.js\<close>: deriving a
  zone's thresholds from a box drawn round the smallest object that should alarm, with undo,
  change marks, typed sizes, ratios kept in cookies and a still image in place of the live
  view. The tool works on the page of the zone editor; its own variables and the elements
  it owns are the other fields of the state.
\<close>

section \<open>Deriving thresholds\<close>

definition DEFAULT_PIXEL_THRESHOLD :: rat where "DEFAULT_PIXEL_THRESHOLD = 40"
definition MIN_FILTER_KERNEL :: int where "MIN_FILTER_KERNEL = 3"

definition MANAGED_FIELDS :: "zfield list" where
  "MANAGED_FIELDS = [MinPixelThreshold, MaxPixelThreshold, FilterX, FilterY, MinAlarmPixels,
     MaxAlarmPixels, MinFilterPixels, MaxFilterPixels, MinBlobPixels, MaxBlobPixels, MinBlobs,
     MaxBlobs, OverloadFrames]"

definition asPercentField :: "js_num \<Rightarrow> js_num" where
  "asPercentField pct =
     num_min (Fin 100) (num_max (Fin (1 / 100)) (num_div (num_round (num_mul pct (Fin 100))) (Fin 100)))"

record ratios =
  fraction :: js_num
  filter_ratio :: js_num
  blob_ratio :: js_num

record threshold_px =
  alarm_px :: js_num
  filter_px :: js_num
  blob_px :: js_num

definition objectThresholdPixels :: "js_num \<Rightarrow> ratios \<Rightarrow> threshold_px option" where
  "objectThresholdPixels boxPx r =
     (if \<not> num_gt boxPx (Fin 0) then None
      else let alarm = num_mul (fraction r) boxPx; filt = num_mul alarm (filter_ratio r)
           in Some \<lparr>alarm_px = alarm, filter_px = filt, blob_px = num_mul filt (blob_ratio r)\<rparr>)"

definition pixelsToPercent :: "js_num \<Rightarrow> js_num \<Rightarrow> jsval" where
  "pixelsToPercent px zonePx =
     (if \<not> num_gt px (Fin 0) \<or> \<not> num_gt zonePx (Fin 0) then JNull
      else JNum (asPercentField (num_mul (num_div px zonePx) (Fin 100))))"

definition keepOr :: "string \<Rightarrow> rat \<Rightarrow> jsval" where
  "keepOr current fallback = (if current = [] then JNum (Fin fallback) else JStr current)"

definition zoneSettingsForObject ::
  "js_num \<Rightarrow> js_num \<Rightarrow> (zfield \<Rightarrow> string) \<Rightarrow> ratios \<Rightarrow> (zfield \<Rightarrow> jsval) option" where
  "zoneSettingsForObject boxPx zonePx current r = (case objectThresholdPixels boxPx r of
     None \<Rightarrow> None
   | Some px \<Rightarrow>
      if \<not> num_gt zonePx (Fin 0) then None
      else Some ((\<lambda>_. JUndef)(
        CheckMethod := JStr ''Blobs'',
        MinPixelThreshold := keepOr (current MinPixelThreshold) DEFAULT_PIXEL_THRESHOLD,
        MaxPixelThreshold := JStr [],
        FilterX := keepOr (current FilterX) (of_int MIN_FILTER_KERNEL),
        FilterY := keepOr (current FilterY) (of_int MIN_FILTER_KERNEL),
        MinAlarmPixels := pixelsToPercent (alarm_px px) zonePx,
        MaxAlarmPixels := JStr [],
        MinFilterPixels := pixelsToPercent (filter_px px) zonePx,
        MaxFilterPixels := JStr [],
        MinBlobPixels := pixelsToPercent (blob_px px) zonePx,
        MaxBlobPixels := JStr [],
        MinBlobs := JNum (Fin 1),
        MaxBlobs := JStr [],
        OverloadFrames := JNum (Fin 0))))"

definition objectTooNarrowToFilter :: "js_num \<Rightarrow> js_num \<Rightarrow> int \<Rightarrow> int \<Rightarrow> bool" where
  "objectTooNarrowToFilter w h fx fy \<longleftrightarrow>
     num_lt w (Fin (of_int (max fx MIN_FILTER_KERNEL))) \<or> num_lt h (Fin (of_int (max fy MIN_FILTER_KERNEL)))"

definition normalizeRatio :: "string \<Rightarrow> int option" where
  "normalizeRatio v = (case parseFloat v of
     Fin x \<Rightarrow> (let n = math_round x in if n \<ge> 1 \<and> n \<le> 100 then Some n else None)
   | _ \<Rightarrow> None)"

type_synonym box = "zpoint \<times> zpoint"

definition boxPercentForPixels :: "js_num \<Rightarrow> js_num \<Rightarrow> js_num \<times> js_num \<Rightarrow> box option" where
  "boxPercentForPixels wPx hPx frame =
     (if \<not> num_gt wPx (Fin 0) \<or> \<not> num_gt hPx (Fin 0) then None
      else if \<not> num_gt (fst frame) (Fin 0) \<or> \<not> num_gt (snd frame) (Fin 0) then None
      else let w = num_min maxX (num_mul (num_div wPx (fst frame)) maxX);
               h = num_min maxY (num_mul (num_div hPx (snd frame)) maxY);
               x = num_div (num_sub maxX w) (Fin 2);
               y = num_div (num_sub maxY h) (Fin 2)
           in Some ((x, y), (num_add x w, num_add y h)))"

section \<open>The state of the tool\<close>

record tool =
  pg :: zone_page
  armed :: bool
  dragging :: bool
  startPct :: "zpoint option"
  undoSnapshot :: "(zfield \<Rightarrow> string) option"
  lastBox :: "box option"
  snapshotTaken :: bool
  marked :: "zfield \<Rightarrow> bool"
  undoShown :: bool
  panelShown :: bool
  rectangle :: "(zpoint \<times> zpoint) option"
  sizeInputs :: "string \<times> string"
  ratioInputs :: "string \<times> string \<times> string"
  stillShown :: bool
  stillSrc :: "string option"
  replaceShown :: bool
  paused :: bool
  cookies :: "(string \<times> string) list"
  alerts :: "string list"

text \<open>Fixed for a page: the zone editor's environment, the camera's size and the rendered ratios.\<close>

record tool_env =
  zenv :: zone_env
  camera :: "js_num \<times> js_num"
  defaultRatios :: "string \<times> string \<times> string"

definition percent_or_default :: "string \<Rightarrow> string \<Rightarrow> js_num" where
  "percent_or_default v d = (let pct = parseFloat v in
     num_div (if \<not> num_gt pct (Fin 0) \<or> \<not> num_le pct (Fin 100) then parseFloat d else pct) (Fin 100))"

definition currentRatios :: "tool_env \<Rightarrow> tool \<Rightarrow> ratios" where
  "currentRatios env t = (case (ratioInputs t, defaultRatios env) of
     ((f, g, b), (f', g', b')) \<Rightarrow>
        \<lparr>fraction = percent_or_default f f', filter_ratio = percent_or_default g g',
         blob_ratio = percent_or_default b b'\<rparr>)"

section \<open>The still image\<close>

definition hasStill :: "tool \<Rightarrow> bool" where
  "hasStill t \<longleftrightarrow> (case stillSrc t of None \<Rightarrow> False | Some u \<Rightarrow> u \<noteq> [])"

definition updateStillButton :: "tool \<Rightarrow> tool" where
  "updateStillButton t = t\<lparr>replaceShown := stillShown t\<rparr>"

definition showStill :: "tool \<Rightarrow> tool" where
  "showStill t = (if \<not> hasStill t then t else updateStillButton (t\<lparr>stillShown := True, paused := True\<rparr>))"

definition loadStill :: "string \<Rightarrow> tool \<Rightarrow> tool" where
  "loadStill u t = showStill (t\<lparr>stillSrc := Some u\<rparr>)"

definition hideStill :: "tool \<Rightarrow> tool" where
  "hideStill t = updateStillButton (t\<lparr>stillShown := False\<rparr>)"

definition showLive :: "tool \<Rightarrow> tool" where
  "showLive t = (hideStill t)\<lparr>paused := False\<rparr>"

text \<open>The play button's two handlers: zone.js plays the stream, the tool drops the still.\<close>

definition playClick :: "tool \<Rightarrow> tool" where
  "playClick t = (let t1 = t\<lparr>paused := False\<rparr> in if stillShown t1 then hideStill t1 else t1)"

text \<open>A press of the image button: True asks for a file.\<close>

definition imageClick :: "tool \<Rightarrow> bool \<times> tool" where
  "imageClick t = (if \<not> hasStill t then (True, t) else (False, if stillShown t then showLive t else showStill t))"

text \<open>The chosen file: its MIME type, whether it can be read and decoded, and its data URL.\<close>

definition notAnImage :: string where "notAnImage = ''notAnImage''"

definition fileChosen :: "string \<Rightarrow> bool \<Rightarrow> bool \<Rightarrow> string \<Rightarrow> tool \<Rightarrow> tool" where
  "fileChosen mime readable decodes url t =
     (if \<not> starts_with ''image/'' mime \<or> \<not> readable \<or> \<not> decodes
      then t\<lparr>alerts := alerts t @ [notAnImage]\<rparr>
      else loadStill url t)"

section \<open>Measuring\<close>

definition zoneIsMeasurable :: "zone_page \<Rightarrow> bool" where
  "zoneIsMeasurable s \<longleftrightarrow> elems s ZType \<noteq> ''Inactive'' \<and> elems s ZType \<noteq> ''Privacy''"

text \<open>
  The position of a pointer event in the feed, whose rectangle (its corner and its size) is
  an argument.
\<close>

definition toPercent :: "js_num \<times> js_num \<Rightarrow> (js_num \<times> js_num) \<times> (js_num \<times> js_num) \<Rightarrow> zpoint" where
  "toPercent client feed = 
     (constrainValue (num_mul (num_div (num_sub (fst client) (fst (fst feed))) (fst (snd feed))) maxX) (Fin 0) maxX,
      constrainValue (num_mul (num_div (num_sub (snd client) (snd (fst feed))) (snd (snd feed))) maxY) (Fin 0) maxY)"

definition drawRect :: "zpoint \<Rightarrow> zpoint \<Rightarrow> tool \<Rightarrow> tool" where
  "drawRect a b t = t\<lparr>rectangle := Some
     ((num_min (fst a) (fst b), num_min (snd a) (snd b)),
      (num_abs (num_sub (fst b) (fst a)), num_abs (num_sub (snd b) (snd a))))\<rparr>"

definition hideRect :: "tool \<Rightarrow> tool" where
  "hideRect t = t\<lparr>rectangle := None\<rparr>"

definition markChanged :: "zfield \<Rightarrow> bool \<Rightarrow> tool \<Rightarrow> tool" where
  "markChanged f c t = t\<lparr>marked := (marked t)(f := c)\<rparr>"

definition clearChangeMarks :: "tool \<Rightarrow> tool" where
  "clearChangeMarks t = foldl (\<lambda>u f. markChanged f False u) t (MANAGED_FIELDS @ [CheckMethod])"

definition forgetMeasurement :: "tool \<Rightarrow> tool" where
  "forgetMeasurement t = (let t1 = (clearChangeMarks t)\<lparr>undoSnapshot := None, snapshotTaken := False,
        lastBox := None, undoShown := False\<rparr>
     in hideRect (if \<not> armed t1 then t1\<lparr>panelShown := False\<rparr> else t1))"

definition setArmed :: "bool \<Rightarrow> tool \<Rightarrow> tool" where
  "setArmed on t = t\<lparr>armed := on, panelShown := (on \<or> lastBox t \<noteq> None)\<rparr>"

definition takeSnapshot :: "tool \<Rightarrow> tool" where
  "takeSnapshot t = t\<lparr>undoSnapshot :=
       Some (\<lambda>f. if f \<in> set (CheckMethod # MANAGED_FIELDS) then elems (pg t) f else []),
     undoShown := True\<rparr>"

definition undo :: "tool_env \<Rightarrow> tool \<Rightarrow> tool" where
  "undo env t = (case undoSnapshot t of
     None \<Rightarrow> t
   | Some snap \<Rightarrow>
      (let s1 = applyCheckMethod (set_value CheckMethod (snap CheckMethod) (pg t));
           s2 = foldl (\<lambda>s f. set_value f (snap f) s) s1 MANAGED_FIELDS
       in forgetMeasurement (t\<lparr>pg := updateAllPixelDisplays (zenv env) s2\<rparr>)))"

definition box_px :: "tool_env \<Rightarrow> zpoint \<Rightarrow> zpoint \<Rightarrow> js_num \<times> js_num" where
  "box_px env a b =
     (num_mul (num_div (num_abs (num_sub (fst b) (fst a))) maxX) (fst (camera env)),
      num_mul (num_div (num_abs (num_sub (snd b) (snd a))) maxY) (snd (camera env)))"

text \<open>Assigning a value to an element: null empties it.\<close>

definition assign_js :: "zfield \<Rightarrow> jsval \<Rightarrow> zone_page \<Rightarrow> zone_page" where
  "assign_js f v s = set_value f (if v = JNull then [] else js_string v) s"

definition apply_values :: "tool_env \<Rightarrow> (zfield \<Rightarrow> jsval) \<Rightarrow> (zfield \<Rightarrow> string) \<Rightarrow> tool \<Rightarrow> tool" where
  "apply_values env vals snap t =
     (let t1 = markChanged CheckMethod (JStr (snap CheckMethod) \<noteq> vals CheckMethod)
                 (t\<lparr>pg := applyCheckMethod (assign_js CheckMethod (vals CheckMethod) (pg t))\<rparr>);
          t2 = foldl (\<lambda>u f. markChanged f (js_string (vals f) \<noteq> snap f)
                              (u\<lparr>pg := assign_js f (vals f) (pg u)\<rparr>)) t1 MANAGED_FIELDS
      in t2\<lparr>pg := updateAllPixelDisplays (zenv env) (pg t2)\<rparr>)"

definition start_measure :: "zpoint \<Rightarrow> zpoint \<Rightarrow> tool \<Rightarrow> tool" where
  "start_measure a b t =
     (if snapshotTaken t then t else (takeSnapshot t)\<lparr>snapshotTaken := True\<rparr>)\<lparr>lastBox := Some (a, b)\<rparr>"

definition apply_box :: "tool_env \<Rightarrow> zpoint \<Rightarrow> zpoint \<Rightarrow> tool \<Rightarrow> bool \<times> tool" where
  "apply_box env a b t =
     (let boxPx = num_mul (fst (box_px env a b)) (snd (box_px env a b));
          zonePx = num_mul (num_div (zArea (pg t)) monitorArea) (Fin (monitorPixelArea (zenv env)))
      in if \<not> num_gt boxPx (Fin 0) \<or> \<not> num_gt zonePx (Fin 0) then (False, t)
         else
           (let u = start_measure a b t;
                snap = (case undoSnapshot u of None \<Rightarrow> (\<lambda>_. []) | Some m \<Rightarrow> m)
            in case zoneSettingsForObject boxPx zonePx snap (currentRatios env u) of
                 None \<Rightarrow> (False, u)
               | Some vals \<Rightarrow> (True, apply_values env vals snap u)))"

definition showBoxSize :: "js_num \<Rightarrow> js_num \<Rightarrow> tool \<Rightarrow> tool" where
  "showBoxSize w h t = t\<lparr>sizeInputs :=
     (if num_gt w (Fin 0) then field_of_num (num_round w) else [],
      if num_gt h (Fin 0) then field_of_num (num_round h) else [])\<rparr>"

definition kernel :: "string \<Rightarrow> int" where
  "kernel v = max (case parseInt10 v of None \<Rightarrow> 0 | Some n \<Rightarrow> n) MIN_FILTER_KERNEL"

definition finishDrag :: "tool_env \<Rightarrow> zpoint \<Rightarrow> zpoint \<Rightarrow> tool \<Rightarrow> tool" where
  "finishDrag env a b t = (let (ok, t1) = apply_box env a b t in
     if \<not> ok then t1
     else (let (w, h) = box_px env a b; t2 = showBoxSize w h t1;
               fx = kernel (elems (pg t2) FilterX); fy = kernel (elems (pg t2) FilterY)
           in if objectTooNarrowToFilter w h fx fy
              then t2\<lparr>alerts := alerts t2 @ [''filterTooSmall '' @ int_to_str fx @ '' '' @ int_to_str fy]\<rparr>
              else t2))"

section \<open>Handlers\<close>

definition measureClick :: "tool \<Rightarrow> tool" where
  "measureClick t =
     (if \<not> armed t \<and> \<not> zoneIsMeasurable (pg t) then t\<lparr>alerts := alerts t @ [''inactive'']\<rparr>
      else (let t1 = (if \<not> armed t then forgetMeasurement t else t) in setArmed (\<not> armed t1) t1))"

definition reapply :: "tool_env \<Rightarrow> tool \<Rightarrow> tool" where
  "reapply env t = (case lastBox t of None \<Rightarrow> t | Some (a, b) \<Rightarrow> snd (apply_box env a b t))"

text \<open>A change of the first ratio; the other two have the same handler on their own input.\<close>

fun nth_ratio :: "nat \<Rightarrow> 'a \<times> 'a \<times> 'a \<Rightarrow> 'a" where
  "nth_ratio i (f, g, b) = (if i = 0 then f else if i = 1 then g else b)"

fun set_ratio :: "nat \<Rightarrow> 'a \<Rightarrow> 'a \<times> 'a \<times> 'a \<Rightarrow> 'a \<times> 'a \<times> 'a" where
  "set_ratio i v (f, g, b) = (if i = 0 then (v, g, b) else if i = 1 then (f, v, b) else (f, g, v))"

definition ratio_cookie :: "nat \<Rightarrow> string" where
  "ratio_cookie i = nth_ratio i (''zmZoneObjectFraction'', ''zmZoneFilterRatio'', ''zmZoneBlobRatio'')"

definition ratioChange :: "tool_env \<Rightarrow> nat \<Rightarrow> tool \<Rightarrow> tool" where
  "ratioChange env i t =
     (let v = (case normalizeRatio (nth_ratio i (ratioInputs t)) of
                 None \<Rightarrow> nth_ratio i (defaultRatios env) | Some n \<Rightarrow> int_to_str n)
      in reapply env (t\<lparr>ratioInputs := set_ratio i v (ratioInputs t),
                        cookies := cookies t @ [(ratio_cookie i, v)]\<rparr>))"

text \<open>The wrapped \<^verbatim>\<open>updateArea\<close> and the wrapped reset handler.\<close>

definition updateArea_wrapped :: "tool_env \<Rightarrow> tool \<Rightarrow> tool" where
  "updateArea_wrapped env t = reapply env (t\<lparr>pg := updateArea (zenv env) (pg t)\<rparr>)"

definition resetClick :: "tool_env \<Rightarrow> tool \<Rightarrow> tool" where
  "resetClick env t = (let t1 = (if armed t then setArmed False t else t);
       t2 = showBoxSize (Fin 0) (Fin 0) (forgetMeasurement t1)
     in t2\<lparr>pg := resetChanges (zenv env) (pg t2)\<rparr>)"

definition typeChange :: "tool \<Rightarrow> tool" where
  "typeChange t = (if zoneIsMeasurable (pg t) then t
     else forgetMeasurement (if armed t then setArmed False t else t))"

definition releaseField :: "zfield \<Rightarrow> tool \<Rightarrow> tool" where
  "releaseField f t = (let t1 = markChanged f False t in
     case undoSnapshot t1 of
       None \<Rightarrow> t1
     | Some snap \<Rightarrow> t1\<lparr>undoSnapshot := Some (snap(f := elems (pg t1) f))\<rparr>)"

definition applyTypedSize :: "tool_env \<Rightarrow> tool \<Rightarrow> tool" where
  "applyTypedSize env t =
     (if \<not> zoneIsMeasurable (pg t) then t\<lparr>alerts := alerts t @ [''inactive'']\<rparr>
      else (case boxPercentForPixels (parseFloat (fst (sizeInputs t))) (parseFloat (snd (sizeInputs t))) (camera env) of
              None \<Rightarrow> t\<lparr>alerts := alerts t @ [''sizeNeeded'']\<rparr>
            | Some (a, b) \<Rightarrow> finishDrag env a b (drawRect a b t)))"

text \<open>\<open>primary\<close> is false for a mouse button other than the first.\<close>

definition pointerDown :: "bool \<Rightarrow> zpoint \<Rightarrow> tool \<Rightarrow> tool" where
  "pointerDown primary p t =
     (if \<not> armed t then t
      else if \<not> primary then t
      else if \<not> zoneIsMeasurable (pg t) then forgetMeasurement (setArmed False t)
      else drawRect p p (t\<lparr>dragging := True, startPct := Some p\<rparr>))"

definition pointerMove :: "tool_env \<Rightarrow> zpoint \<Rightarrow> tool \<Rightarrow> tool" where
  "pointerMove env p t = (case startPct t of
     None \<Rightarrow> t
   | Some a \<Rightarrow> if \<not> armed t \<or> \<not> dragging t then t
       else snd (apply_box env a p (drawRect a p t)))"

definition endDrag :: "tool_env \<Rightarrow> zpoint \<Rightarrow> tool \<Rightarrow> tool" where
  "endDrag env p t = (case startPct t of
     None \<Rightarrow> t
   | Some a \<Rightarrow> if \<not> armed t \<or> \<not> dragging t then t
       else finishDrag env a p (drawRect a p (t\<lparr>dragging := False\<rparr>)))"

section \<open>The derived thresholds\<close>

definition percent_of :: "rat \<Rightarrow> rat" where
  "percent_of p = min 100 (max (1 / 100) (of_int (math_round (p * 100)) / 100))"

lemma asPercentField_Fin [simp]: "asPercentField (Fin p) = Fin (percent_of p)"
  by (simp add: asPercentField_def percent_of_def)

lemma percent_of_mono: "p \<le> q \<Longrightarrow> percent_of p \<le> percent_of q"
proof -
  assume "p \<le> q"
  then have "math_round (p * 100) \<le> math_round (q * 100)" by (intro math_round_mono) simp
  then have "(of_int (math_round (p * 100)) :: rat) / 100 \<le> of_int (math_round (q * 100)) / 100" by simp
  then show ?thesis unfolding percent_of_def by (intro min.mono max.mono) simp_all
qed

lemma percent_of_range: "1 / 100 \<le> percent_of p" "percent_of p \<le> 100"
  by (simp_all add: percent_of_def)

lemma two_dp_percent_of: "two_dp (percent_of p)"
proof -
  define n where "n = min 10000 (max 1 (math_round (p * 100)))"
  have "of_int (max 1 m) = max 1 (of_int m :: rat)" "of_int (min 10000 m) = min 10000 (of_int m :: rat)" for m
    by (simp_all add: max_def min_def)
  then have "percent_of p = of_int n / 100"
    by (simp add: percent_of_def n_def min_def max_def)
  moreover have "0 \<le> n" by (simp add: n_def)
  ultimately show ?thesis unfolding two_dp_def by (intro exI [of _ "nat n"]) simp
qed

definition good_ratio :: "js_num \<Rightarrow> bool" where
  "good_ratio r = (case r of Fin x \<Rightarrow> 0 < x \<and> x \<le> 1 | _ \<Rightarrow> False)"

definition good_ratios :: "ratios \<Rightarrow> bool" where
  "good_ratios r \<longleftrightarrow> good_ratio (fraction r) \<and> good_ratio (filter_ratio r) \<and> good_ratio (blob_ratio r)"

lemma good_ratio_iff: "good_ratio r \<longleftrightarrow> (\<exists>x. r = Fin x \<and> 0 < x \<and> x \<le> 1)"
  by (cases r) (auto simp: good_ratio_def)

text \<open>Ratios read from the form are good as soon as the rendered defaults are percentages.\<close>

lemma percent_or_default_good:
  assumes "parseFloat d = Fin x" and "0 < x" and "x \<le> 100"
  shows "good_ratio (percent_or_default v d)"
  using assms by (cases "parseFloat v") (auto simp: percent_or_default_def good_ratio_def num_le_def num_eq_def)

lemma settings_ordered:
  assumes "zoneSettingsForObject (Fin box) (Fin zonePx) cur r = Some vals" and "good_ratios r"
  obtains a f b where
    "vals MinAlarmPixels = JNum (Fin (percent_of a))" "vals MinFilterPixels = JNum (Fin (percent_of f))"
    "vals MinBlobPixels = JNum (Fin (percent_of b))" "0 < b" "b \<le> f" "f \<le> a" "a \<le> box / zonePx * 100"
proof -
  obtain x y z where xyz: "fraction r = Fin x" "filter_ratio r = Fin y" "blob_ratio r = Fin z"
    "0 < x" "x \<le> 1" "0 < y" "y \<le> 1" "0 < z" "z \<le> 1"
    using assms(2) by (auto simp: good_ratios_def good_ratio_iff)
  have pos: "0 < box" "0 < zonePx" using assms(1)
    by (auto simp: zoneSettingsForObject_def objectThresholdPixels_def Let_def split: if_splits)
  define a where "a = x * box / zonePx * 100"
  have a: "0 < a" using pos xyz by (simp add: a_def)
  have v: "vals MinAlarmPixels = JNum (Fin (percent_of a))"
    "vals MinFilterPixels = JNum (Fin (percent_of (a * y)))"
    "vals MinBlobPixels = JNum (Fin (percent_of (a * y * z)))"
    using assms(1) pos xyz
    by (auto simp: zoneSettingsForObject_def objectThresholdPixels_def pixelsToPercent_def a_def mult_ac)
  have "a * y \<le> a" "a * y * z \<le> a * y" using a xyz by (simp_all add: mult_left_le)
  moreover have "0 < a * y * z" using a xyz by simp
  moreover have "x * (box / zonePx * 100) \<le> 1 * (box / zonePx * 100)"
    using xyz pos by (intro mult_right_mono) simp_all
  then have "a \<le> box / zonePx * 100" by (simp add: a_def)
  ultimately show ?thesis using v that by blast
qed

lemma settings_fixed:
  assumes "zoneSettingsForObject box zonePx cur r = Some vals"
  shows "vals CheckMethod = JStr ''Blobs''" "vals MaxAlarmPixels = JStr []" "vals MaxFilterPixels = JStr []"
    "vals MaxBlobPixels = JStr []" "vals MaxBlobs = JStr []" "vals MaxPixelThreshold = JStr []"
    "vals MinBlobs = JNum (Fin 1)" "vals FilterX = keepOr (cur FilterX) 3" "vals FilterY = keepOr (cur FilterY) 3"
    "vals MinPixelThreshold = keepOr (cur MinPixelThreshold) 40"
  using assms by (auto simp: zoneSettingsForObject_def DEFAULT_PIXEL_THRESHOLD_def MIN_FILTER_KERNEL_def
      split: option.splits if_splits)

definition assigned :: "zfield \<Rightarrow> jsval \<Rightarrow> string" where
  "assigned f v = (let w = (if v = JNull then [] else js_string v) in
     if f \<in> set number_fields then sanitise_number w else w)"

lemma elems_apply_fold:
  "elems (pg (foldl (\<lambda>u f. markChanged f (c f) (u\<lparr>pg := assign_js f (vals f) (pg u)\<rparr>)) t fs)) f =
     (if f \<in> set fs then assigned f (vals f) else elems (pg t) f)"
  by (induction fs arbitrary: t) (auto simp: markChanged_def assign_js_def set_value_def assigned_def Let_def)

lemma elems_apply_values:
  "f \<noteq> Area \<Longrightarrow> elems (pg (apply_values env vals snap t)) f =
     (if f \<in> set MANAGED_FIELDS then assigned f (vals f)
      else if f = CheckMethod then js_string (vals CheckMethod) else elems (pg t) f)"
  if "vals CheckMethod \<noteq> JNull"
  using that by (simp add: apply_values_def Let_def elems_displays elems_apply_fold)
    (simp add: markChanged_def assign_js_def set_value_def number_fields_def)

lemma currentRatios_cong: "ratioInputs u = ratioInputs t \<Longrightarrow> currentRatios env u = currentRatios env t"
  by (simp add: currentRatios_def)

lemma start_measure_simps [simp]:
  "pg (start_measure a b t) = pg t" "snapshotTaken (start_measure a b t)"
  "currentRatios env (start_measure a b t) = currentRatios env t"
  "undoSnapshot (start_measure a b t) = undoSnapshot (if snapshotTaken t then t else takeSnapshot t)"
  by (simp_all add: start_measure_def takeSnapshot_def currentRatios_def)

lemma apply_box_cases:
  obtains (nothing) "apply_box env a b t = (False, t)"
  | (measured) vals snap u where "apply_box env a b t = (True, apply_values env vals snap u)"
      "zoneSettingsForObject (num_mul (fst (box_px env a b)) (snd (box_px env a b)))
         (num_mul (num_div (zArea (pg t)) monitorArea) (Fin (monitorPixelArea (zenv env)))) snap (currentRatios env t) = Some vals"
      "u = start_measure a b t" "snap = (case undoSnapshot u of None \<Rightarrow> (\<lambda>_. []) | Some m \<Rightarrow> m)"
proof -
  let ?z = "num_mul (num_div (zArea (pg t)) monitorArea) (Fin (monitorPixelArea (zenv env)))"
  let ?x = "num_mul (fst (box_px env a b)) (snd (box_px env a b))"
  let ?u = "start_measure a b t"
  let ?m = "case undoSnapshot ?u of None \<Rightarrow> (\<lambda>_. []) | Some m \<Rightarrow> m"
  show ?thesis
  proof (cases "num_gt ?x (Fin 0) \<and> num_gt ?z (Fin 0)")
    case False
    then have "apply_box env a b t = (False, t)" by (auto simp: apply_box_def Let_def)
    then show ?thesis by (rule nothing)
  next
    case True
    obtain vals where v: "zoneSettingsForObject ?x ?z ?m (currentRatios env t) = Some vals"
      using True by (simp add: zoneSettingsForObject_def objectThresholdPixels_def Let_def)
    then have "apply_box env a b t = (True, apply_values env vals ?m ?u)"
      unfolding apply_box_def Let_def start_measure_simps v using True by simp
    then show ?thesis using v by (rule measured) simp_all
  qed
qed

lemma sanitise_Nil [simp]: "sanitise_number [] = []"
  by (simp add: sanitise_number_def)

lemma assigned_percent: "f \<in> set number_fields \<Longrightarrow> assigned f (JNum (Fin (percent_of p))) = rat_to_str (percent_of p)"
  using valid_float_pos [of "percent_of p"] percent_of_range(1) [of p]
  by (simp add: assigned_def sanitise_number_def)

text \<open>
  C28. A box drawn on the image gives the zone thresholds that pass validation: whenever
  \<^verbatim>\<open>apply\<close> measures something, the blob minimum is at most the filtered minimum, which is at
  most the alarmed one, all three between 0.01 and 100 percent after rounding and being
  read back from the form, and no error of the validation that concerns areas, blobs or
  a maximum can occur; \<^verbatim>\<open>boxPx\<close>, the area of the zone and the camera are finite numbers
  and the ratios are percentages.
\<close>

theorem measured_box_gives_valid_thresholds:
  assumes "apply_box env a b t = (True, t')" and "good_ratios (currentRatios env t)"
    and "num_mul (fst (box_px env a b)) (snd (box_px env a b)) = Fin box" and "zArea (pg t) = Fin area"
  shows "(\<exists>pa pf pb. parseFloat (elems (pg t') MinAlarmPixels) = Fin pa
      \<and> parseFloat (elems (pg t') MinFilterPixels) = Fin pf \<and> parseFloat (elems (pg t') MinBlobPixels) = Fin pb
      \<and> 1 / 100 \<le> pb \<and> pb \<le> pf \<and> pf \<le> pa \<and> pa \<le> 100)
    \<and> set (zone_errors (pg t')) \<subseteq> {AlarmRGBUnset, MinPixelThresUnset, FilterUnset}"
proof (cases rule: apply_box_cases [of env a b t])
  case (measured vals snap u)
  then have t': "t' = apply_values env vals snap u" using assms(1) by simp
  note fixed = settings_fixed [OF measured(2)]
  have el: "elems (pg t') f = assigned f (vals f)" if "f \<in> set MANAGED_FIELDS" for f
    using that fixed(1) elems_apply_values [of vals f env snap u] by (auto simp: t' MANAGED_FIELDS_def)
  have zone: "num_mul (num_div (zArea (pg t)) monitorArea) (Fin (monitorPixelArea (zenv env)))
      = Fin (area / 10000 * monitorPixelArea (zenv env))" by (simp add: assms(4) monitorArea_def)
  obtain pa pf pb where p: "vals MinAlarmPixels = JNum (Fin (percent_of pa))"
    "vals MinFilterPixels = JNum (Fin (percent_of pf))" "vals MinBlobPixels = JNum (Fin (percent_of pb))"
    "pb \<le> pf" "pf \<le> pa"
    using settings_ordered [OF measured(2) [unfolded assms(3) zone] assms(2)] by metis
  have mem: "MinAlarmPixels \<in> set MANAGED_FIELDS" "MinFilterPixels \<in> set MANAGED_FIELDS" "MinBlobPixels \<in> set MANAGED_FIELDS"
    "MaxAlarmPixels \<in> set MANAGED_FIELDS" "MaxFilterPixels \<in> set MANAGED_FIELDS" "MaxBlobPixels \<in> set MANAGED_FIELDS"
    "MaxBlobs \<in> set MANAGED_FIELDS" "MinBlobs \<in> set MANAGED_FIELDS" "MaxPixelThreshold \<in> set MANAGED_FIELDS"
    by (simp_all add: MANAGED_FIELDS_def)
  have texts: "elems (pg t') MinAlarmPixels = rat_to_str (percent_of pa)"
    "elems (pg t') MinFilterPixels = rat_to_str (percent_of pf)"
    "elems (pg t') MinBlobPixels = rat_to_str (percent_of pb)"
    using el mem p by (simp_all add: assigned_percent number_fields_def)
  then have num: "parseFloat (elems (pg t') MinAlarmPixels) = Fin (percent_of pa)"
    "parseFloat (elems (pg t') MinFilterPixels) = Fin (percent_of pf)"
    "parseFloat (elems (pg t') MinBlobPixels) = Fin (percent_of pb)"
    using parseFloat_rat_to_str two_dp_percent_of by simp_all
  have noMax: "elems (pg t') f = []" if "f \<in> {MaxAlarmPixels, MaxFilterPixels, MaxBlobPixels, MaxBlobs, MaxPixelThreshold}" for f
    using that el mem fixed by (auto simp: assigned_def)
  have "rat_to_str 1 = nat_to_str 1" using rat_to_str_of_nat [of 1] by simp
  then have one: "elems (pg t') MinBlobs = nat_to_str 1" using el mem fixed
    by (simp add: assigned_def sanitise_number_def Let_def)
  have isBlobs: "elems (pg t') CheckMethod = ''Blobs''"
    using elems_apply_values [of vals CheckMethod env snap u] fixed(1) by (simp add: t' MANAGED_FIELDS_def)
  have order: "percent_of pb \<le> percent_of pf" "percent_of pf \<le> percent_of pa" using p percent_of_mono by blast+
  have np: "\<not> percent_of x \<le> 0" for x using percent_of_range(1) [of x] by linarith
  have nomax: "\<not> min_not_below rd v []" if "rd [] = NaN" for rd v using that by (simp add: min_not_below_def)
  have "readInt [] = NaN" by code_simp
  then have "set (zone_errors (pg t')) \<subseteq> {AlarmRGBUnset, MinPixelThresUnset, FilterUnset}"
    using num texts one isBlobs noMax order np
    by (auto simp: zone_errors_def Let_def min_unset_def nomax np uses_filter_def num_of_int_def split: if_splits)
  then show ?thesis using num order percent_of_range by blast
qed (use assms(1) in simp)

section \<open>Undo\<close>

lemma zArea_apply_values: "zArea (pg (apply_values env vals snap t)) = zArea (pg t)"
proof -
  have fold: "zArea (pg (foldl (\<lambda>u f. markChanged f (c f) (u\<lparr>pg := assign_js f (vals f) (pg u)\<rparr>)) t fs)) = zArea (pg t)"
    for c fs and t :: tool
    by (induction fs arbitrary: t) (simp_all add: markChanged_def assign_js_def set_value_def)
  have "zArea (applyCheckMethod s) = zArea s" for s
    using same_frame_method [of s] by (simp add: same_frame_def)
  then show ?thesis
    by (simp add: apply_values_def Let_def fold) (simp add: markChanged_def assign_js_def set_value_def)
qed

lemma tool_apply_values:
  "undoSnapshot (apply_values env vals snap t) = undoSnapshot t"
  "snapshotTaken (apply_values env vals snap t) = snapshotTaken t"
proof -
  have "undoSnapshot (foldl (\<lambda>u f. markChanged f (c f) (u\<lparr>pg := assign_js f (vals f) (pg u)\<rparr>)) t fs) = undoSnapshot t
      \<and> snapshotTaken (foldl (\<lambda>u f. markChanged f (c f) (u\<lparr>pg := assign_js f (vals f) (pg u)\<rparr>)) t fs) = snapshotTaken t"
    for c fs and t :: tool
    by (induction fs arbitrary: t) (simp_all add: markChanged_def)
  then show "undoSnapshot (apply_values env vals snap t) = undoSnapshot t"
    "snapshotTaken (apply_values env vals snap t) = snapshotTaken t"
    by (simp_all add: apply_values_def Let_def markChanged_def)
qed

text \<open>
  What a measurement writes on the page: the texts of the elements it manages, of the check
  method and of the area, whether the elements of the filter and the blobs are enabled, and
  the pixel inputs. \<open>outside\<close> blanks all of it.
\<close>

definition measured_elems :: "zfield list" where
  "measured_elems = Area # CheckMethod # MANAGED_FIELDS"

definition outside :: "zone_page \<Rightarrow> zone_page" where
  "outside s = s\<lparr>elems := (\<lambda>f. if f \<in> set measured_elems then [] else elems s f),
     off := (\<lambda>f. if f \<in> set (filter_fields @ blob_fields) then False else off s f),
     px_off := (\<lambda>f. if f \<in> set pixel_fields then False else px_off s f),
     pxs := (\<lambda>f. if f \<in> set pixel_fields then [] else pxs s f),
     areaPercent := NaN, areaPixels := NaN\<rparr>"

lemma outside_set_value: "f \<in> set measured_elems \<Longrightarrow> outside (set_value f v s) = outside s"
  by (auto simp: outside_def set_value_def fun_eq_iff)

lemma off_method:
  "off (applyCheckMethod s) = (\<lambda>f. if f \<in> set (filter_fields @ blob_fields)
     then (if elems s CheckMethod = ''AlarmedPixels'' then True
           else elems s CheckMethod = ''FilteredPixels'' \<and> f \<in> set blob_fields) else off s f)"
  by (auto simp: applyCheckMethod_def syncPixelInputStates_def set_off_def fun_eq_iff)

lemma method_page:
  "applyCheckMethod s = s\<lparr>off := off (applyCheckMethod s),
     px_off := (\<lambda>f. if f \<in> set pixel_fields then off (applyCheckMethod s) f else px_off s f)\<rparr>"
  by (simp add: applyCheckMethod_def syncPixelInputStates_def set_off_def)

lemma px_method: "f \<in> set pixel_fields \<Longrightarrow> px_off (applyCheckMethod s) f = off (applyCheckMethod s) f"
  by (simp add: applyCheckMethod_def syncPixelInputStates_def)

lemma outside_method: "outside (applyCheckMethod s) = outside s"
  by (subst method_page) (simp add: outside_def off_method fun_eq_iff)

definition twin_text :: "zone_env \<Rightarrow> zone_page \<Rightarrow> zfield \<Rightarrow> string" where
  "twin_text env s f = (if elems s f \<noteq> [] \<and> num_gt (pixelArea env s) (Fin 0)
     then field_of_num (num_round (num_div (num_mul (parseFloat (elems s f)) (pixelArea env s)) (Fin 100)))
     else [])"

lemma displays_page:
  "updateAllPixelDisplays env s = s\<lparr>elems := (elems s)(Area := area_text (zArea s)),
     areaPercent := num_round (num_mul (num_div (zArea s) monitorArea) (Fin 100)),
     areaPixels := pixelArea env s,
     pxs := (\<lambda>f. if f \<in> set pixel_fields then twin_text env s f else pxs s f)\<rparr>"
proof -
  have "foldl (\<lambda>t f. updatePixelFromPercent env f t) u fs
      = u\<lparr>pxs := (\<lambda>f. if f \<in> set fs then twin_text env u f else pxs u f)\<rparr>"
    if "set fs \<subseteq> set pixel_fields" for u fs
    using that
  proof (induction fs arbitrary: u)
    case (Cons g fs)
    have "updatePixelFromPercent env g u = u\<lparr>pxs := (pxs u)(g := twin_text env u g)\<rparr>"
      using Cons.prems by (simp add: updatePixelFromPercent_def twin_text_def)
    then show ?case using Cons.prems
      by (simp add: Cons.IH) (auto simp: twin_text_def pixelArea_def fun_eq_iff)
  qed simp
  from this [of pixel_fields] show ?thesis
    by (simp add: updateAllPixelDisplays_def Let_def set_value_def number_fields_def area_text_def)
      (auto simp: twin_text_def pixelArea_def pixel_fields_def fun_eq_iff)
qed

lemma outside_displays: "outside (updateAllPixelDisplays env s) = outside s"
  by (auto simp: displays_page outside_def measured_elems_def fun_eq_iff)

lemma outside_apply_values: "outside (pg (apply_values env vals snap t)) = outside (pg t)"
proof -
  have m: "\<And>f c (u :: tool). pg (markChanged f c u) = pg u" by (simp add: markChanged_def)
  have "outside (pg (foldl (\<lambda>u f. markChanged f (c f) (u\<lparr>pg := assign_js f (vals f) (pg u)\<rparr>)) u fs)) = outside (pg u)"
    if "set fs \<subseteq> set measured_elems" for c fs and u :: tool
    using that by (induction fs arbitrary: u) (simp_all add: m assign_js_def outside_set_value)
  from this [of MANAGED_FIELDS] show ?thesis
    by (simp add: apply_values_def Let_def outside_displays outside_method m assign_js_def outside_set_value
        measured_elems_def subset_insertI2)
qed

lemma outside_fields:
  assumes "outside q = outside p"
  shows "f \<notin> set measured_elems \<Longrightarrow> elems q f = elems p f"
    "f \<notin> set (filter_fields @ blob_fields) \<Longrightarrow> off q f = off p f"
    "f \<notin> set pixel_fields \<Longrightarrow> px_off q f = px_off p f"
proof -
  note eqs = arg_cong [OF assms, of elems] arg_cong [OF assms, of off] arg_cong [OF assms, of px_off]
  show "f \<notin> set measured_elems \<Longrightarrow> elems q f = elems p f"
    using fun_cong [OF eqs(1), of f] by (simp add: outside_def)
  show "f \<notin> set (filter_fields @ blob_fields) \<Longrightarrow> off q f = off p f"
    using fun_cong [OF eqs(2), of f] by (simp add: outside_def split: if_splits)
  show "f \<notin> set pixel_fields \<Longrightarrow> px_off q f = px_off p f"
    using fun_cong [OF eqs(3), of f] by (simp add: outside_def split: if_splits)
qed

text \<open>Two pages that agree outside, in these elements and in what is enabled are displayed alike.\<close>

lemma displays_cong:
  assumes "outside q = outside p" "\<And>f. f \<noteq> Area \<Longrightarrow> elems q f = elems p f"
    and "off q = off p" "px_off q = px_off p"
  shows "updateAllPixelDisplays env q = updateAllPixelDisplays env p"
proof -
  have o: "zArea q = zArea p" "\<And>f. f \<notin> set pixel_fields \<Longrightarrow> pxs q f = pxs p f"
    using arg_cong [OF assms(1), of zArea] arg_cong [OF assms(1), of pxs]
    by (simp_all add: outside_def fun_eq_iff) metis
  have tw: "twin_text env q f = twin_text env p f" if "f \<in> set pixel_fields" for f
  proof -
    have "f \<noteq> Area" using that by (auto simp: pixel_fields_def)
    then show ?thesis using assms(2) o(1) by (simp add: twin_text_def pixelArea_def)
  qed
  have el: "(elems q)(Area := x) = (elems p)(Area := x)" for x using assms(2) by (auto simp: fun_eq_iff)
  have "(\<lambda>f. if f \<in> set pixel_fields then twin_text env q f else pxs q f)
      = (\<lambda>f. if f \<in> set pixel_fields then twin_text env p f else pxs p f)"
    using tw o(2) by (auto simp: fun_eq_iff)
  moreover have "picker q = picker p" "picker_off q = picker_off p" "Points q = Points p"
    "pointInputs q = pointInputs p" "changedPoints q = changedPoints p" "resetOff q = resetOff p"
    "initialState q = initialState p" "initialValues q = initialValues p" "initialPoints q = initialPoints p"
    using arg_cong [OF assms(1), of picker] arg_cong [OF assms(1), of picker_off] arg_cong [OF assms(1), of Points]
      arg_cong [OF assms(1), of pointInputs] arg_cong [OF assms(1), of changedPoints] arg_cong [OF assms(1), of resetOff]
      arg_cong [OF assms(1), of initialState] arg_cong [OF assms(1), of initialValues]
      arg_cong [OF assms(1), of initialPoints]
    by (simp_all add: outside_def)
  ultimately show ?thesis
    using assms(3,4) o(1) el by (intro zone_page.equality) (simp_all add: displays_page pixelArea_def)
qed

text \<open>What holds between the first box of a measurement and its undo, on a page \<open>p\<close>.\<close>

definition measuring_from :: "zone_page \<Rightarrow> tool \<Rightarrow> bool" where
  "measuring_from p t \<longleftrightarrow> outside (pg t) = outside p
   \<and> (if snapshotTaken t
      then (case undoSnapshot t of None \<Rightarrow> False
            | Some m \<Rightarrow> \<forall>f \<in> set (CheckMethod # MANAGED_FIELDS). m f = elems p f)
      else undoSnapshot t = None \<and> pg t = p)"

lemma measuring_apply:
  assumes "measuring_from p t"
  shows "measuring_from p (snd (apply_box env a b t))"
proof (cases rule: apply_box_cases [of env a b t])
  case (measured vals snap u)
  have "case undoSnapshot u of None \<Rightarrow> False
      | Some m \<Rightarrow> \<forall>f \<in> set (CheckMethod # MANAGED_FIELDS). m f = elems p f"
    using assms by (auto simp: measured(3) measuring_from_def takeSnapshot_def split: if_splits option.splits)
  then show ?thesis
    using assms unfolding measured(1)
    by (simp add: measuring_from_def tool_apply_values measured(3) outside_apply_values)
qed (use assms in simp)

lemma measuring_cong:
  "pg u = pg t \<Longrightarrow> undoSnapshot u = undoSnapshot t \<Longrightarrow> snapshotTaken u = snapshotTaken t \<Longrightarrow>
    measuring_from p t \<Longrightarrow> measuring_from p u"
  by (simp add: measuring_from_def)

lemma measuring_finish:
  assumes "measuring_from p t"
  shows "measuring_from p (finishDrag env a b t)"
proof -
  have "measuring_from p (snd (apply_box env a b t))" by (rule measuring_apply [OF assms])
  then show ?thesis
    by (auto simp: finishDrag_def showBoxSize_def Let_def split: prod.split elim!: measuring_cong [rotated -1])
qed

text \<open>
  What the user does in one measurement: presses, moves and releases of the pointer, ratios
  that are changed and sizes that are typed, in any order.
\<close>

datatype gesture = Press bool zpoint | Move zpoint | Release zpoint | Ratio nat string | TypedSize string string

fun gesture_step :: "tool_env \<Rightarrow> tool \<Rightarrow> gesture \<Rightarrow> tool" where
  "gesture_step env t (Press primary p) = pointerDown primary p t"
| "gesture_step env t (Move p) = pointerMove env p t"
| "gesture_step env t (Release p) = endDrag env p t"
| "gesture_step env t (Ratio i v) = ratioChange env i (t\<lparr>ratioInputs := set_ratio i v (ratioInputs t)\<rparr>)"
| "gesture_step env t (TypedSize w h) = applyTypedSize env (t\<lparr>sizeInputs := (w, h)\<rparr>)"

definition measure_run :: "tool_env \<Rightarrow> gesture list \<Rightarrow> tool \<Rightarrow> tool" where
  "measure_run env gs t = foldl (gesture_step env) t gs"

lemma measuring_gesture:
  assumes m: "measuring_from p t" and z: "zoneIsMeasurable p"
  shows "measuring_from p (gesture_step env t g)"
proof -
  have ty: "elems (pg t) ZType = elems p ZType"
    using m by (intro outside_fields(1)) (simp_all add: measuring_from_def measured_elems_def MANAGED_FIELDS_def)
  then have zt: "zoneIsMeasurable (pg t)" using z by (simp add: zoneIsMeasurable_def)
  have same: "measuring_from p u" if "pg u = pg t" "undoSnapshot u = undoSnapshot t" "snapshotTaken u = snapshotTaken t" for u
    using measuring_cong [OF that m] .
  show ?thesis
  proof (cases g)
    case (Press primary a)
    then show ?thesis using zt by (simp add: pointerDown_def m same drawRect_def)
  next
    case (Move b)
    then show ?thesis
      by (auto simp: pointerMove_def m same drawRect_def split: option.split intro!: measuring_apply)
  next
    case (Release b)
    then show ?thesis
      by (auto simp: endDrag_def m same drawRect_def split: option.split intro!: measuring_finish)
  next
    case (Ratio i v)
    then show ?thesis
      by (auto simp: ratioChange_def reapply_def Let_def same split: option.split intro!: measuring_apply)
  next
    case (TypedSize w h)
    then show ?thesis
      by (auto simp: applyTypedSize_def same drawRect_def split: option.split intro!: measuring_finish)
  qed
qed

lemma measuring_run:
  assumes "measuring_from p t" "zoneIsMeasurable p"
  shows "measuring_from p (measure_run env gs t)"
  using assms(1) unfolding measure_run_def
  by (induction gs arbitrary: t) (simp_all add: measuring_gesture assms(2))

lemma elems_undo_fold:
  "elems (foldl (\<lambda>s f. set_value f (m f) s) s fs) f =
     (if f \<in> set fs then (if f \<in> set number_fields then sanitise_number (m f) else m f) else elems s f)"
  by (induction fs arbitrary: s) (auto simp: set_value_def)

lemma pg_forget [simp]: "pg (forgetMeasurement t) = pg t"
proof -
  have "pg (foldl (\<lambda>u f. markChanged f False u) t fs) = pg t" for fs
    by (induction fs arbitrary: t) (simp_all add: markChanged_def)
  then show ?thesis by (simp add: forgetMeasurement_def clearChangeMarks_def hideRect_def Let_def) (simp add: markChanged_def)
qed

lemma outside_undo_fold:
  "set fs \<subseteq> set measured_elems \<Longrightarrow> outside (foldl (\<lambda>s f. set_value f (m f) s) s fs) = outside s
     \<and> off (foldl (\<lambda>s f. set_value f (m f) s) s fs) = off s \<and> px_off (foldl (\<lambda>s f. set_value f (m f) s) s fs) = px_off s"
proof (induction fs arbitrary: s)
  case (Cons g fs)
  moreover have "off (set_value g v s) = off s" "px_off (set_value g v s) = px_off s" for v by (simp_all add: set_value_def)
  ultimately show ?case by (simp add: outside_set_value)
qed simp

text \<open>Undo in the middle of a measurement that took its snapshot on the page \<open>p\<close>.\<close>

lemma undo_page:
  assumes m: "measuring_from p t" and ok: "fields_ok p" and c: "applyCheckMethod p = p"
    and snap: "undoSnapshot t = Some snap"
  shows "pg (undo env t) = updateAllPixelDisplays (zenv env) p"
proof -
  define s0 where "s0 = set_value CheckMethod (snap CheckMethod) (pg t)"
  define s1 where "s1 = applyCheckMethod s0"
  define s2 where "s2 = foldl (\<lambda>s f. set_value f (snap f) s) s1 MANAGED_FIELDS"
  have sn: "f \<in> set (CheckMethod # MANAGED_FIELDS) \<Longrightarrow> snap f = elems p f" for f
    using m snap by (auto simp: measuring_from_def split: if_splits)
  have out: "outside s0 = outside p" "outside s1 = outside p" "outside s2 = outside p"
    and offs: "off s2 = off s1" "px_off s2 = px_off s1"
    using m outside_undo_fold [of MANAGED_FIELDS snap s1]
    by (simp_all add: s0_def s1_def s2_def outside_method outside_set_value measured_elems_def measuring_from_def
        subset_insertI2)
  have cm: "elems s0 CheckMethod = elems p CheckMethod" using sn by (simp add: s0_def set_value_def number_fields_def)
  have e1: "elems s1 = elems s0" unfolding s1_def by (subst method_page) simp
  have el: "elems s2 f = elems p f" if "f \<noteq> Area" for f
  proof (cases "f \<in> set MANAGED_FIELDS")
    case True
    moreover have "sanitise_number (elems p f) = elems p f" if "f \<in> set number_fields"
      using that ok by (auto simp: fields_ok_def sanitise_number_def)
    ultimately show ?thesis using sn by (simp add: s2_def elems_undo_fold)
  next
    case False
    then have "elems s2 f = elems s0 f" by (simp add: s2_def elems_undo_fold e1)
    then show ?thesis
      using False that cm outside_fields(1) [OF out(1)] by (cases "f = CheckMethod") (simp_all add: measured_elems_def)
  qed
  have "off s1 = off (applyCheckMethod p)"
    using outside_fields(2) [OF out(1)] cm by (auto simp: s1_def off_method fun_eq_iff)
  then have o: "off s2 = off p" using c by (simp add: offs)
  have "px_off s1 f = px_off p f" for f
  proof (cases "f \<in> set pixel_fields")
    case True
    then have "px_off s1 f = off s1 f" "px_off (applyCheckMethod p) f = off (applyCheckMethod p) f"
      by (simp_all only: s1_def px_method)
    then show ?thesis using c o offs by simp
  next
    case False
    then show ?thesis using outside_fields(3) [OF out(2)] by simp
  qed
  then have "px_off s2 = px_off p" by (simp add: offs fun_eq_iff)
  from displays_cong [OF out(3) el o this] show ?thesis
    by (simp add: undo_def snap Let_def s0_def s1_def s2_def)
qed


section \<open>Typed sizes and ratios\<close>

text \<open>
  Typing a size and drawing a box are the same measurement: the box made for a typed
  size that fits the camera measures exactly that size, lies inside the frame and is centred.
\<close>

lemma typed_size_is_measured:
  assumes "0 < w" and "w \<le> W" and "0 < h" and "h \<le> H" and "camera env = (Fin W, Fin H)"
  shows "\<exists>a b. boxPercentForPixels (Fin w) (Fin h) (camera env) = Some (a, b)
    \<and> box_px env a b = (Fin w, Fin h)
    \<and> coord_ok (fst a) \<and> coord_ok (snd a) \<and> coord_ok (fst b) \<and> coord_ok (snd b)
    \<and> num_add (fst a) (fst b) = maxX \<and> num_add (snd a) (snd b) = maxY"
proof -
  have W: "0 < W" "0 < H" using assms by linarith+
  have le: "w / W * 100 \<le> 100" "h / H * 100 \<le> 100" using assms(2,4) W by (simp_all add: field_simps)
  have pos: "0 < w / W * 100" "0 < h / H * 100" using assms(1,3) W by simp_all
  define x y where "x = w / W * 100" and "y = h / H * 100"
  have xy: "0 < x" "x \<le> 100" "0 < y" "y \<le> 100" using le pos by (simp_all only: x_def y_def)
  let ?a = "(Fin ((100 - x) / 2), Fin ((100 - y) / 2))"
  let ?b = "(Fin ((100 - x) / 2 + x), Fin ((100 - y) / 2 + y))"
  have m: "num_min maxX (num_mul (num_div (Fin w) (Fin W)) maxX) = Fin x"
    "num_min maxY (num_mul (num_div (Fin h) (Fin H)) maxY) = Fin y"
    using W xy by (simp_all add: maxX_def maxY_def x_def y_def)
  have box: "boxPercentForPixels (Fin w) (Fin h) (camera env) = Some (?a, ?b)"
    unfolding boxPercentForPixels_def Let_def assms(5) fst_conv snd_conv m
    using assms(1,3) W by (simp add: maxX_def maxY_def)
  have "x / 100 * W = w" "y / 100 * H = h" using W by (simp_all add: x_def y_def)
  then have "box_px env ?a ?b = (Fin w, Fin h)" using xy
    by (simp add: box_px_def assms(5) maxX_def maxY_def)
  with box show ?thesis using xy
    by (intro exI [of _ ?a] exI [of _ ?b]) (simp add: maxX_def maxY_def field_simps)
qed

text \<open>
  A ratio is settled before it is stored: what \<^verbatim>\<open>normalizeRatio\<close> accepts is a whole number
  from 1 to 100 whose text is made of digits only, which is what the server keeps of the
  cookie; normalising it again changes nothing, and the calculation reads it as a ratio in
  \<open>(0, 1]\<close> whatever the rendered default is.
\<close>

lemma normalizeRatio_settles:
  assumes "normalizeRatio v = Some n"
  shows "1 \<le> n \<and> n \<le> 100 \<and> list_all is_digit (int_to_str n) \<and> normalizeRatio (int_to_str n) = Some n
    \<and> percent_or_default (int_to_str n) d = Fin (of_int n / 100)"
proof -
  have n: "1 \<le> n" "n \<le> 100"
    using assms by (auto simp: normalizeRatio_def Let_def split: js_num.splits if_splits)
  then have str: "int_to_str n = nat_to_str (nat n)" by (simp add: int_to_str_def)
  have "parseFloat (nat_to_str (nat n)) = Fin (of_int n)"
    using parseFloat_nat_prefix [of "nat n" "[]"] n by (simp add: parse_decimal_nat)
  moreover have "list_all is_digit (int_to_str n)" unfolding str using all_digits_nat by (simp add: list_all_iff)
  ultimately show ?thesis using n str by (simp add: normalizeRatio_def percent_or_default_def)
qed

section \<open>Witnesses\<close>

definition demo_tool_env :: tool_env where
  "demo_tool_env = \<lparr>zenv = demo_env, camera = (Fin 1280, Fin 720), defaultRatios = (''25'', ''70'', ''86'')\<rparr>"

definition demo_tool :: tool where
  "demo_tool = \<lparr>pg = demo_zone, armed = True, dragging = False, startPct = None, undoSnapshot = None,
     lastBox = None, snapshotTaken = False, marked = (\<lambda>_. False), undoShown = False, panelShown = True,
     rectangle = None, sizeInputs = ([], []), ratioInputs = (''25'', ''70'', ''86''), stillShown = False,
     stillSrc = None, replaceShown = False, paused = False, cookies = [], alerts = []\<rparr>"

abbreviation demo_box :: box where
  "demo_box \<equiv> ((Fin 10, Fin 20), (Fin 20, Fin 40))"

lemma demo_tool_facts:
  "pg demo_tool = demo_zone" "undoSnapshot demo_tool = None" "\<not> snapshotTaken demo_tool"
  "good_ratios (currentRatios demo_tool_env demo_tool)"
  "box_px demo_tool_env (fst demo_box) (snd demo_box) = (Fin 128, Fin 144)"
proof -
  show "pg demo_tool = demo_zone" "undoSnapshot demo_tool = None" "\<not> snapshotTaken demo_tool"
    by (simp_all add: demo_tool_def)
  show "good_ratios (currentRatios demo_tool_env demo_tool)" by code_simp
  show "box_px demo_tool_env (fst demo_box) (snd demo_box) = (Fin 128, Fin 144)" by code_simp
qed

lemma demo_applied: "fst (apply_box demo_tool_env (fst demo_box) (snd demo_box) demo_tool)"
proof -
  have "num_gt (num_mul (num_div (zArea demo_zone) monitorArea) (Fin (monitorPixelArea (zenv demo_tool_env)))) (Fin 0)"
    by (simp add: demo_values monitorArea_def demo_tool_env_def demo_env_def)
  then show ?thesis
    using demo_tool_facts(5)
    by (simp add: apply_box_def demo_tool_facts(1) zoneSettingsForObject_def objectThresholdPixels_def Let_def)
qed

theorem measured_box_gives_valid_thresholds_witness:
  "\<exists>t' pb. apply_box demo_tool_env (fst demo_box) (snd demo_box) demo_tool = (True, t')
     \<and> parseFloat (elems (pg t') MinBlobPixels) = Fin pb \<and> 1 / 100 \<le> pb
     \<and> MinBlobLtMinFilter \<notin> set (zone_errors (pg t'))"
proof -
  obtain t' where t': "apply_box demo_tool_env (fst demo_box) (snd demo_box) demo_tool = (True, t')"
    using demo_applied by (cases "apply_box demo_tool_env (fst demo_box) (snd demo_box) demo_tool") simp
  from measured_box_gives_valid_thresholds [OF t' demo_tool_facts(4), of 18432 10000] t' show ?thesis
    unfolding demo_tool_facts by (fastforce simp: demo_values)
qed


end
