(* ===== verification/Level_Graph.thy ===== *)
theory Level_Graph
  imports Js_Text "HOL-Library.Multiset"
begin

text \<open>
  The level graph under the event video, \<^verbatim>\<open>web/js/LevelGraph.js\<close>: samples from the rows of
  the frames request, the alarm bands, the mapping between seconds and pixels, the binary
  search for the hover readout, the SVG markup, and the live level meter. Times and sizes
  are finite numbers, kept as rationals.
\<close>

section \<open>Samples\<close>

definition LEVEL_GRAPH_MIN_HEIGHT :: rat where "LEVEL_GRAPH_MIN_HEIGHT = 12"
definition LEVEL_GRAPH_TOP_PAD :: rat where "LEVEL_GRAPH_TOP_PAD = 2"
definition LEVEL_GRAPH_LABEL_GUTTER :: rat where "LEVEL_GRAPH_LABEL_GUTTER = 10"

record frame_row =
  Delta :: jsval
  Score :: jsval
  AudioLevel :: jsval
  FrameType :: string

record sample =
  t_of :: rat
  score :: int
  audio :: int
  type_of :: string

record series =
  samples :: "sample list"
  motionMax :: int
  audioMax :: int
  hasAudio :: bool
  hasScores :: bool

text \<open>The event's length clamps the samples only when it is a positive number.\<close>

definition clamp_time :: "jsval \<Rightarrow> rat \<Rightarrow> rat" where
  "clamp_time eventLength t = (case eventLength of
     JNum (Fin l) \<Rightarrow> if l > 0 then min (max t 0) l else max t 0
   | _ \<Rightarrow> max t 0)"

definition int_or_0 :: "jsval \<Rightarrow> int" where
  "int_or_0 v = (case parseInt10 (js_string v) of None \<Rightarrow> 0 | Some n \<Rightarrow> n)"

definition sample_of :: "jsval \<Rightarrow> frame_row \<Rightarrow> sample option" where
  "sample_of eventLength f = (case parseFloat (js_string (Delta f)) of
     Fin t \<Rightarrow> Some \<lparr>t_of = clamp_time eventLength t, score = max 0 (int_or_0 (Score f)),
                   audio = min 100 (max 0 (int_or_0 (AudioLevel f))), type_of = FrameType f\<rparr>
   | _ \<Rightarrow> None)"

fun series_loop :: "jsval \<Rightarrow> frame_row list \<Rightarrow> sample list \<Rightarrow> int \<Rightarrow> int \<Rightarrow> sample list \<times> int \<times> int" where
  "series_loop len [] acc mm am = (acc, mm, am)"
| "series_loop len (f # fs) acc mm am = (case sample_of len f of
     None \<Rightarrow> series_loop len fs acc mm am
   | Some s \<Rightarrow> series_loop len fs (acc @ [s]) (if score s > mm then score s else mm)
                 (if audio s > am then audio s else am))"

definition levelGraphSeries :: "frame_row list \<Rightarrow> jsval \<Rightarrow> series" where
  "levelGraphSeries frames eventLength =
     (let (ss, mm, am) = series_loop eventLength frames [] 0 0
      in \<lparr>samples = sort_key t_of ss, motionMax = mm, audioMax = am, hasAudio = am > 0, hasScores = mm > 0\<rparr>)"

section \<open>Bands\<close>

definition push_band :: "rat \<Rightarrow> rat \<Rightarrow> (rat \<times> rat) list \<Rightarrow> (rat \<times> rat) list" where
  "push_band start fin bands =
     (if bands \<noteq> [] \<and> snd (last bands) \<ge> start
      then butlast bands @ [(fst (last bands), max (snd (last bands)) fin)]
      else bands @ [(start, fin)])"

fun bands_loop :: "rat \<Rightarrow> sample list \<Rightarrow> (rat \<times> rat) list \<Rightarrow> (rat \<times> rat) list" where
  "bands_loop len [] bands = bands"
| "bands_loop len (s # ss) bands =
     (let fin = (case ss of [] \<Rightarrow> len | n # _ \<Rightarrow> t_of n) in
      bands_loop len ss
        (if type_of s \<noteq> ''Alarm'' then bands
         else if \<not> fin > t_of s then bands
         else push_band (t_of s) fin bands))"

definition levelGraphBands :: "sample list \<Rightarrow> rat \<Rightarrow> (rat \<times> rat) list" where
  "levelGraphBands ss eventLength = bands_loop eventLength ss []"

section \<open>Scale\<close>

record scale =
  sc_width :: rat
  sc_height :: rat
  sc_baseline :: rat
  sc_plot :: rat
  sc_length :: rat
  sc_motionMax :: rat

definition levelGraphScale :: "rat \<Rightarrow> rat \<Rightarrow> rat \<Rightarrow> rat \<Rightarrow> scale" where
  "levelGraphScale w h eventLength mMax =
     (let height = max LEVEL_GRAPH_MIN_HEIGHT h;
          baseline = (if height > LEVEL_GRAPH_LABEL_GUTTER * 2 then height - LEVEL_GRAPH_LABEL_GUTTER else height)
      in \<lparr>sc_width = max 0 w, sc_height = height, sc_baseline = baseline,
          sc_plot = max 1 (baseline - LEVEL_GRAPH_TOP_PAD),
          sc_length = (if eventLength > 0 then eventLength else 1),
          sc_motionMax = (if mMax > 0 then mMax else 1)\<rparr>)"

definition scale_x :: "scale \<Rightarrow> rat \<Rightarrow> rat" where
  "scale_x sc t = min (max t 0) (sc_length sc) / sc_length sc * sc_width sc"

definition scale_yMotion :: "scale \<Rightarrow> rat \<Rightarrow> rat" where
  "scale_yMotion sc v = sc_baseline sc - min (max v 0) (sc_motionMax sc) / sc_motionMax sc * sc_plot sc"

definition scale_yAudio :: "scale \<Rightarrow> rat \<Rightarrow> rat" where
  "scale_yAudio sc v = sc_baseline sc - min (max v 0) 100 / 100 * sc_plot sc"

definition scale_tAt :: "scale \<Rightarrow> rat \<Rightarrow> rat" where
  "scale_tAt sc px = (if sc_width sc = 0 then 0
     else min (max px 0) (sc_width sc) / sc_width sc * sc_length sc)"

section \<open>The sample under the pointer\<close>

function search_loop :: "sample list \<Rightarrow> rat \<Rightarrow> nat \<Rightarrow> nat \<Rightarrow> nat" where
  "search_loop ss t lo hi =
     (if lo < hi then
        (let mid = (lo + hi) div 2
         in if t_of (ss ! mid) < t then search_loop ss t (mid + 1) hi else search_loop ss t lo mid)
      else lo)"
  by pat_completeness auto
termination by (relation "measure (\<lambda>(ss, t, lo, hi). hi - lo)") auto

declare search_loop.simps [simp del]

definition levelGraphSampleAt :: "sample list \<Rightarrow> rat \<Rightarrow> sample option" where
  "levelGraphSampleAt ss t =
     (if ss = [] then None
      else (let lo = search_loop ss t 0 (length ss - 1); after = ss ! lo
            in if lo = 0 then Some after
               else (let before = ss ! (lo - 1) in
                     Some (if \<bar>t_of after - t\<bar> < \<bar>t - t_of before\<bar> then after else before))))"

section \<open>Markup\<close>

definition round2 :: "rat \<Rightarrow> rat" where
  "round2 n = of_int (math_round (n * 100)) / 100"

abbreviation r2s :: "rat \<Rightarrow> string" where
  "r2s n \<equiv> rat_to_str (round2 n)"

definition levelGraphPoints :: "sample list \<Rightarrow> scale \<Rightarrow> bool \<Rightarrow> string" where
  "levelGraphPoints ss sc for_audio = join '' '' (map (\<lambda>s. r2s (scale_x sc (t_of s)) @ '','' @
     r2s (if for_audio then scale_yAudio sc (of_int (audio s)) else scale_yMotion sc (of_int (score s)))) ss)"

definition replace_all :: "char \<Rightarrow> string \<Rightarrow> string \<Rightarrow> string" where
  "replace_all c r s = concat (map (\<lambda>d. if d = c then r else [d]) s)"

definition quote :: char where "quote = char_of (34 :: nat)"

definition escapeXml :: "string \<Rightarrow> string" where
  "escapeXml s = replace_all quote ''&quot;'' (replace_all (CHR ''>'') ''&gt;''
     (replace_all (CHR ''<'') ''&lt;'' (replace_all (CHR ''&'') ''&amp;'' s)))"

text \<open>\<open>attr n v\<close> is the text \<^verbatim>\<open> n="v"\<close>.\<close>

definition attr :: "string \<Rightarrow> string \<Rightarrow> string" where
  "attr n v = '' '' @ n @ ''='' @ [quote] @ v @ [quote]"

record graph_opts =
  g_samples :: "sample list"
  g_bands :: "(rat \<times> rat) list"
  g_labels :: "(rat \<times> string) list"
  g_width :: rat
  g_height :: rat
  g_eventLength :: rat
  g_motionMax :: rat
  g_hasAudio :: bool
  g_hasScores :: bool

definition render_band :: "scale \<Rightarrow> rat \<times> rat \<Rightarrow> string" where
  "render_band sc b = (let x1 = scale_x sc (fst b); x2 = scale_x sc (snd b) in
     ''<rect'' @ attr ''class'' ''level-graph-band'' @ attr ''x'' (r2s x1) @ attr ''y'' ''0''
     @ attr ''width'' (r2s (max 1 (x2 - x1))) @ attr ''height'' (r2s (sc_baseline sc)) @ ''/>'')"

definition render_label :: "scale \<Rightarrow> rat \<times> string \<Rightarrow> string list" where
  "render_label sc l = (let lx = scale_x sc (fst l) in
     [''<line'' @ attr ''class'' ''level-graph-tick'' @ attr ''x1'' (r2s lx) @ attr ''y1'' (r2s (sc_baseline sc))
        @ attr ''x2'' (r2s lx) @ attr ''y2'' (r2s (sc_height sc)) @ ''/>'',
      ''<text'' @ attr ''class'' ''level-graph-label'' @ attr ''x'' (r2s (lx + 2)) @ attr ''y'' (r2s (sc_height sc - 1))
        @ ''>'' @ escapeXml (snd l) @ ''</text>''])"

definition render_line :: "string \<Rightarrow> string \<Rightarrow> string" where
  "render_line cls pts = ''<polyline'' @ attr ''class'' cls @ attr ''fill'' ''none'' @ attr ''points'' pts @ ''/>''"

definition renderLevelGraph :: "graph_opts \<Rightarrow> string" where
  "renderLevelGraph go = (let sc = levelGraphScale (g_width go) (g_height go) (g_eventLength go) (g_motionMax go) in
     concat (
       [''<svg'' @ attr ''class'' ''level-graph'' @ attr ''width'' (r2s (sc_width sc)) @ attr ''height'' (r2s (sc_height sc))
          @ attr ''viewBox'' (''0 0 '' @ r2s (sc_width sc) @ '' '' @ r2s (sc_height sc))
          @ attr ''preserveAspectRatio'' ''none'' @ attr ''aria-hidden'' ''true'' @ ''>'']
       @ map (render_band sc) (g_bands go)
       @ [''<line'' @ attr ''class'' ''level-graph-axis'' @ attr ''x1'' ''0'' @ attr ''y1'' (r2s (sc_baseline sc))
            @ attr ''x2'' (r2s (sc_width sc)) @ attr ''y2'' (r2s (sc_baseline sc)) @ ''/>'']
       @ concat (map (render_label sc) (g_labels go))
       @ (if g_hasAudio go \<and> g_samples go \<noteq> []
          then [render_line ''level-graph-audio'' (levelGraphPoints (g_samples go) sc True)] else [])
       @ (if g_hasScores go \<and> g_samples go \<noteq> []
          then [render_line ''level-graph-motion'' (levelGraphPoints (g_samples go) sc False)] else [])
       @ [''</svg>'']))"

section \<open>The live meter\<close>

record meter =
  percent :: int
  meter_text :: string
  alarm :: bool

definition levelMeterState :: "js_num option \<Rightarrow> bool \<Rightarrow> string \<Rightarrow> meter" where
  "levelMeterState level al message = (case level of
     Some (Fin x) \<Rightarrow> (let c = min (max (math_round x) 0) 100 in \<lparr>percent = c, meter_text = int_to_str c, alarm = al\<rparr>)
   | _ \<Rightarrow> \<lparr>percent = 0, meter_text = (if message \<noteq> [] then message else ''no reading''), alarm = False\<rparr>)"

definition levelThresholdPercent :: "string \<Rightarrow> int option" where
  "levelThresholdPercent threshold = (case parseInt10 threshold of
     None \<Rightarrow> None | Some v \<Rightarrow> if v \<le> 0 then None else Some (min v 100))"

definition levelGraphReadout :: "series option \<Rightarrow> rat \<Rightarrow> string" where
  "levelGraphReadout sr t = (case sr of
     None \<Rightarrow> []
   | Some r \<Rightarrow> (case levelGraphSampleAt (samples r) t of
        None \<Rightarrow> []
      | Some s \<Rightarrow> join '', ''
          ((if hasScores r then [''motion '' @ int_to_str (score s)] else [])
           @ (if hasAudio r then [''audio '' @ int_to_str (audio s)] else []))))"

section \<open>The samples of a series\<close>

lemma series_loop_spec:
  "fst (series_loop len fs acc mm am) = acc @ List.map_filter (sample_of len) fs
   \<and> fst (snd (series_loop len fs acc mm am)) = Max (set (mm # map score (List.map_filter (sample_of len) fs)))
   \<and> snd (snd (series_loop len fs acc mm am)) = Max (set (am # map audio (List.map_filter (sample_of len) fs)))"
proof (induction fs arbitrary: acc mm am)
  case (Cons f fs)
  have m: "finite A \<Longrightarrow> \<not> a < b \<Longrightarrow> max a (Max (insert b A)) = Max (insert a A)"
    "finite A \<Longrightarrow> a < b \<Longrightarrow> max a (Max (insert b A)) = Max (insert b A)"
    for a b :: int and A by (cases "A = {}"; auto simp: max_def)+
  show ?case
    using Cons m by (cases "sample_of len f") (simp_all add: map_filter_simps)
qed (simp add: map_filter_simps)

definition sample_ok :: "jsval \<Rightarrow> sample \<Rightarrow> bool" where
  "sample_ok len s \<longleftrightarrow> 0 \<le> t_of s \<and> (\<forall>l. len = JNum (Fin l) \<and> l > 0 \<longrightarrow> t_of s \<le> l)
     \<and> 0 \<le> score s \<and> 0 \<le> audio s \<and> audio s \<le> 100"

lemma sample_of_ok: "sample_of len f = Some s \<Longrightarrow> sample_ok len s"
  by (auto simp: sample_of_def sample_ok_def clamp_time_def split: js_num.splits jsval.splits if_splits)

text \<open>
  A series holds one sample for every row whose time can be read, in time order, inside
  the event, with levels from 0 to 100 and scores that are not negative; its two maxima are
  attained (or 0), and a line is promised exactly when some sample is above 0.
\<close>

lemma levelGraphSeries_correct:
  fixes fs :: "frame_row list" and len :: jsval
  defines "sr \<equiv> levelGraphSeries fs len"
  shows "mset (samples sr) = mset (List.map_filter (sample_of len) fs) \<and> sorted (map t_of (samples sr))
    \<and> list_all (sample_ok len) (samples sr)
    \<and> list_all (\<lambda>s. score s \<le> motionMax sr \<and> audio s \<le> audioMax sr) (samples sr)
    \<and> motionMax sr \<in> set (0 # map score (samples sr)) \<and> audioMax sr \<in> set (0 # map audio (samples sr))
    \<and> hasAudio sr = list_ex (\<lambda>s. audio s > 0) (samples sr)
    \<and> hasScores sr = list_ex (\<lambda>s. score s > 0) (samples sr)"
proof -
  let ?ss = "List.map_filter (sample_of len) fs"
  obtain ss mm am where l: "series_loop len fs [] 0 0 = (ss, mm, am)" by (cases "series_loop len fs [] 0 0") auto
  have ss: "ss = ?ss" "mm = Max (set (0 # map score ?ss))" "am = Max (set (0 # map audio ?ss))"
    using series_loop_spec [of len fs "[]" 0 0] l by simp_all
  have sr: "samples sr = sort_key t_of ?ss" "motionMax sr = mm" "audioMax sr = am"
    "hasAudio sr = (am > 0)" "hasScores sr = (mm > 0)"
    by (simp_all add: sr_def levelGraphSeries_def l ss(1))
  have ok: "sample_ok len s" if "s \<in> set ?ss" for s
    using that sample_of_ok by (auto simp: map_filter_def)
  have pos: "(Max (set (0 # xs)) > 0) = (\<exists>x \<in> set xs. x > 0)" for xs :: "int list"
    by (subst Max_gr_iff) auto
  have mem: "mm \<in> set (0 # map score ?ss)" "am \<in> set (0 # map audio ?ss)"
    unfolding ss(2,3) by (rule Max_in; simp)+
  have ub: "score s \<le> mm" "audio s \<le> am" if "s \<in> set ?ss" for s
    unfolding ss(2,3) using that by (auto intro!: Max_ge)
  have "hasAudio sr = list_ex (\<lambda>s. audio s > 0) (samples sr)" "hasScores sr = list_ex (\<lambda>s. score s > 0) (samples sr)"
    unfolding sr ss(2,3) pos by (auto simp: list_ex_iff)
  then show ?thesis using mem ub ok by (auto simp: sr list_all_iff)
qed

section \<open>The bands are the alarmed time\<close>

definition covered :: "rat \<Rightarrow> (rat \<times> rat) list \<Rightarrow> bool" where
  "covered x bs \<longleftrightarrow> list_ex (\<lambda>b. fst b \<le> x \<and> x < snd b) bs"

fun alarmed_at :: "rat \<Rightarrow> sample list \<Rightarrow> rat \<Rightarrow> bool" where
  "alarmed_at len [] x = False"
| "alarmed_at len (s # ss) x =
     (type_of s = ''Alarm'' \<and> t_of s \<le> x \<and> x < (case ss of [] \<Rightarrow> len | n # _ \<Rightarrow> t_of n) \<or> alarmed_at len ss x)"

fun bands_ok :: "(rat \<times> rat) list \<Rightarrow> bool" where
  "bands_ok [] = True"
| "bands_ok [b] = (fst b < snd b)"
| "bands_ok (b # c # bs) = (fst b < snd b \<and> snd b < fst c \<and> bands_ok (c # bs))"

lemma bands_ok_snoc:
  "bands_ok (bs @ [b]) \<longleftrightarrow> bands_ok bs \<and> fst b < snd b \<and> (bs \<noteq> [] \<longrightarrow> snd (last bs) < fst b)"
  by (induction bs rule: bands_ok.induct) auto

lemma push_band_spec:
  assumes "bands_ok bs" and "s < e" and "bs \<noteq> [] \<longrightarrow> fst (last bs) \<le> s \<and> snd (last bs) \<le> e"
  shows "bands_ok (push_band s e bs)" "covered x (push_band s e bs) \<longleftrightarrow> covered x bs \<or> s \<le> x \<and> x < e"
    "push_band s e bs \<noteq> []" "fst (last (push_band s e bs)) \<le> s" "snd (last (push_band s e bs)) = e"
proof -
  have "bands_ok (push_band s e bs) \<and> (covered x (push_band s e bs) \<longleftrightarrow> covered x bs \<or> s \<le> x \<and> x < e)
      \<and> push_band s e bs \<noteq> [] \<and> fst (last (push_band s e bs)) \<le> s \<and> snd (last (push_band s e bs)) = e"
  proof (cases bs rule: rev_cases)
    case (snoc cs c)
    then show ?thesis using assms bands_ok_snoc [of "cs @ [c]" "(s, e)"]
      by (auto simp: push_band_def bands_ok_snoc covered_def max_def)
  qed (use assms in \<open>simp add: push_band_def covered_def\<close>)
  then show "bands_ok (push_band s e bs)" "covered x (push_band s e bs) \<longleftrightarrow> covered x bs \<or> s \<le> x \<and> x < e"
    "push_band s e bs \<noteq> []" "fst (last (push_band s e bs)) \<le> s" "snd (last (push_band s e bs)) = e" by blast+
qed

lemma bands_loop_spec:
  assumes "bands_ok bs" and "sorted (map t_of ss)" and "list_all (\<lambda>s. t_of s \<le> len) ss"
    and "bs \<noteq> [] \<longrightarrow> fst (last bs) \<le> snd (last bs) \<and> snd (last bs) \<le> len \<and> list_all (\<lambda>s. snd (last bs) \<le> t_of s) ss"
  shows "bands_ok (bands_loop len ss bs)
    \<and> (covered x (bands_loop len ss bs) \<longleftrightarrow> covered x bs \<or> alarmed_at len ss x)"
  using assms
proof (induction ss arbitrary: bs)
  case (Cons s ss)
  let ?e = "case ss of [] \<Rightarrow> len | n # _ \<Rightarrow> t_of n"
  have e: "t_of s \<le> ?e" "?e \<le> len" "list_all (\<lambda>s. ?e \<le> t_of s) ss"
    using Cons.prems(2,3) by (cases ss; auto simp: list_all_iff)+
  show ?case
  proof (cases "type_of s = ''Alarm'' \<and> ?e > t_of s")
    case True
    note push = push_band_spec [of bs "t_of s" ?e]
    have pre: "bands_ok bs" "t_of s < ?e" "bs \<noteq> [] \<longrightarrow> fst (last bs) \<le> t_of s \<and> snd (last bs) \<le> ?e"
      using Cons.prems(1,4) True by auto
    have "bands_ok (bands_loop len ss (push_band (t_of s) ?e bs))
        \<and> (covered x (bands_loop len ss (push_band (t_of s) ?e bs))
             \<longleftrightarrow> covered x (push_band (t_of s) ?e bs) \<or> alarmed_at len ss x)"
      using push [OF pre] e pre(2) Cons.prems(2,3) by (intro Cons.IH) auto
    then show ?thesis using push(2) [OF pre] True by auto
  next
    case False
    then have "\<not> (type_of s = ''Alarm'' \<and> t_of s \<le> x \<and> x < ?e)" by auto
    moreover have "bands_loop len (s # ss) bs = bands_loop len ss bs" using False by (simp add: Let_def)
    ultimately show ?thesis using Cons by auto
  qed
qed auto

text \<open>
  The shaded bands are the alarmed time: for samples in time order inside the event the
  bands are in order, not empty, and separated, and a moment lies in a band exactly when the
  frame covering it is an alarm frame.
\<close>

lemma levelGraphBands_correct:
  assumes "sorted (map t_of ss)" and "list_all (\<lambda>s. t_of s \<le> len) ss"
  shows "bands_ok (levelGraphBands ss len) \<and> (covered x (levelGraphBands ss len) \<longleftrightarrow> alarmed_at len ss x)"
  using bands_loop_spec [of "[]" ss len x] assms by (simp add: levelGraphBands_def covered_def)

section \<open>The binary search\<close>

lemma search_loop_spec:
  assumes "sorted (map t_of ss)" and "lo \<le> hi" and "hi < length ss"
    and "\<And>i. i < lo \<Longrightarrow> t_of (ss ! i) < t" and "\<And>i. hi \<le> i \<Longrightarrow> i < length ss - 1 \<Longrightarrow> t \<le> t_of (ss ! i)"
  shows "let r = search_loop ss t lo hi in r < length ss \<and> (\<forall>i < r. t_of (ss ! i) < t)
    \<and> (\<forall>i. r \<le> i \<and> i < length ss - 1 \<longrightarrow> t \<le> t_of (ss ! i))"
  using assms
proof (induction ss t lo hi rule: search_loop.induct)
  case (1 ss t lo hi)
  let ?m = "(lo + hi) div 2"
  show ?case
  proof (cases "lo < hi")
    case True
    then have m: "lo \<le> ?m" "?m < hi" "?m < length ss" using 1(5) by auto
    have mono: "i \<le> j \<Longrightarrow> j < length ss \<Longrightarrow> t_of (ss ! i) \<le> t_of (ss ! j)" for i j
      using sorted_nth_mono [OF 1(3), of i j] by simp
    show ?thesis
    proof (cases "t_of (ss ! ?m) < t")
      case True
      have "t_of (ss ! i) < t" if "i < ?m + 1" for i
        using mono [of i ?m] that m True by linarith
      with 1(1) [OF \<open>lo < hi\<close> refl True] 1(3,5,7) m True show ?thesis
        by (subst search_loop.simps) (simp add: Let_def)
    next
      case False
      have "t \<le> t_of (ss ! i)" if "?m \<le> i" "i < length ss - 1" for i
        using mono [of ?m i] that m False by linarith
      with 1(2) [OF \<open>lo < hi\<close> refl False] 1(3,6) m False show ?thesis
        by (subst search_loop.simps) (simp add: Let_def)
    qed
  next
    case False
    with 1 show ?thesis by (subst search_loop.simps) (auto simp: Let_def)
  qed
qed

text \<open>
  C32. The hover readout picks a sample of the series that no other sample beats: none is
  nearer in time to the pointer.
\<close>

theorem levelGraphSampleAt_nearest:
  assumes "sorted (map t_of ss)" and "ss \<noteq> []"
  shows "\<exists>s \<in> set ss. levelGraphSampleAt ss t = Some s \<and> list_all (\<lambda>u. \<bar>t_of s - t\<bar> \<le> \<bar>t_of u - t\<bar>) ss"
proof -
  define r where "r = search_loop ss t 0 (length ss - 1)"
  have r: "r < length ss" "\<And>i. i < r \<Longrightarrow> t_of (ss ! i) < t"
    "\<And>i. r \<le> i \<Longrightarrow> i < length ss - 1 \<Longrightarrow> t \<le> t_of (ss ! i)"
    using search_loop_spec [OF assms(1), of 0 "length ss - 1" t] assms(2) by (auto simp: r_def Let_def)
  have mono: "i \<le> j \<Longrightarrow> j < length ss \<Longrightarrow> t_of (ss ! i) \<le> t_of (ss ! j)" for i j
    using sorted_nth_mono [OF assms(1), of i j] by simp
  define s where "s = (if r = 0 then ss ! 0
      else if \<bar>t_of (ss ! r) - t\<bar> < \<bar>t - t_of (ss ! (r - 1))\<bar> then ss ! r else ss ! (r - 1))"
  have at_s: "levelGraphSampleAt ss t = Some s"
    unfolding levelGraphSampleAt_def Let_def r_def [symmetric] s_def using assms(2) by simp
  have near: "\<bar>t_of s - t\<bar> \<le> \<bar>t_of (ss ! i) - t\<bar>" if i: "i < length ss" for i
  proof (cases "i < r")
    case True
    then have "t_of (ss ! i) \<le> t_of (ss ! (r - 1))" "t_of (ss ! (r - 1)) < t" using mono [of i "r - 1"] r by auto
    then show ?thesis using True by (auto simp: s_def)
  next
    case False
    have below: "r \<noteq> 0 \<Longrightarrow> t_of (ss ! (r - 1)) < t" using r by simp
    have up: "t_of (ss ! r) \<le> t_of (ss ! i)" using False i mono by simp
    have "i = r \<or> t \<le> t_of (ss ! r)" using r(3) [of r] False i by linarith
    then show ?thesis using up below by (auto simp: s_def)
  qed
  moreover have "s \<in> set ss" using r(1) assms(2) by (auto simp: s_def)
  ultimately show ?thesis using at_s by (auto simp: list_all_iff in_set_conv_nth)
qed

section \<open>Seconds and pixels\<close>

lemma scale_positive:
  fixes w h len mm :: rat
  defines "sc \<equiv> levelGraphScale w h len mm"
  shows "0 \<le> sc_width sc" "0 < sc_length sc" "0 < sc_motionMax sc" "1 \<le> sc_plot sc"
    "sc_plot sc \<le> sc_baseline sc" "sc_baseline sc \<le> sc_height sc"
  by (auto simp: sc_def levelGraphScale_def Let_def LEVEL_GRAPH_MIN_HEIGHT_def LEVEL_GRAPH_TOP_PAD_def
      LEVEL_GRAPH_LABEL_GUTTER_def max_def)

lemma fraction_range:
  assumes "0 < (m :: rat)"
  shows "0 \<le> min (max v 0) m / m" "min (max v 0) m / m \<le> 1"
  using assms by (auto simp: field_simps)

text \<open>
  The drawing stays inside its box and the pointer maps back: every sample is drawn
  between the left and right edge and between the top and the base line, times map to
  pixels without changing their order, and on a graph of positive width turning the pixel
  of a second of the event back into a time gives that second.
\<close>

lemma levelGraphScale_correct:
  fixes w h len mm :: rat
  defines "sc \<equiv> levelGraphScale w h len mm"
  assumes "0 < w" and "0 \<le> t" and "t \<le> sc_length sc" and "t \<le> t'"
  shows "0 \<le> scale_x sc t \<and> scale_x sc t \<le> sc_width sc \<and> scale_x sc t \<le> scale_x sc t'
    \<and> scale_tAt sc (scale_x sc t) = t
    \<and> 0 \<le> scale_yMotion sc v \<and> scale_yMotion sc v \<le> sc_baseline sc
    \<and> 0 \<le> scale_yAudio sc v \<and> scale_yAudio sc v \<le> sc_baseline sc \<and> sc_baseline sc \<le> sc_height sc"
proof -
  note p = scale_positive [of w h len mm, folded sc_def]
  have w: "0 < sc_width sc" using assms(2) by (simp add: sc_def levelGraphScale_def Let_def)
  have x: "scale_x sc t = t / sc_length sc * sc_width sc" using assms(3,4) by (simp add: scale_x_def)
  have f: "0 \<le> t / sc_length sc" "t / sc_length sc \<le> 1" using assms(3,4) p(2) by simp_all
  have x0: "0 \<le> scale_x sc t" unfolding x using f(1) w by (intro mult_nonneg_nonneg) simp_all
  have "t / sc_length sc * sc_width sc \<le> 1 * sc_width sc" using f w by (intro mult_right_mono) simp_all
  then have x1: "scale_x sc t \<le> sc_width sc" by (simp add: x)
  have "t \<le> min (max t' 0) (sc_length sc)" using assms(3-5) by simp
  then have mono: "scale_x sc t \<le> scale_x sc t'"
    unfolding x scale_x_def using w p(2) by (intro mult_right_mono divide_right_mono) simp_all
  have inverse: "scale_tAt sc (scale_x sc t) = t"
    using x0 x1 w p(2) by (simp add: scale_tAt_def) (simp add: x)
  have y: "0 \<le> sc_baseline sc - g * sc_plot sc \<and> sc_baseline sc - g * sc_plot sc \<le> sc_baseline sc"
    if "0 \<le> g" "g \<le> 1" for g
  proof -
    have "g * sc_plot sc \<le> 1 * sc_plot sc" using that p(4) by (intro mult_right_mono) simp_all
    moreover have "0 \<le> g * sc_plot sc" using that p(4) by simp
    ultimately show ?thesis using p(5) by linarith
  qed
  show ?thesis using x0 x1 mono inverse p(6) y [OF fraction_range [OF p(3), of v]]
      y [OF fraction_range [of 100 v]] by (simp add: scale_yMotion_def scale_yAudio_def)
qed

section \<open>Witnesses\<close>

definition demo_samples :: "sample list" where
  "demo_samples = [\<lparr>t_of = 0, score = 0, audio = 3, type_of = ''Normal''\<rparr>,
     \<lparr>t_of = 2, score = 40, audio = 10, type_of = ''Alarm''\<rparr>,
     \<lparr>t_of = 5, score = 60, audio = 12, type_of = ''Alarm''\<rparr>,
     \<lparr>t_of = 9, score = 0, audio = 4, type_of = ''Normal''\<rparr>]"

lemma demo_sorted: "sorted (map t_of demo_samples)" "list_all (\<lambda>s. t_of s \<le> 10) demo_samples" "demo_samples \<noteq> []"
  by (simp_all add: demo_samples_def)

theorem levelGraphSampleAt_nearest_witness:
  "\<exists>s. levelGraphSampleAt demo_samples (29 / 10) = Some s \<and> \<bar>t_of s - 29 / 10\<bar> \<le> 9 / 10"
proof -
  have "\<lparr>t_of = 2, score = 40, audio = 10, type_of = ''Alarm''\<rparr> \<in> set demo_samples" by (simp add: demo_samples_def)
  then show ?thesis
    using levelGraphSampleAt_nearest [OF demo_sorted(1,3), of "29 / 10"] by (fastforce simp: list_all_iff)
qed

end
