(* ===== verification/Encoder_Templates.thy ===== *)
theory Encoder_Templates
  imports Js_Text
begin

text \<open>
  The encoder parameter templates of the monitor form, \<^verbatim>\<open>views/js/monitor-encoder-templates.js\<close>:
  the parameter text as a list of entries, merging a template into it, reporting unknown
  options, and the handlers of the encoder and template selectors. An object that is used
  as a map is a list of its own keys in enumeration order.
\<close>

section \<open>Parameter text\<close>

type_synonym param_entry = "string \<times> string"

definition pair_sep :: "char \<Rightarrow> bool" where
  "pair_sep c \<longleftrightarrow> c = CHR ''#'' \<or> c = CHR '','' \<or> c = CHR 0x0A"

definition parse_pair :: "string \<Rightarrow> param_entry option" where
  "parse_pair p = (case index_of (CHR ''='') p of
     None \<Rightarrow> None
   | Some idx \<Rightarrow>
       (let key = js_trim (take idx p); val = js_trim (drop (idx + 1) p)
        in if key = [] then None else Some (key, val)))"

definition parseParams :: "string \<Rightarrow> param_entry list" where
  "parseParams s = (if s = [] then [] else List.map_filter parse_pair (split_on pair_sep s))"

text \<open>\<^verbatim>\<open>positions\<close> maps a key to the last place it has; a template key replaces the value there.\<close>

fun last_pos :: "string \<Rightarrow> param_entry list \<Rightarrow> nat option" where
  "last_pos k [] = None"
| "last_pos k (e # es) = (case last_pos k es of
     Some i \<Rightarrow> Some (Suc i)
   | None \<Rightarrow> if fst e = k then Some 0 else None)"

definition merge_one :: "param_entry list \<Rightarrow> string \<times> jsval \<Rightarrow> param_entry list" where
  "merge_one es kv = (case last_pos (fst kv) es of
     Some i \<Rightarrow> es[i := (fst (es ! i), js_string (snd kv))]
   | None \<Rightarrow> es @ [(fst kv, js_string (snd kv))])"

definition mergeParams :: "param_entry list \<Rightarrow> (string \<times> jsval) list \<Rightarrow> param_entry list" where
  "mergeParams existing template = foldl merge_one existing template"

definition serializeParams :: "param_entry list \<Rightarrow> string" where
  "serializeParams es = join [CHR 0x0A] (map (\<lambda>(k, v). k @ ''='' @ v) es)"

section \<open>The template data and lookups\<close>

record template =
  tmpl_id :: int
  tmpl_name :: string
  tmpl_description :: string
  tmpl_params :: "(string \<times> jsval) list"

record encoder_data =
  valid_keys :: "string list"
  templates_of :: "template list"

type_synonym template_db = "string \<Rightarrow> encoder_data option"

fun unknown_keys :: "string list \<Rightarrow> param_entry list \<Rightarrow> string list \<Rightarrow> string list" where
  "unknown_keys valid [] out = out"
| "unknown_keys valid (e # es) out =
     (if fst e \<notin> set valid \<and> fst e \<notin> set out then unknown_keys valid es (out @ [fst e])
      else unknown_keys valid es out)"

definition lint :: "param_entry list \<Rightarrow> string \<Rightarrow> template_db \<Rightarrow> string list" where
  "lint parsed encoder db =
     (if encoder = [] then []
      else (case db encoder of None \<Rightarrow> [] | Some d \<Rightarrow> unknown_keys (valid_keys d) parsed []))"

text \<open>\<^verbatim>\<open>Number(templateId)\<close> of a selector's value, compared with the numeric id.\<close>

definition findTemplate :: "template_db \<Rightarrow> string \<Rightarrow> string \<Rightarrow> template option" where
  "findTemplate db encoder templateId = (case db encoder of
     None \<Rightarrow> None
   | Some d \<Rightarrow> find (\<lambda>t. js_Number templateId = Fin (of_int (tmpl_id t))) (templates_of d))"

definition findTemplateByName :: "template_db \<Rightarrow> string \<Rightarrow> string \<Rightarrow> template option" where
  "findTemplateByName db encoder name =
     (if name = [] then None
      else (case db encoder of
         None \<Rightarrow> None
       | Some d \<Rightarrow> find (\<lambda>t. to_lower (tmpl_name t) = to_lower name) (templates_of d)))"

section \<open>The form\<close>

record encoder_form =
  encoder :: string
  parameters :: string
  options :: "(string \<times> string \<times> string) list"
  template_sel :: string
  rowShown :: bool
  diagnostics :: "string list"
  lastAppliedName :: string

definition repopulateTemplates :: "template_db \<Rightarrow> encoder_form \<Rightarrow> encoder_form" where
  "repopulateTemplates db s =
     (let ts = (case db (encoder s) of None \<Rightarrow> [] | Some d \<Rightarrow> templates_of d);
          opts = map (\<lambda>t. (int_to_str (tmpl_id t), tmpl_name t, tmpl_description t)) ts
      in s\<lparr>options := opts, rowShown := (ts \<noteq> []),
           template_sel := (case opts of [] \<Rightarrow> [] | x # _ \<Rightarrow> fst x)\<rparr>)"

text \<open>The diagnostics line names the unknown options; it is hidden when there are none.\<close>

definition runLint :: "template_db \<Rightarrow> encoder_form \<Rightarrow> encoder_form" where
  "runLint db s = s\<lparr>diagnostics := lint (parseParams (parameters s)) (encoder s) db\<rparr>"

definition applyTemplate :: "template_db \<Rightarrow> string \<Rightarrow> encoder_form \<Rightarrow> encoder_form" where
  "applyTemplate db templateId s =
     (if templateId = [] then s
      else (case findTemplate db (encoder s) templateId of
         None \<Rightarrow> s
       | Some t \<Rightarrow> runLint db (s\<lparr>parameters := serializeParams (mergeParams (parseParams (parameters s)) (tmpl_params t)),
                                lastAppliedName := tmpl_name t\<rparr>)))"

text \<open>\<open>confirmed\<close> is the user's answer to the question, asked only when there is a match.\<close>

definition onEncoderChange :: "template_db \<Rightarrow> bool \<Rightarrow> encoder_form \<Rightarrow> encoder_form" where
  "onEncoderChange db confirmed s =
     (let previous = lastAppliedName s; s1 = runLint db (repopulateTemplates db s)
      in if previous = [] then s1
         else (case findTemplateByName db (encoder s1) previous of
            None \<Rightarrow> s1
          | Some t \<Rightarrow> if confirmed then applyTemplate db (int_to_str (tmpl_id t)) s1 else s1))"

definition templateSelected :: "string \<Rightarrow> encoder_form \<Rightarrow> encoder_form" where
  "templateSelected v s = (case find (\<lambda>x. fst x = v) (options s) of
     None \<Rightarrow> s\<lparr>template_sel := []\<rparr>
   | Some x \<Rightarrow> s\<lparr>template_sel := v, lastAppliedName := fst (snd x)\<rparr>)"

section \<open>Parsing and printing\<close>

text \<open>The entries that survive being printed and parsed.\<close>

definition trimmed :: "string \<Rightarrow> bool" where
  "trimmed s \<longleftrightarrow> js_trim s = s"

definition entry_ok :: "param_entry \<Rightarrow> bool" where
  "entry_ok e \<longleftrightarrow> fst e \<noteq> [] \<and> trimmed (fst e) \<and> trimmed (snd e)
     \<and> CHR ''='' \<notin> set (fst e) \<and> list_all (\<lambda>c. \<not> pair_sep c) (fst e @ snd e)"

lemma parse_pair_print: "entry_ok e \<Longrightarrow> parse_pair (fst e @ ''='' @ snd e) = Some e"
  using index_of_append [of "CHR ''=''" "fst e" "snd e"]
  by (cases e) (simp add: parse_pair_def entry_ok_def trimmed_def Let_def)

lemma parse_pair_ok:
  assumes "parse_pair p = Some e" and "\<forall>c \<in> set p. \<not> pair_sep c"
  shows "entry_ok e"
proof -
  obtain i where i: "index_of (CHR ''='') p = Some i"
    and e: "e = (js_trim (take i p), js_trim (drop (i + 1) p))" "js_trim (take i p) \<noteq> []"
    using assms(1) by (auto simp: parse_pair_def Let_def split: option.splits if_splits)
  have "CHR ''='' \<notin> set (take i p)" using index_of_Some [OF i] by simp
  moreover have "set (js_trim (take i p)) \<subseteq> set (take i p)" "set (js_trim (drop (i + 1) p)) \<subseteq> set (drop (i + 1) p)"
    by (rule js_trim_set)+
  ultimately show ?thesis using e assms(2)
    by (auto simp: entry_ok_def trimmed_def list_all_iff dest: in_set_takeD in_set_dropD)
qed

lemma parseParams_ok: "list_all entry_ok (parseParams s)"
  using split_on_parts [of _ pair_sep s] parse_pair_ok
  by (fastforce simp: parseParams_def map_filter_def list_all_iff)

lemma map_filter_all: "(\<And>x. x \<in> set xs \<Longrightarrow> f (g x) = Some x) \<Longrightarrow> List.map_filter f (map g xs) = xs"
  by (induction xs) (simp_all add: map_filter_simps)

lemma join_nonempty: "ws \<noteq> [] \<Longrightarrow> list_all (\<lambda>w. w \<noteq> []) ws \<Longrightarrow> join sep ws \<noteq> []"
  by (cases "(sep, ws)" rule: join.cases) auto

text \<open>
  Printing parameters and parsing them gives them back: every list of entries that
  parsing can produce round-trips through the text area, so re-reading the text after a
  template was applied loses nothing, and parsing what was printed from a parse is the
  parse itself.
\<close>

lemma params_round_trip:
  assumes "list_all entry_ok es"
  shows "parseParams (serializeParams es) = es
    \<and> parseParams (serializeParams (parseParams s)) = parseParams s"
proof -
  have rt: "parseParams (serializeParams es) = es" if ok: "list_all entry_ok es" for es
  proof (cases "es = []")
    case False
    let ?ws = "map (\<lambda>(k, v). k @ ''='' @ v) es"
    have nosep: "\<forall>w \<in> set ?ws. \<forall>c \<in> set w. \<not> pair_sep c"
    proof (intro ballI)
      fix w c assume w: "w \<in> set ?ws" and c: "c \<in> set w"
      then obtain e where e: "e \<in> set es" "w = fst e @ ''='' @ snd e" by auto
      have "list_all (\<lambda>c. \<not> pair_sep c) (fst e @ snd e)"
        using ok e(1) by (simp add: list_all_iff entry_ok_def)
      moreover have "\<not> pair_sep (CHR ''='')" by (simp add: pair_sep_def)
      ultimately show "\<not> pair_sep c" using c e(2) by (auto simp: list_all_iff)
    qed
    have sp: "split_on pair_sep (join [CHR 0x0A] ?ws) = ?ws"
      using False nosep by (intro split_on_join) (simp_all add: pair_sep_def)
    have "join [CHR 0x0A] ?ws \<noteq> []"
      using False by (intro join_nonempty) (auto simp: list_all_iff)
    moreover have "List.map_filter parse_pair ?ws = es"
    proof (rule map_filter_all)
      fix x assume "x \<in> set es"
      then have "entry_ok x" using ok by (auto simp: list_all_iff)
      then show "parse_pair ((\<lambda>(k, v). k @ ''='' @ v) x) = Some x"
        using parse_pair_print [of x] by (simp add: case_prod_beta)
    qed
    ultimately show ?thesis unfolding parseParams_def serializeParams_def sp by (simp only: if_False)
  qed (simp add: parseParams_def serializeParams_def)
  show ?thesis using rt [OF assms] rt [OF parseParams_ok [of s]] by blast
qed

section \<open>Merging\<close>

lemma last_pos_None: "last_pos k es = None \<longleftrightarrow> k \<notin> fst ` set es"
  by (induction es) (auto split: option.splits)

lemma last_pos_Some: "last_pos k es = Some i \<Longrightarrow> i < length es \<and> fst (es ! i) = k"
  by (induction es arbitrary: i) (auto split: option.splits if_splits)

definition val_of :: "param_entry list \<Rightarrow> string \<Rightarrow> string option" where
  "val_of es k = (case last_pos k es of None \<Rightarrow> None | Some i \<Rightarrow> Some (snd (es ! i)))"

lemma last_pos_keys: "map fst es = map fst fs \<Longrightarrow> last_pos k es = last_pos k fs"
proof (induction es arbitrary: fs)
  case (Cons e es)
  show ?case using Cons.prems Cons.IH [of "tl fs"] by (cases fs) simp_all
qed simp

lemma keys_update: "i < length es \<Longrightarrow> map fst (es[i := (fst (es ! i), v)]) = map fst es"
  by (rule nth_equalityI) (auto simp: nth_list_update)

lemma last_pos_snoc: "last_pos k (es @ [e]) = (if fst e = k then Some (length es) else last_pos k es)"
  by (induction es) (auto split: option.splits)

lemma merge_one_spec:
  "val_of (merge_one es kv) k = (if k = fst kv then Some (js_string (snd kv)) else val_of es k)"
  "map fst (merge_one es kv) = map fst es @ (if fst kv \<in> fst ` set es then [] else [fst kv])"
proof -
  have "val_of (merge_one es kv) k = (if k = fst kv then Some (js_string (snd kv)) else val_of es k)
      \<and> map fst (merge_one es kv) = map fst es @ (if fst kv \<in> fst ` set es then [] else [fst kv])"
  proof (cases "last_pos (fst kv) es")
    case None
    have m: "merge_one es kv = es @ [(fst kv, js_string (snd kv))]"
      by (simp only: merge_one_def None option.case)
    have "val_of (es @ [e]) k = (if fst e = k then Some (snd e) else val_of es k)" for e
    proof (cases "last_pos k es")
      case (Some i)
      then show ?thesis using last_pos_Some [OF Some] by (simp add: val_of_def last_pos_snoc nth_append)
    qed (simp add: val_of_def last_pos_snoc)
    moreover have "fst kv \<notin> fst ` set es" using None by (simp only: last_pos_None not_False_eq_True)
    ultimately show ?thesis by (auto simp: m)
  next
    case (Some i)
    note i = last_pos_Some [OF Some]
    have "fst kv \<in> fst ` set es" using Some last_pos_None [of "fst kv" es] by force
    moreover have keys: "map fst (merge_one es kv) = map fst es"
      unfolding merge_one_def Some option.case using i by (intro keys_update) blast
    moreover have "j \<noteq> i" if "last_pos k es = Some j" "k \<noteq> fst kv" for j
      using last_pos_Some [OF that(1)] i that(2) by auto
    moreover have upd: "merge_one es kv = es[i := (fst kv, js_string (snd kv))]" using i by (simp add: merge_one_def Some)
    moreover have "val_of (merge_one es kv) k = (if k = fst kv then Some (js_string (snd kv)) else val_of es k)"
    proof (cases "last_pos k es")
      case None
      then have "k \<noteq> fst kv" using \<open>fst kv \<in> fst ` set es\<close> by (auto simp: last_pos_None)
      moreover have "last_pos k (merge_one es kv) = None" using last_pos_keys [OF keys, of k] None by (simp only:)
      ultimately show ?thesis using None by (simp only: val_of_def option.case) simp
    next
      case j: (Some j)
      then show ?thesis
        using last_pos_keys [OF keys, of k] \<open>\<And>j. last_pos k es = Some j \<Longrightarrow> k \<noteq> fst kv \<Longrightarrow> j \<noteq> i\<close> Some i
        by (auto simp: val_of_def upd)
    qed
    ultimately show ?thesis by simp
  qed
  then show "val_of (merge_one es kv) k = (if k = fst kv then Some (js_string (snd kv)) else val_of es k)"
    "map fst (merge_one es kv) = map fst es @ (if fst kv \<in> fst ` set es then [] else [fst kv])" by blast+
qed

lemma merge_fold:
  assumes "distinct (map fst kvs)"
  shows "val_of (foldl merge_one es kvs) k =
      (case map_of kvs k of Some v \<Rightarrow> Some (js_string v) | None \<Rightarrow> val_of es k)
    \<and> map fst (foldl merge_one es kvs) = map fst es @ filter (\<lambda>k. k \<notin> fst ` set es) (map fst kvs)"
  using assms
proof (induction kvs arbitrary: es)
  case (Cons kv kvs)
  have none: "map_of kvs (fst kv) = None" using Cons.prems by (simp add: map_of_eq_None_iff)
  have f: "filter (\<lambda>k. k \<notin> fst ` set (merge_one es kv)) (map fst kvs) = filter (\<lambda>k. k \<notin> fst ` set es) (map fst kvs)"
  proof (rule filter_cong [OF refl])
    fix k assume "k \<in> set (map fst kvs)"
    moreover have "fst kv \<notin> set (map fst kvs)" using Cons.prems by simp
    ultimately have "k \<noteq> fst kv" by blast
    have "fst ` set (merge_one es kv) = set (map fst (merge_one es kv))" by simp
    also have "\<dots> = set (map fst es) \<union> (if fst kv \<in> fst ` set es then {} else {fst kv})"
      unfolding merge_one_spec(2) by simp
    finally show "(k \<notin> fst ` set (merge_one es kv)) = (k \<notin> fst ` set es)"
      using \<open>k \<noteq> fst kv\<close> by (auto split: if_splits)
  qed
  show ?case
  proof -
    have ih: "val_of (foldl merge_one (merge_one es kv) kvs) k =
        (case map_of kvs k of Some v \<Rightarrow> Some (js_string v) | None \<Rightarrow> val_of (merge_one es kv) k)"
      "map fst (foldl merge_one (merge_one es kv) kvs) = map fst (merge_one es kv)
        @ filter (\<lambda>k. k \<notin> fst ` set (merge_one es kv)) (map fst kvs)"
      using Cons.IH [of "merge_one es kv"] Cons.prems by simp_all
    have "val_of (foldl merge_one es (kv # kvs)) k =
        (case map_of (kv # kvs) k of Some v \<Rightarrow> Some (js_string v) | None \<Rightarrow> val_of es k)"
    proof (cases "k = fst kv")
      case True
      then show ?thesis using ih(1) none unfolding True by (simp add: merge_one_spec)
    next
      case False
      then show ?thesis using ih(1) by (simp add: merge_one_spec split: option.split)
    qed
    then show ?thesis using ih(2) f by (simp add: merge_one_spec)
  qed
qed (simp add: val_of_def split: option.split)

text \<open>
  C31. Applying a template sets exactly its options: after the merge every key of the
  template has the template's value, every other key keeps the value it had, the entries
  that were there keep their order, and the template's new keys follow in the template's
  order; merging twice is merging once for what the encoder will read.
\<close>

theorem mergeParams_correct:
  assumes "distinct (map fst tm)"
  shows "val_of (mergeParams es tm) k = (case map_of tm k of Some v \<Rightarrow> Some (js_string v) | None \<Rightarrow> val_of es k)
    \<and> map fst (mergeParams es tm) = map fst es @ filter (\<lambda>k. k \<notin> fst ` set es) (map fst tm)
    \<and> val_of (mergeParams (mergeParams es tm) tm) k = val_of (mergeParams es tm) k"
  using merge_fold [OF assms] by (simp add: mergeParams_def split: option.split)

section \<open>Unknown options\<close>

lemma unknown_keys_spec:
  assumes "distinct out" and "set out \<inter> set valid = {}"
  shows "distinct (unknown_keys valid es out) \<and> set (unknown_keys valid es out) = set out \<union> (fst ` set es - set valid)"
  using assms by (induction valid es out rule: unknown_keys.induct) auto

lemma findTemplate_id:
  "findTemplate db enc i = Some t \<Longrightarrow> \<exists>d. db enc = Some d \<and> t \<in> set (templates_of d)"
  by (auto simp: findTemplate_def find_Some_iff split: option.splits)

text \<open>
  After a template of the selected encoder was applied, the parameters read back
  from the text area give the template's value for every option of the template, and the
  diagnostics list each option the encoder does not know once and no other.
\<close>

lemma applied_template_in_force:
  assumes "findTemplate db (encoder s) i = Some t" and "i \<noteq> []" and "encoder s \<noteq> []"
    and "distinct (map fst (tmpl_params t))"
    and "list_all (\<lambda>kv. entry_ok (fst kv, js_string (snd kv))) (tmpl_params t)"
  defines "u \<equiv> applyTemplate db i s"
  shows "(\<forall>k v. map_of (tmpl_params t) k = Some v \<longrightarrow> val_of (parseParams (parameters u)) k = Some (js_string v))
    \<and> distinct (diagnostics u)
    \<and> (\<forall>d. db (encoder s) = Some d \<longrightarrow>
         set (diagnostics u) = fst ` set (parseParams (parameters u)) - set (valid_keys d))"
proof -
  let ?es = "parseParams (parameters s)"
  have one: "list_all entry_ok (merge_one es kv)"
    if "list_all entry_ok es" "entry_ok (fst kv, js_string (snd kv))" for es and kv :: "string \<times> jsval"
  proof (cases "last_pos (fst kv) es")
    case (Some j)
    then have "fst (es ! j) = fst kv" using last_pos_Some by blast
    then show ?thesis using that Some
      by (auto simp: merge_one_def list_all_iff dest!: set_update_subset_insert [THEN subsetD])
  qed (use that in \<open>simp add: merge_one_def\<close>)
  have "list_all entry_ok (foldl merge_one es kvs)"
    if "list_all entry_ok es" "list_all (\<lambda>kv. entry_ok (fst kv, js_string (snd kv))) kvs" for es kvs
    using that one by (induction kvs arbitrary: es) auto
  then have ok: "list_all entry_ok (mergeParams ?es (tmpl_params t))"
    using parseParams_ok assms(5) by (simp add: mergeParams_def)
  have u: "u = runLint db (s\<lparr>parameters := serializeParams (mergeParams ?es (tmpl_params t)), lastAppliedName := tmpl_name t\<rparr>)"
    using assms(1,2) by (simp add: u_def applyTemplate_def)
  have p: "parseParams (parameters u) = mergeParams ?es (tmpl_params t)"
    using params_round_trip ok by (simp add: u runLint_def)
  obtain d where d: "db (encoder s) = Some d" using findTemplate_id [OF assms(1)] by blast
  have "diagnostics u = unknown_keys (valid_keys d) (parseParams (parameters u)) []"
    using assms(3) d by (simp add: p u runLint_def lint_def params_round_trip ok)
  then show ?thesis
    using p mergeParams_correct [OF assms(4)] d unknown_keys_spec [of "[]" "valid_keys d"] by simp
qed

section \<open>Witnesses\<close>

definition demo_template :: template where
  "demo_template = \<lparr>tmpl_id = 7, tmpl_name = ''Fast'', tmpl_description = [],
     tmpl_params = [(''crf'', JNum (Fin 23)), (''preset'', JStr ''fast'')]\<rparr>"

definition demo_db :: template_db where
  "demo_db = [''libx264'' \<mapsto> \<lparr>valid_keys = [''crf'', ''preset''], templates_of = [demo_template]\<rparr>]"

definition demo_form :: encoder_form where
  "demo_form = \<lparr>encoder = ''libx264'', parameters = ''crf = 18,foo=1'', options = [], template_sel = ''7'',
     rowShown = True, diagnostics = [], lastAppliedName = []\<rparr>"

theorem mergeParams_correct_witness:
  "map fst (mergeParams [(''a'', ''1'')] (tmpl_params demo_template)) = [''a'', ''crf'', ''preset'']"
proof -
  have "distinct (map fst (tmpl_params demo_template))" by (simp add: demo_template_def)
  then show ?thesis using mergeParams_correct [of "tmpl_params demo_template" "[(''a'', ''1'')]"]
    by (simp add: demo_template_def)
qed

end
