(* ===== verification/Ffmpeg_Options.thy ===== *)
theory Ffmpeg_Options
  imports Js_Text
begin

text \<open>
  The check of a monitor's ffmpeg options, \<^verbatim>\<open>views/js/monitor-ffmpeg-options.js\<close>, and the cron
  specs of scheduled tasks, \<^verbatim>\<open>views/js/cron.js\<close>. A position in the text is the suffix that
  starts there.
\<close>

section \<open>Tokens\<close>

definition WHITESPACES :: string where
  "WHITESPACES = [CHR '' '', CHR 0x0A, CHR 0x09, CHR 0x0D]"

definition PAIR_SEPARATORS :: string where
  "PAIR_SEPARATORS = [CHR '','', CHR 0x0D, CHR 0x0A]"

definition backslash :: char where "backslash = CHR 0x5C"
definition single_quote :: char where "single_quote = CHR 0x27"

text \<open>The token read so far, how much of it must not be trimmed, and the rest of the text.\<close>

function token_loop :: "string \<Rightarrow> string \<Rightarrow> string \<Rightarrow> nat \<Rightarrow> string \<times> nat \<times> string" where
  "token_loop t [] out fin = (out, fin, [])"
| "token_loop t (c # s) out fin =
     (if c \<in> set t then (out, fin, c # s)
      else if c = backslash \<and> s \<noteq> [] then token_loop t (tl s) (out @ [hd s]) (length out + 1)
      else if c = single_quote then
        (let q = takeWhile (\<lambda>d. d \<noteq> single_quote) s; r = dropWhile (\<lambda>d. d \<noteq> single_quote) s
         in if r \<noteq> [] then token_loop t (tl r) (out @ q) (length (out @ q))
            else token_loop t [] (out @ q) fin)
      else token_loop t s (out @ [c]) fin)"
  by pat_completeness auto
termination
proof (relation "measure (\<lambda>(t, s, out, fin). length s)")
  fix c :: char and s r q :: string and t out :: string and fin :: nat
  assume r: "r = dropWhile (\<lambda>d. d \<noteq> single_quote) s"
  show "((t, tl r, out @ q, length (out @ q)), (t, c # s, out, fin)) \<in> measure (\<lambda>(t, s, out, fin). length s)"
    using length_dropWhile_le [of "\<lambda>d. d \<noteq> single_quote" s] by (simp add: r)
qed auto

text \<open>Trailing blanks go, but not into the part that was escaped or quoted.\<close>

definition trim_token :: "nat \<Rightarrow> string \<Rightarrow> string" where
  "trim_token fin out = take fin out @ rev (dropWhile (\<lambda>c. c \<in> set WHITESPACES) (rev (drop fin out)))"

definition getToken :: "string \<Rightarrow> string \<Rightarrow> string \<times> string" where
  "getToken text t = (let l = token_loop t (dropWhile (\<lambda>c. c \<in> set WHITESPACES) text) [] 0
     in (trim_token (fst (snd l)) (fst l), snd (snd l)))"

lemma token_loop_rest: "length (snd (snd (token_loop t s out fin))) \<le> length s"
proof (induction t s out fin rule: token_loop.induct)
  case (2 t c s out fin)
  have "length (tl (dropWhile (\<lambda>d. d \<noteq> single_quote) s)) \<le> length s"
    using length_dropWhile_le [of "\<lambda>d. d \<noteq> single_quote" s] by simp
  note shorter = this
  consider (stop) "c \<in> set t" | (escape) "c \<notin> set t" "c = backslash \<and> s \<noteq> []"
    | (quoted) "c \<notin> set t" "\<not> (c = backslash \<and> s \<noteq> [])" "c = single_quote"
    | (plain) "c \<notin> set t" "\<not> (c = backslash \<and> s \<noteq> [])" "c \<noteq> single_quote" by blast
  then show ?case
  proof cases
    case escape
    then have "length (snd (snd (token_loop t (tl s) (out @ [hd s]) (length out + 1)))) \<le> length (tl s)"
      using 2(1) by blast
    then show ?thesis using escape by simp
  next
    case quoted
    then show ?thesis using 2(2) [OF quoted refl refl] shorter by (auto simp: Let_def)
  next
    case plain
    then show ?thesis using 2(4) [OF plain] by auto
  qed simp
qed simp

lemma getToken_rest: "length (snd (getToken s t)) \<le> length s"
  using token_loop_rest [of t "dropWhile (\<lambda>c. c \<in> set WHITESPACES) s" "[]" 0]
    length_dropWhile_le [of "\<lambda>c. c \<in> set WHITESPACES" s]
  by (simp add: getToken_def Let_def)

section \<open>Parsing\<close>

record parse_result =
  pairs :: "(string \<times> string) list"
  parse_error :: "string option"

definition error_text :: "string \<Rightarrow> string \<Rightarrow> string" where
  "error_text seps s = (let e = js_trim (takeWhile (\<lambda>c. c \<notin> set seps) s) in if e = [] then s else e)"

function parse_loop :: "string \<Rightarrow> string \<Rightarrow> (string \<times> string) list \<Rightarrow> parse_result" where
  "parse_loop seps s acc =
     (if s = [] then \<lparr>pairs = acc, parse_error = None\<rparr>
      else
        (let key = getToken s ''=''
         in if fst key \<noteq> [] \<and> snd key \<noteq> [] \<and> hd (snd key) = CHR ''='' then
              (let val = getToken (tl (snd key)) seps
               in if fst val = [] then \<lparr>pairs = acc, parse_error = Some (error_text seps s)\<rparr>
                  else parse_loop seps (tl (snd val)) (acc @ [(fst key, fst val)]))
            else \<lparr>pairs = acc, parse_error = Some (error_text seps s)\<rparr>))"
  by pat_completeness auto
termination
proof (relation "measure (\<lambda>(seps, s, acc). length s)")
  fix seps s :: string and acc :: "(string \<times> string) list" and key val
  assume "s \<noteq> []" and key: "key = getToken s ''=''" and val: "val = getToken (tl (snd key)) seps"
    and "fst key \<noteq> [] \<and> snd key \<noteq> [] \<and> hd (snd key) = CHR ''=''"
  then have "length (tl (snd key)) < length s" using getToken_rest [of s "''=''"] by (cases "snd key") auto
  then show "((seps, tl (snd val), acc @ [(fst key, fst val)]), (seps, s, acc)) \<in> measure (\<lambda>(seps, s, acc). length s)"
    using getToken_rest [of "tl (snd key)" seps] by (simp add: val)
qed auto

declare parse_loop.simps [simp del]

definition parse :: "string \<Rightarrow> string \<Rightarrow> parse_result" where
  "parse text separators =
     parse_loop (if separators = [] then PAIR_SEPARATORS else separators) text []"

definition bad_key :: "string \<Rightarrow> string \<Rightarrow> bool" where
  "bad_key seps k \<longleftrightarrow> starts_with ''-'' k \<or> list_ex (\<lambda>c. c \<in> set k) (WHITESPACES @ seps)"

definition badEntries :: "string \<Rightarrow> string \<Rightarrow> string list" where
  "badEntries text separators = (let seps = (if separators = [] then PAIR_SEPARATORS else separators);
       r = parse text seps
     in map (\<lambda>(k, v). k @ ''='' @ v) (filter (\<lambda>(k, v). bad_key seps k) (pairs r))
        @ (case parse_error r of None \<Rightarrow> [] | Some e \<Rightarrow> [e]))"

section \<open>Cron specs\<close>

definition CRON_FREQUENCY_DOW :: "(string \<times> string) list" where
  "CRON_FREQUENCY_DOW = [(''daily'', ''*''), (''weekdays'', ''1-5''), (''weekends'', ''0,6''), (''sunday'', ''0''),
     (''monday'', ''1''), (''tuesday'', ''2''), (''wednesday'', ''3''), (''thursday'', ''4''), (''friday'', ''5''),
     (''saturday'', ''6'')]"

definition match_seconds :: "string \<Rightarrow> bool" where
  "match_seconds s \<longleftrightarrow> s = [] \<or>
     (length s = 3 \<and> hd s = CHR '':'' \<and> is_digit (s ! 1) \<and> is_digit (s ! 2))"

text \<open>\<^verbatim>\<open>/^(\d{1,2}):(\d{2})(?::\d{2})?$/\<close>: the two groups.\<close>

definition match_time :: "string \<Rightarrow> (string \<times> string) option" where
  "match_time s = (let h = takeWhile is_digit s; r = dropWhile is_digit s in
     if (length h = 1 \<or> length h = 2) \<and> length r \<ge> 3 \<and> hd r = CHR '':''
        \<and> is_digit (r ! 1) \<and> is_digit (r ! 2) \<and> match_seconds (drop 3 r)
     then Some (h, take 2 (drop 1 r)) else None)"

definition cronSpecFromPickers :: "string \<Rightarrow> string \<Rightarrow> string option" where
  "cronSpecFromPickers frequency time = (case map_of CRON_FREQUENCY_DOW frequency of
     None \<Rightarrow> None
   | Some dow \<Rightarrow> (case match_time time of
        None \<Rightarrow> None
      | Some (h, m) \<Rightarrow> (case (parseInt10 h, parseInt10 m) of
           (Some hour, Some minute) \<Rightarrow>
             if hour < 0 \<or> hour > 23 \<or> minute < 0 \<or> minute > 59 then None
             else Some (int_to_str minute @ '' '' @ int_to_str hour @ '' * * '' @ dow)
         | _ \<Rightarrow> None)))"

text \<open>The cron field follows the pickers only when they describe a schedule.\<close>

definition cron_sync :: "string \<Rightarrow> string \<Rightarrow> string \<Rightarrow> string" where
  "cron_sync frequency time spec = (case cronSpecFromPickers frequency time of None \<Rightarrow> spec | Some s \<Rightarrow> s)"

section \<open>Correctness of the check\<close>

definition plain_text :: "string \<Rightarrow> string \<Rightarrow> bool" where
  "plain_text t s \<longleftrightarrow> s \<noteq> [] \<and> list_all (\<lambda>c. c \<notin> set t \<and> c \<noteq> backslash \<and> c \<noteq> single_quote \<and> c \<notin> set WHITESPACES) s"

lemma token_loop_plain:
  assumes "list_all (\<lambda>c. c \<notin> set t \<and> c \<noteq> backslash \<and> c \<noteq> single_quote) s" and "r = [] \<or> hd r \<in> set t"
  shows "token_loop t (s @ r) out fin = (out @ s, fin, r)"
  using assms
proof (induction s arbitrary: out)
  case Nil
  then show ?case by (cases r) auto
qed simp

lemma getToken_plain:
  assumes "plain_text t s" and "r = [] \<or> hd r \<in> set t"
  shows "getToken (s @ r) t = (s, r)"
proof -
  obtain c cs where s: "s = c # cs" using assms(1) by (cases s) (auto simp: plain_text_def)
  have ws: "c \<notin> set WHITESPACES" "last s \<notin> set WHITESPACES"
    using assms(1) s by (auto simp: plain_text_def list_all_iff)
  have "dropWhile (\<lambda>c. c \<in> set WHITESPACES) (s @ r) = s @ r" using ws by (simp add: s)
  moreover have "token_loop t (s @ r) [] 0 = (s, 0, r)"
    using token_loop_plain [of t s r "[]" 0] assms by (auto simp: plain_text_def list_all_iff)
  moreover have "trim_token 0 s = s"
  proof -
    have "rev s \<noteq> []" using s by simp
    then have "dropWhile (\<lambda>c. c \<in> set WHITESPACES) (rev s) = rev s"
      using ws(2) by (simp only: dropWhile_eq_self_iff hd_rev) simp
    then show ?thesis by (simp add: trim_token_def)
  qed
  ultimately show ?thesis by (simp add: getToken_def)
qed

definition print_pairs :: "char \<Rightarrow> (string \<times> string) list \<Rightarrow> string" where
  "print_pairs d ps = join [d] (map (\<lambda>(k, v). k @ ''='' @ v) ps)"

definition plain_pair :: "string \<Rightarrow> string \<times> string \<Rightarrow> bool" where
  "plain_pair seps p \<longleftrightarrow> plain_text (''='' @ seps) (fst p) \<and> plain_text seps (snd p)"

lemma plain_text_mono: "plain_text (t @ u) s \<Longrightarrow> plain_text t s"
  by (auto simp: plain_text_def list_all_iff)

lemma parse_loop_print:
  assumes "list_all (plain_pair seps) ps" and "d \<in> set seps"
  shows "parse_loop seps (print_pairs d ps) acc = \<lparr>pairs = acc @ ps, parse_error = None\<rparr>"
  using assms
proof (induction ps arbitrary: acc)
  case Nil
  then show ?case by (subst parse_loop.simps) (simp add: print_pairs_def)
next
  case (Cons p ps)
  let ?r = "if ps = [] then [] else d # print_pairs d ps"
  obtain k v where p: "p = (k, v)" by force
  have eq: "print_pairs d (p # ps) = k @ (CHR ''='' # v @ ?r)"
    by (cases ps) (simp_all add: print_pairs_def p)
  have pl: "plain_text ''='' k" "plain_text seps v"
    using Cons.prems(1) plain_text_mono by (auto simp: plain_pair_def p)
  then have ne: "k \<noteq> []" "v \<noteq> []" by (auto simp: plain_text_def)
  have key: "getToken (k @ (CHR ''='' # v @ ?r)) ''='' = (k, CHR ''='' # v @ ?r)"
    using pl(1) by (intro getToken_plain) simp_all
  have val: "getToken (v @ ?r) seps = (v, ?r)"
    using pl(2) Cons.prems(2) by (intro getToken_plain) simp_all
  have "tl ?r = print_pairs d ps" by (simp add: print_pairs_def)
  then have "parse_loop seps (print_pairs d (p # ps)) acc = parse_loop seps (print_pairs d ps) (acc @ [(k, v)])"
    unfolding eq using ne by (subst parse_loop.simps) (simp add: key val Let_def)
  then show ?case using Cons by (simp add: p)
qed

lemma parse_loop_pairs:
  assumes "list_all (\<lambda>p. fst p \<noteq> [] \<and> snd p \<noteq> []) acc"
  shows "list_all (\<lambda>p. fst p \<noteq> [] \<and> snd p \<noteq> []) (pairs (parse_loop seps s acc))"
  using assms
proof (induction seps s acc rule: parse_loop.induct)
  case (1 seps s acc)
  then show ?case by (subst parse_loop.simps) (auto simp: Let_def)
qed

text \<open>
  The check lets through what zmc can use: options written as plain pairs joined by a
  separator parse to exactly those pairs and are reported clean when no key starts with a
  dash; and whenever nothing is reported, the whole text parsed, every pair has a key and a
  value, and no key starts with a dash or contains a blank or a separator.
\<close>

lemma badEntries_correct:
  assumes "list_all (plain_pair PAIR_SEPARATORS) ps" and "d \<in> set PAIR_SEPARATORS"
    and "list_all (\<lambda>p. \<not> starts_with ''-'' (fst p)) ps"
  shows "parse (print_pairs d ps) [] = \<lparr>pairs = ps, parse_error = None\<rparr> \<and> badEntries (print_pairs d ps) [] = []
    \<and> (badEntries text [] = [] \<longrightarrow> parse_error (parse text []) = None
         \<and> list_all (\<lambda>p. fst p \<noteq> [] \<and> snd p \<noteq> [] \<and> \<not> bad_key PAIR_SEPARATORS (fst p)) (pairs (parse text [])))"
proof -
  have ne: "PAIR_SEPARATORS \<noteq> []" by (simp add: PAIR_SEPARATORS_def)
  have p: "parse (print_pairs d ps) [] = \<lparr>pairs = ps, parse_error = None\<rparr>"
    using parse_loop_print [OF assms(1,2), of "[]"] by (simp add: parse_def)
  have "\<not> bad_key PAIR_SEPARATORS (fst q)" if "q \<in> set ps" for q
    using that assms(1,3)
    by (auto simp: bad_key_def list_all_iff list_ex_iff plain_pair_def plain_text_def)
  then have "badEntries (print_pairs d ps) [] = []"
    using p ne by (auto simp: badEntries_def parse_def Let_def filter_empty_conv)
  moreover have "list_all (\<lambda>p. fst p \<noteq> [] \<and> snd p \<noteq> []) (pairs (parse text []))"
    unfolding parse_def by (rule parse_loop_pairs) simp
  ultimately show ?thesis using p ne
    by (auto simp: badEntries_def parse_def Let_def filter_empty_conv list_all_iff split: option.splits)
qed

section \<open>Correctness of the cron field\<close>

lemma cron_dow_values: "map_of CRON_FREQUENCY_DOW f = Some dow \<Longrightarrow> (f, dow) \<in> set CRON_FREQUENCY_DOW"
  by (rule map_of_SomeD)

lemma no_space_int: "CHR '' '' \<notin> set (int_to_str k)"
proof -
  have "CHR '' '' \<notin> set (nat_to_str n)" for n
    using nat_to_str_digits [of "CHR '' ''" n] by (auto simp: is_space_def)
  then show ?thesis by (simp add: int_to_str_def)
qed

text \<open>
  A built cron spec says what the pickers say: it has five fields, the first two are
  the minute and the hour that were picked, in range, the last is the day field of the
  frequency, and two choices with the same spec are the same minute, hour and day field;
  when the pickers describe no schedule the field keeps what the operator typed.
\<close>

lemma cronSpec_says_the_pickers:
  assumes "cronSpecFromPickers f t = Some spec"
  shows "\<exists>h m hour minute dow. match_time t = Some (h, m) \<and> parseInt10 h = Some hour \<and> parseInt10 m = Some minute
    \<and> (f, dow) \<in> set CRON_FREQUENCY_DOW \<and> 0 \<le> hour \<and> hour \<le> 23 \<and> 0 \<le> minute \<and> minute \<le> 59
    \<and> split_on (\<lambda>c. c = CHR '' '') spec = [int_to_str minute, int_to_str hour, ''*'', ''*'', dow]
    \<and> parseInt10 (split_on (\<lambda>c. c = CHR '' '') spec ! 0) = Some minute
    \<and> parseInt10 (split_on (\<lambda>c. c = CHR '' '') spec ! 1) = Some hour
    \<and> cron_sync f t old = spec"
proof -
  obtain dow h m hour minute where d: "map_of CRON_FREQUENCY_DOW f = Some dow" "match_time t = Some (h, m)"
    "parseInt10 h = Some hour" "parseInt10 m = Some minute" "0 \<le> hour" "hour \<le> 23" "0 \<le> minute" "minute \<le> 59"
    and spec: "spec = int_to_str minute @ '' '' @ int_to_str hour @ '' * * '' @ dow"
    using assms by (auto simp: cronSpecFromPickers_def split: option.splits if_splits)
  have fd: "(f, dow) \<in> set CRON_FREQUENCY_DOW" using d(1) by (rule cron_dow_values)
  then have nospace: "CHR '' '' \<notin> set dow" by (auto simp: CRON_FREQUENCY_DOW_def)
  let ?ws = "[int_to_str minute, int_to_str hour, ''*'', ''*'', dow]"
  have j: "spec = join [CHR '' ''] ?ws" by (simp add: spec)
  have "split_on (\<lambda>c. c = CHR '' '') spec = ?ws"
    unfolding j using no_space_int nospace by (intro split_on_join) auto
  then show ?thesis using d fd assms by (intro exI) (auto simp: cron_sync_def)
qed

section \<open>Witnesses\<close>

end
