(* ===== verification/Event_Stream.thy ===== *)
theory Event_Stream
  imports Auth_Helpers
begin

text \<open>
  Playing a recorded event from zms, \<^verbatim>\<open>web/js/EventStream.js\<close>: one object that owns a zms
  connection (an MJPEG image, a command socket named by its connkey), polls its status,
  and restarts it with an increasing delay when it dies. The object, its timers and its
  hidden image are the state; the methods are the operations; commands to zms, opened
  connections and callbacks go to a log, which the properties speak about. The canvas
  drawing is reduced to its bookkeeping.
\<close>

section \<open>State\<close>

datatype zms_cmd = CMD_QUERY | CMD_QUIT | CMD_STOP | CMD_PAUSE | CMD_PLAY | CMD_SEEK rat | CMD_VARPLAY jsval
  | CMD_SCALE jsval | CMD_MAXFPS jsval | CMD_ANALYZE_ON | CMD_ANALYZE_OFF

text \<open>
  The log. \<open>Reported k\<close> is no entry of the script's: it records that the browser or a reply said that the connection \<open>k\<close> has ended.
\<close>

datatype es_entry = Opened string string | Sent string zms_cmd | Reported string | GaveUp | StatusSeen

record es_options =
  o_time :: jsval
  o_frame :: jsval
  o_rate :: jsval
  o_replay :: jsval
  o_maxfps :: jsval

record es_status =
  st_paused :: jsval
  st_stopped :: jsval
  st_auth :: auth_reply

record estream =
  monitorId :: nat
  url_to_zms :: string
  es_scale :: jsval
  connKey :: "string option"
  img :: "string option"
  started :: bool
  paused :: bool
  stopped :: bool
  currentEventId :: string
  rate :: jsval
  status :: "es_status option"
  streamCmdTimer :: bool
  rafId :: bool
  bitmapPending :: bool
  consecutiveErrors :: nat
  recoveryDelay :: nat
  recoveryTimer :: "(nat \<times> string \<times> es_options) option"
  lastOptions :: "es_options option"
  es_auth :: zm_auth
  es_log :: "es_entry list"

definition maxRecoveryAttempts :: nat where "maxRecoveryAttempts = 5"

definition no_options :: es_options where
  "no_options = \<lparr>o_time = JUndef, o_frame = JUndef, o_rate = JUndef, o_replay = JUndef, o_maxfps = JUndef\<rparr>"

definition newEventStream :: "nat \<Rightarrow> string \<Rightarrow> jsval \<Rightarrow> zm_auth \<Rightarrow> estream" where
  "newEventStream mid zms sc a = \<lparr>monitorId = mid, url_to_zms = zms,
     es_scale = (if truthy sc then JNum (num_of_int (parseInt (js_string sc))) else JNum (Fin 100)),
     connKey = None, img = None, started = False, paused = False, stopped = False, currentEventId = ''null'',
     rate = JNum (Fin 100), status = None, streamCmdTimer = False, rafId = False, bitmapPending = False,
     consecutiveErrors = 0, recoveryDelay = 1000, recoveryTimer = None, lastOptions = None, es_auth = a, es_log = []\<rparr>"

text \<open>\<open>r\<close> stands for \<^verbatim>\<open>Math.floor(Math.random() * 999999)\<close>; the key has six digits.\<close>

definition genConnKey :: "nat \<Rightarrow> string" where
  "genConnKey r = (let s = nat_to_str (r + 1) in replicate (6 - length s) (CHR ''0'') @ s)"

section \<open>Commands\<close>

definition streamCmdReq :: "string \<Rightarrow> zms_cmd \<Rightarrow> estream \<Rightarrow> estream" where
  "streamCmdReq k c s = s\<lparr>es_log := es_log s @ [Sent k c]\<rparr>"

text \<open>The parameter template holds the current key; a started stream always has one.\<close>

definition streamCommand :: "zms_cmd \<Rightarrow> estream \<Rightarrow> estream" where
  "streamCommand c s = (if \<not> started s then s
     else (case connKey s of None \<Rightarrow> streamCmdReq ''null'' c s | Some k \<Rightarrow> streamCmdReq k c s))"

definition streamCmdQuery :: "estream \<Rightarrow> estream" where
  "streamCmdQuery s = (if started s then streamCommand CMD_QUERY s else s)"

definition seek :: "rat \<Rightarrow> estream \<Rightarrow> estream" where
  "seek offset s = (if \<not> started s then s else streamCommand (CMD_SEEK offset) s)"

text \<open>\<open>eventStart\<close> is \<^verbatim>\<open>events[currentEventId].StartTimeSecs\<close> where the view has it.\<close>

definition seekToTime :: "rat option \<Rightarrow> rat \<Rightarrow> estream \<Rightarrow> estream" where
  "seekToTime eventStart epoch s =
     (if \<not> started s \<or> status s = None then s
      else (case eventStart of
         None \<Rightarrow> s
       | Some st \<Rightarrow> if st = 0 then s else seek (if epoch - st < 0 then 0 else epoch - st) s))"

definition setRate :: "jsval \<Rightarrow> estream \<Rightarrow> estream" where
  "setRate r s = (let s1 = s\<lparr>rate := r\<rparr> in if \<not> started s1 then s1 else streamCommand (CMD_VARPLAY r) s1)"

definition es_pause :: "estream \<Rightarrow> estream" where
  "es_pause s = (if \<not> started s then s else streamCommand CMD_PAUSE (s\<lparr>paused := True\<rparr>))"

definition es_play :: "estream \<Rightarrow> estream" where
  "es_play s = (if \<not> started s then s else streamCommand CMD_PLAY (s\<lparr>paused := False\<rparr>))"

definition es_setScale :: "jsval \<Rightarrow> estream \<Rightarrow> estream" where
  "es_setScale sc s = (let s1 = s\<lparr>es_scale := sc\<rparr> in if \<not> started s1 then s1 else streamCommand (CMD_SCALE sc) s1)"

section \<open>Starting and stopping\<close>

definition teardown :: "bool \<Rightarrow> estream \<Rightarrow> estream" where
  "teardown quit s =
     (let s1 = (if quit \<and> started s then streamCommand CMD_QUIT s else s)
      in s1\<lparr>streamCmdTimer := False, rafId := False, img := None, bitmapPending := False, started := False,
            connKey := None\<rparr>)"

definition or_default :: "jsval \<Rightarrow> string \<Rightarrow> string" where
  "or_default v d = (if truthy v then js_string v else d)"

definition stream_src :: "estream \<Rightarrow> string \<Rightarrow> es_options \<Rightarrow> string \<Rightarrow> string" where
  "stream_src s eventId opts k = ZMAuth_appendTo (es_auth s)
     (url_to_zms s @ (if CHR ''?'' \<in> set (url_to_zms s) then ''&'' else ''?'')
      @ ''source=event&mode=jpeg&event='' @ eventId @ ''&monitor='' @ nat_to_str (monitorId s)
      @ ''&scale='' @ js_string (es_scale s) @ ''&rate='' @ js_string (rate s)
      @ ''&maxfps='' @ or_default (o_maxfps opts) ''5'' @ ''&replay='' @ or_default (o_replay opts) ''none''
      @ ''&connkey='' @ k
      @ (if truthy (o_frame opts) then ''&frame='' @ js_string (o_frame opts) else [])
      @ (if truthy (o_time opts) then ''&time='' @ js_string (o_time opts) else []))"

definition es_start :: "nat \<Rightarrow> string \<Rightarrow> es_options \<Rightarrow> estream \<Rightarrow> estream" where
  "es_start r eventId opts s0 =
     (let s1 = s0\<lparr>recoveryTimer := None\<rparr>;
          s2 = (if started s1 \<or> img s1 \<noteq> None then teardown (started s1) s1 else s1);
          k = genConnKey r;
          s3 = s2\<lparr>currentEventId := eventId,
                  rate := (if o_rate opts \<noteq> JUndef then o_rate opts else JNum (Fin 100)),
                  paused := False, stopped := False, lastOptions := Some opts, connKey := Some k\<rparr>;
          src = stream_src s3 eventId opts k
      in s3\<lparr>rafId := True, img := Some src, started := True, streamCmdTimer := True,
            es_log := es_log s3 @ [Opened k src]\<rparr>)"

definition es_stop :: "estream \<Rightarrow> estream" where
  "es_stop s = (let s1 = s\<lparr>recoveryTimer := None\<rparr> in
     if \<not> started s1 then s1
     else (teardown True s1)\<lparr>paused := False, stopped := False, consecutiveErrors := 0, recoveryDelay := 1000\<rparr>)"

definition switchEvent :: "nat \<Rightarrow> string \<Rightarrow> es_options \<Rightarrow> estream \<Rightarrow> estream" where
  "switchEvent r eventId opts s =
     es_start r eventId opts (s\<lparr>recoveryTimer := None, consecutiveErrors := 0, recoveryDelay := 1000\<rparr>)"

section \<open>Recovery\<close>

definition recover :: "estream \<Rightarrow> estream" where
  "recover s =
     (if recoveryTimer s \<noteq> None then s
      else (let s1 = s\<lparr>consecutiveErrors := consecutiveErrors s + 1\<rparr>;
                eventId = currentEventId s1;
                opts = (case lastOptions s1 of None \<Rightarrow> no_options | Some p \<Rightarrow> p)\<lparr>o_rate := rate s1\<rparr>;
                s2 = (teardown False s1)\<lparr>stopped := False\<rparr>
            in if consecutiveErrors s2 > maxRecoveryAttempts then s2\<lparr>es_log := es_log s2 @ [GaveUp]\<rparr>
               else s2\<lparr>recoveryTimer := Some (recoveryDelay s2, eventId, opts),
                       recoveryDelay := min (recoveryDelay s2 * 2) 10000\<rparr>))"

text \<open>The timer of a scheduled recovery.\<close>

definition recovery_fires :: "nat \<Rightarrow> estream \<Rightarrow> estream" where
  "recovery_fires r s = (case recoveryTimer s of
     None \<Rightarrow> s
   | Some (d, eventId, opts) \<Rightarrow>
       (let s1 = s\<lparr>recoveryTimer := None\<rparr> in if started s1 then s1 else es_start r eventId opts s1))"

definition img_onerror :: "estream \<Rightarrow> estream" where
  "img_onerror s = recover (s\<lparr>streamCmdTimer := False, rafId := False\<rparr>)"

section \<open>Replies\<close>

definition errorIsFatal :: "string \<Rightarrow> bool" where
  "errorIsFatal reason \<longleftrightarrow> reason = [] \<or> reason = ''no_socket''"

datatype stream_reply = ErrorReply string | OkReply "es_status option" | NoReply

definition getStreamCmdResponse :: "stream_reply \<Rightarrow> string \<Rightarrow> estream \<Rightarrow> estream" where
  "getStreamCmdResponse rsp k s = (case rsp of
     NoReply \<Rightarrow> s
   | _ \<Rightarrow>
      if connKey s \<noteq> Some k then s
      else (case rsp of
          ErrorReply reason \<Rightarrow> if \<not> errorIsFatal reason then s else recover s
        | OkReply st \<Rightarrow>
            (let s1 = s\<lparr>consecutiveErrors := 0, recoveryDelay := 1000\<rparr>
             in (case st of
                  None \<Rightarrow> s1
                | Some v \<Rightarrow>
                   s1\<lparr>status := Some v, es_auth := snd (ZMAuth_update (Some (st_auth v)) (es_auth s1)),
                      paused := (if st_paused v \<noteq> JUndef then truthy (st_paused v) else paused s1),
                      stopped := (if st_stopped v \<noteq> JUndef then truthy (st_stopped v) else stopped s1),
                      es_log := es_log s1 @ [StatusSeen]\<rparr>))
        | NoReply \<Rightarrow> s))"

text \<open>The fail handler of a command's request; an aborted one is ignored.\<close>

definition cmd_failed :: "bool \<Rightarrow> string \<Rightarrow> estream \<Rightarrow> estream" where
  "cmd_failed aborted k s = (if aborted then s else if connKey s \<noteq> Some k then s else recover s)"

section \<open>Drawing\<close>

definition draw_tick :: "bool \<Rightarrow> estream \<Rightarrow> estream" where
  "draw_tick decoded s =
     (if \<not> started s then s
      else if img s = None \<or> \<not> decoded \<or> bitmapPending s then s\<lparr>rafId := True\<rparr>
      else s\<lparr>bitmapPending := True, rafId := True\<rparr>)"

definition bitmap_done :: "estream \<Rightarrow> estream" where
  "bitmap_done s = s\<lparr>bitmapPending := False\<rparr>"

section \<open>Runs\<close>

text \<open>
  Everything that can happen to a stream: calls of the view, ticks of the timers that are
  set, an error of the image while it has one, replies (of any connection, in any order) and
  failed requests.
\<close>

text \<open>
  What tells of the end of a connection: an error of its image, the replies that zms is gone, and a request that fails. The
  handler runs after it has been noted in the log.
\<close>

definition reported :: "string \<Rightarrow> estream \<Rightarrow> estream" where
  "reported k s = s\<lparr>es_log := es_log s @ [Reported k]\<rparr>"

fun says_dead :: "stream_reply \<Rightarrow> bool" where
  "says_dead (ErrorReply reason) \<longleftrightarrow> reason \<in> {[], ''no_socket''}"
| "says_dead _ \<longleftrightarrow> False"

inductive es_step :: "estream \<Rightarrow> estream \<Rightarrow> bool" where
  start: "es_step s (es_start r e opts s)"
| stop: "es_step s (es_stop s)"
| switch: "es_step s (switchEvent r e opts s)"
| seek: "es_step s (seek x s)"
| seek_time: "es_step s (seekToTime st x s)"
| rate: "es_step s (setRate v s)"
| pause: "es_step s (es_pause s)"
| play: "es_step s (es_play s)"
| scale: "es_step s (es_setScale v s)"
| poll: "streamCmdTimer s \<Longrightarrow> es_step s (streamCmdQuery s)"
| img_error: "img s \<noteq> None \<Longrightarrow> connKey s = Some k \<Longrightarrow> es_step s (img_onerror (reported k s))"
| reply: "es_step s (getStreamCmdResponse rsp k (if says_dead rsp then reported k s else s))"
| failed: "es_step s (cmd_failed ab k (if ab then s else reported k s))"
| fires: "recoveryTimer s \<noteq> None \<Longrightarrow> es_step s (recovery_fires r s)"
| tick: "rafId s \<Longrightarrow> es_step s (draw_tick dec s)"
| drawn: "es_step s (bitmap_done s)"

inductive es_reachable :: "estream \<Rightarrow> bool" where
  new: "es_reachable (newEventStream mid zms sc a)"
| step: "es_reachable s \<Longrightarrow> es_step s t \<Longrightarrow> es_reachable t"

section \<open>The invariant\<close>

text \<open>The connections that are open: neither told to quit nor reported to have ended since they were opened.\<close>

fun live_step :: "es_entry \<Rightarrow> string set \<Rightarrow> string set" where
  "live_step (Opened k u) A = insert k A"
| "live_step (Sent k CMD_QUIT) A = A - {k}"
| "live_step (Reported k) A = A - {k}"
| "live_step _ A = A"

definition live_zms :: "es_entry list \<Rightarrow> string set" where
  "live_zms l = fold live_step l {}"

lemma live_zms_append [simp]: "live_zms [] = {}" "live_zms (l @ [e]) = live_step e (live_zms l)"
  by (simp_all add: live_zms_def)

lemma live_sent: "live_step (Sent k c) A \<subseteq> A" "c = CMD_QUIT \<Longrightarrow> k \<notin> live_step (Sent k c) A"
  by (cases c; simp)+

lemma live_sent_in: "x \<in> live_step (Sent k c) A \<Longrightarrow> x \<in> A"
  using live_sent(1) by blast

definition accounted :: "es_entry list \<Rightarrow> string option \<Rightarrow> bool" where
  "accounted l ck \<longleftrightarrow> live_zms l \<subseteq> set_option ck"

definition es_inv :: "estream \<Rightarrow> bool" where
  "es_inv s \<longleftrightarrow>
     (if started s then connKey s \<noteq> None \<and> img s \<noteq> None \<and> streamCmdTimer s \<and> rafId s \<and> recoveryTimer s = None
      else connKey s = None \<and> img s = None \<and> \<not> streamCmdTimer s \<and> \<not> rafId s)
     \<and> recoveryDelay s = min 10000 (1000 * 2 ^ consecutiveErrors s)
     \<and> (case recoveryTimer s of None \<Rightarrow> True | Some (d, e, p) \<Rightarrow> 1000 \<le> d \<and> d \<le> 10000 \<and> consecutiveErrors s \<le> maxRecoveryAttempts)
     \<and> accounted (es_log s) (connKey s)"

named_theorems es_ops \<open>definitions of the stream's operations\<close>

lemmas [es_ops] = streamCmdReq_def streamCommand_def streamCmdQuery_def seek_def seekToTime_def setRate_def
  es_pause_def es_play_def es_setScale_def

lemma min_double: "min (min 10000 (1000 * 2 ^ n) * 2) 10000 = min 10000 (1000 * 2 ^ (n + 1) :: nat)"
  by (auto simp: min_def)

lemma delay_bounds: "1000 \<le> min 10000 (1000 * 2 ^ n :: nat)" "min 10000 (1000 * 2 ^ n :: nat) \<le> 10000"
  by simp_all

lemma es_inv_commands:
  assumes "es_inv s"
  shows "es_inv (streamCommand c s)" "es_inv (streamCmdQuery s)" "es_inv (seek x s)" "es_inv (seekToTime st x s)"
    "es_inv (setRate v s)" "es_inv (es_pause s)" "es_inv (es_play s)" "es_inv (es_setScale v s)"
  using assms by (auto simp: es_inv_def accounted_def es_ops Let_def split: option.splits dest!: live_sent_in)

lemma es_inv_reported:
  assumes "es_inv s"
  shows "es_inv (reported k s)" "connKey s = Some k \<Longrightarrow> live_zms (es_log (reported k s)) = {}"
  using assms by (cases "recoveryTimer s"; auto simp: es_inv_def accounted_def reported_def)+

lemma reported_fields [simp]:
  "connKey (reported k s) = connKey s" "img (reported k s) = img s" "started (reported k s) = started s"
  "recoveryTimer (reported k s) = recoveryTimer s"
  by (simp_all add: reported_def)

lemma es_inv_frame:
  assumes "es_inv s"
  shows "es_inv (draw_tick dec s)" "es_inv (bitmap_done s)"
  using assms
  by (cases "recoveryTimer s"; auto simp: es_inv_def draw_tick_def bitmap_done_def)+

lemma es_inv_started: "es_inv s \<Longrightarrow> started s = (connKey s \<noteq> None)"
  and es_inv_accounted: "es_inv s \<Longrightarrow> accounted (es_log s) (connKey s)"
  and es_inv_delay: "es_inv s \<Longrightarrow> recoveryDelay s = min 10000 (1000 * 2 ^ consecutiveErrors s)"
  by (auto simp: es_inv_def split: if_splits)

lemma es_inv_no_timer: "es_inv s \<Longrightarrow> es_inv (s\<lparr>recoveryTimer := None\<rparr>)"
  by (simp add: es_inv_def)

text \<open>After a teardown nothing is left of the connection, and it is accounted for.\<close>

definition torn_down :: "estream \<Rightarrow> bool" where
  "torn_down s \<longleftrightarrow> \<not> started s \<and> connKey s = None \<and> img s = None \<and> \<not> streamCmdTimer s \<and> \<not> rafId s
     \<and> accounted (es_log s) None"

lemma teardown_fields:
  "consecutiveErrors (teardown q s) = consecutiveErrors s" "recoveryDelay (teardown q s) = recoveryDelay s"
  "recoveryTimer (teardown q s) = recoveryTimer s" "\<not> started (teardown q s)" "\<not> streamCmdTimer (teardown q s)"
  by (simp_all add: teardown_def es_ops Let_def split: option.split)

lemma teardown_spec:
  assumes "started s = (connKey s \<noteq> None)" "accounted (es_log s) (connKey s)" "q \<or> live_zms (es_log s) = {}"
  shows "torn_down (teardown q s)"
  using assms by (auto simp: torn_down_def teardown_def accounted_def es_ops Let_def split: option.splits)

lemma es_inv_torn_down:
  "torn_down s \<Longrightarrow> recoveryTimer s = None \<Longrightarrow> recoveryDelay s = min 10000 (1000 * 2 ^ consecutiveErrors s) \<Longrightarrow> es_inv s"
  by (simp add: es_inv_def torn_down_def)

lemma es_inv_open:
  assumes "torn_down s2" and "recoveryTimer s2 = None" and "recoveryDelay s2 = min 10000 (1000 * 2 ^ consecutiveErrors s2)"
  shows "es_inv (s2\<lparr>currentEventId := e, rate := v, paused := p, stopped := q, lastOptions := l, connKey := Some k,
      rafId := True, img := Some src, started := True, streamCmdTimer := True, es_log := es_log s2 @ [Opened k src]\<rparr>)"
  using assms by (auto simp: es_inv_def torn_down_def accounted_def)

lemma es_inv_start:
  assumes "es_inv s"
  shows "es_inv (es_start r e opts s)"
proof -
  let ?s1 = "s\<lparr>recoveryTimer := None\<rparr>"
  let ?s2 = "if started ?s1 \<or> img ?s1 \<noteq> None then teardown (started ?s1) ?s1 else ?s1"
  have "torn_down ?s2 \<and> recoveryTimer ?s2 = None \<and> recoveryDelay ?s2 = min 10000 (1000 * 2 ^ consecutiveErrors ?s2)"
  proof (cases "started s")
    case True
    then show ?thesis
      using teardown_spec [of ?s1 True] es_inv_started [OF assms] es_inv_accounted [OF assms] es_inv_delay [OF assms]
      by (simp add: teardown_fields)
  next
    case False
    then have "connKey s = None" using assms by (auto simp: es_inv_def)
    then show ?thesis using assms False by (simp add: es_inv_def torn_down_def)
  qed
  then show ?thesis unfolding es_start_def Let_def using es_inv_open by simp
qed

lemma es_inv_stop: "es_inv s \<Longrightarrow> es_inv (es_stop s)"
proof -
  assume "es_inv s"
  then have "es_inv (s\<lparr>recoveryTimer := None\<rparr>)" (is "es_inv ?s") by (rule es_inv_no_timer)
  moreover have "torn_down (teardown True ?s)" "recoveryTimer (teardown True ?s) = None"
    using teardown_spec [OF es_inv_started [OF \<open>es_inv ?s\<close>] es_inv_accounted [OF \<open>es_inv ?s\<close>], of True]
    by (simp_all add: teardown_fields)
  ultimately show ?thesis
    by (simp add: es_stop_def Let_def) (simp add: es_inv_def torn_down_def)
qed

lemma es_inv_recover:
  assumes "started s = (connKey s \<noteq> None)" and "accounted (es_log s) (connKey s)"
    and "recoveryDelay s = min 10000 (1000 * 2 ^ consecutiveErrors s)" and "recoveryTimer s = None"
    and "live_zms (es_log s) = {}"
  shows "es_inv (recover s)"
proof -
  let ?s1 = "s\<lparr>consecutiveErrors := consecutiveErrors s + 1\<rparr>"
  have t: "torn_down (teardown False ?s1)" "consecutiveErrors (teardown False ?s1) = consecutiveErrors s + 1"
    "recoveryDelay (teardown False ?s1) = recoveryDelay s" "recoveryTimer (teardown False ?s1) = None"
    using teardown_spec [of ?s1 False] assms by (simp_all add: teardown_fields)
  show ?thesis
  proof (cases "consecutiveErrors s + 1 > maxRecoveryAttempts")
    case True
    have "4 \<le> consecutiveErrors s" using True by (simp add: maxRecoveryAttempts_def)
    then have "(2 :: nat) ^ 4 \<le> 2 ^ consecutiveErrors s" by (intro power_increasing) simp_all
    then have "recoveryDelay s = min 10000 (1000 * 2 ^ (consecutiveErrors s + 1))" using assms(3) by simp
    then show ?thesis using t True assms(4)
      by (auto simp: recover_def Let_def es_inv_def torn_down_def accounted_def)
  next
    case False
    then show ?thesis using t assms(3,4) min_double [of "consecutiveErrors s"] delay_bounds
      by (auto simp: recover_def Let_def es_inv_def torn_down_def accounted_def)
  qed
qed

lemma recover_pending [simp]: "recoveryTimer s \<noteq> None \<Longrightarrow> recover s = s"
  by (simp add: recover_def)

lemma es_inv_recover': "es_inv s \<Longrightarrow> live_zms (es_log s) = {} \<Longrightarrow> es_inv (recover s)"
proof (cases "recoveryTimer s = None")
  case True
  then show "es_inv s \<Longrightarrow> live_zms (es_log s) = {} \<Longrightarrow> es_inv (recover s)"
    by (intro es_inv_recover) (auto simp: es_inv_def split: if_splits)
qed simp

lemma es_inv_dead:
  assumes "es_inv s"
  shows "es_inv (if connKey s \<noteq> Some k then reported k s else recover (reported k s))"
  using es_inv_reported [OF assms, of k] es_inv_recover' by simp

lemma es_inv_reply:
  assumes "es_inv s"
  shows "es_inv (getStreamCmdResponse rsp k (if says_dead rsp then reported k s else s))"
proof (cases "connKey s = Some k")
  case True
  then have "started s" using es_inv_started [OF assms] by simp
  then have "recoveryTimer s = None" using assms by (simp add: es_inv_def)
  with True \<open>started s\<close> assms es_inv_dead [OF assms, of k] show ?thesis
    by (cases rsp) (auto simp: getStreamCmdResponse_def errorIsFatal_def Let_def split: option.split;
      simp add: es_inv_def accounted_def)+
next
  case False
  then show ?thesis using assms es_inv_reported(1) [OF assms] by (cases rsp) (simp_all add: getStreamCmdResponse_def)
qed

lemma es_inv_step: "es_step s t \<Longrightarrow> es_inv s \<Longrightarrow> es_inv t"
proof (induction rule: es_step.induct)
  case (switch s r e opts)
  then have "es_inv (s\<lparr>recoveryTimer := None, consecutiveErrors := 0, recoveryDelay := 1000\<rparr>)"
    by (simp add: es_inv_def)
  then show ?case unfolding switchEvent_def by (rule es_inv_start)
next
  case (img_error s k)
  then have st: "started s" "recoveryTimer s = None" by (auto simp: es_inv_def split: if_splits)
  note inv = es_inv_reported [OF img_error.prems, of k]
  show ?case
    using st inv(2) [OF img_error.hyps(2)] es_inv_started [OF inv(1)] es_inv_accounted [OF inv(1)] es_inv_delay [OF inv(1)]
    unfolding img_onerror_def by (intro es_inv_recover) simp_all
next
  case (reply s rsp k)
  then show ?case by (rule es_inv_reply)
next
  case (fires s r)
  then obtain d e p where rt: "recoveryTimer s = Some (d, e, p)" by (cases "recoveryTimer s") auto
  moreover have "es_inv (s\<lparr>recoveryTimer := None\<rparr>)" using fires.prems by (simp add: es_inv_def)
  ultimately show ?case by (simp add: recovery_fires_def es_inv_start Let_def)
next
  case (failed s ab k)
  then show ?case using es_inv_dead [OF failed.prems, of k]
    by (cases "connKey s = Some k") (simp_all add: cmd_failed_def)
qed (auto simp: es_inv_start es_inv_stop es_inv_commands es_inv_frame)

lemma es_inv_new: "es_inv (newEventStream mid zms sc a)"
  by (simp add: es_inv_def newEventStream_def accounted_def)

lemma es_reachable_inv: "es_reachable s \<Longrightarrow> es_inv s"
  by (induction rule: es_reachable.induct) (auto simp: es_inv_new es_inv_step)

text \<open>
  C3. In every run no zms process is orphaned: a connection that was opened is the current one, unless it has been told to quit
  under its own key since, or the browser or a reply has said that it has ended. The poll timer, the draw loop, the image
  and the key exist exactly while a stream is started, and never beside a scheduled recovery.
\<close>

theorem no_orphaned_zms:
  assumes "es_reachable s"
  shows "live_zms (es_log s) \<subseteq> (case connKey s of None \<Rightarrow> {} | Some k \<Rightarrow> {k})
    \<and> started s = (connKey s \<noteq> None) \<and> started s = (img s \<noteq> None) \<and> started s = streamCmdTimer s
    \<and> started s = rafId s \<and> (recoveryTimer s \<noteq> None \<longrightarrow> \<not> started s)"
  using es_reachable_inv [OF assms]
  by (cases "started s") (auto simp: es_inv_def accounted_def split: option.split)

text \<open>
  C34. Recovery backs off and is bounded: in every run the next delay is one second doubled
  once per consecutive error and never more than ten seconds; a scheduled recovery is within
  the five attempts; an error beyond them leaves nothing running and nothing scheduled and
  tells the view; an error while a recovery waits changes nothing.
\<close>

theorem recovery_backs_off:
  assumes "es_reachable s"
  shows "recoveryDelay s = min 10000 (1000 * 2 ^ consecutiveErrors s)
    \<and> (recoveryTimer s \<noteq> None \<longrightarrow> consecutiveErrors s \<le> 5 \<and> recover s = s)
    \<and> (recoveryTimer s = None \<and> consecutiveErrors s < 5 \<longrightarrow>
         (\<exists>e p. recoveryTimer (recover s) = Some (recoveryDelay s, e, p)) \<and> consecutiveErrors (recover s) = consecutiveErrors s + 1)
    \<and> (recoveryTimer s = None \<and> consecutiveErrors s \<ge> 5 \<longrightarrow>
         recoveryTimer (recover s) = None \<and> \<not> started (recover s) \<and> \<not> streamCmdTimer (recover s)
         \<and> last (es_log (recover s)) = GaveUp)"
proof -
  have inv: "es_inv s" using assms by (rule es_reachable_inv)
  let ?t = "teardown False (s\<lparr>consecutiveErrors := consecutiveErrors s + 1\<rparr>)"
  have t: "consecutiveErrors ?t = consecutiveErrors s + 1" "recoveryDelay ?t = recoveryDelay s"
    "recoveryTimer ?t = recoveryTimer s" "\<not> started ?t" "\<not> streamCmdTimer ?t"
    by (simp_all add: teardown_fields)
  show ?thesis
  proof (cases "recoveryTimer s")
    case None
    then show ?thesis using es_inv_delay [OF inv] t by (simp add: recover_def Let_def maxRecoveryAttempts_def)
  next
    case (Some r)
    then have "consecutiveErrors s \<le> 5" using inv by (cases r) (simp add: es_inv_def maxRecoveryAttempts_def)
    then show ?thesis using Some es_inv_delay [OF inv] by simp
  qed
qed

text \<open>
  A late answer is harmless: the reply to, or the failure of, a command of a connection
  that is no longer the current one changes nothing; neither does an error that does not
  mean zms has gone.
\<close>

lemma stale_answers_ignored:
  assumes "connKey s \<noteq> Some k"
  shows "getStreamCmdResponse rsp k s = s \<and> cmd_failed ab k s = s
    \<and> (\<not> errorIsFatal reason \<longrightarrow> getStreamCmdResponse (ErrorReply reason) k' s = s)"
  using assms by (simp add: getStreamCmdResponse_def cmd_failed_def split: stream_reply.split)

section \<open>Witnesses\<close>

definition demo_stream :: estream where
  "demo_stream = es_start 41 ''12'' no_options (es_start 40 ''11'' no_options
     (newEventStream 3 ''/zms?monitor=3'' (JNum (Fin 50)) \<lparr>relay = ''auth=a1''\<rparr>))"

lemma replicate_4: "replicate 4 c = [c, c, c, c]"
  by (simp add: numeral_eq_Suc)

lemma demo_stream_reachable: "es_reachable demo_stream"
  unfolding demo_stream_def
  by (rule es_reachable.step [OF es_reachable.step [OF es_reachable.new es_step.start] es_step.start])

lemma demo_stream_facts:
  "connKey demo_stream = Some (genConnKey 41)" "consecutiveErrors demo_stream = 0" "recoveryTimer demo_stream = None"
  by (simp_all add: demo_stream_def es_start_def newEventStream_def teardown_def es_ops Let_def)

theorem no_orphaned_zms_witness:
  "live_zms (es_log demo_stream) = {''000042''} \<and> (\<exists>u. Opened ''000041'' u \<in> set (es_log demo_stream))"
proof -
  have k: "genConnKey 40 = ''000041''" "genConnKey 41 = ''000042''"
    by (simp_all add: genConnKey_def nat_to_str.simps digit_char_def Let_def replicate_4)
  have rate: "o_rate no_options = JUndef" by (simp add: no_options_def)
  have "\<exists>u. Opened (genConnKey 40) u \<in> set (es_log demo_stream)" "genConnKey 41 \<in> live_zms (es_log demo_stream)"
    by (auto simp: rate demo_stream_def es_start_def newEventStream_def teardown_def es_ops Let_def live_zms_def)
  then show ?thesis
    using no_orphaned_zms [OF demo_stream_reachable] k demo_stream_facts(1) by auto
qed

theorem recovery_backs_off_witness:
  "\<exists>e p. recoveryTimer (recover demo_stream) = Some (1000, e, p)"
proof -
  have d: "recoveryDelay demo_stream = 1000"
    using es_inv_delay [OF es_reachable_inv [OF demo_stream_reachable]] by (simp add: demo_stream_facts)
  have "\<exists>e p. recoveryTimer (recover demo_stream) = Some (recoveryDelay demo_stream, e, p)"
    using recovery_backs_off [OF demo_stream_reachable] demo_stream_facts(2,3) by auto
  then show ?thesis by (simp only: d)
qed

end
