(* ===== verification/Monitor_State.thy ===== *)
theory Monitor_State
  imports Event_Stream
begin

text \<open>
  The live stream of one monitor, \<^verbatim>\<open>web/js/MonitorStream.js\<close>: the object's fields, the
  commands it sends to zms, and how it is stopped and killed. Which player runs is decided in
  \<^verbatim>\<open>Monitor_Players\<close>; what arrives from zms and the browser is in \<^verbatim>\<open>Monitor_Stream\<close>. Intervals
  are kept with their ids, since an id that is overwritten before it is cleared leaves its
  interval running. Monitors of type WebSite, which have no command channel, are not modelled.
\<close>

section \<open>Text searches\<close>

text \<open>\<^verbatim>\<open>s.indexOf(pat) != -1\<close>.\<close>

fun includes_str :: "string \<Rightarrow> string \<Rightarrow> bool" where
  "includes_str [] pat = (pat = [])"
| "includes_str (c # s) pat = (starts_with pat (c # s) \<or> includes_str s pat)"

text \<open>\<^verbatim>\<open>s.replace(/pat/i, repl)\<close> for a literal pattern and a replacement without \<^verbatim>\<open>$\<close>.\<close>

fun replace_ci :: "string \<Rightarrow> string \<Rightarrow> string \<Rightarrow> string" where
  "replace_ci pat repl [] = []"
| "replace_ci pat repl (c # s) =
     (if starts_ci pat (c # s) then repl @ drop (length pat) (c # s) else c # replace_ci pat repl s)"

section \<open>State\<close>

datatype node = IMG | VIDEO | VIDEO_STREAM

text \<open>
  The element that shows the stream. \<open>el_handlers\<close> is the playback session whose
  \<^verbatim>\<open>onerror\<close> and \<^verbatim>\<open>onload\<close> are attached.
\<close>

record media_el =
  nodeName :: node
  el_src :: string
  el_lazy :: bool
  el_handlers :: "string option"

datatype tick = StatusTick | StreamTick

text \<open>
  The log: a connection opened under a connkey, commands sent under one, an image that
  failed, a connkey given up by the reconnect after such a failure, the other players that
  were opened and closed, and the ways out of the page.
\<close>

datatype m_entry = M_Opened string string | M_OwnKey string | M_Sent "string option" zms_cmd | M_ImgError "string option"
  | M_Replaced string | M_Player string | M_Released string | M_Alert | M_Login | M_TypeError | M_AlarmCmd "string option" string

record mstream =
  m_id :: string
  m_url_to_zms :: string
  m_width :: rat
  m_started :: bool
  m_starting :: bool
  m_active :: bool
  m_fatal :: bool
  m_zmsState :: string
  m_connKey :: "string option"
  m_streamConn :: "string option"
  m_statusConn :: "string option"
  m_element :: "media_el option"
  m_player :: string
  m_default :: string
  m_activePlayer :: string
  m_stoppedPlayer :: string
  m_selected :: string
  m_rtsp2webType :: string
  m_errors :: "(nat \<times> string \<times> nat) list"
  m_session :: "string option"
  m_channel :: "string option"
  m_statusTimer :: "nat option"
  m_streamTimer :: "nat option"
  m_intervals :: "(nat \<times> tick) list"
  m_next :: nat
  m_restarts :: "(string option \<times> nat \<times> string option) list"
  m_attempts :: nat
  m_authTimer :: "(nat \<times> string) option"
  m_refreshing :: "string list"
  m_go2rtc :: bool
  m_rtsp2web :: bool
  m_janusOn :: bool
  m_RTSPServer :: bool
  m_streamChannel :: string
  m_go2rtcPath :: bool
  m_rtsp2webPath :: bool
  m_hlsLib :: bool
  m_view :: string
  m_webrtc :: bool
  m_hls :: bool
  m_mseCleared :: bool
  m_janus :: bool
  m_janusPending :: nat
  m_unload :: bool
  m_scale :: js_num
  m_analyse :: bool
  m_auth :: zm_auth
  m_info :: string
  m_infoImg :: bool
  m_log :: "m_entry list"

section \<open>Timers, texts, commands\<close>

definition m_emit :: "m_entry \<Rightarrow> mstream \<Rightarrow> mstream" where
  "m_emit e s = s\<lparr>m_log := m_log s @ [e]\<rparr>"

definition clear_interval :: "nat option \<Rightarrow> (nat \<times> tick) list \<Rightarrow> (nat \<times> tick) list" where
  "clear_interval h ts = filter (\<lambda>p. Some (fst p) \<noteq> h) ts"

definition clear_status :: "mstream \<Rightarrow> mstream" where
  "clear_status s = s\<lparr>m_intervals := clear_interval (m_statusTimer s) (m_intervals s), m_statusTimer := None\<rparr>"

definition set_status :: "mstream \<Rightarrow> mstream" where
  "set_status s = s\<lparr>m_statusTimer := Some (m_next s), m_intervals := (m_next s, StatusTick) # m_intervals s,
     m_next := m_next s + 1\<rparr>"

definition clear_stream :: "mstream \<Rightarrow> mstream" where
  "clear_stream s = s\<lparr>m_intervals := clear_interval (m_streamTimer s) (m_intervals s), m_streamTimer := None\<rparr>"

definition set_stream :: "mstream \<Rightarrow> mstream" where
  "set_stream s = s\<lparr>m_streamTimer := Some (m_next s), m_intervals := (m_next s, StreamTick) # m_intervals s,
     m_next := m_next s + 1\<rparr>"

text \<open>The text over the picture, and whether the still image shows behind it.\<close>

definition writeTextInfoBlock :: "string \<Rightarrow> bool \<Rightarrow> mstream \<Rightarrow> mstream" where
  "writeTextInfoBlock txt showImg s = s\<lparr>m_info := txt, m_infoImg := (txt \<noteq> [] \<and> showImg)\<rparr>"

abbreviation plays :: "string \<Rightarrow> mstream \<Rightarrow> bool" where
  "plays p s \<equiv> includes_str (m_activePlayer s) p"

text \<open>\<^verbatim>\<open>this.connKey\<close> as a condition.\<close>

definition has_key :: "mstream \<Rightarrow> bool" where
  "has_key s = (case m_connKey s of None \<Rightarrow> False | Some k \<Rightarrow> k \<noteq> [])"

definition m_streamCmdReq :: "string option \<Rightarrow> zms_cmd \<Rightarrow> mstream \<Rightarrow> mstream" where
  "m_streamCmdReq k c s =
     (let s1 = (if plays ''zms'' s
                then (if c = CMD_PAUSE then writeTextInfoBlock ''Paused'' False s
                      else if c = CMD_PLAY then writeTextInfoBlock [] True s else s)
                else s)
      in if \<not> (c = CMD_STOP \<and> (plays ''go2rtc'' s \<or> plays ''rtsp2web'' s)) then m_emit (M_Sent k c) s1 else s1)"

definition m_streamCommand :: "zms_cmd \<Rightarrow> mstream \<Rightarrow> mstream" where
  "m_streamCommand c s =
     (if \<not> m_started s then s
      else (let s1 = m_streamCmdReq (m_streamConn s) c s
            in if c = CMD_PAUSE then s1\<lparr>m_zmsState := ''paused''\<rparr>
               else if c = CMD_PLAY then s1\<lparr>m_zmsState := ''played''\<rparr>
               else if c = CMD_STOP \<or> c = CMD_QUIT then s1\<lparr>m_zmsState := ''stopped''\<rparr>
               else s1))"

definition m_streamCmdQuery :: "mstream \<Rightarrow> mstream" where
  "m_streamCmdQuery s = (if m_started s then m_streamCmdReq (m_streamConn s) CMD_QUERY s else s)"

definition statusQuery :: "mstream \<Rightarrow> mstream" where
  "statusQuery s = m_streamCommand CMD_QUERY s"

definition quitConnKey :: "string option \<Rightarrow> mstream \<Rightarrow> mstream" where
  "quitConnKey k s = (case k of None \<Rightarrow> s | Some c \<Rightarrow> if c = [] then s else m_emit (M_Sent (Some c) CMD_QUIT) s)"

text \<open>The alarm requests; an earlier request that is still queued is aborted.\<close>

definition alarmCommand :: "string \<Rightarrow> mstream \<Rightarrow> mstream" where
  "alarmCommand c s = m_emit (M_AlarmCmd (m_streamConn s) c) s"

definition show_analyse_frames :: "bool \<Rightarrow> mstream \<Rightarrow> mstream" where
  "show_analyse_frames t s = (case m_element s of
     None \<Rightarrow> m_emit M_TypeError s
   | Some e \<Rightarrow> if nodeName e = IMG
       then m_streamCmdReq (m_streamConn s) (if t then CMD_ANALYZE_ON else CMD_ANALYZE_OFF) (s\<lparr>m_analyse := t\<rparr>)
       else s)"

definition setMaxFPS :: "jsval \<Rightarrow> mstream \<Rightarrow> mstream" where
  "setMaxFPS v s = m_streamCommand (CMD_MAXFPS v) s"

section \<open>Stopping\<close>

definition map_el :: "(media_el \<Rightarrow> media_el) \<Rightarrow> mstream \<Rightarrow> mstream" where
  "map_el f s = s\<lparr>m_element := map_option f (m_element s)\<rparr>"

text \<open>What stopping does to the player that was running.\<close>

definition stop_player :: "bool \<Rightarrow> bool \<Rightarrow> mstream \<Rightarrow> mstream" where
  "stop_player wasStarting skip s =
     (if plays ''zms'' s
      then (if (m_started s \<or> wasStarting) \<and> \<not> skip then m_streamCommand CMD_STOP s else s)
      else if plays ''go2rtc'' s then m_emit (M_Released ''go2rtc'') (s\<lparr>m_webrtc := False\<rparr>)
      else if plays ''rtsp2web'' s
      then (let s1 = m_emit (M_Released ''rtsp2web'') (s\<lparr>m_webrtc := False, m_hls := False\<rparr>)
            in if plays ''mse'' s then s1\<lparr>m_mseCleared := False\<rparr> else s1)
      else if plays ''janus'' s
      then (if m_janus s then m_emit (M_Released ''janus'') (s\<lparr>m_janus := False\<rparr>) else s)
      else s)"

text \<open>The text over the picture and both polls, before the player itself is stopped.\<close>

definition quiesce :: "mstream \<Rightarrow> mstream" where
  "quiesce s = clear_stream (clear_status (writeTextInfoBlock ''Stopped'' (\<not> plays ''zms'' s) s))"

definition m_stop :: "bool \<Rightarrow> mstream \<Rightarrow> mstream" where
  "m_stop skip s0 =
     (let wasStarting = m_starting s0;
          s = s0\<lparr>m_starting := False, m_unload := False\<rparr>
      in if m_element s = None then s
         else if \<not> m_started s \<and> \<not> wasStarting then s
         else (let zms = plays ''zms'' s;
                   mse = plays ''rtsp2web'' s \<and> plays ''mse'' s;
                   s1 = stop_player wasStarting skip (quiesce s);
                   s2 = (if \<not> zms \<and> \<not> mse then map_el (\<lambda>e. e\<lparr>el_src := []\<rparr>) s1 else s1)
               in s2\<lparr>m_stoppedPlayer := m_activePlayer s2, m_activePlayer := [], m_started := False\<rparr>))"

definition m_kill :: "mstream \<Rightarrow> mstream" where
  "m_kill s = (case m_element s of
     None \<Rightarrow> s
   | Some e \<Rightarrow>
       (let s1 = (if nodeName e = IMG then map_el (\<lambda>e. e\<lparr>el_handlers := None\<rparr>) s else s);
            quit = (m_started s1 \<or> m_starting s1) \<and> plays ''zms'' s1 \<and> has_key s1;
            s2 = (if quit then m_streamCommand CMD_QUIT s1 else s1);
            s3 = m_stop quit s2
        in if quit then s3\<lparr>m_streamConn := None, m_statusConn := None, m_connKey := None\<rparr> else s3))"

section \<open>Pausing and playing\<close>

text \<open>The element is the one an earlier operation looked up (\<^verbatim>\<open>this.element\<close>).\<close>

definition m_pause :: "mstream \<Rightarrow> mstream" where
  "m_pause s =
     (if plays ''zms'' s \<and> \<not> plays ''go2rtc'' s \<and> \<not> plays ''rtsp2web'' s \<and> has_key s then m_streamCommand CMD_PAUSE s
      else if m_element s = None then m_emit M_TypeError s
      else clear_status s)"

definition m_play :: "mstream \<Rightarrow> mstream" where
  "m_play s =
     (if plays ''zms'' s \<and> \<not> plays ''go2rtc'' s \<and> \<not> plays ''rtsp2web'' s \<and> has_key s then m_streamCommand CMD_PLAY s
      else if m_element s = None then m_emit M_TypeError s
      else set_status s)"

end
