(* ===== verification/Monitor_Players.thy ===== *)
theory Monitor_Players
  imports Monitor_State
begin

text \<open>
  Which player shows a monitor: the table of players with their error counts, the choice of
  the next one after an error, restarting, and opening each of them
  (\<^verbatim>\<open>selectPlayer\<close>, \<^verbatim>\<open>selectNextPlayer\<close>, \<^verbatim>\<open>restart\<close> and the \<^verbatim>\<open>select_*\<close> functions of
  \<^verbatim>\<open>web/js/MonitorStream.js\<close>). \<^verbatim>\<open>restart\<close> and \<^verbatim>\<open>selectNextPlayer\<close> call each other, so the model
  is a partial function and returning is something to prove.
\<close>

section \<open>The table of players\<close>

definition playerPriority :: "(nat \<times> string \<times> nat) list" where
  "playerPriority = [(1, ''default'', 0), (2, ''go2rtc_webrtc'', 0), (3, ''go2rtc_mse'', 0), (5, ''rtsp2web_webrtc'', 0),
     (6, ''rtsp2web_mse'', 0), (7, ''rtsp2web_hls'', 0), (8, ''janus'', 0), (9, ''zms'', 0), (100, ''go2rtc_hls'', 0)]"

definition limitCountErrors :: nat where "limitCountErrors = 2"

text \<open>The first entry, in the order of the keys, whose name occurs in the player's.\<close>

fun entry_of :: "string \<Rightarrow> (nat \<times> string \<times> nat) list \<Rightarrow> (nat \<times> string \<times> nat) option" where
  "entry_of p [] = None"
| "entry_of p (e # es) = (if includes_str p (fst (snd e)) then Some e else entry_of p es)"

fun count_up :: "string \<Rightarrow> (nat \<Rightarrow> nat) \<Rightarrow> (nat \<times> string \<times> nat) list \<Rightarrow> (nat \<times> string \<times> nat) list" where
  "count_up p f [] = []"
| "count_up p f (e # es) = (if includes_str p (fst (snd e)) then (fst e, fst (snd e), f (snd (snd e))) # es
     else e # count_up p f es)"

definition streamErrorRegistration :: "bool \<Rightarrow> mstream \<Rightarrow> mstream" where
  "streamErrorRegistration fatal s =
     s\<lparr>m_errors := count_up (m_player s) (\<lambda>c. c + (if fatal then limitCountErrors else 1)) (m_errors s)\<rparr>"

definition getCountStreamErrors :: "string \<Rightarrow> mstream \<Rightarrow> nat" where
  "getCountStreamErrors p s =
     (if p = [] then 0 else (case entry_of p (m_errors s) of None \<Rightarrow> 0 | Some e \<Rightarrow> snd (snd e)))"

definition resetCountStreamErrors :: "string \<Rightarrow> mstream \<Rightarrow> mstream" where
  "resetCountStreamErrors p s = (if p = [] then s else s\<lparr>m_errors := count_up p (\<lambda>_. 0) (m_errors s)\<rparr>)"

section \<open>Choosing a player by hand\<close>

definition setRTSP2WebType :: "string \<Rightarrow> mstream \<Rightarrow> mstream" where
  "setRTSP2WebType p s =
     (if includes_str p ''_hls'' then s\<lparr>m_rtsp2webType := ''HLS''\<rparr>
      else if includes_str p ''_mse'' then s\<lparr>m_rtsp2webType := ''MSE''\<rparr>
      else if includes_str p ''_webrtc'' then s\<lparr>m_rtsp2webType := ''WebRTC''\<rparr>
      else s)"

text \<open>\<open>ui\<close> is the value of the page's player selector.\<close>

definition setPlayer :: "string \<Rightarrow> string \<Rightarrow> mstream \<Rightarrow> mstream" where
  "setPlayer p ui s =
     (let s1 = (if \<not> includes_str p ''go2rtc'' \<and> includes_str p ''rtsp2web'' then setRTSP2WebType p s else s)
      in s1\<lparr>m_selected := ui, m_errors := map (\<lambda>(k, n, _). (k, n, 0)) (m_errors s1), m_fatal := False, m_player := p\<rparr>)"

definition getStreamSuffix :: "string \<Rightarrow> mstream \<Rightarrow> string" where
  "getStreamSuffix ch s =
     (let suffix = (if ch = ''Secondary'' \<or> ch = ''CameraDirectSecondary'' \<or> ch = ''1'' then ''_CameraDirectSecondary''
                    else if ch = ''Restream'' \<or> ch = ''ZoneMinderPrimary'' \<or> ch = ''2'' then ''_ZoneMinderPrimary''
                    else if ch = ''CameraDirectPrimary'' then ''_CameraDirectPrimary''
                    else [])
      in if suffix = ''_ZoneMinderPrimary'' \<and> \<not> m_RTSPServer s then ''_CameraDirectPrimary'' else suffix)"

definition getNumericChannel :: "string \<Rightarrow> nat" where
  "getNumericChannel ch =
     (if ch = ''Secondary'' \<or> ch = ''CameraDirectSecondary'' \<or> ch = ''1'' then 1
      else if ch = ''Restream'' \<or> ch = ''ZoneMinderPrimary'' \<or> ch = ''2'' then 2
      else 0)"

section \<open>The next player and restarting\<close>

datatype choice = Try string | GiveUp

definition eligible :: "mstream \<Rightarrow> nat \<times> string \<times> nat \<Rightarrow> bool" where
  "eligible s e \<longleftrightarrow> (let n = fst (snd e) in
     \<not> (includes_str n ''go2rtc'' \<and> (\<not> m_go2rtc s \<or> \<not> m_go2rtcPath s))
     \<and> \<not> (includes_str n ''rtsp2web'' \<and> \<not> m_rtsp2web s)
     \<and> \<not> (includes_str n ''janus'' \<and> \<not> m_janusOn s)
     \<and> \<not> (m_selected s = ''go2rtc'' \<and> \<not> includes_str n ''go2rtc'' \<and> \<not> includes_str n ''zms'')
     \<and> snd (snd e) = 0)"

text \<open>The search of \<^verbatim>\<open>selectNextPlayer\<close>: from the current player's entry on, in key order.\<close>

definition next_player :: "string \<Rightarrow> mstream \<Rightarrow> choice" where
  "next_player currentPlayer s =
     (let cur = (if m_default s = m_player s then ''default''
                 else if currentPlayer = [] then m_default s else currentPlayer)
      in (case entry_of cur (m_errors s) of
            None \<Rightarrow> Try ''zms''
          | Some (k, _, _) \<Rightarrow>
              (let es = sort_key fst (m_errors s);
                   later = tl (dropWhile (\<lambda>e. fst e \<noteq> k) es)
               in (case filter (eligible s) later of
                     e # _ \<Rightarrow> Try (fst (snd e))
                   | [] \<Rightarrow> if m_player s = ''zms'' \<or> includes_str cur ''zms'' then GiveUp else Try ''zms''))))"

definition errorText :: "mstream \<Rightarrow> mstream" where
  "errorText s = writeTextInfoBlock ''Error'' (\<not> includes_str (m_player s) ''zms'') s"

definition schedule_restart :: "string option \<Rightarrow> nat \<Rightarrow> mstream \<Rightarrow> mstream" where
  "schedule_restart ch d s = s\<lparr>m_restarts := m_restarts s @ [(ch, d, m_session s)]\<rparr>"

text \<open>\<open>None\<close> is a recursion that never ends (in the browser, a \<^verbatim>\<open>RangeError\<close>).\<close>

partial_function (option) restart :: "string option \<Rightarrow> nat \<Rightarrow> mstream \<Rightarrow> mstream option" where
  "restart ch d s0 =
     (let s = (m_stop False s0)\<lparr>m_stoppedPlayer := []\<rparr>
      in if getCountStreamErrors (m_player s) s < limitCountErrors then Some (schedule_restart ch d s)
         else if m_selected s \<noteq> [] then Some (errorText s)
         else if \<not> m_active s then Some (m_kill s)
         else (case next_player [] s of
                 GiveUp \<Rightarrow> Some (s\<lparr>m_fatal := True\<rparr>)
               | Try p \<Rightarrow> restart (m_channel s) 200 (s\<lparr>m_player := p\<rparr>)))"

declare restart.simps [code]

definition selectNextPlayer :: "string \<Rightarrow> mstream \<Rightarrow> mstream option" where
  "selectNextPlayer currentPlayer s =
     (if \<not> m_active s then Some (m_kill s)
      else (case next_player currentPlayer s of
              GiveUp \<Rightarrow> Some (s\<lparr>m_fatal := True\<rparr>)
            | Try p \<Rightarrow> restart (m_channel s) 200 (s\<lparr>m_player := p\<rparr>)))"

section \<open>Opening a player\<close>

text \<open>\<^verbatim>\<open>replaceDOMElement\<close> of skin.js: attributes are copied, handlers are not.\<close>

definition replaceDOMElement :: "node \<Rightarrow> media_el \<Rightarrow> media_el" where
  "replaceDOMElement k e = (if nodeName e = k then e else e\<lparr>nodeName := k, el_handlers := None\<rparr>)"

text \<open>
  The tail the players share: a fresh status interval (the old one is cleared but not
  forgotten), the page's unload handler, and the name of the player.
\<close>

definition reset_status :: "mstream \<Rightarrow> mstream" where
  "reset_status s = set_status (s\<lparr>m_intervals := clear_interval (m_statusTimer s) (m_intervals s)\<rparr>)"

definition running :: "string \<Rightarrow> mstream \<Rightarrow> mstream" where
  "running p s = s\<lparr>m_started := True, m_unload := True, m_activePlayer := p\<rparr>"

text \<open>
  \<^verbatim>\<open>go2rtcTranscodeTried\<close> is assigned nowhere, so the H.264 transcode is never asked for.
  Setting \<^verbatim>\<open>src\<close> of a \<^verbatim>\<open>video-stream\<close> element starts a playback session (video-stream.js).
\<close>

definition select_go2rtc :: "string \<Rightarrow> string \<Rightarrow> mstream \<Rightarrow> mstream" where
  "select_go2rtc uuid ch s =
     (if \<not> m_go2rtcPath s then m_emit M_Alert s
      else (case m_element s of
         None \<Rightarrow> m_emit M_TypeError s
       | Some e \<Rightarrow>
           (let s1 = s\<lparr>m_element := Some (replaceDOMElement VIDEO_STREAM e), m_channel := Some ch\<rparr>
            in if \<not> m_active s1 then m_kill s1
               else running ''go2rtc'' (reset_status
                      (m_emit (M_Player (''go2rtc '' @ m_id s @ getStreamSuffix ch s)) (s1\<lparr>m_session := Some uuid, m_webrtc := True\<rparr>))))))"

definition select_rtsp2web :: "string \<Rightarrow> string \<Rightarrow> mstream \<Rightarrow> mstream option" where
  "select_rtsp2web uuid ch s0 =
     (if \<not> m_rtsp2webPath s0 then Some s0
      else (case m_element s0 of
         None \<Rightarrow> Some (m_emit M_TypeError (s0\<lparr>m_session := Some uuid\<rparr>))
       | Some e \<Rightarrow>
           (let s = s0\<lparr>m_session := Some uuid, m_element := Some (replaceDOMElement VIDEO e), m_channel := Some ch\<rparr>
            in if \<not> m_active s then Some (m_kill s)
               else (let s1 = setRTSP2WebType (m_player s) s;
                         addr = m_id s @ ''/channel/'' @ nat_to_str (getNumericChannel ch)
                     in if includes_str (m_player s) ''hls''
                        then (if \<not> m_hlsLib s1 then restart (m_channel s1) 200 (streamErrorRegistration True s1)
                              else Some (running ''rtsp2web_hls'' (reset_status
                                     (m_emit (M_Player (addr @ ''/hls/live/index.m3u8'')) (s1\<lparr>m_hls := True\<rparr>)))))
                        else if includes_str (m_player s) ''mse''
                        then Some (running ''rtsp2web_mse'' (reset_status (m_emit (M_Player (addr @ ''/mse'')) s1)))
                        else if m_player s = [] \<or> includes_str (m_player s) ''webrtc''
                        then Some (running ''rtsp2web_webrtc'' (reset_status
                               (m_emit (M_Player (addr @ ''/webrtc'')) (s1\<lparr>m_webrtc := True\<rparr>))))
                        else Some (running (m_activePlayer s1) (reset_status s1))))))"

definition continueRunningJanus :: "mstream \<Rightarrow> mstream" where
  "continueRunningJanus s = running ''janus'' (m_emit (M_Player ''janus'') (set_status s))"

definition select_janus :: "string \<Rightarrow> mstream \<Rightarrow> mstream" where
  "select_janus uuid s0 =
     (let s = s0\<lparr>m_session := Some uuid\<rparr>
      in (case m_element s of
            None \<Rightarrow> m_emit M_TypeError s
          | Some e \<Rightarrow>
              (let s1 = s\<lparr>m_element := Some (replaceDOMElement VIDEO e)\<rparr>
               in if \<not> m_active s1 then m_kill s1
                  else if \<not> m_janus s1 then s1\<lparr>m_janusPending := m_janusPending s1 + 1\<rparr>
                  else continueRunningJanus s1)))"

text \<open>The callback of \<^verbatim>\<open>Janus.init\<close>.\<close>

definition janus_ready :: "mstream \<Rightarrow> mstream" where
  "janus_ready s = (let s1 = s\<lparr>m_janusPending := m_janusPending s - 1\<rparr>
     in if m_starting s1 then continueRunningJanus (s1\<lparr>m_janus := True\<rparr>) else s1)"

subsection \<open>zms\<close>

text \<open>\<^verbatim>\<open>s.match(/par([^&]+)/)[1]\<close>.\<close>

fun match_param :: "string \<Rightarrow> string \<Rightarrow> string option" where
  "match_param pat [] = None"
| "match_param pat (c # s) =
     (let v = takeWhile (\<lambda>d. d \<noteq> CHR ''&'') (drop (length pat) (c # s))
      in if starts_with pat (c # s) \<and> v \<noteq> [] then Some v else match_param pat s)"

definition srcAuthCurrent :: "media_el \<Rightarrow> mstream \<Rightarrow> bool" where
  "srcAuthCurrent e s \<longleftrightarrow> el_src e \<noteq> [] \<and>
     (ZMAuth_hash (m_auth s) = [] \<or> authHashFromRelay (el_src e) = ZMAuth_hash (m_auth s))"

definition resumableZms :: "mstream \<Rightarrow> bool" where
  "resumableZms s \<longleftrightarrow> m_activePlayer s = ''zms'' \<or> m_stoppedPlayer s = ''zms'' \<and> has_key s"

definition set_connKey :: "string \<Rightarrow> mstream \<Rightarrow> mstream" where
  "set_connKey k s = s\<lparr>m_connKey := Some k, m_streamConn := Some k, m_statusConn := Some k\<rparr>"

text \<open>The address asked of zms; \<open>old\<close> is the element's previous source.\<close>

definition add_missing :: "string \<Rightarrow> string \<Rightarrow> string \<Rightarrow> string" where
  "add_missing key extra src = (if includes_str src key then src else src @ extra)"

definition zms_src :: "string \<Rightarrow> string \<Rightarrow> mstream \<Rightarrow> string" where
  "zms_src base old s =
     (let src1 = add_missing ''scale='' (''&scale='' @ num_to_str (m_scale s)) base;
          src2 = add_missing ''mode='' ''&mode=jpeg'' src1;
          src3 = add_missing ''maxfps='' (case match_param ''maxfps='' old of None \<Rightarrow> [] | Some v \<Rightarrow> ''&maxfps='' @ v) src2
      in if m_analyse s then add_missing ''analysis='' ''&analysis=true'' src3 else src3)"

definition rebuild_zms :: "nat \<Rightarrow> media_el \<Rightarrow> mstream \<Rightarrow> mstream" where
  "rebuild_zms r e s =
     (let base = ZMAuth_applyTo (m_auth s) (replace_ci ''mode=single'' ''mode=jpeg'' (m_url_to_zms s)) JUndef
      in if includes_str base ''connkey''
         then (let src = zms_src base (el_src e) s
               in if el_src e = src then s else m_emit (M_OwnKey src) (map_el (\<lambda>e. e\<lparr>el_src := src\<rparr>) s))
         else (let k = genConnKey r;
                   s1 = set_connKey k (quitConnKey (m_connKey s) s);
                   src = zms_src (base @ ''&connkey='' @ k) (el_src e) s1
               in if el_src e = src then s1 else m_emit (M_Opened k src) (map_el (\<lambda>e. e\<lparr>el_src := src\<rparr>) s1)))"

definition resume_zms :: "mstream \<Rightarrow> mstream" where
  "resume_zms s = m_streamCommand CMD_PLAY (set_stream (s\<lparr>m_started := True\<rparr>))"

definition select_zms :: "nat \<Rightarrow> string \<Rightarrow> mstream \<Rightarrow> mstream" where
  "select_zms r uuid s0 =
     (case m_element s0 of
        None \<Rightarrow> m_emit M_TypeError (s0\<lparr>m_session := Some uuid\<rparr>)
      | Some e0 \<Rightarrow>
          (let e = (replaceDOMElement IMG e0)\<lparr>el_lazy := False, el_handlers := Some uuid\<rparr>;
               s = clear_stream (s0\<lparr>m_session := Some uuid, m_element := Some e\<rparr>)
           in if \<not> m_active s then m_kill s
              else (let s1 = (if srcAuthCurrent e s \<and> resumableZms s
                              then writeTextInfoBlock [] True (resume_zms s)
                              else if srcAuthCurrent e s \<and> includes_str (el_src e) ''mode=paused'' then resume_zms s
                              else rebuild_zms r e s)
                    in (running ''zms'' s1)\<lparr>m_stoppedPlayer := []\<rparr>)))"

section \<open>Starting\<close>

definition selectPlayer :: "nat \<Rightarrow> string \<Rightarrow> string \<Rightarrow> mstream \<Rightarrow> mstream option" where
  "selectPlayer r uuid ch s0 =
     (let s = (if m_player s0 = [] then s0\<lparr>m_player := m_default s0\<rparr> else s0);
          cur = m_player s
      in if cur \<noteq> [] \<and> getCountStreamErrors cur s = 0 \<or> m_selected s \<noteq> [] \<and> m_selected s = cur
         then (if m_go2rtc s \<and> includes_str cur ''go2rtc'' then Some (select_go2rtc uuid ch s)
               else if m_janusOn s \<and> includes_str cur ''janus''
                       \<and> (includes_str (map lower_char ch) ''primary'' \<or> m_view s = ''montage'' \<or> m_view s = ''zone'')
                       \<and> m_selected s \<noteq> ''go2rtc''
               then Some (select_janus uuid s)
               else if m_rtsp2web s \<and> includes_str cur ''rtsp2web'' \<and> m_selected s \<noteq> ''go2rtc''
               then select_rtsp2web uuid ch s
               else if includes_str cur ''zms'' then Some (select_zms r uuid s)
               else selectNextPlayer cur s)
         else selectNextPlayer cur s)"

definition m_start :: "nat \<Rightarrow> string \<Rightarrow> string option \<Rightarrow> mstream \<Rightarrow> mstream option" where
  "m_start r uuid channel s =
     (if \<not> m_active s then Some s
      else if m_started s \<or> m_starting s then Some s
      else (let ch0 = (case channel of None \<Rightarrow> ''default'' | Some c \<Rightarrow> if c = [] \<or> m_view s = ''montage'' then ''default'' else c);
                ch = (if ch0 = ''default'' then (if m_streamChannel s \<noteq> [] then m_streamChannel s else ''Restream'') else ch0)
            in selectPlayer r uuid ch (writeTextInfoBlock ''Loading...'' True (s\<lparr>m_starting := True\<rparr>))))"

text \<open>The timer of a scheduled restart.\<close>

definition restart_fires :: "nat \<Rightarrow> string \<Rightarrow> string option \<times> nat \<times> string option \<Rightarrow> mstream \<Rightarrow> mstream option" where
  "restart_fires r uuid p s =
     (let s1 = s\<lparr>m_restarts := remove1 p (m_restarts s)\<rparr>
      in if snd (snd p) \<noteq> m_session s1 then Some s1
         else if \<not> m_started s1 \<and> \<not> m_starting s1 then m_start r uuid (fst p) s1 else Some s1)"

section \<open>What stopping leaves alone\<close>

named_theorems m_ops \<open>definitions of the monitor's operations\<close>

lemmas [m_ops] = m_stop_def stop_player_def m_kill_def m_streamCommand_def m_streamCmdReq_def m_emit_def
  clear_status_def clear_stream_def set_status_def set_stream_def writeTextInfoBlock_def map_el_def quitConnKey_def
  set_connKey_def running_def reset_status_def schedule_restart_def errorText_def

lemma streamCommand_frame [simp]:
  "m_active (m_streamCommand c s) = m_active s" "m_selected (m_streamCommand c s) = m_selected s"
  "m_default (m_streamCommand c s) = m_default s" "m_player (m_streamCommand c s) = m_player s"
  "m_errors (m_streamCommand c s) = m_errors s" "m_started (m_streamCommand c s) = m_started s"
  "m_starting (m_streamCommand c s) = m_starting s" "m_activePlayer (m_streamCommand c s) = m_activePlayer s"
  "m_connKey (m_streamCommand c s) = m_connKey s" "m_element (m_streamCommand c s) = m_element s"
  "m_streamConn (m_streamCommand c s) = m_streamConn s" "m_statusConn (m_streamCommand c s) = m_statusConn s"
  "m_session (m_streamCommand c s) = m_session s" "m_restarts (m_streamCommand c s) = m_restarts s"
  "m_channel (m_streamCommand c s) = m_channel s" "m_stoppedPlayer (m_streamCommand c s) = m_stoppedPlayer s"
  "m_streamTimer (m_streamCommand c s) = m_streamTimer s" "m_statusTimer (m_streamCommand c s) = m_statusTimer s"
  "m_intervals (m_streamCommand c s) = m_intervals s" "m_next (m_streamCommand c s) = m_next s"
  by (simp_all add: m_streamCommand_def m_streamCmdReq_def m_emit_def writeTextInfoBlock_def Let_def)

lemma stop_player_frame [simp]:
  "m_active (stop_player w k s) = m_active s" "m_selected (stop_player w k s) = m_selected s"
  "m_default (stop_player w k s) = m_default s" "m_player (stop_player w k s) = m_player s"
  "m_errors (stop_player w k s) = m_errors s" "m_activePlayer (stop_player w k s) = m_activePlayer s"
  "m_connKey (stop_player w k s) = m_connKey s" "m_element (stop_player w k s) = m_element s"
  "m_streamConn (stop_player w k s) = m_streamConn s" "m_statusConn (stop_player w k s) = m_statusConn s"
  "m_session (stop_player w k s) = m_session s" "m_restarts (stop_player w k s) = m_restarts s"
  "m_channel (stop_player w k s) = m_channel s" "m_started (stop_player w k s) = m_started s"
  "m_starting (stop_player w k s) = m_starting s"
  "m_streamTimer (stop_player w k s) = m_streamTimer s" "m_statusTimer (stop_player w k s) = m_statusTimer s"
  "m_intervals (stop_player w k s) = m_intervals s" "m_next (stop_player w k s) = m_next s"
  by (simp_all add: stop_player_def m_emit_def Let_def)

lemma quiesce_frame [simp]:
  "m_active (quiesce s) = m_active s"
  "m_selected (quiesce s) = m_selected s"
  "m_default (quiesce s) = m_default s"
  "m_player (quiesce s) = m_player s"
  "m_errors (quiesce s) = m_errors s"
  "m_activePlayer (quiesce s) = m_activePlayer s"
  "m_connKey (quiesce s) = m_connKey s"
  "m_element (quiesce s) = m_element s"
  "m_streamConn (quiesce s) = m_streamConn s"
  "m_statusConn (quiesce s) = m_statusConn s"
  "m_session (quiesce s) = m_session s"
  "m_restarts (quiesce s) = m_restarts s"
  "m_channel (quiesce s) = m_channel s"
  "m_started (quiesce s) = m_started s"
  "m_starting (quiesce s) = m_starting s"
  "m_log (quiesce s) = m_log s"
  "m_stoppedPlayer (quiesce s) = m_stoppedPlayer s"
  by (simp_all add: quiesce_def clear_status_def clear_stream_def writeTextInfoBlock_def)

lemma m_stop_frame [simp]:
  "m_active (m_stop k s) = m_active s" "m_selected (m_stop k s) = m_selected s" "m_default (m_stop k s) = m_default s"
  "m_player (m_stop k s) = m_player s" "m_errors (m_stop k s) = m_errors s" "m_connKey (m_stop k s) = m_connKey s"
  "m_streamConn (m_stop k s) = m_streamConn s" "m_statusConn (m_stop k s) = m_statusConn s"
  "m_session (m_stop k s) = m_session s" "m_restarts (m_stop k s) = m_restarts s" "m_channel (m_stop k s) = m_channel s"
  "m_starting (m_stop k s) = False"
  by (simp_all add: m_stop_def map_el_def Let_def)

section \<open>Restarting returns\<close>

text \<open>The table of players keeps its rows; only the counts change.\<close>

definition table_ok :: "(nat \<times> string \<times> nat) list \<Rightarrow> bool" where
  "table_ok es \<longleftrightarrow> map (\<lambda>e. (fst e, fst (snd e))) es = map (\<lambda>e. (fst e, fst (snd e))) playerPriority"

lemma table_ok_init: "table_ok playerPriority"
  by (simp add: table_ok_def)

lemma count_up_rows: "map (\<lambda>e. (fst e, fst (snd e))) (count_up p f es) = map (\<lambda>e. (fst e, fst (snd e))) es"
  by (induction es) auto

lemma table_ok_count_up [simp]: "table_ok (count_up p f es) = table_ok es"
  by (simp add: table_ok_def count_up_rows)

lemma table_ok_reset [simp]: "table_ok (map (\<lambda>(k, n, _). (k, n, 0)) es) = table_ok es"
proof -
  have "map (\<lambda>e. (fst e, fst (snd e))) (map (\<lambda>(k, n, _). (k, n, 0 :: nat)) es) = map (\<lambda>e. (fst e, fst (snd e))) es"
    by (induction es) auto
  then show ?thesis unfolding table_ok_def by (simp only:)
qed

lemma entry_of_in: "entry_of p es = Some e \<Longrightarrow> e \<in> set es \<and> includes_str p (fst (snd e))"
  by (induction es) (auto split: if_splits)

lemma includes_self: "includes_str p p"
  by (cases p) (simp_all add: starts_with_def)

lemma entry_of_split:
  "includes_str p (fst (snd e)) \<Longrightarrow> \<forall>x \<in> set xs. \<not> includes_str p (fst (snd x)) \<Longrightarrow> entry_of p (xs @ e # ys) = Some e"
  by (induction xs) auto

text \<open>No player's name occurs in the name of a later one, so every row is found by its name.\<close>

lemma table_names:
  assumes "table_ok es"
  shows "sorted_wrt (\<lambda>x y. \<not> includes_str (fst (snd y)) (fst (snd x))) es"
proof -
  have "sorted_wrt (\<lambda>x y. \<not> includes_str (snd y) (snd x)) (map (\<lambda>e. (fst e, fst (snd e))) playerPriority)"
    by code_simp
  then have "sorted_wrt (\<lambda>x y. \<not> includes_str (snd y) (snd x)) (map (\<lambda>e. (fst e, fst (snd e))) es)"
    using assms by (simp only: table_ok_def)
  then show ?thesis by (simp add: sorted_wrt_map)
qed

lemma entry_of_name:
  assumes "table_ok es" and "e \<in> set es"
  shows "entry_of (fst (snd e)) es = Some e"
proof -
  obtain xs ys where es: "es = xs @ e # ys" using assms(2) by (meson split_list)
  then have "\<forall>x \<in> set xs. \<not> includes_str (fst (snd e)) (fst (snd x))"
    using table_names [OF assms(1)] by (simp add: sorted_wrt_append)
  then show ?thesis unfolding es by (intro entry_of_split) (simp_all add: includes_self)
qed

abbreviation stopped_state :: "mstream \<Rightarrow> mstream" where
  "stopped_state s \<equiv> (m_stop False s)\<lparr>m_stoppedPlayer := []\<rparr>"

definition restart_loops :: "mstream \<Rightarrow> bool" where
  "restart_loops s \<longleftrightarrow> m_active s \<and> m_selected s = [] \<and> entry_of (m_default s) (m_errors s) = None
     \<and> limitCountErrors \<le> getCountStreamErrors (m_player s) s \<and> limitCountErrors \<le> getCountStreamErrors ''zms'' s"

lemma count_frame [simp]:
  "getCountStreamErrors p (m_stop k s) = getCountStreamErrors p s"
  "getCountStreamErrors p (s\<lparr>m_stoppedPlayer := x\<rparr>) = getCountStreamErrors p s"
  "getCountStreamErrors p (s\<lparr>m_player := y\<rparr>) = getCountStreamErrors p s"
  by (simp_all add: getCountStreamErrors_def)

lemma restart_early:
  "getCountStreamErrors (m_player s) s < limitCountErrors \<or> m_selected s \<noteq> [] \<or> \<not> m_active s
     \<Longrightarrow> \<exists>t. restart ch d s = Some t"
  by (subst restart.simps) (auto simp: Let_def)

lemma restart_next:
  assumes "limitCountErrors \<le> getCountStreamErrors (m_player s) s" and "m_selected s = []" and "m_active s"
  shows "restart ch d s = (case next_player [] (stopped_state s) of
      GiveUp \<Rightarrow> Some ((stopped_state s)\<lparr>m_fatal := True\<rparr>)
    | Try p \<Rightarrow> restart (m_channel s) 200 ((stopped_state s)\<lparr>m_player := p\<rparr>))"
  using assms by (subst restart.simps) (simp add: Let_def split: choice.split)

lemma set_tl: "x \<in> set (tl xs) \<Longrightarrow> x \<in> set xs"
  by (cases xs) simp_all

text \<open>What the search proposes: zms, or a player without errors.\<close>

lemma eligible_found:
  assumes "table_ok (m_errors s)" and "filter (eligible s) (tl (dropWhile P (sort_key fst (m_errors s)))) = e # es"
  shows "getCountStreamErrors (fst (snd e)) s = 0"
proof -
  have "e \<in> set (filter (eligible s) (tl (dropWhile P (sort_key fst (m_errors s)))))" using assms(2) by simp
  then have el: "eligible s e" and "e \<in> set (tl (dropWhile P (sort_key fst (m_errors s))))" by simp_all
  then have "e \<in> set (sort_key fst (m_errors s))" by (meson set_tl set_dropWhileD)
  then have "entry_of (fst (snd e)) (m_errors s) = Some e" using entry_of_name [OF assms(1)] by simp
  then show ?thesis using el by (simp add: getCountStreamErrors_def eligible_def Let_def)
qed

lemma next_player_Try:
  assumes "table_ok (m_errors s)" and "next_player cur s = Try p"
  shows "p = ''zms'' \<or> getCountStreamErrors p s = 0"
  using assms eligible_found [OF assms(1)]
  by (auto simp: next_player_def Let_def split: option.splits prod.splits list.splits if_splits)

lemma next_player_zms:
  assumes "table_ok (m_errors s)" and "m_player s = ''zms''"
    and "entry_of (if m_default s = ''zms'' then ''default'' else m_default s) (m_errors s) = Some (k, n, c)"
  shows "next_player [] s = GiveUp \<or> (\<exists>q. next_player [] s = Try q \<and> getCountStreamErrors q s = 0)"
proof (cases "filter (eligible s) (tl (dropWhile (\<lambda>e. fst e \<noteq> k) (sort_key fst (m_errors s))))")
  case Nil
  then have "next_player [] s = GiveUp"
    using assms(2,3) by (cases "m_default s = ''zms''") (simp_all add: next_player_def Let_def)
  then show ?thesis by simp
next
  case (Cons e es)
  then have "next_player [] s = Try (fst (snd e))"
    using assms(2,3) by (cases "m_default s = ''zms''") (simp_all add: next_player_def Let_def)
  then show ?thesis using eligible_found [OF assms(1) Cons] by simp
qed

lemma default_listed: "table_ok es \<Longrightarrow> entry_of ''default'' es \<noteq> None"
  by (cases es) (auto simp: table_ok_def playerPriority_def starts_with_def)

lemma restart_loops_none:
  assumes "restart ch d s = Some t"
  shows "\<not> restart_loops s"
proof (rule restart.raw_induct [where P = "\<lambda>ch d s t. \<not> restart_loops s", OF _ assms])
  fix rec :: "string option \<Rightarrow> nat \<Rightarrow> mstream \<Rightarrow> mstream option" and ch d s t
  assume ih: "\<And>ch d s t. rec ch d s = Some t \<Longrightarrow> \<not> restart_loops s"
    and body: "(let s = stopped_state s
      in if getCountStreamErrors (m_player s) s < limitCountErrors then Some (schedule_restart ch d s)
         else if m_selected s \<noteq> [] then Some (errorText s)
         else if \<not> m_active s then Some (m_kill s)
         else (case next_player [] s of
                 Try p \<Rightarrow> rec (m_channel s) 200 (s\<lparr>m_player := p\<rparr>)
               | GiveUp \<Rightarrow> Some (s\<lparr>m_fatal := True\<rparr>))) = Some t"
  show "\<not> restart_loops s"
  proof
    assume l: "restart_loops s"
    then have "m_default s \<noteq> m_player s"
      by (auto simp: restart_loops_def getCountStreamErrors_def limitCountErrors_def split: if_splits)
    then have n: "next_player [] (stopped_state s) = Try ''zms''"
      using l by (simp add: restart_loops_def next_player_def Let_def)
    have "rec (m_channel s) 200 ((stopped_state s)\<lparr>m_player := ''zms''\<rparr>) = Some t"
      using body l n by (simp add: restart_loops_def Let_def)
    from ih [OF this] show False using l by (simp add: restart_loops_def)
  qed
qed

lemma restart_returns:
  assumes tab: "table_ok (m_errors s)" and nl: "\<not> restart_loops s"
  shows "\<exists>t. restart ch d s = Some t"
proof (cases "getCountStreamErrors (m_player s) s < limitCountErrors \<or> m_selected s \<noteq> [] \<or> \<not> m_active s")
  case True
  then show ?thesis by (rule restart_early)
next
  case False
  then have a: "limitCountErrors \<le> getCountStreamErrors (m_player s) s" "m_selected s = []" "m_active s" by auto
  show ?thesis
  proof (cases "next_player [] (stopped_state s)")
    case GiveUp
    then show ?thesis using restart_next [OF a] by simp
  next
    case (Try p)
    let ?s = "(stopped_state s)\<lparr>m_player := p\<rparr>"
    have r: "restart ch d s = restart (m_channel s) 200 ?s" using restart_next [OF a] Try by simp
    show ?thesis
    proof (cases "getCountStreamErrors p s < limitCountErrors")
      case True
      then show ?thesis unfolding r by (intro restart_early) simp
    next
      case high: False
      then have p: "p = ''zms''"
        using next_player_Try [OF _ Try] tab by (auto simp: limitCountErrors_def)
      have b: "limitCountErrors \<le> getCountStreamErrors (m_player ?s) ?s" "m_selected ?s = []" "m_active ?s"
        using high a by auto
      have "entry_of (m_default s) (m_errors s) \<noteq> None"
        using nl a high p unfolding restart_loops_def by simp
      then have "entry_of (if m_default s = ''zms'' then ''default'' else m_default s) (m_errors s) \<noteq> None"
        using default_listed [OF tab] by (cases "m_default s = ''zms''") simp_all
      then obtain k n c where
        "entry_of (if m_default s = ''zms'' then ''default'' else m_default s) (m_errors s) = Some (k, n, c)"
        by (metis option.exhaust prod_cases3)
      then have "entry_of (if m_default (stopped_state ?s) = ''zms'' then ''default'' else m_default (stopped_state ?s))
          (m_errors (stopped_state ?s)) = Some (k, n, c)" by (simp split: if_split_asm)
      then consider "next_player [] (stopped_state ?s) = GiveUp"
        | q where "next_player [] (stopped_state ?s) = Try q" "getCountStreamErrors q (stopped_state ?s) = 0"
        using next_player_zms [of "stopped_state ?s" k n c] tab p by auto
      then show ?thesis
      proof cases
        case 1
        then show ?thesis unfolding r using restart_next [OF b] by simp
      next
        case 2
        then show ?thesis
          unfolding r using restart_next [OF b] restart_early [of "(stopped_state ?s)\<lparr>m_player := q\<rparr>"]
          by (simp add: limitCountErrors_def)
      qed
    qed
  qed
qed

section \<open>A monitor to run\<close>


definition demo_monitor :: "string \<Rightarrow> mstream" where
  "demo_monitor p = \<lparr>m_id = ''7'', m_url_to_zms = ''/zms?monitor=7&mode=single'', m_width = 1280, m_started = False, m_starting = False,
     m_active = True, m_fatal = False, m_zmsState = [], m_connKey = None, m_streamConn = None, m_statusConn = None,
     m_element = Some \<lparr>nodeName = IMG, el_src = [], el_lazy = False, el_handlers = None\<rparr>, m_player = p,
     m_default = (if p = [] then ''default'' else p),
     m_activePlayer = [], m_stoppedPlayer = [], m_selected = [], m_rtsp2webType = [], m_errors = playerPriority, m_session = None,
     m_channel = None, m_statusTimer = None, m_streamTimer = None, m_intervals = [], m_next = 0, m_restarts = [], m_attempts = 0,
     m_authTimer = None, m_refreshing = [], m_go2rtc = True, m_rtsp2web = False, m_janusOn = False, m_RTSPServer = False,
     m_streamChannel = [], m_go2rtcPath = True, m_rtsp2webPath = False, m_hlsLib = False, m_view = ''watch'', m_webrtc = False,
     m_hls = False, m_mseCleared = True, m_janus = False, m_janusPending = 0, m_unload = False, m_scale = Fin 100,
     m_analyse = False, m_auth = \<lparr>relay = ''auth=a1''\<rparr>, m_info = [], m_infoImg = False, m_log = []\<rparr>"

end
