(* ===== verification/Monitor_Stream.thy ===== *)
theory Monitor_Stream
  imports Monitor_Players
begin

text \<open>
  What happens to a monitor's live stream (\<^verbatim>\<open>web/js/MonitorStream.js\<close>): errors and loads of the
  zms image with the reconnect after an expired credential, replies of zms, the scale, the
  buffered video of the other players; all events of one monitor as an executable machine,
  and what holds in every run of it.
\<close>

section \<open>The image of zms\<close>

definition MAX_AUTH_REFRESH_ATTEMPTS :: nat where "MAX_AUTH_REFRESH_ATTEMPTS = 3"

definition image_failed :: "mstream \<Rightarrow> mstream" where
  "image_failed s0 =
     (if \<not> m_active s0 then s0
      else (let s1 = writeTextInfoBlock ''Error'' False (clear_stream (streamErrorRegistration False s0));
                brokenSrc = (case m_element s1 of None \<Rightarrow> m_url_to_zms s1
                             | Some e \<Rightarrow> if el_src e \<noteq> [] then el_src e else m_url_to_zms s1);
                s2 = m_emit (M_ImgError (m_connKey s1)) (map_el (\<lambda>e. e\<lparr>el_src := []\<rparr>) s1)
            in if MAX_AUTH_REFRESH_ATTEMPTS \<le> m_attempts s2 then s2
               else (let n = m_attempts s2 + 1
                     in (writeTextInfoBlock ''Reconnecting...'' True s2)\<lparr>m_attempts := n, m_authTimer := Some (2000 * 2 ^ (n - 1), brokenSrc)\<rparr>)))"

definition image_loaded :: "mstream \<Rightarrow> mstream" where
  "image_loaded s0 =
     (let s = s0\<lparr>m_attempts := 0, m_authTimer := None\<rparr>
      in if \<not> m_started s \<or> m_streamTimer s \<noteq> None then s
         else writeTextInfoBlock [] True (set_stream (m_streamCmdQuery s)))"

text \<open>The handlers \<^verbatim>\<open>select_zms\<close> attached, for the playback session they belong to.\<close>

definition handlers_live :: "mstream \<Rightarrow> bool" where
  "handlers_live s = (case m_element s of None \<Rightarrow> False
     | Some e \<Rightarrow> el_handlers e \<noteq> None \<and> el_handlers e = m_session s)"

definition m_img_onerror :: "mstream \<Rightarrow> mstream" where
  "m_img_onerror s = (if handlers_live s then image_failed s else s)"

definition m_img_onload :: "mstream \<Rightarrow> mstream" where
  "m_img_onload s = (if handlers_live s then image_loaded (resetCountStreamErrors (m_activePlayer s) s) else s)"

text \<open>The timer of the reconnect asks for a fresh credential; the request is then under way.\<close>

definition auth_timer_fires :: "mstream \<Rightarrow> mstream" where
  "auth_timer_fires s = (case m_authTimer s of None \<Rightarrow> s
     | Some (d, src) \<Rightarrow> s\<lparr>m_authTimer := None, m_refreshing := m_refreshing s @ [src]\<rparr>)"

definition auth_refreshed :: "nat \<Rightarrow> auth_reply option \<Rightarrow> string \<Rightarrow> mstream \<Rightarrow> mstream" where
  "auth_refreshed r reply src s0 =
     (let s = s0\<lparr>m_refreshing := remove1 src (m_refreshing s0), m_auth := snd (ZMAuth_update reply (m_auth s0))\<rparr>
      in (case m_element s of
            None \<Rightarrow> s
          | Some e \<Rightarrow>
              (let k = genConnKey r;
                   s1 = set_connKey k (case m_connKey s of None \<Rightarrow> s | Some old \<Rightarrow> m_emit (M_Replaced old) s);
                   new = ZMAuth_applyTo (m_auth s) src (JStr k)
               in m_emit (M_Opened k new) (map_el (\<lambda>e. e\<lparr>el_src := new\<rparr>) s1))))"

definition auth_refresh_failed :: "int \<Rightarrow> string \<Rightarrow> mstream \<Rightarrow> mstream" where
  "auth_refresh_failed st src s0 =
     (let s = s0\<lparr>m_refreshing := remove1 src (m_refreshing s0)\<rparr>
      in if authFailureAction st = Login then m_emit M_Login s else writeTextInfoBlock ''Error'' False s)"

section \<open>Replies of zms\<close>

definition streamErrorIsFatal :: "string \<Rightarrow> bool" where
  "streamErrorIsFatal reason \<longleftrightarrow> reason = [] \<or> reason = ''no_socket''"

text \<open>
  What the reply says about the connection: the scale zms sends at, whether it sends
  analysis images, and the credential. What it shows on the page is not modelled.
\<close>

record m_status =
  ms_scale :: "js_num option"
  ms_analysis :: jsval
  ms_auth :: auth_reply

datatype m_reply = M_ErrorReply string | M_OkReply "m_status option"

definition apply_status :: "m_status \<Rightarrow> mstream \<Rightarrow> mstream" where
  "apply_status v s0 =
     (let s1 = (case ms_scale v of None \<Rightarrow> s0
                | Some x \<Rightarrow> if \<not> num_eq x (m_scale s0) \<and> \<not> num_eq x (Fin 0)
                           then m_streamCommand (CMD_SCALE (JNum (m_scale s0))) s0 else s0);
          s2 = (if ms_analysis v \<noteq> JUndef then s1\<lparr>m_analyse := truthy (ms_analysis v)\<rparr> else s1)
      in s2\<lparr>m_auth := snd (ZMAuth_update (Some (ms_auth v)) (m_auth s2))\<rparr>)"

text \<open>
  A \<^verbatim>\<open>video-stream\<close> has a setter for \<^verbatim>\<open>src\<close> but no getter, so what is read of it is undefined and
  counts as no source.
\<close>

definition reload_stream :: "nat \<Rightarrow> nat \<Rightarrow> media_el \<Rightarrow> mstream \<Rightarrow> mstream" where
  "reload_stream r now e s =
     (let k = genConnKey r;
          s1 = set_connKey k (quitConnKey (m_connKey s) s);
          read = (if nodeName e = VIDEO_STREAM then [] else el_src e);
          src = addOrUpdateRandParam now (ZMAuth_applyTo (m_auth s1) read (JStr k));
          s2 = map_el (\<lambda>e. e\<lparr>el_src := src\<rparr>) s1
      in if nodeName e = IMG then m_emit (M_Opened k src) s2 else s2)"

definition m_getStreamCmdResponse :: "nat \<Rightarrow> nat \<Rightarrow> m_reply \<Rightarrow> string option \<Rightarrow> mstream \<Rightarrow> mstream" where
  "m_getStreamCmdResponse r now rsp k s =
     (case m_element s of
        None \<Rightarrow> s
      | Some e \<Rightarrow>
          (if k \<noteq> m_connKey s then s
           else (case rsp of
               M_OkReply st \<Rightarrow>
                 (let s1 = (case st of None \<Rightarrow> s | Some v \<Rightarrow> apply_status v s)
                  in if m_started s1 \<and> m_streamTimer s1 = None then set_stream s1 else s1)
             | M_ErrorReply reason \<Rightarrow>
                 if \<not> m_started s then s
                 else if \<not> streamErrorIsFatal reason then s
                 else reload_stream r now e s)))"

definition onFailure :: "string \<Rightarrow> mstream \<Rightarrow> mstream" where
  "onFailure err s = (if err = ''Unauthorized'' then m_emit M_Login s else s)"

section \<open>Scale\<close>

text \<open>
  \<open>fw\<close> is the width of the monitor's frame. Without a connkey the scale goes into the source.
\<close>

definition is_scale :: "string \<Rightarrow> bool" where
  "is_scale s = (starts_ci ''scale='' s \<and> takeWhile is_digit (drop 6 s) \<noteq> [])"

fun set_scale_param :: "string \<Rightarrow> string \<Rightarrow> string" where
  "set_scale_param v [] = []"
| "set_scale_param v (c # s) =
     (if is_scale (c # s) then ''scale='' @ v @ dropWhile is_digit (drop 6 (c # s)) else c # set_scale_param v s)"

definition limit_scale :: "js_num \<Rightarrow> js_num \<Rightarrow> js_num" where
  "limit_scale x q =
     (let a = (if num_lt (Fin 100) x then Fin 100 else x);
          b = (if num_lt a (Fin 25) \<and> num_lt (Fin (-1)) q then Fin 25 else a)
      in if num_le b (Fin 0) then Fin 100 else b)"

definition setStreamScale :: "rat \<Rightarrow> js_num \<Rightarrow> js_num \<Rightarrow> mstream \<Rightarrow> mstream" where
  "setStreamScale fw newscale q s =
     (case m_element s of
        None \<Rightarrow> s
      | Some e \<Rightarrow>
          (let x0 = (if truthy (JNum newscale) then newscale else Fin (of_int \<lfloor>100 * of_int \<lfloor>fw\<rfloor> / m_width s\<rfloor>));
               x = limit_scale x0 q;
               s1 = s\<lparr>m_scale := x\<rparr>
           in if nodeName e = IMG \<and> m_started s1 \<and> \<not> has_key s1 \<and> el_src e \<noteq> []
              then (let new = ZMAuth_applyTo (m_auth s1) (set_scale_param (num_to_str x) (el_src e)) JUndef
                    in if new = el_src e then s1
                       else (let s2 = clear_stream s1;
                                 s3 = (if includes_str (el_src e) ''connkey'' \<and> includes_str (el_src e) ''mode=single''
                                       then m_streamCommand CMD_QUIT s2 else s2)
                             in set_stream (map_el (\<lambda>e. e\<lparr>el_src := new\<rparr>) s3)))
              else s1))"

section \<open>Keeping buffered video at the present\<close>

text \<open>
  \<open>fixed2\<close> is the number \<^verbatim>\<open>toFixed(2)\<close> writes. The answer is the time the video is set to, if
  it is, the corrected start time and whether the player is restarted, if so with an error
  registered.
\<close>

record video_state =
  v_socket :: bool
  v_bufferEnd :: "rat option"
  v_currentTime :: rat
  v_paused :: bool
  v_sourceOpen :: bool

datatype mse_action = MseNothing | MseRestart bool

definition fixed2 :: "rat \<Rightarrow> rat" where
  "fixed2 x = (if x < 0 then - of_int (math_round (- x * 100)) / 100 else of_int (math_round (x * 100)) / 100)"

definition manageMSESocket :: "rat \<Rightarrow> rat \<Rightarrow> bool \<Rightarrow> video_state \<Rightarrow> rat option \<times> rat \<times> mse_action" where
  "manageMSESocket now start isStarted v =
     (case (v_socket v, v_bufferEnd v) of
        (True, Some bufferEnd) \<Rightarrow>
          (let deltaReal = fixed2 (now - start);
               delay = fixed2 (deltaReal - v_currentTime v);
               start1 = (if delay < 0 then now - bufferEnd else start)
           in if start1 = 0 then (None, start1, MseNothing)
              else if \<not> v_paused v \<and> 10 < deltaReal
              then ((if 2 < bufferEnd - v_currentTime v then Some (bufferEnd - 1 / 10) else None), start1,
                    (if 3 / 2 < deltaReal - bufferEnd then MseRestart False else MseNothing))
              else (None, start1, MseNothing))
      | (True, None) \<Rightarrow> (None, start, MseNothing)
      | (False, _) \<Rightarrow> (None, start, if isStarted \<and> v_sourceOpen v then MseRestart True else MseNothing))"

text \<open>An error of a player that is reported by its element, its socket or its connection.\<close>

definition player_error :: "mstream \<Rightarrow> mstream option" where
  "player_error s = restart (m_channel s) 200 (streamErrorRegistration False s)"

text \<open>video-stream.js: the element names the mode that failed, and the player becomes that one.\<close>

definition go2rtc_error :: "string \<Rightarrow> mstream \<Rightarrow> mstream option" where
  "go2rtc_error mode s = map_option (writeTextInfoBlock ''Error'' True)
     (player_error (s\<lparr>m_player := ''go2rtc_'' @ mode\<rparr>))"

section \<open>The machine\<close>

text \<open>
  The events of one monitor: calls of the page (\<open>SetActive\<close> is the page's write of
  \<^verbatim>\<open>isActive\<close>), timers, the browser's events on the image, replies in any order, and errors of
  the other players. Every event carries the random number and the identifier it may draw.
  An event that cannot happen in a state leaves it unchanged; \<open>None\<close> is a call that never
  returns.
\<close>

datatype m_event = Start "string option" | Stop | Kill | Pause | Play | SetPlayer string string | SetActive bool
  | SetChannel string | RestartFires "string option \<times> nat \<times> string option" | ImgError | ImgLoad | AuthTimer
  | AuthDone "auth_reply option" string | AuthFail int string | Reply nat m_reply "string option" | Failed string | StreamPoll
  | Scale rat js_num js_num | MaxFPS jsval | Analyse bool | Alarm string | PlayerError | Go2rtcError string | JanusReady
  | MseLag rat rat video_state

fun m_exec :: "nat \<Rightarrow> string \<Rightarrow> m_event \<Rightarrow> mstream \<Rightarrow> mstream option" where
  "m_exec r u (Start ch) s = m_start r u ch s"
| "m_exec r u Stop s = Some (m_stop False s)"
| "m_exec r u Kill s = Some (m_kill s)"
| "m_exec r u Pause s = Some (m_pause s)"
| "m_exec r u Play s = Some (m_play s)"
| "m_exec r u (SetPlayer p ui) s = Some (setPlayer p ui s)"
| "m_exec r u (SetActive b) s = Some (s\<lparr>m_active := b\<rparr>)"
| "m_exec r u (SetChannel c) s = Some (s\<lparr>m_channel := Some c\<rparr>)"
| "m_exec r u (RestartFires p) s = (if p \<in> set (m_restarts s) then restart_fires r u p s else Some s)"
| "m_exec r u ImgError s = Some (m_img_onerror s)"
| "m_exec r u ImgLoad s = Some (m_img_onload s)"
| "m_exec r u AuthTimer s = Some (auth_timer_fires s)"
| "m_exec r u (AuthDone reply src) s = Some (if src \<in> set (m_refreshing s) then auth_refreshed r reply src s else s)"
| "m_exec r u (AuthFail st src) s = Some (if src \<in> set (m_refreshing s) then auth_refresh_failed st src s else s)"
| "m_exec r u (Reply now rsp k) s = Some (m_getStreamCmdResponse r now rsp k s)"
| "m_exec r u (Failed err) s = Some (onFailure err s)"
| "m_exec r u StreamPoll s = Some (if m_streamTimer s \<noteq> None then m_streamCmdQuery s else s)"
| "m_exec r u (Scale fw x q) s = Some (setStreamScale fw x q s)"
| "m_exec r u (MaxFPS v) s = Some (setMaxFPS v s)"
| "m_exec r u (Analyse b) s = Some (show_analyse_frames b s)"
| "m_exec r u (Alarm c) s = Some (alarmCommand c s)"
| "m_exec r u PlayerError s = player_error s"
| "m_exec r u (Go2rtcError mode) s = go2rtc_error mode s"
| "m_exec r u JanusReady s = Some (if 0 < m_janusPending s then janus_ready s else s)"
| "m_exec r u (MseLag now st v) s = (case snd (snd (manageMSESocket now st (m_started s) v)) of
     MseNothing \<Rightarrow> Some s
   | MseRestart err \<Rightarrow> restart (m_channel s) 200 (if err then streamErrorRegistration False s else s))"

fun m_run :: "(nat \<times> string \<times> m_event) list \<Rightarrow> mstream \<Rightarrow> mstream option" where
  "m_run [] s = Some s"
| "m_run ((r, u, ev) # evs) s = Option.bind (m_exec r u ev s) (m_run evs)"

text \<open>A monitor as the page creates it, with the image the server rendered under its connkey.\<close>

definition fresh_monitor :: "mstream \<Rightarrow> bool" where
  "fresh_monitor s \<longleftrightarrow> \<not> m_started s \<and> \<not> m_starting s \<and> m_activePlayer s = [] \<and> m_errors s = playerPriority
     \<and> m_streamConn s = m_connKey s \<and> m_statusConn s = m_connKey s \<and> m_connKey s \<noteq> Some []
     \<and> m_statusTimer s = None \<and> m_streamTimer s = None \<and> m_intervals s = []
     \<and> (\<forall>k u. M_Opened k u \<in> set (m_log s) \<longrightarrow> m_connKey s = Some k)"

section \<open>The connection\<close>

definition m_accounted :: "m_entry list \<Rightarrow> string option \<Rightarrow> bool" where
  "m_accounted l ck \<longleftrightarrow> (\<forall>k u. M_Opened k u \<in> set l \<longrightarrow>
     ck = Some k \<or> M_Sent (Some k) CMD_QUIT \<in> set l \<or> M_Replaced k \<in> set l)"

definition conn_ok :: "mstream \<Rightarrow> bool" where
  "conn_ok s \<longleftrightarrow> m_streamConn s = m_connKey s \<and> m_statusConn s = m_connKey s \<and> m_connKey s \<noteq> Some []
     \<and> m_accounted (m_log s) (m_connKey s)"

text \<open>A step that keeps the connkey and opens nothing.\<close>

definition quiet :: "mstream \<Rightarrow> mstream \<Rightarrow> bool" where
  "quiet s t \<longleftrightarrow> m_connKey t = m_connKey s \<and> m_streamConn t = m_streamConn s \<and> m_statusConn t = m_statusConn s
     \<and> set (m_log s) \<subseteq> set (m_log t)
     \<and> (\<forall>k u. M_Opened k u \<in> set (m_log t) \<longrightarrow> M_Opened k u \<in> set (m_log s))"

lemma quiet_refl [simp, intro]: "quiet s s"
  by (simp add: quiet_def)

lemma quiet_trans: "quiet s t \<Longrightarrow> quiet t u \<Longrightarrow> quiet s u"
  unfolding quiet_def by auto

lemma quiet_conn: "quiet s t \<Longrightarrow> conn_ok s \<Longrightarrow> conn_ok t"
  unfolding quiet_def conn_ok_def m_accounted_def by (metis subset_iff)

lemma quiet_same:
  "m_connKey t = m_connKey s \<Longrightarrow> m_streamConn t = m_streamConn s \<Longrightarrow> m_statusConn t = m_statusConn s \<Longrightarrow> m_log t = m_log s
     \<Longrightarrow> quiet s t"
  by (simp add: quiet_def)

lemma quiet_emit: "\<forall>k u. M_Opened k u \<noteq> e \<Longrightarrow> quiet s (m_emit e s)"
  by (auto simp: quiet_def m_emit_def)

lemma quiet_req: "quiet s (m_streamCmdReq k c s)"
  by (auto simp: quiet_def m_streamCmdReq_def m_emit_def writeTextInfoBlock_def Let_def)

lemma quiet_command: "quiet s (m_streamCommand c s)"
  using quiet_req [of s "m_streamConn s" c] by (auto simp: m_streamCommand_def quiet_def Let_def)

lemma quiet_quit: "quiet s (quitConnKey k s)"
  by (auto simp: quitConnKey_def quiet_emit split: option.split)

lemma quiet_stop_player: "quiet s (stop_player w k s)"
  using quiet_command [of s CMD_STOP] by (auto simp: stop_player_def Let_def quiet_def m_emit_def)

lemma quiet_stop: "quiet s (m_stop k s)"
proof -
  let ?s = "s\<lparr>m_starting := False, m_unload := False\<rparr>"
  have "quiet s (quiesce ?s)" by (rule quiet_same) simp_all
  then have "quiet s (stop_player w k (quiesce ?s))" for w
    using quiet_trans quiet_stop_player by blast
  from this [of True] this [of False] show ?thesis
    by (cases "m_starting s") (auto simp: m_stop_def Let_def quiet_def map_el_def)
qed

section \<open>Players, elements and polls\<close>

text \<open>
  The shape of a state: the player that runs is one of the six, it runs only while the stream
  is started, and the element on the page is of the kind it needs.
\<close>

definition rows :: "mstream \<Rightarrow> (nat \<times> string) list" where
  "rows s = map (\<lambda>e. (fst e, fst (snd e))) (m_errors s)"

definition kind :: "mstream \<Rightarrow> node option" where
  "kind s = map_option nodeName (m_element s)"

definition known_players :: "string list" where
  "known_players = [[], ''zms'', ''go2rtc'', ''rtsp2web_hls'', ''rtsp2web_mse'', ''rtsp2web_webrtc'', ''janus'']"

definition typed :: "mstream \<Rightarrow> bool" where
  "typed s \<longleftrightarrow> table_ok (m_errors s) \<and> m_activePlayer s \<in> set known_players \<and> (m_activePlayer s \<noteq> [] \<longrightarrow> m_started s)
     \<and> (m_activePlayer s = ''zms'' \<longrightarrow> kind s = Some IMG)
     \<and> (m_activePlayer s = ''go2rtc'' \<longrightarrow> kind s = Some VIDEO_STREAM)
     \<and> (m_activePlayer s \<in> {''rtsp2web_hls'', ''rtsp2web_mse'', ''rtsp2web_webrtc''} \<longrightarrow> kind s = Some VIDEO)"

text \<open>The polls of zms: an interval runs exactly while its id is held.\<close>

definition ticks :: "(nat \<times> tick) set \<Rightarrow> nat option \<Rightarrow> nat option \<Rightarrow> nat \<Rightarrow> bool" where
  "ticks ts stream st n \<longleftrightarrow> (\<forall>i. (i, StreamTick) \<in> ts \<longleftrightarrow> i \<in> set_option stream)
     \<and> (\<forall>(i, k) \<in> ts. i < n) \<and> (\<forall>i \<in> set_option st. i \<notin> set_option stream \<and> i < n)"

definition ticks_ok :: "mstream \<Rightarrow> bool" where
  "ticks_ok s \<longleftrightarrow> ticks (set (m_intervals s)) (m_streamTimer s) (m_statusTimer s) (m_next s)"

lemma ticks_clear:
  "ticks ts a b n \<Longrightarrow> ticks {p \<in> ts. Some (fst p) \<noteq> b} a None n"
  "ticks ts a b n \<Longrightarrow> ticks {p \<in> ts. Some (fst p) \<noteq> a} None b n"
  by (cases a; cases b; auto simp: ticks_def)+

lemma ticks_set:
  "ticks ts a b n \<Longrightarrow> ticks (insert (n, StatusTick) ts) a (Some n) (Suc n)"
  "ticks ts None b n \<Longrightarrow> ticks (insert (n, StreamTick) ts) (Some n) b (Suc n)"
  by (cases a; cases b; fastforce simp: ticks_def less_Suc_eq)+

definition m_inv :: "mstream \<Rightarrow> bool" where
  "m_inv s \<longleftrightarrow> conn_ok s \<and> typed s \<and> ticks_ok s"

text \<open>A step that keeps the connection and the player, and does not lose a poll.\<close>

definition mild :: "mstream \<Rightarrow> mstream \<Rightarrow> bool" where
  "mild s t \<longleftrightarrow> quiet s t \<and> rows t = rows s \<and> kind t = kind s \<and> m_activePlayer t = m_activePlayer s
     \<and> (m_started s \<longrightarrow> m_started t) \<and> (ticks_ok s \<longrightarrow> ticks_ok t)"

lemma mild_refl [simp, intro]: "mild s s"
  by (simp add: mild_def)

lemma mild_trans: "mild s t \<Longrightarrow> mild t u \<Longrightarrow> mild s u"
  unfolding mild_def by (metis quiet_trans)

lemma mild_kind: "mild s t \<Longrightarrow> kind t = kind s"
  by (simp add: mild_def)

lemma mild_typed: "mild s t \<Longrightarrow> typed s \<Longrightarrow> typed t"
  by (simp add: mild_def typed_def table_ok_def flip: rows_def)

lemma mild_inv: "mild s t \<Longrightarrow> m_inv s \<Longrightarrow> m_inv t"
  using mild_typed [of s t] by (auto simp: m_inv_def mild_def quiet_conn)

lemma mildI:
  "quiet s t \<Longrightarrow> rows t = rows s \<Longrightarrow> kind t = kind s \<Longrightarrow> m_activePlayer t = m_activePlayer s \<Longrightarrow> (m_started s \<Longrightarrow> m_started t)
     \<Longrightarrow> m_intervals t = m_intervals s \<Longrightarrow> m_streamTimer t = m_streamTimer s \<Longrightarrow> m_statusTimer t = m_statusTimer s
     \<Longrightarrow> m_next t = m_next s \<Longrightarrow> mild s t"
  by (simp add: mild_def ticks_ok_def)

lemma mild_update:
  "mild s (s\<lparr>m_session := b\<rparr>)" "mild s (s\<lparr>m_channel := c\<rparr>)"
  "mild s (s\<lparr>m_player := d\<rparr>)" "mild s (s\<lparr>m_started := True\<rparr>)" "mild s (s\<lparr>m_starting := e\<rparr>)"
  "mild s (s\<lparr>m_active := e\<rparr>)" "mild s (s\<lparr>m_fatal := e\<rparr>)" "mild s (s\<lparr>m_webrtc := e\<rparr>)" "mild s (s\<lparr>m_hls := e\<rparr>)"
  "mild s (s\<lparr>m_janus := e\<rparr>)" "mild s (s\<lparr>m_janusPending := n\<rparr>)" "mild s (s\<lparr>m_rtsp2webType := d\<rparr>)"
  "mild s (s\<lparr>m_stoppedPlayer := d\<rparr>)" "mild s (s\<lparr>m_restarts := f\<rparr>)" "mild s (s\<lparr>m_attempts := n\<rparr>)"
  "mild s (s\<lparr>m_authTimer := g\<rparr>)" "mild s (s\<lparr>m_refreshing := h\<rparr>)" "mild s (s\<lparr>m_auth := i\<rparr>)"
  "mild s (s\<lparr>m_scale := j\<rparr>)" "mild s (s\<lparr>m_analyse := e\<rparr>)" "mild s (s\<lparr>m_unload := e\<rparr>)" "mild s (s\<lparr>m_mseCleared := e\<rparr>)"
  "mild s (s\<lparr>m_zmsState := d\<rparr>)" "mild s (s\<lparr>m_info := d\<rparr>)" "mild s (s\<lparr>m_infoImg := e\<rparr>)" "mild s (s\<lparr>m_selected := d\<rparr>)"
  by (auto intro!: mildI simp: quiet_def rows_def kind_def)

lemma mild_emit: "\<forall>k u. M_Opened k u \<noteq> e \<Longrightarrow> mild s (m_emit e s)"
  by (rule mildI) (simp_all add: quiet_emit, simp_all add: m_emit_def rows_def kind_def)

lemma mild_texts:
  "mild s (writeTextInfoBlock x b s)" "mild s (errorText s)" "mild s (schedule_restart ch d s)" "mild s (setRTSP2WebType p s)"
  "mild s (streamErrorRegistration b s)" "mild s (resetCountStreamErrors p s)" "mild s (setPlayer p ui s)"
  by (auto intro!: mildI quiet_same simp: writeTextInfoBlock_def errorText_def schedule_restart_def setRTSP2WebType_def
      streamErrorRegistration_def resetCountStreamErrors_def setPlayer_def Let_def rows_def kind_def count_up_rows)

lemma mild_map_el: "(\<And>e. nodeName (f e) = nodeName e) \<Longrightarrow> mild s (map_el f s)"
  by (rule mildI) (auto simp: map_el_def quiet_def rows_def kind_def option.map_comp comp_def)

lemma mild_req: "mild s (m_streamCmdReq k c s)"
  by (rule mildI) (simp_all add: quiet_req, simp_all add: m_streamCmdReq_def m_emit_def writeTextInfoBlock_def rows_def kind_def Let_def)

lemma mild_command: "mild s (m_streamCommand c s)"
  by (rule mildI) (simp_all add: quiet_command rows_def kind_def)

lemma mild_quit: "mild s (quitConnKey k s)"
  by (auto simp: quitConnKey_def mild_emit split: option.split)

lemma mild_timers: "mild s (clear_status s)" "mild s (clear_stream s)" "mild s (set_status s)" "mild s (reset_status s)"
proof -
  have "ticks_ok s \<Longrightarrow> ticks_ok (clear_status s)" "ticks_ok s \<Longrightarrow> ticks_ok (clear_stream s)"
    "ticks_ok s \<Longrightarrow> ticks_ok (set_status s)" "ticks_ok s \<Longrightarrow> ticks_ok (reset_status s)"
    using ticks_clear [of "set (m_intervals s)" "m_streamTimer s" "m_statusTimer s" "m_next s"]
      ticks_set(1) [of "set (m_intervals s)" "m_streamTimer s" "m_statusTimer s" "m_next s"]
      ticks_set(1) [OF ticks_clear(1), of "set (m_intervals s)" "m_streamTimer s" "m_statusTimer s" "m_next s"]
    by (simp_all add: ticks_ok_def clear_status_def clear_stream_def set_status_def reset_status_def clear_interval_def)
  then show "mild s (clear_status s)" "mild s (clear_stream s)" "mild s (set_status s)" "mild s (reset_status s)"
    by (auto simp: mild_def quiet_def rows_def kind_def clear_status_def clear_stream_def set_status_def reset_status_def)
qed

lemma mild_set_stream: "m_streamTimer s = None \<Longrightarrow> mild s (set_stream s)"
  using ticks_set(2) [of "set (m_intervals s)" "m_statusTimer s" "m_next s"]
  by (auto simp: mild_def quiet_def rows_def kind_def set_stream_def ticks_ok_def)

lemma mild_stop_player: "mild s (stop_player w k s)"
  by (rule mildI) (simp_all add: quiet_stop_player rows_def kind_def)

lemmas mild_via = mild_update [THEN mild_trans [rotated]] mild_texts [THEN mild_trans [rotated]]
  mild_map_el [THEN mild_trans [rotated]] mild_req [THEN mild_trans [rotated]] mild_command [THEN mild_trans [rotated]]
  mild_quit [THEN mild_trans [rotated]] mild_timers [THEN mild_trans [rotated]] mild_stop_player [THEN mild_trans [rotated]]
  mild_emit [THEN mild_trans [rotated]] mild_set_stream [THEN mild_trans [rotated]]

section \<open>Every event keeps the invariant\<close>

lemma inv_idle:
  "m_inv s \<Longrightarrow> m_inv (s\<lparr>m_stoppedPlayer := a, m_activePlayer := [], m_started := False\<rparr>)"
  by (simp add: m_inv_def conn_ok_def typed_def ticks_ok_def known_players_def)

lemma inv_element: "m_inv s \<Longrightarrow> m_activePlayer s = [] \<Longrightarrow> m_inv (s\<lparr>m_element := e\<rparr>)"
  by (simp add: m_inv_def conn_ok_def typed_def ticks_ok_def known_players_def)

lemma inv_running:
  assumes "m_inv s" and "p \<in> set known_players" and "p = ''zms'' \<longrightarrow> kind s = Some IMG"
    and "p = ''go2rtc'' \<longrightarrow> kind s = Some VIDEO_STREAM"
    and "p \<in> {''rtsp2web_hls'', ''rtsp2web_mse'', ''rtsp2web_webrtc''} \<longrightarrow> kind s = Some VIDEO"
  shows "m_inv (running p s)"
  using assms by (simp add: m_inv_def conn_ok_def typed_def ticks_ok_def running_def kind_def)

lemma inv_active_started: "m_inv s \<Longrightarrow> m_activePlayer s \<noteq> [] \<Longrightarrow> m_started s"
  by (simp add: m_inv_def typed_def)

lemma stop_inv:
  assumes "m_inv s"
  shows "m_inv (m_stop k s)"
proof -
  let ?s = "s\<lparr>m_starting := False, m_unload := False\<rparr>"
  have "mild s (stop_player w k (quiesce ?s))" for w
    unfolding quiesce_def by (intro mild_via) (rule mild_refl)
  then have inv: "m_inv (stop_player w k (quiesce ?s))" for w using mild_inv assms by blast
  have "m_inv (map_el (\<lambda>e. e\<lparr>el_src := []\<rparr>) (stop_player w k (quiesce ?s)))" for w
    by (rule mild_inv [OF mild_map_el inv]) simp
  moreover have "m_inv ?s" by (rule mild_inv [OF _ assms]) (intro mild_via, rule mild_refl)
  ultimately show ?thesis using inv
    by (auto simp: m_stop_def Let_def intro: inv_idle)
qed

lemma stopped_inv: "m_inv s \<Longrightarrow> m_inv (stopped_state s)"
  by (rule mild_inv [OF mild_update(13)]) (rule stop_inv)

lemma kill_inv:
  assumes "m_inv s"
  shows "m_inv (m_kill s)"
proof (cases "m_element s")
  case None
  then show ?thesis using assms by (simp add: m_kill_def)
next
  case (Some e)
  define s1 where "s1 = (if nodeName e = IMG then map_el (\<lambda>e. e\<lparr>el_handlers := None\<rparr>) s else s)"
  define q where "q = ((m_started s1 \<or> m_starting s1) \<and> plays ''zms'' s1 \<and> has_key s1)"
  define s2 where "s2 = (if q then m_streamCommand CMD_QUIT s1 else s1)"
  have m1: "m_inv s1" unfolding s1_def by (auto intro: mild_inv [OF mild_map_el assms] assms)
  have "m_inv s2" unfolding s2_def by (auto intro: mild_inv [OF mild_command m1] m1)
  then have s3: "m_inv (m_stop q s2)" by (rule stop_inv)
  have k: "m_kill s = (if q then (m_stop q s2)\<lparr>m_streamConn := None, m_statusConn := None, m_connKey := None\<rparr> else m_stop q s2)"
    by (simp only: m_kill_def Some option.case Let_def s1_def q_def s2_def)
  show ?thesis
  proof (cases q)
    case False
    then show ?thesis using k s3 by simp
  next
    case True
    then obtain c where c: "m_connKey s1 = Some c" by (auto simp: q_def has_key_def split: option.splits)
    have "m_activePlayer s1 \<noteq> []" using True by (cases "m_activePlayer s1") (auto simp: q_def)
    then have "m_started s1" using m1 by (rule_tac inv_active_started)
    then have "M_Sent (Some c) CMD_QUIT \<in> set (m_log s2)"
      using m1 c True by (simp add: s2_def m_inv_def conn_ok_def m_streamCommand_def m_streamCmdReq_def m_emit_def Let_def)
    then have "M_Sent (Some c) CMD_QUIT \<in> set (m_log (m_stop q s2))"
      using quiet_stop [of s2 q] by (auto simp: quiet_def)
    moreover have "m_connKey (m_stop q s2) = Some c" using c True by (simp add: s2_def)
    ultimately have "m_accounted (m_log (m_stop q s2)) None"
      using s3 unfolding m_inv_def conn_ok_def m_accounted_def by auto
    then show ?thesis using k True s3 by (simp add: m_inv_def conn_ok_def typed_def ticks_ok_def kind_def)
  qed
qed

text \<open>What every step inside \<^verbatim>\<open>restart\<close> keeps, \<^verbatim>\<open>restart\<close> keeps.\<close>

lemma restart_inv:
  assumes "restart ch d s = Some t" and "m_inv s"
  shows "m_inv t"
proof -
  have "m_inv s \<longrightarrow> m_inv t"
  proof (rule restart.raw_induct [where P = "\<lambda>ch d s t. m_inv s \<longrightarrow> m_inv t", OF _ assms(1)])
    fix rec :: "string option \<Rightarrow> nat \<Rightarrow> mstream \<Rightarrow> mstream option" and ch d s t
    assume ih: "\<And>ch d s t. rec ch d s = Some t \<Longrightarrow> m_inv s \<longrightarrow> m_inv t"
      and body: "(let s = stopped_state s
        in if getCountStreamErrors (m_player s) s < limitCountErrors then Some (schedule_restart ch d s)
           else if m_selected s \<noteq> [] then Some (errorText s)
           else if \<not> m_active s then Some (m_kill s)
           else (case next_player [] s of
                   Try p \<Rightarrow> rec (m_channel s) 200 (s\<lparr>m_player := p\<rparr>)
                 | GiveUp \<Rightarrow> Some (s\<lparr>m_fatal := True\<rparr>))) = Some t"
    show "m_inv s \<longrightarrow> m_inv t"
    proof
      assume "m_inv s"
      then have i: "m_inv (stopped_state s)" by (rule stopped_inv)
      have "m_inv (schedule_restart ch d (stopped_state s))" "m_inv (errorText (stopped_state s))" "m_inv (m_kill (stopped_state s))"
        "m_inv ((stopped_state s)\<lparr>m_fatal := True\<rparr>)" "m_inv ((stopped_state s)\<lparr>m_player := p\<rparr>)" for p
        using i by (auto intro: mild_inv [OF mild_texts(2)] mild_inv [OF mild_texts(3)] mild_inv [OF mild_update(7)]
            mild_inv [OF mild_update(3)] kill_inv)
      then show "m_inv t" using body ih by (auto simp: Let_def split: if_splits choice.splits)
    qed
  qed
  then show ?thesis using assms(2) by simp
qed

lemma selectNext_inv: "selectNextPlayer cur s = Some t \<Longrightarrow> m_inv s \<Longrightarrow> m_inv t"
  using restart_inv mild_inv [OF mild_update(3)] mild_inv [OF mild_update(7)] kill_inv
  by (auto simp: selectNextPlayer_def split: if_splits choice.splits)

lemma player_error_inv: "player_error s = Some t \<Longrightarrow> m_inv s \<Longrightarrow> m_inv t"
  unfolding player_error_def by (erule restart_inv) (rule mild_inv [OF mild_texts(5)])

lemma genConnKey_nonempty [simp]: "genConnKey r \<noteq> []"
proof -
  have "nat_to_str n \<noteq> []" for n by (subst nat_to_str.simps) simp
  then show ?thesis by (simp add: genConnKey_def Let_def)
qed

text \<open>A new connkey, after the old connection was told to quit or was given up.\<close>

lemma conn_requit: "m_inv s \<Longrightarrow> m_inv (set_connKey (genConnKey r) (quitConnKey (m_connKey s) s))"
  by (auto simp: m_inv_def conn_ok_def typed_def ticks_ok_def kind_def set_connKey_def quitConnKey_def m_emit_def
      m_accounted_def split: option.splits)

lemma conn_replaced:
  "m_inv s \<Longrightarrow> m_inv (set_connKey (genConnKey r) (case m_connKey s of None \<Rightarrow> s | Some old \<Rightarrow> m_emit (M_Replaced old) s))"
  by (auto simp: m_inv_def conn_ok_def typed_def ticks_ok_def kind_def set_connKey_def m_emit_def
      m_accounted_def split: option.splits)

lemma conn_open: "m_inv s \<Longrightarrow> m_connKey s = Some k \<Longrightarrow> m_inv (m_emit (M_Opened k u) s)"
  by (auto simp: m_inv_def conn_ok_def typed_def ticks_ok_def kind_def m_emit_def m_accounted_def)

lemma set_connKey_key [simp]: "m_connKey (set_connKey k s) = Some k"
  by (simp add: set_connKey_def)

lemma map_el_key [simp]: "m_connKey (map_el f s) = m_connKey s"
  by (simp add: map_el_def)

lemma replace_kind [simp]: "nodeName (replaceDOMElement k e) = k"
  by (simp add: replaceDOMElement_def)

text \<open>Opening a player on an element of the kind it needs.\<close>

definition fits :: "string \<Rightarrow> mstream \<Rightarrow> bool" where
  "fits p s \<longleftrightarrow> p \<in> set known_players \<and> (p = ''zms'' \<longrightarrow> kind s = Some IMG) \<and> (p = ''go2rtc'' \<longrightarrow> kind s = Some VIDEO_STREAM)
     \<and> (p \<in> {''rtsp2web_hls'', ''rtsp2web_mse'', ''rtsp2web_webrtc''} \<longrightarrow> kind s = Some VIDEO)"

lemma fits_mild: "mild s t \<Longrightarrow> fits p t = fits p s"
  by (simp add: fits_def mild_def)

lemma running_inv: "m_inv s \<Longrightarrow> mild s t \<Longrightarrow> fits p s \<Longrightarrow> m_inv (running p t)"
  using mild_inv [of s t] inv_running [of t p] by (simp add: fits_def mild_def)

lemma opened_mild: "mild s (reset_status (m_emit (M_Player x) s))"
  by (intro mild_via) simp_all

lemma new_element_inv:
  assumes "m_inv s" and "m_activePlayer s = []"
  shows "m_inv (s\<lparr>m_element := e, m_channel := c\<rparr>)" "m_inv (s\<lparr>m_session := u, m_element := e, m_channel := c\<rparr>)"
    "m_inv (s\<lparr>m_session := u, m_element := e\<rparr>)"
proof -
  have "m_inv (s\<lparr>m_session := u\<rparr>)" by (rule mild_inv [OF mild_update(1) assms(1)])
  then have "m_inv (s\<lparr>m_element := e\<rparr>)" "m_inv (s\<lparr>m_session := u, m_element := e\<rparr>)"
    using assms inv_element [of s] inv_element [of "s\<lparr>m_session := u\<rparr>"] by simp_all
  then show "m_inv (s\<lparr>m_element := e, m_channel := c\<rparr>)" "m_inv (s\<lparr>m_session := u, m_element := e, m_channel := c\<rparr>)"
    "m_inv (s\<lparr>m_session := u, m_element := e\<rparr>)"
    using mild_inv [OF mild_update(2)] by blast+
qed

lemma go2rtc_inv:
  assumes "m_inv s" and "m_activePlayer s = []"
  shows "m_inv (select_go2rtc uuid ch s)"
proof -
  have "m_inv (running ''go2rtc'' (reset_status (m_emit (M_Player x) (t\<lparr>m_session := Some uuid, m_webrtc := True\<rparr>))))"
    if "m_inv t" "fits ''go2rtc'' t" for t x
    by (rule running_inv [OF that(1) mild_trans [OF _ opened_mild] that(2)]) (intro mild_via, rule mild_refl)
  then show ?thesis using assms new_element_inv [OF assms] kill_inv
    by (auto simp: select_go2rtc_def Let_def fits_def known_players_def kind_def intro: mild_inv [OF mild_emit] split: option.split)
qed

lemma rtsp2web_inv:
  assumes "m_inv s" and "m_activePlayer s = []" and "select_rtsp2web uuid ch s = Some t"
  shows "m_inv t"
proof -
  have opens: "m_inv (running p (reset_status (m_emit (M_Player x) (t\<lparr>m_hls := True\<rparr>))))"
    "m_inv (running p (reset_status (m_emit (M_Player x) t)))"
    "m_inv (running p (reset_status (m_emit (M_Player x) (t\<lparr>m_webrtc := True\<rparr>))))"
    "m_inv (running p (reset_status t))"
    if "m_inv t" "fits p t" for t x p
    by (rule running_inv [OF that(1) _ that(2)], intro mild_via, simp_all)+
  show ?thesis
  proof (cases "m_element s")
    case None
    have "m_inv (m_emit M_TypeError (s\<lparr>m_session := Some uuid\<rparr>))"
      by (rule mild_inv [OF _ assms(1)], intro mild_via) simp_all
    then show ?thesis using assms(1,3) None by (auto simp: select_rtsp2web_def split: if_splits)
  next
    case (Some e)
    define s' where "s' = s\<lparr>m_session := Some uuid, m_element := Some (replaceDOMElement VIDEO e), m_channel := Some ch\<rparr>"
    define t1 where "t1 = setRTSP2WebType (m_player s') s'"
    have "m_inv s'" unfolding s'_def by (rule new_element_inv [OF assms(1,2)])
    have m: "mild s' t1" unfolding t1_def by (rule mild_texts)
    have t1: "m_inv t1" by (rule mild_inv [OF m \<open>m_inv s'\<close>])
    have "fits p s'" if "p \<in> {[], ''rtsp2web_hls'', ''rtsp2web_mse'', ''rtsp2web_webrtc''}" for p
      using that by (auto simp: fits_def known_players_def kind_def s'_def)
    then have f: "fits ''rtsp2web_hls'' t1" "fits ''rtsp2web_mse'' t1" "fits ''rtsp2web_webrtc'' t1" "fits (m_activePlayer t1) t1"
      using fits_mild [OF m] m assms(2) by (simp_all add: mild_def s'_def)
    have "m_inv t" if "restart (m_channel t1) 200 (streamErrorRegistration True t1) = Some t"
      by (rule restart_inv [OF that mild_inv [OF mild_texts(5) t1]])
    then show ?thesis
      using assms(1,3) Some opens [OF t1] f kill_inv [OF \<open>m_inv s'\<close>] unfolding select_rtsp2web_def Let_def
      by (simp add: s'_def [symmetric] t1_def [symmetric] split: if_splits)
        (metis option.inject)+
  qed
qed

lemma janus_inv:
  assumes "m_inv s"
  shows "m_inv (continueRunningJanus s)" "m_activePlayer s = [] \<Longrightarrow> m_inv (select_janus uuid s)" "m_inv (janus_ready s)"
proof -
  have c: "m_inv (continueRunningJanus t)" if "m_inv t" for t
    unfolding continueRunningJanus_def
    by (rule running_inv [OF that]) (intro mild_via, simp_all add: fits_def known_players_def)
  show "m_inv (continueRunningJanus s)" using c assms by blast
  show "m_inv (janus_ready s)"
    using c [of "s\<lparr>m_janusPending := m_janusPending s - 1, m_janus := True\<rparr>"] mild_inv [OF _ assms]
      mild_update(10,11) mild_trans by (simp add: janus_ready_def Let_def) blast
  show "m_inv (select_janus uuid s)" if a: "m_activePlayer s = []"
  proof -
    have "m_inv (s\<lparr>m_session := Some uuid\<rparr>)" by (rule mild_inv [OF mild_update(1) assms])
    moreover have "m_inv (s\<lparr>m_session := Some uuid, m_element := e\<rparr>)" for e by (rule new_element_inv [OF assms a])
    ultimately show ?thesis using c kill_inv
      by (auto simp: select_janus_def Let_def intro: mild_inv [OF mild_emit] mild_inv [OF mild_update(11)] split: option.split)
  qed
qed

lemma resume_mild: "m_streamTimer s = None \<Longrightarrow> mild s (resume_zms s)"
  unfolding resume_zms_def by (intro mild_via) simp_all

lemma rebuild_inv:
  assumes "m_inv s"
  shows "m_inv (rebuild_zms r e s)"
proof -
  have el: "m_inv (map_el (\<lambda>e. e\<lparr>el_src := x\<rparr>) t)" if "m_inv t" for x t
    by (rule mild_inv [OF mild_map_el that]) simp
  have "m_inv (set_connKey (genConnKey r) (quitConnKey (m_connKey s) s))" using assms by (rule conn_requit)
  then show ?thesis using assms el
    by (auto simp: rebuild_zms_def Let_def intro: mild_inv [OF mild_emit] conn_open)
qed

lemma rebuild_kind [simp]: "kind (rebuild_zms r e s) = kind s"
  by (auto simp: rebuild_zms_def Let_def kind_def set_connKey_def quitConnKey_def m_emit_def map_el_def
      option.map_comp comp_def split: option.split)

lemma zms_inv:
  assumes "m_inv s" and "m_activePlayer s = []"
  shows "m_inv (select_zms r uuid s)"
proof (cases "m_element s")
  case None
  then show ?thesis
    by (simp add: select_zms_def) (rule mild_inv [OF _ assms(1)], intro mild_via, simp_all)
next
  case (Some e0)
  define e where "e = (replaceDOMElement IMG e0)\<lparr>el_lazy := False, el_handlers := Some uuid\<rparr>"
  define t where "t = clear_stream (s\<lparr>m_session := Some uuid, m_element := Some e\<rparr>)"
  define s1 where "s1 = (if srcAuthCurrent e t \<and> resumableZms t then writeTextInfoBlock [] True (resume_zms t)
     else if srcAuthCurrent e t \<and> includes_str (el_src e) ''mode=paused'' then resume_zms t else rebuild_zms r e t)"
  have t: "m_inv t" unfolding t_def by (rule mild_inv [OF mild_timers(2) new_element_inv(3) [OF assms]])
  have none: "m_streamTimer t = None" by (simp add: t_def clear_stream_def)
  have img: "kind t = Some IMG" by (simp add: t_def clear_stream_def kind_def e_def)
  have m: "mild t (writeTextInfoBlock [] True (resume_zms t))"
    by (rule mild_trans [OF resume_mild [OF none] mild_texts(1)])
  have "m_inv s1 \<and> kind s1 = Some IMG"
    using img rebuild_inv [OF t] mild_inv [OF m t] mild_kind [OF m]
      mild_inv [OF resume_mild [OF none] t] mild_kind [OF resume_mild [OF none]]
    by (simp add: s1_def)
  then have "m_inv (running ''zms'' s1)" by (intro inv_running) (simp_all add: known_players_def)
  then have "m_inv ((running ''zms'' s1)\<lparr>m_stoppedPlayer := []\<rparr>)" by (rule mild_inv [OF mild_update(13)])
  moreover have "select_zms r uuid s = (if \<not> m_active t then m_kill t else (running ''zms'' s1)\<lparr>m_stoppedPlayer := []\<rparr>)"
    by (simp only: select_zms_def Some option.case Let_def s1_def t_def e_def)
  ultimately show ?thesis using kill_inv [OF t] by simp
qed

lemma select_inv:
  assumes "m_inv s" and "m_activePlayer s = []" and "selectPlayer r uuid ch s = Some t"
  shows "m_inv t"
proof -
  define s1 where "s1 = (if m_player s = [] then s\<lparr>m_player := m_default s\<rparr> else s)"
  have i: "m_inv s1" "m_activePlayer s1 = []" using assms mild_inv [OF mild_update(3)] by (simp_all add: s1_def)
  show ?thesis
    using assms(3) go2rtc_inv [OF i] janus_inv(2) [OF i] zms_inv [OF i] rtsp2web_inv [OF i] selectNext_inv [OF _ i(1)]
    unfolding selectPlayer_def Let_def s1_def [symmetric] by (auto split: if_splits)
qed

lemma start_inv:
  assumes "m_inv s" and "m_start r uuid ch s = Some t"
  shows "m_inv t"
proof (cases "m_active s \<and> \<not> m_started s \<and> \<not> m_starting s")
  case False
  then show ?thesis using assms by (auto simp: m_start_def split: if_splits)
next
  case True
  let ?s = "writeTextInfoBlock ''Loading...'' True (s\<lparr>m_starting := True\<rparr>)"
  have m: "mild s ?s" by (intro mild_via) (rule mild_refl)
  have "m_activePlayer s = []" using True inv_active_started [OF assms(1)] by blast
  then have "m_activePlayer ?s = []" using m by (simp add: mild_def)
  then show ?thesis using select_inv [OF mild_inv [OF m assms(1)]] assms(2) True
    by (auto simp: m_start_def Let_def split: if_splits option.splits)
qed

lemma fires_inv:
  assumes "m_inv s" and "restart_fires r u p s = Some t"
  shows "m_inv t"
proof -
  let ?s = "s\<lparr>m_restarts := remove1 p (m_restarts s)\<rparr>"
  have "m_inv ?s" by (rule mild_inv [OF mild_update(14) assms(1)])
  moreover have "t = ?s \<or> m_start r u (fst p) ?s = Some t"
    using assms(2) by (simp add: restart_fires_def Let_def split: if_splits)
  ultimately show ?thesis using start_inv by blast
qed

lemma mild_query: "mild s (m_streamCmdQuery s)"
  by (simp add: m_streamCmdQuery_def mild_req)

lemma query_timer [simp]: "m_streamTimer (m_streamCmdQuery s) = m_streamTimer s"
  by (simp add: m_streamCmdQuery_def m_streamCmdReq_def m_emit_def writeTextInfoBlock_def Let_def)

lemma image_failed_mild: "mild s (image_failed s)"
proof -
  have "mild s (m_emit (M_ImgError c) (map_el (\<lambda>e. e\<lparr>el_src := []\<rparr>)
      (writeTextInfoBlock ''Error'' False (clear_stream (streamErrorRegistration False s)))))" (is "mild s (?f c)") for c
    by (intro mild_via) simp_all
  moreover have "mild x ((writeTextInfoBlock ''Reconnecting...'' True x)\<lparr>m_attempts := n, m_authTimer := a\<rparr>)" for x n a
    by (intro mild_via) (rule mild_refl)
  ultimately have "mild s ((writeTextInfoBlock ''Reconnecting...'' True (?f c))\<lparr>m_attempts := n, m_authTimer := a\<rparr>)"
    "mild s (?f c)" for c n a
    using mild_trans by blast+
  then show ?thesis by (simp add: image_failed_def Let_def)
qed

lemma image_loaded_mild: "mild s (image_loaded s)"
proof -
  have "mild s (s\<lparr>m_attempts := 0, m_authTimer := None\<rparr>)" (is "mild s ?s") by (intro mild_via) (rule mild_refl)
  moreover have "mild x (writeTextInfoBlock [] True (set_stream (m_streamCmdQuery x)))" if "m_streamTimer x = None" for x
    using that mild_query by (intro mild_via) simp_all
  then have "mild ?s (writeTextInfoBlock [] True (set_stream (m_streamCmdQuery ?s)))" if "m_streamTimer s = None"
    using that by simp
  ultimately show ?thesis by (auto simp: image_loaded_def Let_def intro: mild_trans)
qed

lemma image_inv: "m_inv s \<Longrightarrow> m_inv (m_img_onerror s)" "m_inv s \<Longrightarrow> m_inv (m_img_onload s)"
proof -
  have "m_inv s \<Longrightarrow> m_inv (image_loaded (resetCountStreamErrors p s))" for p
    by (rule mild_inv [OF mild_trans [OF mild_texts(6) image_loaded_mild]])
  then show "m_inv s \<Longrightarrow> m_inv (m_img_onerror s)" "m_inv s \<Longrightarrow> m_inv (m_img_onload s)"
    using mild_inv [OF image_failed_mild] by (simp_all add: m_img_onerror_def m_img_onload_def)
qed

lemma auth_inv:
  assumes "m_inv s"
  shows "m_inv (auth_timer_fires s)" "m_inv (auth_refreshed r reply src s)" "m_inv (auth_refresh_failed st src s)"
proof -
  show "m_inv (auth_timer_fires s)"
    by (cases "m_authTimer s") (auto simp: auth_timer_fires_def assms intro!: mild_inv [OF _ assms] mild_via split: prod.split)
  show "m_inv (auth_refresh_failed st src s)"
    by (rule mild_inv [OF _ assms]) (auto simp: auth_refresh_failed_def Let_def intro!: mild_via)
  let ?s = "s\<lparr>m_refreshing := remove1 src (m_refreshing s), m_auth := snd (ZMAuth_update reply (m_auth s))\<rparr>"
  have i: "m_inv ?s" by (rule mild_inv [OF _ assms]) (intro mild_via, rule mild_refl)
  have el: "m_inv (map_el (\<lambda>e. e\<lparr>el_src := x\<rparr>) t)" if "m_inv t" for x t
    by (rule mild_inv [OF mild_map_el that]) simp
  show "m_inv (auth_refreshed r reply src s)"
    using i conn_replaced [OF i] unfolding auth_refreshed_def Let_def
    by (auto intro!: conn_open el split: option.split)
qed

lemma reply_inv:
  assumes "m_inv s"
  shows "m_inv (m_getStreamCmdResponse r now rsp k s)"
proof -
  have "mild s (apply_status v s)" for v
    unfolding apply_status_def Let_def
    by (intro mild_via) (auto intro: mild_command mild_update(20) mild_trans [OF mild_command mild_update(20)] split: option.split)
  then have a: "m_inv (apply_status v s)" for v using mild_inv assms by blast
  have el: "m_inv (map_el (\<lambda>e. e\<lparr>el_src := x\<rparr>) t)" if "m_inv t" for x t
    by (rule mild_inv [OF mild_map_el that]) simp
  have "m_inv (reload_stream r now e s)" for e
    using conn_requit [OF assms] el
    by (auto simp: reload_stream_def Let_def intro: conn_open)
  then show ?thesis using assms a
    by (auto simp: m_getStreamCmdResponse_def Let_def intro: mild_inv [OF mild_set_stream] split: option.split m_reply.split)
qed

lemma scale_inv:
  assumes "m_inv s"
  shows "m_inv (setStreamScale fw x q s)"
proof -
  have m: "m_inv (s\<lparr>m_scale := y\<rparr>)" for y by (rule mild_inv [OF mild_update(19) assms])
  have "mild t (set_stream (map_el (\<lambda>e. e\<lparr>el_src := u\<rparr>) (clear_stream t)))"
    "mild t (set_stream (map_el (\<lambda>e. e\<lparr>el_src := u\<rparr>) (m_streamCommand CMD_QUIT (clear_stream t))))" for t u
    by (intro mild_via; simp add: map_el_def clear_stream_def)+
  then show ?thesis using assms m mild_inv
    by (simp add: setStreamScale_def Let_def split: option.split) blast
qed

lemma command_inv:
  assumes "m_inv s"
  shows "m_inv (m_pause s)" "m_inv (m_play s)" "m_inv (setMaxFPS v s)" "m_inv (show_analyse_frames b s)"
    "m_inv (alarmCommand c s)" "m_inv (onFailure err s)" "m_inv (m_streamCmdQuery s)" "m_inv (setPlayer p ui s)"
proof -
  have "mild s (m_pause s)" "mild s (m_play s)" "mild s (setMaxFPS v s)" "mild s (show_analyse_frames b s)"
    "mild s (alarmCommand c s)" "mild s (onFailure err s)" "mild s (m_streamCmdQuery s)" "mild s (setPlayer p ui s)"
    by (auto simp: m_pause_def m_play_def setMaxFPS_def show_analyse_frames_def alarmCommand_def onFailure_def m_streamCmdQuery_def
        intro: mild_command mild_timers mild_emit mild_req mild_texts mild_trans [OF mild_update(20) mild_req] split: option.split)
  then show "m_inv (m_pause s)" "m_inv (m_play s)" "m_inv (setMaxFPS v s)" "m_inv (show_analyse_frames b s)"
    "m_inv (alarmCommand c s)" "m_inv (onFailure err s)" "m_inv (m_streamCmdQuery s)" "m_inv (setPlayer p ui s)"
    using mild_inv assms by blast+
qed

lemma exec_inv: "m_exec r u ev s = Some t \<Longrightarrow> m_inv s \<Longrightarrow> m_inv t"
proof (induction r u ev s rule: m_exec.induct)
  case (7 r u b s)
  then show ?case using mild_inv [OF mild_update(6), of s b] by simp
next
  case (8 r u c s)
  then show ?case using mild_inv [OF mild_update(2), of s "Some c"] by simp
next
  case (9 r u p s)
  then show ?case using fires_inv by (simp split: if_splits)
next
  case (23 r u mode s)
  then obtain v where "player_error (s\<lparr>m_player := ''go2rtc_'' @ mode\<rparr>) = Some v" "t = writeTextInfoBlock ''Error'' True v"
    by (auto simp: go2rtc_error_def)
  then show ?case using player_error_inv mild_inv [OF mild_update(3) 23(2)] mild_inv [OF mild_texts(1)] by blast
next
  case (25 r u now st v s)
  then show ?case using restart_inv mild_inv [OF mild_texts(5) 25(2)] by (auto split: mse_action.splits if_splits)
qed (auto simp: stop_inv kill_inv command_inv image_inv auth_inv reply_inv scale_inv janus_inv(3)
    elim: start_inv [rotated] player_error_inv)

lemma run_inv: "m_run evs s = Some t \<Longrightarrow> m_inv s \<Longrightarrow> m_inv t"
  by (induction evs arbitrary: s) (auto simp: exec_inv bind_eq_Some_conv)

lemma fresh_inv: "fresh_monitor s \<Longrightarrow> m_inv s"
  by (simp add: fresh_monitor_def m_inv_def conn_ok_def typed_def ticks_ok_def m_accounted_def ticks_def table_ok_init known_players_def)

section \<open>Properties of every run\<close>

text \<open>
  C20. In every run, \<^verbatim>\<open>restart\<close>, which an error of a player calls and which through
  \<^verbatim>\<open>selectNextPlayer\<close> calls itself, returns in every situation but one: the monitor is active and in automatic mode,
  its default player is not a row of the player table (as \<^verbatim>\<open>go2rtc\<close>, a choice the settings
  offer, is not), and both the current player and zms have used up their errors. There the
  two functions call each other for ever.
\<close>

theorem restart_returns_iff:
  assumes "fresh_monitor s0" and "m_run evs s0 = Some s"
  shows "(\<exists>t. restart ch d s = Some t) \<longleftrightarrow>
    \<not> (m_active s \<and> m_selected s = [] \<and> entry_of (m_default s) (m_errors s) = None
       \<and> 2 \<le> getCountStreamErrors (m_player s) s \<and> 2 \<le> getCountStreamErrors ''zms'' s)"
proof -
  have "table_ok (m_errors s)"
    using run_inv [OF assms(2)] fresh_inv [OF assms(1)] by (simp add: m_inv_def typed_def)
  then show ?thesis using restart_returns restart_loops_none
    unfolding restart_loops_def limitCountErrors_def by blast
qed

text \<open>
  C1. In every run of a monitor, every zms connection that was opened is the one the
  monitor still holds the connkey of, or was told to quit under that key, or was given up by
  the reconnect that follows an image error; the three copies of the connkey agree; and zms
  is polled by at most one interval, whose id the monitor holds.
\<close>

theorem monitor_zms_accounted:
  assumes "fresh_monitor s" and "m_run evs s = Some t"
  shows "(\<forall>k u. M_Opened k u \<in> set (m_log t) \<longrightarrow>
      m_connKey t = Some k \<or> M_Sent (Some k) CMD_QUIT \<in> set (m_log t) \<or> M_Replaced k \<in> set (m_log t))
    \<and> m_streamConn t = m_connKey t \<and> m_statusConn t = m_connKey t
    \<and> (\<forall>i. (i, StreamTick) \<in> set (m_intervals t) \<longleftrightarrow> m_streamTimer t = Some i)"
proof -
  have "m_inv t" using run_inv [OF assms(2)] fresh_inv [OF assms(1)] by simp
  then show ?thesis
    by (cases "m_streamTimer t") (auto simp: m_inv_def conn_ok_def m_accounted_def ticks_ok_def ticks_def)
qed

text \<open>
  C26. The state stays well-typed: in every run the active player is none or one of the six,
  it is active only on a started stream, the element on the page is an image for zms, a
  \<^verbatim>\<open>video-stream\<close> for go2rtc and a video for the rtsp2web players, and the player table has its
  nine rows. Nothing is said of the element under Janus: its start-up may finish late, over the
  element of another player (\<open>late_janus_log\<close> below).
\<close>

theorem monitor_well_typed:
  assumes "fresh_monitor s" and "m_run evs s = Some t"
  shows "m_activePlayer t \<in> {[], ''zms'', ''go2rtc'', ''rtsp2web_hls'', ''rtsp2web_mse'', ''rtsp2web_webrtc'', ''janus''}
    \<and> (m_activePlayer t \<noteq> [] \<longrightarrow> m_started t)
    \<and> (m_activePlayer t = ''zms'' \<longrightarrow> map_option nodeName (m_element t) = Some IMG)
    \<and> (m_activePlayer t = ''go2rtc'' \<longrightarrow> map_option nodeName (m_element t) = Some VIDEO_STREAM)
    \<and> (m_activePlayer t \<in> {''rtsp2web_hls'', ''rtsp2web_mse'', ''rtsp2web_webrtc''} \<longrightarrow> map_option nodeName (m_element t) = Some VIDEO)
    \<and> map (\<lambda>e. (fst e, fst (snd e))) (m_errors t) = map (\<lambda>e. (fst e, fst (snd e))) playerPriority"
proof -
  have "typed t" using run_inv [OF assms(2)] fresh_inv [OF assms(1)] by (simp add: m_inv_def)
  then show ?thesis by (simp add: typed_def table_ok_def known_players_def flip: kind_def)
qed

section \<open>A hidden tab\<close>

lemma includes_zms: "includes_str ''zms'' ''zms''" "\<not> includes_str ''zms'' ''rtsp2web''" "\<not> includes_str ''zms'' ''go2rtc''"
  "\<not> includes_str ''zms'' ''janus''"
  by code_simp+

lemma quiesce_more [simp]: "m_auth (quiesce s) = m_auth s" "m_url_to_zms (quiesce s) = m_url_to_zms s"
  by (simp_all add: quiesce_def clear_status_def clear_stream_def writeTextInfoBlock_def)

lemma command_more [simp]: "m_auth (m_streamCommand c s) = m_auth s" "m_url_to_zms (m_streamCommand c s) = m_url_to_zms s"
  by (simp_all add: m_streamCommand_def m_streamCmdReq_def m_emit_def writeTextInfoBlock_def Let_def)

lemma command_log:
  "m_started s \<Longrightarrow> m_streamConn s = Some k \<Longrightarrow> \<not> plays ''go2rtc'' s \<Longrightarrow> \<not> plays ''rtsp2web'' s
     \<Longrightarrow> m_log (m_streamCommand c s) = m_log s @ [M_Sent (Some k) c]"
  by (simp add: m_streamCommand_def m_streamCmdReq_def m_emit_def writeTextInfoBlock_def Let_def del: includes_str.simps)

lemma stop_zms:
  assumes "m_activePlayer s = ''zms''" and "m_started s" and "m_element s = Some e" and "m_streamConn s = Some k"
  defines "t \<equiv> m_streamCommand CMD_STOP (quiesce (s\<lparr>m_starting := False, m_unload := False\<rparr>))"
  shows "m_stop False s = t\<lparr>m_stoppedPlayer := ''zms'', m_activePlayer := [], m_started := False\<rparr>"
    and "m_log t = m_log s @ [M_Sent (Some k) CMD_STOP]"
proof -
  let ?q = "quiesce (s\<lparr>m_starting := False, m_unload := False\<rparr>)"
  have "stop_player w False ?q = t" for w
    unfolding stop_player_def t_def using assms(1,2) by (simp add: includes_zms del: includes_str.simps)
  then show "m_stop False s = t\<lparr>m_stoppedPlayer := ''zms'', m_activePlayer := [], m_started := False\<rparr>"
    using assms(1-3) by (simp add: m_stop_def Let_def includes_zms t_def del: includes_str.simps)
  show "m_log t = m_log s @ [M_Sent (Some k) CMD_STOP]"
    unfolding t_def using assms(1-4) by (subst command_log [where k = k]) (simp_all add: includes_zms del: includes_str.simps)
qed

lemma start_zms:
  assumes "m_active s" and "\<not> m_started s" and "\<not> m_starting s" and "m_player s = ''zms''"
    and "getCountStreamErrors ''zms'' s = 0 \<or> m_selected s = ''zms''"
  shows "m_start r uuid ch s = Some (select_zms r uuid (writeTextInfoBlock ''Loading...'' True (s\<lparr>m_starting := True\<rparr>)))"
proof -
  let ?s = "writeTextInfoBlock ''Loading...'' True (s\<lparr>m_starting := True\<rparr>)"
  have "m_player ?s = ''zms''" "getCountStreamErrors ''zms'' ?s = 0 \<or> m_selected ?s = ''zms''"
    using assms(4,5) by (simp_all add: writeTextInfoBlock_def getCountStreamErrors_def)
  then have "selectPlayer r uuid c ?s = Some (select_zms r uuid ?s)" for c
    unfolding selectPlayer_def by (auto simp: includes_zms Let_def simp del: includes_str.simps)
  then show ?thesis using assms(1-3) by (simp add: m_start_def Let_def)
qed


text \<open>
  C16. A zms stream of an active monitor that is stopped, as for a hidden tab, and started again
  plays through zms again, provided zms is still the player of the monitor and has no errors
  counted against it or was chosen by hand. If the address of the image carries the credential
  of the page at that time, the stream is resumed: the same connection is asked to play, the
  image keeps its address and the poll runs. If it does not and the address carries no connkey of
  its own, the old connection is told to quit before another is opened under a new key.
\<close>

theorem hidden_tab_resumes:
  assumes "fresh_monitor s0" and "m_run evs s0 = Some s" and "m_active s" and "m_activePlayer s = ''zms''"
    and "m_connKey s = Some k" and "m_element s = Some e" and "m_player s = ''zms''"
    and "getCountStreamErrors ''zms'' s = 0 \<or> m_selected s = ''zms''"
  shows "\<exists>t. m_start r uuid ch (m_stop False s) = Some t \<and> m_started t \<and> m_activePlayer t = ''zms''
    \<and> (if srcAuthCurrent e s
       then m_connKey t = Some k \<and> map_option el_src (m_element t) = Some (el_src e) \<and> m_streamTimer t \<noteq> None
         \<and> m_log t = m_log s @ [M_Sent (Some k) CMD_STOP, M_Sent (Some k) CMD_PLAY]
       else includes_str (ZMAuth_applyTo (m_auth s) (replace_ci ''mode=single'' ''mode=jpeg'' (m_url_to_zms s)) JUndef) ''connkey''
         \<or> m_connKey t = Some (genConnKey r)
           \<and> (\<exists>l. m_log t = m_log s @ [M_Sent (Some k) CMD_STOP, M_Sent (Some k) CMD_QUIT] @ l
                \<and> set l \<subseteq> {M_Opened (genConnKey r) (el_src (the (m_element t)))}))"
proof -
  have inv: "m_inv s" using run_inv [OF assms(2)] fresh_inv [OF assms(1)] by simp
  then have st: "m_started s" "m_streamConn s = Some k" "k \<noteq> []" "nodeName e = IMG"
    using assms(4-6) by (auto simp: m_inv_def conn_ok_def typed_def kind_def)
  define t0 where "t0 = m_streamCommand CMD_STOP (quiesce (s\<lparr>m_starting := False, m_unload := False\<rparr>))"
  note stop = stop_zms [OF assms(4) st(1) assms(6) st(2), folded t0_def]
  define s2 where "s2 = writeTextInfoBlock ''Loading...'' True ((m_stop False s)\<lparr>m_starting := True\<rparr>)"
  have s2: "m_element s2 = Some e" "m_auth s2 = m_auth s" "m_connKey s2 = Some k" "m_streamConn s2 = Some k"
    "m_stoppedPlayer s2 = ''zms''" "m_activePlayer s2 = []" "m_log s2 = m_log s @ [M_Sent (Some k) CMD_STOP]" "m_active s2"
    "m_url_to_zms s2 = m_url_to_zms s"
    using assms(3,5,6) st(2) stop by (simp_all add: s2_def writeTextInfoBlock_def t0_def)
  have "\<not> m_started (m_stop False s)" using stop by simp
  then have start: "m_start r uuid ch (m_stop False s) = Some (select_zms r uuid s2)"
    unfolding s2_def using assms(3,7,8) by (intro start_zms) simp_all
  define e' where "e' = (replaceDOMElement IMG e)\<lparr>el_lazy := False, el_handlers := Some uuid\<rparr>"
  define s3 where "s3 = clear_stream (s2\<lparr>m_session := Some uuid, m_element := Some e'\<rparr>)"
  have e': "el_src e' = el_src e" using st(4) by (simp add: e'_def replaceDOMElement_def)
  have s3: "m_element s3 = Some e'" "m_auth s3 = m_auth s" "m_connKey s3 = Some k" "m_streamConn s3 = Some k"
    "m_stoppedPlayer s3 = ''zms''" "m_activePlayer s3 = []" "m_log s3 = m_log s @ [M_Sent (Some k) CMD_STOP]" "m_active s3"
    "m_url_to_zms s3 = m_url_to_zms s"
    using s2 by (simp_all add: s3_def clear_stream_def)
  have r: "resumableZms s3" using s3 st(3) by (simp add: resumableZms_def has_key_def)
  have c: "srcAuthCurrent e' s3 = srcAuthCurrent e s" using e' s3(2) by (simp add: srcAuthCurrent_def)
  have sel: "select_zms r uuid s2 = (running ''zms''
      (if srcAuthCurrent e s then writeTextInfoBlock [] True (resume_zms s3) else rebuild_zms r e' s3))\<lparr>m_stoppedPlayer := []\<rparr>"
    using s2(1) s3(8) r c by (simp add: select_zms_def Let_def flip: e'_def s3_def)
  show ?thesis
  proof (cases "srcAuthCurrent e s")
    case True
    have "m_log (resume_zms s3) = m_log s3 @ [M_Sent (Some k) CMD_PLAY]"
      unfolding resume_zms_def using s3(4,6) by (subst command_log [where k = k]) (simp_all add: set_stream_def)
    moreover have "m_connKey (resume_zms s3) = Some k" "m_element (resume_zms s3) = Some e'" "m_streamTimer (resume_zms s3) \<noteq> None"
      using s3 by (simp_all add: resume_zms_def set_stream_def)
    ultimately show ?thesis unfolding start sel using True s3(7) e' by (simp add: running_def writeTextInfoBlock_def)
  next
    case False
    show ?thesis unfolding start sel using False s3 st(3)
      by (auto simp: running_def rebuild_zms_def Let_def set_connKey_def quitConnKey_def m_emit_def map_el_def)
  qed
qed

section \<open>A connection that is given up\<close>

text \<open>
  The monitor no longer holds the connkey \<open>k\<close>; a step that neither takes it up again nor
  sends a command under it.
\<close>

definition gone :: "string \<Rightarrow> mstream \<Rightarrow> bool" where
  "gone k s \<longleftrightarrow> m_connKey s \<noteq> Some k \<and> m_streamConn s \<noteq> Some k"

definition mute :: "string \<Rightarrow> mstream \<Rightarrow> mstream \<Rightarrow> bool" where
  "mute k s t \<longleftrightarrow> (gone k s \<longrightarrow> gone k t \<and> (\<forall>c. M_Sent (Some k) c \<in> set (m_log t) \<longleftrightarrow> M_Sent (Some k) c \<in> set (m_log s)))"

lemma mute_refl [simp]: "mute k s s"
  by (simp add: mute_def)

lemma mute_trans: "mute k s t \<Longrightarrow> mute k t u \<Longrightarrow> mute k s u"
  by (simp add: mute_def)

lemma mute_same:
  "m_connKey t = m_connKey s \<Longrightarrow> m_streamConn t = m_streamConn s \<Longrightarrow> m_log t = m_log s \<Longrightarrow> mute k s t"
  by (simp add: mute_def gone_def)

lemma mute_emit: "\<forall>c. e \<noteq> M_Sent (Some k) c \<Longrightarrow> mute k s (m_emit e s)"
  by (auto simp: mute_def gone_def m_emit_def)

lemma mute_command: "mute k s (m_streamCommand c s)" "mute k s (m_streamCmdQuery s)"
  "mute k s (m_streamCmdReq (m_streamConn s) c s)" "mute k s (quitConnKey (m_connKey s) s)"
  by (auto simp: mute_def gone_def m_streamCommand_def m_streamCmdQuery_def m_streamCmdReq_def quitConnKey_def m_emit_def
      writeTextInfoBlock_def Let_def split: option.split)

lemma mute_newkey: "k' \<noteq> k \<Longrightarrow> mute k s (set_connKey k' s)"
  by (simp add: mute_def gone_def set_connKey_def)

lemma mute_stop_player: "mute k s (stop_player w b s)"
  using mute_command(1) [of k s CMD_STOP] by (auto simp: stop_player_def Let_def mute_def gone_def m_emit_def)

lemma mute_stop: "mute k s (m_stop b s)"
proof -
  let ?s = "s\<lparr>m_starting := False, m_unload := False\<rparr>"
  have "mute k s (quiesce ?s)" by (rule mute_same) simp_all
  then have "mute k s (stop_player w b (quiesce ?s))" for w using mute_trans mute_stop_player by blast
  then show ?thesis by (auto simp: m_stop_def Let_def mute_def gone_def map_el_def)
qed

lemma mute_kill: "mute k s (m_kill s)"
proof -
  have "mute k s (m_stop True (m_streamCommand CMD_QUIT s'))" "mute k s (m_stop False s')"
    if "mute k s s'" for s'
    using that mute_trans mute_stop mute_command(1) by blast+
  moreover have "mute k s (map_el f s)" for f by (rule mute_same) (simp_all add: map_el_def)
  ultimately show ?thesis using mute_refl
    by (fastforce simp: m_kill_def Let_def mute_def gone_def split: option.split)
qed

lemma mute_restart: "restart ch d s = Some t \<Longrightarrow> mute k s t"
proof (erule restart.raw_induct [where P = "\<lambda>ch d s t. mute k s t", rotated])
  fix rec :: "string option \<Rightarrow> nat \<Rightarrow> mstream \<Rightarrow> mstream option" and ch d s t
  assume ih: "\<And>ch d s t. rec ch d s = Some t \<Longrightarrow> mute k s t"
    and body: "(let s = stopped_state s
      in if getCountStreamErrors (m_player s) s < limitCountErrors then Some (schedule_restart ch d s)
         else if m_selected s \<noteq> [] then Some (errorText s)
         else if \<not> m_active s then Some (m_kill s)
         else (case next_player [] s of
                 Try p \<Rightarrow> rec (m_channel s) 200 (s\<lparr>m_player := p\<rparr>)
               | GiveUp \<Rightarrow> Some (s\<lparr>m_fatal := True\<rparr>))) = Some t"
  have st: "mute k s (stopped_state s)" by (rule mute_trans [OF mute_stop mute_same]) simp_all
  have "mute k u (schedule_restart ch d u)" "mute k u (errorText u)" "mute k u (u\<lparr>m_fatal := True\<rparr>)"
    "mute k u (u\<lparr>m_player := p\<rparr>)" for u p
    by (rule mute_same; simp add: schedule_restart_def errorText_def writeTextInfoBlock_def)+
  then have "mute k (stopped_state s) t" using body ih mute_kill mute_trans [OF _ ih]
    by (simp add: Let_def split: if_splits choice.splits) (metis mute_trans option.inject)+
  with st show "mute k s t" by (rule mute_trans)
qed

lemma mute_via:
  "mute k s t \<Longrightarrow> m_connKey u = m_connKey t \<Longrightarrow> m_streamConn u = m_streamConn t \<Longrightarrow> m_log u = m_log t \<Longrightarrow> mute k s u"
  by (simp add: mute_def gone_def)

lemma mute_next:
  assumes "selectNextPlayer cur s = Some t"
  shows "mute k s t"
proof -
  have "mute k s (s\<lparr>m_player := p\<rparr>)" "mute k s (s\<lparr>m_fatal := b\<rparr>)" for p b by (rule mute_same; simp)+
  then show ?thesis using assms mute_kill mute_trans mute_restart
    by (auto simp: selectNextPlayer_def split: if_splits choice.splits) blast
qed

lemma mute_open: "mute k s (running p (reset_status (m_emit (M_Player x) s)))" "mute k s (running p (reset_status s))"
  "mute k s (continueRunningJanus s)"
  by (auto simp: mute_def gone_def running_def reset_status_def set_status_def m_emit_def continueRunningJanus_def)

lemma mute_go2rtc: "mute k s (select_go2rtc uuid ch s)"
proof -
  have a: "mute k s t" if "m_connKey t = m_connKey s" "m_streamConn t = m_streamConn s" "m_log t = m_log s" for t
    using that by (rule mute_same)
  show ?thesis
    by (auto simp: select_go2rtc_def Let_def mute_emit
        intro!: mute_trans [OF a mute_kill] mute_trans [OF a mute_open(1)] split: option.split)
qed

lemma mute_janus: "mute k s (select_janus uuid s)" "mute k s (janus_ready s)"
proof -
  have a: "mute k s t" if "m_connKey t = m_connKey s" "m_streamConn t = m_streamConn s" "m_log t = m_log s" for t
    using that by (rule mute_same)
  show "mute k s (select_janus uuid s)"
    by (auto simp: select_janus_def Let_def a
        intro!: mute_trans [OF a mute_kill] mute_trans [OF a mute_open(3)] mute_trans [OF a mute_emit] split: option.split)
  show "mute k s (janus_ready s)"
    by (auto simp: janus_ready_def Let_def a intro!: mute_trans [OF a mute_open(3)])
qed

lemma mute_registration: "mute k s (streamErrorRegistration b s)"
  by (rule mute_same) (simp_all add: streamErrorRegistration_def)

lemma mute_rtsp2web:
  assumes "select_rtsp2web uuid ch s = Some t"
  shows "mute k s t"
proof (cases "m_element s")
  case None
  have "mute k s (m_emit M_TypeError (s\<lparr>m_session := Some uuid\<rparr>))"
    by (rule mute_trans [OF mute_same mute_emit]) simp_all
  then show ?thesis using assms None by (auto simp: select_rtsp2web_def split: if_splits)
next
  case (Some e)
  define s' where "s' = s\<lparr>m_session := Some uuid, m_element := Some (replaceDOMElement VIDEO e), m_channel := Some ch\<rparr>"
  define t1 where "t1 = setRTSP2WebType (m_player s') s'"
  have s': "mute k s s'" by (rule mute_same) (simp_all add: s'_def)
  have t1: "mute k s t1" by (rule mute_via [OF s']) (simp_all add: t1_def setRTSP2WebType_def)
  have "mute k s t" if "restart (m_channel t1) 200 (streamErrorRegistration True t1) = Some t"
    by (rule mute_trans [OF t1 mute_trans [OF mute_registration mute_restart [OF that]]])
  moreover have "mute k s (running p (reset_status (m_emit (M_Player x) (t1\<lparr>m_hls := True\<rparr>))))"
    "mute k s (running p (reset_status (m_emit (M_Player x) (t1\<lparr>m_webrtc := True\<rparr>))))"
    "mute k s (running p (reset_status (m_emit (M_Player x) t1)))" "mute k s (running p (reset_status t1))"
    "mute k s (m_kill s')" for p x
    using mute_trans [OF mute_via [OF t1] mute_open(1)] mute_trans [OF t1 mute_open(1)]
      mute_trans [OF t1 mute_open(2)] mute_trans [OF s' mute_kill] by simp_all
  ultimately show ?thesis
    using assms Some unfolding select_rtsp2web_def Let_def
    by (simp add: s'_def [symmetric] t1_def [symmetric] split: if_splits) (metis option.inject)+
qed

lemma mute_opened: "mute k s (m_emit (M_Opened k' u) t)" if "mute k s t"
  using that by (rule mute_trans) (simp add: mute_emit)

lemma mute_el: "mute k s (map_el f t)" if "mute k s t"
  using that by (rule mute_via) (simp_all add: map_el_def)

lemma mute_rebuild:
  assumes "genConnKey r \<noteq> k"
  shows "mute k s (rebuild_zms r e s)"
proof -
  have "mute k s (set_connKey (genConnKey r) (quitConnKey (m_connKey s) s))"
    by (rule mute_trans [OF mute_command(4) mute_newkey [OF assms]])
  then show ?thesis
    by (auto simp: rebuild_zms_def Let_def intro: mute_opened mute_el mute_trans [OF mute_el mute_emit])
qed

lemma mute_zms:
  assumes "genConnKey r \<noteq> k"
  shows "mute k s (select_zms r uuid s)"
proof (cases "m_element s")
  case None
  then show ?thesis by (simp add: select_zms_def) (rule mute_trans [OF mute_same mute_emit]; simp)
next
  case (Some e0)
  define e where "e = (replaceDOMElement IMG e0)\<lparr>el_lazy := False, el_handlers := Some uuid\<rparr>"
  define t where "t = clear_stream (s\<lparr>m_session := Some uuid, m_element := Some e\<rparr>)"
  define s1 where "s1 = (if srcAuthCurrent e t \<and> resumableZms t then writeTextInfoBlock [] True (resume_zms t)
     else if srcAuthCurrent e t \<and> includes_str (el_src e) ''mode=paused'' then resume_zms t else rebuild_zms r e t)"
  have t: "mute k s t" by (rule mute_same) (simp_all add: t_def clear_stream_def)
  have "mute k t (resume_zms t)"
    unfolding resume_zms_def by (rule mute_trans [OF mute_same mute_command(1)]) (simp_all add: set_stream_def)
  then have "mute k t s1"
    using mute_via [of k t "resume_zms t" "writeTextInfoBlock [] True (resume_zms t)"] mute_rebuild [OF assms, of t e]
    by (simp add: s1_def writeTextInfoBlock_def)
  then have "mute k s ((running ''zms'' s1)\<lparr>m_stoppedPlayer := []\<rparr>)"
    using mute_trans [OF t] by (rule_tac mute_via) (simp_all add: running_def)
  moreover have "select_zms r uuid s = (if \<not> m_active t then m_kill t else (running ''zms'' s1)\<lparr>m_stoppedPlayer := []\<rparr>)"
    by (simp only: select_zms_def Some option.case Let_def s1_def t_def e_def)
  ultimately show ?thesis using mute_trans [OF t mute_kill] by simp
qed

lemma mute_start:
  assumes "m_start r uuid ch s = Some t" and "genConnKey r \<noteq> k"
  shows "mute k s t"
proof (cases "m_active s \<and> \<not> m_started s \<and> \<not> m_starting s")
  case False
  then show ?thesis using assms(1) by (auto simp: m_start_def split: if_splits)
next
  case True
  let ?s = "writeTextInfoBlock ''Loading...'' True (s\<lparr>m_starting := True\<rparr>)"
  define s1 where "s1 = (if m_player ?s = [] then ?s\<lparr>m_player := m_default ?s\<rparr> else ?s)"
  have s1: "mute k s s1" by (rule mute_same) (simp_all add: s1_def writeTextInfoBlock_def)
  have "mute k s1 t" if "selectPlayer r uuid c ?s = Some t" for c
    using that mute_go2rtc mute_janus(1) mute_zms [OF assms(2)] mute_rtsp2web mute_next
    unfolding selectPlayer_def Let_def s1_def [symmetric] by (auto split: if_splits)
  then show ?thesis using mute_trans [OF s1] assms(1) True by (auto simp: m_start_def Let_def split: if_splits option.splits)
qed

lemma mute_fires:
  assumes "restart_fires r u p s = Some t" and "genConnKey r \<noteq> k"
  shows "mute k s t"
proof -
  let ?s = "s\<lparr>m_restarts := remove1 p (m_restarts s)\<rparr>"
  have s: "mute k s ?s" by (rule mute_same) simp_all
  have "t = ?s \<or> m_start r u (fst p) ?s = Some t"
    using assms(1) by (simp add: restart_fires_def Let_def split: if_splits)
  then show ?thesis using s mute_trans [OF s mute_start] assms(2) by blast
qed

lemma mute_image: "mute k s (m_img_onerror s)" "mute k s (m_img_onload s)"
proof -
  have q: "mute k s (m_streamCmdQuery t)" if "mute k s t" for t using that mute_command(2) by (rule mute_trans)
  show "mute k s (m_img_onerror s)"
    by (auto simp: m_img_onerror_def image_failed_def Let_def mute_def gone_def m_emit_def map_el_def writeTextInfoBlock_def
        clear_stream_def streamErrorRegistration_def)
  have i: "mute k s (image_loaded s)" for s
  proof -
    let ?s = "s\<lparr>m_attempts := 0, m_authTimer := None\<rparr>"
    have "mute k s ?s" by (rule mute_same) simp_all
    then have "mute k s (m_streamCmdQuery ?s)" "mute k s ?s" using mute_trans mute_command(2) by blast+
    then show ?thesis
      by (auto simp: image_loaded_def Let_def writeTextInfoBlock_def set_stream_def elim: mute_via)
  qed
  have "mute k s (resetCountStreamErrors p s)" for p by (rule mute_same) (simp_all add: resetCountStreamErrors_def)
  then have "mute k s (image_loaded (resetCountStreamErrors p s))" for p using mute_trans i by blast
  then show "mute k s (m_img_onload s)" by (simp add: m_img_onload_def)
qed

lemma mute_auth:
  "mute k s (auth_timer_fires s)" "mute k s (auth_refresh_failed st src s)"
  "genConnKey r \<noteq> k \<Longrightarrow> mute k s (auth_refreshed r reply src s)"
  by (auto simp: auth_timer_fires_def auth_refresh_failed_def auth_refreshed_def Let_def mute_def gone_def m_emit_def
      writeTextInfoBlock_def set_connKey_def map_el_def split: option.split)

lemma mute_reply:
  assumes "genConnKey r \<noteq> k"
  shows "mute k s (m_getStreamCmdResponse r now rsp c s)"
proof -
  have c: "mute k s (m_streamCommand d s)" for d by (rule mute_command(1))
  have a: "mute k s (apply_status v s)" for v
    by (auto simp: apply_status_def Let_def intro: mute_via [OF c] mute_via [OF mute_refl] split: option.split)
  have "mute k s (set_connKey (genConnKey r) (quitConnKey (m_connKey s) s))"
    by (rule mute_trans [OF mute_command(4) mute_newkey [OF assms]])
  then have r: "mute k s (reload_stream r now e s)" for e
    by (auto simp: reload_stream_def Let_def intro: mute_opened mute_el mute_trans [OF _ mute_emit])
  show ?thesis using a r mute_via [OF a] mute_via [OF mute_refl]
    by (auto simp: m_getStreamCmdResponse_def Let_def set_stream_def split: option.split m_reply.split)
qed

lemma mute_scale: "mute k s (setStreamScale fw x q s)"
proof -
  have "mute k s (set_stream (map_el f (m_streamCommand c (clear_stream (s\<lparr>m_scale := y\<rparr>)))))"
    "mute k s (set_stream (map_el f (clear_stream (s\<lparr>m_scale := y\<rparr>))))" "mute k s (s\<lparr>m_scale := y\<rparr>)" for f c y
  proof -
    have 1: "mute k s (clear_stream (s\<lparr>m_scale := y\<rparr>))" by (rule mute_same) (simp_all add: clear_stream_def)
    have 2: "mute k s (m_streamCommand c (clear_stream (s\<lparr>m_scale := y\<rparr>)))" by (rule mute_trans [OF 1 mute_command(1)])
    show "mute k s (set_stream (map_el f (m_streamCommand c (clear_stream (s\<lparr>m_scale := y\<rparr>)))))"
      by (rule mute_via [OF 2]) (simp_all add: set_stream_def map_el_def)
    show "mute k s (set_stream (map_el f (clear_stream (s\<lparr>m_scale := y\<rparr>))))"
      by (rule mute_via [OF 1]) (simp_all add: set_stream_def map_el_def)
    show "mute k s (s\<lparr>m_scale := y\<rparr>)" by (rule mute_same) simp_all
  qed
  then show ?thesis by (auto simp: setStreamScale_def Let_def split: option.split)
qed

lemma mute_page:
  "mute k s (m_pause s)" "mute k s (m_play s)" "mute k s (setMaxFPS v s)" "mute k s (show_analyse_frames b s)"
  "mute k s (alarmCommand c s)" "mute k s (onFailure err s)" "mute k s (setPlayer p ui s)"
proof -
  have "mute k s (m_streamCmdReq (m_streamConn s) c (s\<lparr>m_analyse := b\<rparr>))" for c
    using mute_trans [OF mute_same mute_command(3), of "s\<lparr>m_analyse := b\<rparr>" s k c] by simp
  then show "mute k s (m_pause s)" "mute k s (m_play s)" "mute k s (setMaxFPS v s)" "mute k s (show_analyse_frames b s)"
    "mute k s (alarmCommand c s)" "mute k s (onFailure err s)" "mute k s (setPlayer p ui s)"
    by (auto simp: m_pause_def m_play_def setMaxFPS_def show_analyse_frames_def alarmCommand_def onFailure_def setPlayer_def
        setRTSP2WebType_def clear_status_def set_status_def Let_def
        intro: mute_command(1) mute_emit mute_same split: option.split)
qed

lemma mute_exec: "m_exec r u ev s = Some t \<Longrightarrow> genConnKey r \<noteq> k \<Longrightarrow> mute k s t"
proof (induction r u ev s rule: m_exec.induct)
  case (7 r u b s)
  then show ?case by (auto intro: mute_same)
next
  case (8 r u c s)
  then show ?case by (auto intro: mute_same)
next
  case (9 r u p s)
  then show ?case using mute_fires by (auto split: if_splits)
next
  case (22 r u s)
  then show ?case using mute_trans [OF mute_registration mute_restart] by (simp add: player_error_def)
next
  case (23 r u mode s)
  then obtain v where v: "player_error (s\<lparr>m_player := ''go2rtc_'' @ mode\<rparr>) = Some v" "t = writeTextInfoBlock ''Error'' True v"
    by (auto simp: go2rtc_error_def)
  have "mute k s (streamErrorRegistration False (s\<lparr>m_player := ''go2rtc_'' @ mode\<rparr>))"
    by (rule mute_same) (simp_all add: streamErrorRegistration_def)
  then have "mute k s v" using v(1) mute_trans mute_restart unfolding player_error_def by blast
  then show ?case unfolding v(2) by (rule mute_via) (simp_all add: writeTextInfoBlock_def)
next
  case (25 r u now st v s)
  then show ?case using mute_restart mute_trans [OF mute_registration mute_restart]
    by (auto split: mse_action.splits if_splits)
qed (auto simp: mute_stop mute_kill mute_page mute_command mute_image mute_auth mute_reply mute_scale mute_janus(2)
    elim: mute_start)

lemma mute_run: "m_run evs s = Some t \<Longrightarrow> list_all (\<lambda>(r, u, ev). genConnKey r \<noteq> k) evs \<Longrightarrow> mute k s t"
proof (induction evs arbitrary: s)
  case (Cons e evs)
  obtain r u ev where e: "e = (r, u, ev)" by (cases e)
  from Cons.prems obtain s' where "m_exec r u ev s = Some s'" "m_run evs s' = Some t" by (auto simp: e bind_eq_Some_conv)
  then show ?case using Cons mute_exec [of r u ev s s' k] mute_trans by (auto simp: e)
qed simp

text \<open>
  C35. A reconnect that is already asking for a credential is not cancelled when the stream is
  stopped and started in between: when its answer arrives, the connkey the monitor holds by
  then, of a connection that may be working, is replaced, and whatever happens afterwards, as
  long as that key is not drawn again, nothing is ever sent to that zms, a quit least of all.
\<close>
theorem late_reconnect_loses_zms:
  assumes "src \<in> set (m_refreshing s)" and "m_connKey s = Some k" and "m_element s \<noteq> None"
    and "m_run ((r, u, AuthDone reply src) # evs) s = Some t"
    and "list_all (\<lambda>(r, u, ev). genConnKey r \<noteq> k) ((r, u, AuthDone reply src) # evs)"
  shows "m_connKey t \<noteq> Some k \<and> m_streamConn t \<noteq> Some k
    \<and> {c. M_Sent (Some k) c \<in> set (m_log t)} = {c. M_Sent (Some k) c \<in> set (m_log s)}"
proof -
  let ?u = "auth_refreshed r reply src s"
  have "gone k ?u" "{c. M_Sent (Some k) c \<in> set (m_log ?u)} = {c. M_Sent (Some k) c \<in> set (m_log s)}"
    using assms(2,3,5) by (auto simp: auth_refreshed_def gone_def Let_def set_connKey_def m_emit_def map_el_def)
  moreover have "mute k ?u t" using assms(1,4,5) by (intro mute_run) auto
  ultimately show ?thesis by (auto simp: mute_def gone_def)
qed
section \<open>Races\<close>

definition reconnecting :: "(nat \<times> string \<times> m_event) list" where
  "reconnecting = [(0, ''s0'', SetPlayer ''zms'' ''zms''), (1, ''s1'', Start None), (0, [], ImgError), (0, [], AuthTimer),
     (0, [], Stop), (5, ''s2'', Start None), (0, [], ImgLoad)]"

definition late_janus :: "(nat \<times> string \<times> m_event) list" where
  "late_janus = [(0, ''s0'', Start (Some ''Primary'')), (0, [], Stop), (0, [], SetPlayer ''zms'' ''zms''), (1, ''s1'', Start None),
     (0, [], JanusReady), (0, [], Kill)]"

text \<open>The reconnect waits for its credential while the new connection plays.\<close>

lemma reconnecting_state:
  "map_option (\<lambda>s. (m_refreshing s, m_connKey s, m_element s \<noteq> None, m_log s)) (m_run reconnecting (demo_monitor ''zms'')) = Some
     ([''/zms?monitor=7&mode=jpeg&auth=a1&connkey=000002&scale=100''], Some ''000006'', True,
      [M_Opened ''000002'' ''/zms?monitor=7&mode=jpeg&auth=a1&connkey=000002&scale=100'', M_ImgError (Some ''000002''),
       M_Sent (Some ''000002'') CMD_STOP, M_Sent (Some ''000002'') CMD_QUIT,
       M_Opened ''000006'' ''/zms?monitor=7&mode=jpeg&auth=a1&connkey=000006&scale=100'', M_Sent (Some ''000006'') CMD_QUERY])"
  by code_simp

text \<open>
  A Janus start-up that finishes after the user has moved to zms takes over as the active
  player, and killing the stream then closes Janus and sends zms neither stop nor quit.
\<close>

lemma late_janus_log:
  "map_option m_log (m_run late_janus ((demo_monitor ''janus'')\<lparr>m_janusOn := True\<rparr>)) = Some
     [M_Opened ''000002'' ''/zms?monitor=7&mode=jpeg&auth=a1&connkey=000002&scale=100'', M_Player ''janus'', M_Released ''janus'']"
  by code_simp

section \<open>Witnesses\<close>

text \<open>
  A monitor whose default player is \<^verbatim>\<open>go2rtc\<close>, in automatic mode: WebRTC fails, MSE fails, zms
  fails twice; after the tab was hidden and shown, HLS is tried and fails as well.
\<close>

definition auto_fallback :: "(nat \<times> string \<times> m_event) list" where
  "auto_fallback = [(0, ''a'', Start None), (0, [], Go2rtcError ''webrtc''), (0, [], RestartFires (Some ''Restream'', 200, Some ''a'')),
     (0, ''d'', RestartFires (Some ''Restream'', 200, Some ''a'')), (0, [], Go2rtcError ''mse''),
     (0, [], RestartFires (Some ''Restream'', 200, Some ''d'')), (1, ''g'', RestartFires (Some ''Restream'', 200, Some ''d'')),
     (0, [], ImgError), (0, [], ImgError)]"

definition hls_fails :: "(nat \<times> string \<times> m_event) list" where
  "hls_fails = [(0, [], Stop), (0, [], Start (Some ''Restream'')), (0, ''l'', RestartFires (Some ''Restream'', 200, Some ''g'')),
     (0, [], Go2rtcError ''hls'')]"

lemma fresh_demo: "fresh_monitor (demo_monitor p)"
  by (simp add: fresh_monitor_def demo_monitor_def)

lemma run_append: "m_run (xs @ ys) s = Option.bind (m_run xs s) (m_run ys)"
  by (induction xs arbitrary: s) (auto simp: bind_assoc split: Option.bind_splits)

lemma auto_fallback_state:
  "map_option (\<lambda>s. (m_active s, m_selected s, entry_of (m_default s) (m_errors s), getCountStreamErrors (m_player s) s,
      getCountStreamErrors ''zms'' s)) (m_run auto_fallback (demo_monitor ''go2rtc'')) = Some (True, [], None, 2, 2)"
  by code_simp

theorem restart_returns_iff_witness:
  "\<exists>s. m_run auto_fallback (demo_monitor ''go2rtc'') = Some s \<and> \<not> (\<exists>t. restart (Some ''Restream'') 200 s = Some t)"
proof -
  obtain s where s: "m_run auto_fallback (demo_monitor ''go2rtc'') = Some s"
    and "m_active s" "m_selected s = []" "entry_of (m_default s) (m_errors s) = None"
      "getCountStreamErrors (m_player s) s = 2" "getCountStreamErrors ''zms'' s = 2"
    using auto_fallback_state by (auto simp: map_option_eq_Some)
  then have "\<not> (\<exists>t. restart (Some ''Restream'') 200 s = Some t)"
    unfolding restart_returns_iff [OF fresh_demo s] by simp
  then show ?thesis using s by blast
qed

text \<open>The call that never returns is reached: the restart after HLS has failed.\<close>

lemma hls_fails_state:
  "map_option (\<lambda>s. (m_restarts s, m_session s, m_started s, m_starting s, m_active s, m_selected s, m_player s, m_default s,
      m_errors s)) (m_run (auto_fallback @ hls_fails) (demo_monitor ''go2rtc'')) =
    Some ([(Some ''Restream'', 200, Some ''l'')], Some ''l'', False, False, True, [], ''go2rtc_hls'', ''go2rtc'',
      [(1, ''default'', 0), (2, ''go2rtc_webrtc'', 1), (3, ''go2rtc_mse'', 1), (5, ''rtsp2web_webrtc'', 0), (6, ''rtsp2web_mse'', 0),
       (7, ''rtsp2web_hls'', 0), (8, ''janus'', 0), (9, ''zms'', 2), (100, ''go2rtc_hls'', 1)])"
  by code_simp

lemma next_player_same:
  assumes "m_default t = m_default s" "m_player t = m_player s" "m_errors t = m_errors s" "m_go2rtc t = m_go2rtc s"
    "m_go2rtcPath t = m_go2rtcPath s" "m_rtsp2web t = m_rtsp2web s" "m_janusOn t = m_janusOn s" "m_selected t = m_selected s"
  shows "next_player c t = next_player c s"
proof -
  have "eligible t = eligible s" using assms by (intro ext) (simp add: eligible_def)
  then show ?thesis by (simp only: next_player_def assms)
qed

lemma auto_mode_hangs:
  "m_run (auto_fallback @ hls_fails @ [(0, [], RestartFires (Some ''Restream'', 200, Some ''l''))]) (demo_monitor ''go2rtc'') = None"
proof -
  obtain s where run: "m_run (auto_fallback @ hls_fails) (demo_monitor ''go2rtc'') = Some s"
    and st: "m_restarts s = [(Some ''Restream'', 200, Some ''l'')]" "m_session s = Some ''l''" "\<not> m_started s" "\<not> m_starting s"
      "m_active s" "m_selected s = []" "m_player s = ''go2rtc_hls''" "m_default s = ''go2rtc''"
      "m_errors s = [(1, ''default'', 0), (2, ''go2rtc_webrtc'', 1), (3, ''go2rtc_mse'', 1), (5, ''rtsp2web_webrtc'', 0),
       (6, ''rtsp2web_mse'', 0), (7, ''rtsp2web_hls'', 0), (8, ''janus'', 0), (9, ''zms'', 2), (100, ''go2rtc_hls'', 1)]"
    using hls_fails_state by (auto simp: map_option_eq_Some)
  define s1 where "s1 = writeTextInfoBlock ''Loading...'' True (s\<lparr>m_restarts := [], m_starting := True\<rparr>)"
  have s1: "m_player s1 = ''go2rtc_hls''" "m_errors s1 = m_errors s" "m_selected s1 = []" "m_active s1" "m_default s1 = ''go2rtc''"
    using st by (simp_all add: s1_def writeTextInfoBlock_def)
  have counts: "getCountStreamErrors ''go2rtc_hls'' s1 = 1" "getCountStreamErrors ''zms'' s1 = 2"
    unfolding getCountStreamErrors_def s1 st(9) by code_simp+
  have e: "entry_of ''go2rtc'' (m_errors s1) = None" "entry_of ''go2rtc_hls'' (m_errors s1) = Some (100, ''go2rtc_hls'', 1)"
    unfolding s1 st(9) by code_simp+
  have "tl (dropWhile (\<lambda>e. fst e \<noteq> 100) (sort_key fst (m_errors s1))) = []" unfolding s1 st(9) by code_simp
  moreover have "\<not> includes_str ''go2rtc_hls'' ''zms''" by code_simp
  ultimately have "next_player ''go2rtc_hls'' s1 = Try ''zms''"
    using s1 e by (simp add: next_player_def Let_def del: includes_str.simps)
  moreover have "restart (m_channel s1) 200 (s1\<lparr>m_player := ''zms''\<rparr>) = None"
    using restart_loops_none [of "m_channel s1" 200 "s1\<lparr>m_player := ''zms''\<rparr>"] s1 counts e
    by (cases "restart (m_channel s1) 200 (s1\<lparr>m_player := ''zms''\<rparr>)") (simp_all add: restart_loops_def limitCountErrors_def)
  ultimately have "selectPlayer 0 [] c s1 = None" for c
    using s1 counts by (simp add: selectPlayer_def selectNextPlayer_def Let_def)
  then have "m_exec 0 [] (RestartFires (Some ''Restream'', 200, Some ''l'')) s = None"
    using st by (simp add: restart_fires_def m_start_def Let_def flip: s1_def)
  then show ?thesis using run by (simp add: run_append [of "auto_fallback @ hls_fails", simplified])
qed

definition zms_playing :: "(nat \<times> string \<times> m_event) list" where
  "zms_playing = [(0, [], SetPlayer ''zms'' ''zms''), (1, ''s1'', Start None), (0, [], ImgLoad)]"

lemma zms_playing_state:
  "map_option (\<lambda>s. (m_active s, m_activePlayer s, m_connKey s, m_player s, m_selected s, m_log s, m_element s,
       map_option (\<lambda>e. srcAuthCurrent e s) (m_element s))) (m_run zms_playing (demo_monitor ''zms'')) =
     Some (True, ''zms'', Some ''000002'', ''zms'', ''zms'',
       [M_Opened ''000002'' ''/zms?monitor=7&mode=jpeg&auth=a1&connkey=000002&scale=100'', M_Sent (Some ''000002'') CMD_QUERY],
       Some \<lparr>nodeName = IMG, el_src = ''/zms?monitor=7&mode=jpeg&auth=a1&connkey=000002&scale=100'', el_lazy = False,
         el_handlers = Some ''s1''\<rparr>, Some True)"
  by code_simp

theorem monitor_zms_accounted_witness:
  "\<exists>t. m_run zms_playing (demo_monitor ''zms'') = Some t \<and> m_streamConn t = Some ''000002''
     \<and> (\<exists>u. M_Opened ''000002'' u \<in> set (m_log t))"
proof -
  obtain t where t: "m_run zms_playing (demo_monitor ''zms'') = Some t" and k: "m_connKey t = Some ''000002''"
    and l: "\<exists>u. M_Opened ''000002'' u \<in> set (m_log t)"
    using zms_playing_state by (auto simp: map_option_eq_Some)
  show ?thesis using monitor_zms_accounted [OF fresh_demo t] t k l by auto
qed

theorem monitor_well_typed_witness:
  "\<exists>t. m_run zms_playing (demo_monitor ''zms'') = Some t \<and> m_activePlayer t = ''zms'' \<and> m_started t
     \<and> map_option nodeName (m_element t) = Some IMG"
proof -
  obtain t where t: "m_run zms_playing (demo_monitor ''zms'') = Some t" and p: "m_activePlayer t = ''zms''"
    using zms_playing_state by (auto simp: map_option_eq_Some)
  show ?thesis using monitor_well_typed [OF fresh_demo t] t p by auto
qed

theorem hidden_tab_resumes_witness:
  "\<exists>s t. m_run zms_playing (demo_monitor ''zms'') = Some s \<and> m_start 9 ''s2'' None (m_stop False s) = Some t
     \<and> m_connKey t = Some ''000002''
     \<and> m_log t = m_log s @ [M_Sent (Some ''000002'') CMD_STOP, M_Sent (Some ''000002'') CMD_PLAY]"
proof -
  obtain s e where s: "m_run zms_playing (demo_monitor ''zms'') = Some s"
    and f: "m_active s" "m_activePlayer s = ''zms''" "m_connKey s = Some ''000002''" "m_element s = Some e" "m_player s = ''zms''"
      "m_selected s = ''zms''" "srcAuthCurrent e s"
    using zms_playing_state by (auto simp: map_option_eq_Some)
  show ?thesis
    using hidden_tab_resumes [OF fresh_demo s f(1-5) disjI2 [OF f(6)], of 9 "''s2''" None] s f(7) by auto
qed

theorem late_reconnect_loses_zms_witness:
  "\<exists>s t u. m_run reconnecting (demo_monitor ''zms'') = Some s \<and> M_Opened ''000006'' u \<in> set (m_log s)
     \<and> m_run [(7, [], AuthDone None ''/zms?monitor=7&mode=jpeg&auth=a1&connkey=000002&scale=100''), (0, [], Kill)] s = Some t
     \<and> M_Sent (Some ''000006'') CMD_QUIT \<notin> set (m_log t)"
proof -
  let ?late = "(7, [], AuthDone None ''/zms?monitor=7&mode=jpeg&auth=a1&connkey=000002&scale=100'') :: nat \<times> string \<times> m_event"
  obtain s where s: "m_run reconnecting (demo_monitor ''zms'') = Some s"
    and f: "m_refreshing s = [''/zms?monitor=7&mode=jpeg&auth=a1&connkey=000002&scale=100'']" "m_connKey s = Some ''000006''"
      "m_element s \<noteq> None" "\<exists>u. M_Opened ''000006'' u \<in> set (m_log s)" "M_Sent (Some ''000006'') CMD_QUIT \<notin> set (m_log s)"
    using reconnecting_state by (auto simp: map_option_eq_Some)
  obtain t where t: "m_run [?late, (0, [], Kill)] s = Some t" by simp
  have "genConnKey 7 \<noteq> ''000006''" "genConnKey 0 \<noteq> ''000006''" by code_simp+
  then have "{c. M_Sent (Some ''000006'') c \<in> set (m_log t)} = {c. M_Sent (Some ''000006'') c \<in> set (m_log s)}"
    using late_reconnect_loses_zms [OF _ f(2,3) t] f(1) by simp
  then show ?thesis using s f(4,5) t by blast
qed

end
