(* ===== verification/Monitor_Media.thy ===== *)
theory Monitor_Media
  imports Js_Prelude
begin

text \<open>
  The packets of a live stream that is played through Media Source Extensions
  (\<^verbatim>\<open>web/js/MonitorStream.js\<close>: \<^verbatim>\<open>startMsePlay\<close>, \<^verbatim>\<open>mseListenerSourceopen\<close>,
  \<^verbatim>\<open>readMsePacket\<close>, \<^verbatim>\<open>pushMsePacket\<close>, \<^verbatim>\<open>appendMseBuffer\<close>, \<^verbatim>\<open>stopMse\<close>, \<^verbatim>\<open>closeWebSocket\<close>): a machine over
  the socket, the source buffer, the packet queue and the promises of \<^verbatim>\<open>stopMse\<close>, and the
  proof that it refines a first-in first-out channel. A restart is what it does to this
  state, which is what stopping does; the choice of the next player is in
  \<^verbatim>\<open>Monitor_Players\<close>.
\<close>

section \<open>State\<close>

datatype buf_op = BufIdle | Appending | Removing

text \<open>
  A source buffer of the browser: the operation under way (\<^verbatim>\<open>updating\<close>), whether
  \<^verbatim>\<open>pushMsePacket\<close> listens to its \<^verbatim>\<open>updateend\<close>, whether it is still in \<^verbatim>\<open>mse.sourceBuffers\<close>, and
  whether the \<^verbatim>\<open>updateend\<close> of an aborted operation is still to be delivered.
\<close>

record sbuf =
  sb_id :: nat
  sb_op :: buf_op
  sb_listening :: bool
  sb_attached :: bool
  sb_late :: bool

datatype ws_state = WsConnecting | WsOpen | WsClosing | WsClosed

text \<open>
  \<open>c_mse\<close> is whether the media source is open, \<open>c_listen\<close> whether its \<^verbatim>\<open>sourceopen\<close> is listened to;
  \<open>c_sockets\<close> holds the playback sessions a socket was opened for, \<open>c_timers\<close> the waiting starts
  (id and session), \<open>c_awaiting\<close> the buffers whose removal a promise of \<^verbatim>\<open>stopMse\<close> waits for and
  \<open>c_settled\<close> whether such a promise is settled, its continuation still to run. \<open>c_received\<close>
  and \<open>c_appended\<close> record the packets taken and those the current buffer accepted;
  \<open>c_failures\<close> the errors registered.
\<close>

record 'p mse_ctx =
  c_started :: bool
  c_session :: nat
  c_mse :: "bool option"
  c_listen :: bool
  c_buffer :: "sbuf option"
  c_queue :: "'p list"
  c_streaming :: bool
  c_cleared :: bool
  c_ws :: "ws_state option"
  c_sockets :: "nat list"
  c_timers :: "(nat \<times> nat) list"
  c_waitingStart :: "nat option"
  c_ids :: nat
  c_awaiting :: "nat list"
  c_settled :: bool
  c_received :: "'p list"
  c_appended :: "'p list"
  c_failures :: nat

section \<open>Stopping\<close>

definition closeWebSocket :: "'p mse_ctx \<Rightarrow> 'p mse_ctx" where
  "closeWebSocket s =
     (case c_ws s of
        Some WsConnecting \<Rightarrow> s\<lparr>c_ws := Some WsClosing, c_queue := []\<rparr>
      | Some WsOpen \<Rightarrow> s\<lparr>c_ws := Some WsClosing, c_queue := []\<rparr>
      | _ \<Rightarrow> s\<lparr>c_queue := []\<rparr>)"

definition clearWebSocket :: "'p mse_ctx \<Rightarrow> 'p mse_ctx" where
  "clearWebSocket s = s\<lparr>c_ws := None\<rparr>"

text \<open>
  The executor of the promise. \<^verbatim>\<open>abort\<close> throws while a removal runs, and \<^verbatim>\<open>remove\<close> may
  throw (\<open>rm\<close> is whether it succeeds); both reject the promise. With a buffer that has left
  \<^verbatim>\<open>mse.sourceBuffers\<close> nothing is removed, and the promise waits all the same.
\<close>

definition stopMse :: "bool \<Rightarrow> 'p mse_ctx \<Rightarrow> 'p mse_ctx" where
  "stopMse rm s0 =
     (let s = s0\<lparr>c_cleared := False\<rparr>
      in (case c_buffer s of
            None \<Rightarrow> s\<lparr>c_listen := False, c_settled := True\<rparr>
          | Some b \<Rightarrow>
              if sb_op b = Removing then s\<lparr>c_settled := True\<rparr>
              else (let b1 = b\<lparr>sb_op := BufIdle, sb_listening := False, sb_late := sb_late b \<or> sb_op b = Appending\<rparr>
                    in if c_mse s = None \<or> sb_attached b \<and> \<not> rm
                       then s\<lparr>c_buffer := Some b1, c_listen := False, c_settled := True\<rparr>
                       else s\<lparr>c_buffer := Some (if sb_attached b then b1\<lparr>sb_op := Removing\<rparr> else b1),
                              c_listen := False, c_awaiting := c_awaiting s @ [sb_id b]\<rparr>)))"

text \<open>The continuation of the promise; the fulfilled and the rejected one end alike.\<close>

definition mse_stopped :: "'p mse_ctx \<Rightarrow> 'p mse_ctx" where
  "mse_stopped s = (closeWebSocket s)\<lparr>c_mse := None, c_listen := False, c_streaming := False, c_buffer := None, c_cleared := True\<rparr>"

definition microtasks :: "'p mse_ctx \<Rightarrow> 'p mse_ctx" where
  "microtasks s = (if c_settled s then (mse_stopped s)\<lparr>c_settled := False\<rparr> else s)"

text \<open>\<^verbatim>\<open>stop\<close> while MSE is the active player.\<close>

definition mse_stop :: "bool \<Rightarrow> 'p mse_ctx \<Rightarrow> 'p mse_ctx" where
  "mse_stop rm s = (if c_started s then (stopMse rm s)\<lparr>c_started := False\<rparr> else s)"

definition mse_error :: "bool \<Rightarrow> nat \<Rightarrow> 'p mse_ctx \<Rightarrow> 'p mse_ctx" where
  "mse_error rm n s = mse_stop rm (s\<lparr>c_failures := c_failures s + n\<rparr>)"

section \<open>Packets\<close>

text \<open>
  \<^verbatim>\<open>appendBuffer\<close> throws for a buffer that is updating or no longer attached, and whenever the
  browser refuses the data (\<open>ap\<close> is whether it takes it).
\<close>

definition appendMseBuffer :: "bool \<Rightarrow> bool \<Rightarrow> 'p \<Rightarrow> 'p mse_ctx \<Rightarrow> 'p mse_ctx" where
  "appendMseBuffer ap rm p s =
     (case c_buffer s of
        Some b \<Rightarrow> if ap \<and> sb_op b = BufIdle \<and> sb_attached b
                  then s\<lparr>c_buffer := Some (b\<lparr>sb_op := Appending\<rparr>), c_appended := c_appended s @ [p]\<rparr>
                  else mse_error rm 1 s
      | None \<Rightarrow> mse_error rm 1 s)"

definition pushMsePacket :: "bool \<Rightarrow> bool \<Rightarrow> 'p mse_ctx \<Rightarrow> 'p mse_ctx" where
  "pushMsePacket ap rm s =
     (case c_buffer s of
        None \<Rightarrow> s
      | Some b \<Rightarrow>
          if sb_op b \<noteq> BufIdle then s
          else (case c_queue s of
                  p # q \<Rightarrow> appendMseBuffer ap rm p (s\<lparr>c_queue := q\<rparr>)
                | [] \<Rightarrow> s\<lparr>c_streaming := False\<rparr>))"

definition readMsePacket :: "bool \<Rightarrow> bool \<Rightarrow> 'p \<Rightarrow> 'p mse_ctx \<Rightarrow> 'p mse_ctx" where
  "readMsePacket ap rm p s0 =
     (if \<not> c_started s0 then s0
      else (case c_buffer s0 of
              None \<Rightarrow> s0
            | Some b \<Rightarrow>
                (let s = s0\<lparr>c_received := c_received s0 @ [p]\<rparr>
                 in if \<not> c_streaming s then (appendMseBuffer ap rm p s)\<lparr>c_streaming := True\<rparr>
                    else (let s1 = s\<lparr>c_queue := c_queue s @ [p]\<rparr>
                          in if sb_op b = BufIdle then pushMsePacket ap rm s1 else s1))))"

text \<open>A message of the socket of session \<open>sid\<close>; the first one names the codec.\<close>

datatype 'p ws_message = Codec bool | Packet 'p

definition ws_onmessage :: "bool \<Rightarrow> bool \<Rightarrow> nat \<Rightarrow> 'p ws_message \<Rightarrow> 'p mse_ctx \<Rightarrow> 'p mse_ctx" where
  "ws_onmessage ap rm sid m s =
     (if sid \<noteq> c_session s then s
      else if c_mse s \<noteq> Some True then s
      else (case m of
              Codec supported \<Rightarrow>
                if \<not> supported then mse_error rm 2 s
                else s\<lparr>c_buffer := Some \<lparr>sb_id = c_ids s, sb_op = BufIdle, sb_listening = True, sb_attached = True, sb_late = False\<rparr>,
                       c_ids := c_ids s + 1, c_received := [], c_appended := []\<rparr>
            | Packet p \<Rightarrow> readMsePacket ap rm p s))"

section \<open>Starting\<close>

definition startMsePlay :: "'p mse_ctx \<Rightarrow> 'p mse_ctx" where
  "startMsePlay s0 =
     (let busy = (c_ws s0 = Some WsOpen \<or> c_ws s0 = Some WsConnecting);
          s = (if c_ws s0 = Some WsOpen then closeWebSocket s0 else s0)
      in if c_cleared s0 \<and> \<not> busy
         then s\<lparr>c_timers := filter (\<lambda>t. Some (fst t) \<noteq> c_waitingStart s) (c_timers s), c_mse := Some False, c_listen := True\<rparr>
         else s\<lparr>c_timers := c_timers s @ [(c_ids s, c_session s)], c_waitingStart := Some (c_ids s), c_ids := c_ids s + 1\<rparr>)"

text \<open>\<^verbatim>\<open>start\<close> with MSE as the player: a new playback session.\<close>

definition mse_start :: "'p mse_ctx \<Rightarrow> 'p mse_ctx" where
  "mse_start s = (if c_started s then s else (startMsePlay (s\<lparr>c_session := c_session s + 1\<rparr>))\<lparr>c_started := True\<rparr>)"

definition waiting_fires :: "nat \<times> nat \<Rightarrow> 'p mse_ctx \<Rightarrow> 'p mse_ctx" where
  "waiting_fires t s0 =
     (let s = s0\<lparr>c_timers := remove1 t (c_timers s0)\<rparr>
      in if snd t = c_session s \<and> c_started s then startMsePlay s else s)"

definition mseListenerSourceopen :: "'p mse_ctx \<Rightarrow> 'p mse_ctx" where
  "mseListenerSourceopen s = s\<lparr>c_ws := Some WsConnecting, c_sockets := c_session s # c_sockets s\<rparr>"

definition ws_onclose :: "nat \<Rightarrow> 'p mse_ctx \<Rightarrow> 'p mse_ctx" where
  "ws_onclose sid s = (if sid = c_session s then clearWebSocket s else s)"

definition ws_onerror :: "bool \<Rightarrow> nat \<Rightarrow> 'p mse_ctx \<Rightarrow> 'p mse_ctx" where
  "ws_onerror rm sid s = (if sid = c_session s \<and> c_started s then mse_error rm 1 s else s)"

text \<open>
  The \<^verbatim>\<open>updateend\<close> of the current buffer: of an operation that has ended, or of one that was
  aborted. It settles the promises that wait for this buffer.
\<close>

definition buffer_updateend :: "bool \<Rightarrow> bool \<Rightarrow> 'p mse_ctx \<Rightarrow> 'p mse_ctx" where
  "buffer_updateend ap rm s =
     (case c_buffer s of
        None \<Rightarrow> s
      | Some b \<Rightarrow>
          if \<not> sb_late b \<and> sb_op b = BufIdle then s
          else (let b1 = (if sb_late b then b\<lparr>sb_late := False\<rparr> else b\<lparr>sb_op := BufIdle\<rparr>);
                    s1 = s\<lparr>c_buffer := Some b1, c_settled := c_settled s \<or> sb_id b \<in> set (c_awaiting s),
                           c_awaiting := filter (\<lambda>i. i \<noteq> sb_id b) (c_awaiting s)\<rparr>
                in if sb_listening b then pushMsePacket ap rm s1 else s1))"

text \<open>The removal of a buffer the stream no longer holds has ended.\<close>

definition old_updateend :: "nat \<Rightarrow> 'p mse_ctx \<Rightarrow> 'p mse_ctx" where
  "old_updateend i s =
     (if i \<in> set (c_awaiting s) \<and> map_option sb_id (c_buffer s) \<noteq> Some i
      then s\<lparr>c_settled := True, c_awaiting := filter (\<lambda>j. j \<noteq> i) (c_awaiting s)\<rparr> else s)"

text \<open>The browser detaches the media source from the element; an operation under way is aborted.\<close>

definition mse_detached :: "'p mse_ctx \<Rightarrow> 'p mse_ctx" where
  "mse_detached s = (if c_mse s \<noteq> Some True then s
     else s\<lparr>c_mse := Some False, c_buffer := map_option (\<lambda>b. b\<lparr>sb_attached := False, sb_op := BufIdle,
              sb_late := sb_late b \<or> sb_op b \<noteq> BufIdle\<rparr>) (c_buffer s)\<rparr>)"

section \<open>The machine\<close>

text \<open>
  Calls of the page happen within one task; every other event is a task of its own, before
  which the continuations of settled promises have run. The server sends the codec once,
  before the packets.
\<close>

datatype 'p mse_event = MseStart | MseStop bool | Waiting "nat \<times> nat" | SourceOpen | Message bool bool nat "'p ws_message"
  | WsOpened | WsClose nat | WsError bool nat | UpdateEnd bool bool | OldUpdateEnd nat | Detached

fun is_packet :: "'p ws_message \<Rightarrow> bool" where
  "is_packet (Packet p) = True"
| "is_packet (Codec ok) = False"

fun mse_task :: "'p mse_event \<Rightarrow> 'p mse_ctx \<Rightarrow> 'p mse_ctx" where
  "mse_task MseStart s = mse_start s"
| "mse_task (MseStop rm) s = mse_stop rm s"
| "mse_task (Waiting t) s = (if t \<in> set (c_timers s) then waiting_fires t s else s)"
| "mse_task SourceOpen s = (if c_listen s \<and> c_mse s = Some False then mseListenerSourceopen (s\<lparr>c_mse := Some True\<rparr>) else s)"
| "mse_task (Message ap rm sid m) s =
     (if sid \<in> set (c_sockets s) \<and> (is_packet m \<or> c_buffer s = None) then ws_onmessage ap rm sid m s else s)"
| "mse_task WsOpened s = (if c_ws s = Some WsConnecting then s\<lparr>c_ws := Some WsOpen\<rparr> else s)"
| "mse_task (WsClose sid) s = ws_onclose sid (s\<lparr>c_ws := map_option (\<lambda>_. WsClosed) (c_ws s)\<rparr>)"
| "mse_task (WsError rm sid) s = ws_onerror rm sid s"
| "mse_task (UpdateEnd ap rm) s = buffer_updateend ap rm s"
| "mse_task (OldUpdateEnd i) s = old_updateend i s"
| "mse_task Detached s = mse_detached s"

fun page_call :: "'p mse_event \<Rightarrow> bool" where
  "page_call MseStart = True"
| "page_call (MseStop rm) = True"
| "page_call _ = False"

definition mse_exec :: "'p mse_event \<Rightarrow> 'p mse_ctx \<Rightarrow> 'p mse_ctx" where
  "mse_exec ev s = mse_task ev (if page_call ev then s else microtasks s)"

definition fresh_mse :: "'p mse_ctx" where
  "fresh_mse = \<lparr>c_started = False, c_session = 0, c_mse = None, c_listen = False, c_buffer = None, c_queue = [],
     c_streaming = False, c_cleared = True, c_ws = None, c_sockets = [], c_timers = [], c_waitingStart = None, c_ids = 0,
     c_awaiting = [], c_settled = False, c_received = [], c_appended = [], c_failures = 0\<rparr>"

inductive mse_reachable :: "'p mse_ctx \<Rightarrow> bool" where
  mse_init: "mse_reachable fresh_mse"
| mse_step: "mse_reachable s \<Longrightarrow> mse_reachable (mse_exec ev s)"

section \<open>What every run keeps\<close>

definition fifo_ok :: "sbuf \<Rightarrow> 'p mse_ctx \<Rightarrow> bool" where
  "fifo_ok b s \<longleftrightarrow> c_started s \<and> c_session s \<in> set (c_sockets s) \<and> sb_op b \<noteq> Removing \<and> (sb_late b \<longrightarrow> \<not> sb_attached b \<and> sb_op b = BufIdle)
     \<and> c_appended s @ c_queue s = c_received s \<and> (\<not> c_streaming s \<longrightarrow> c_queue s = [] \<and> sb_op b = BufIdle)
     \<and> (c_queue s \<noteq> [] \<longrightarrow> sb_op b = Appending \<or> sb_late b)"

definition timers_ok :: "'p mse_ctx \<Rightarrow> bool" where
  "timers_ok s \<longleftrightarrow> (\<forall>t \<in> set (c_timers s). snd t \<le> c_session s) \<and> (\<forall>i \<in> set (c_sockets s). i \<le> c_session s)
     \<and> length (filter (\<lambda>t. snd t = c_session s) (c_timers s)) \<le> 1
     \<and> (c_session s \<in> set (c_sockets s) \<or> c_listen s \<longrightarrow> filter (\<lambda>t. snd t = c_session s) (c_timers s) = [])"

definition buffer_ok :: "'p mse_ctx \<Rightarrow> bool" where
  "buffer_ok s \<longleftrightarrow>
     (case c_buffer s of
        None \<Rightarrow> c_queue s = [] \<and> \<not> c_streaming s \<and> (c_mse s \<noteq> None \<and> \<not> c_settled s \<longrightarrow> c_started s)
      | Some b \<Rightarrow> (if sb_listening b then fifo_ok b s else \<not> c_cleared s \<and> \<not> c_listen s))
     \<and> (c_listen s \<longrightarrow> c_started s)"

definition mse_inv :: "'p mse_ctx \<Rightarrow> bool" where
  "mse_inv s \<longleftrightarrow> timers_ok s \<and> buffer_ok s"

named_theorems mse_defs "operations and invariants of the media machine"

lemmas [mse_defs] = mse_inv_def timers_ok_def buffer_ok_def fifo_ok_def closeWebSocket_def clearWebSocket_def
  stopMse_def mse_stopped_def microtasks_def mse_stop_def mse_error_def Let_def

lemma inv_stop: "mse_inv s \<Longrightarrow> mse_inv (mse_stop rm s)"
  by (auto simp: mse_defs split: option.splits if_splits)

lemma inv_microtasks: "mse_inv s \<Longrightarrow> mse_inv (microtasks s)"
  by (auto simp: mse_defs split: option.splits if_splits ws_state.splits)

text \<open>The state in which a packet may be pushed: the queue need not be waiting for an operation.\<close>

definition ready :: "'p mse_ctx \<Rightarrow> bool" where
  "ready s \<longleftrightarrow> (case c_buffer s of None \<Rightarrow> False
     | Some b \<Rightarrow> sb_listening b \<and> c_started s \<and> c_session s \<in> set (c_sockets s) \<and> sb_op b \<noteq> Removing
         \<and> (sb_late b \<longrightarrow> \<not> sb_attached b \<and> sb_op b = BufIdle) \<and> c_appended s @ c_queue s = c_received s
         \<and> (\<not> c_streaming s \<longrightarrow> c_queue s = [] \<and> sb_op b = BufIdle))"

lemma buf_op_cases: "op \<noteq> BufIdle \<Longrightarrow> op \<noteq> Removing \<Longrightarrow> op = Appending"
  by (cases op) auto

lemma inv_push: "timers_ok s \<Longrightarrow> ready s \<Longrightarrow> mse_inv (pushMsePacket ap rm s)"
  by (auto simp: mse_defs ready_def pushMsePacket_def appendMseBuffer_def dest: buf_op_cases
      split: option.splits if_splits list.splits)

text \<open>A buffer that is being given up: nothing it does reaches the queue's invariant.\<close>

definition given_up :: "'p mse_ctx \<Rightarrow> bool" where
  "given_up s \<longleftrightarrow> timers_ok s \<and> \<not> c_cleared s \<and> \<not> c_listen s
     \<and> (case c_buffer s of None \<Rightarrow> False | Some b \<Rightarrow> \<not> sb_listening b)"

lemma given_up_inv: "given_up s \<Longrightarrow> mse_inv s"
  by (auto simp: given_up_def mse_inv_def buffer_ok_def split: option.splits)

lemma given_up_frame: "given_up (s\<lparr>c_queue := q\<rparr>) = given_up s" "given_up (s\<lparr>c_streaming := v\<rparr>) = given_up s"
  "given_up (s\<lparr>c_received := r\<rparr>) = given_up s" "given_up (s\<lparr>c_failures := n\<rparr>) = given_up s"
  by (simp_all add: given_up_def timers_ok_def)

lemma given_up_stop: "given_up s \<Longrightarrow> given_up (mse_stop rm s)"
  by (auto simp: given_up_def timers_ok_def mse_stop_def stopMse_def Let_def split: option.splits)

lemma given_up_append: "given_up s \<Longrightarrow> given_up (appendMseBuffer ap rm p s)"
  using given_up_stop [of "s\<lparr>c_failures := c_failures s + 1\<rparr>"]
  by (auto simp: given_up_frame appendMseBuffer_def mse_error_def given_up_def timers_ok_def split: option.splits)

lemma given_up_push: "given_up s \<Longrightarrow> given_up (pushMsePacket ap rm s)"
  by (auto simp: pushMsePacket_def given_up_frame given_up_append split: option.splits list.splits)

lemma given_up_read: "given_up s \<Longrightarrow> given_up (readMsePacket ap rm p s)"
  by (auto simp: readMsePacket_def Let_def given_up_frame given_up_append given_up_push split: option.splits)

lemma mse_inv_given_up: "mse_inv s \<Longrightarrow> c_buffer s = Some b \<Longrightarrow> \<not> sb_listening b \<Longrightarrow> given_up s"
  by (auto simp: given_up_def mse_inv_def buffer_ok_def)

lemma stopped_given_up:
  "timers_ok s \<Longrightarrow> c_buffer s = Some b \<Longrightarrow> sb_op b \<noteq> Removing \<Longrightarrow> c_started s \<Longrightarrow> given_up (mse_stop rm s)"
  by (simp add: given_up_def timers_ok_def mse_stop_def stopMse_def Let_def)

lemma error_given_up:
  "timers_ok s \<Longrightarrow> c_buffer s = Some b \<Longrightarrow> sb_op b \<noteq> Removing \<Longrightarrow> c_started s \<Longrightarrow> given_up (mse_error rm n s)"
  unfolding mse_error_def by (rule stopped_given_up) (simp_all add: timers_ok_def)

lemma inv_read: "mse_inv s \<Longrightarrow> c_mse s \<noteq> None \<Longrightarrow> mse_inv (readMsePacket ap rm p s)"
proof (cases "c_buffer s")
  case (Some b)
  assume inv: "mse_inv s" and mse: "c_mse s \<noteq> None"
  let ?s = "s\<lparr>c_received := c_received s @ [p]\<rparr>"
  show ?thesis
  proof (cases "c_started s")
    case started: True
    show ?thesis
    proof (cases "sb_listening b")
      case True
      have "timers_ok (?s\<lparr>c_queue := c_queue s @ [p]\<rparr>)" using inv by (simp add: mse_inv_def timers_ok_def)
      moreover have "c_streaming s \<Longrightarrow> ready (?s\<lparr>c_queue := c_queue s @ [p]\<rparr>)"
        using inv Some True by (auto simp: mse_inv_def buffer_ok_def fifo_ok_def ready_def)
      ultimately have push: "c_streaming s \<Longrightarrow> mse_inv (pushMsePacket ap rm (?s\<lparr>c_queue := c_queue s @ [p]\<rparr>))"
        by (rule inv_push)
      have busy: "c_streaming s \<Longrightarrow> sb_op b \<noteq> BufIdle \<Longrightarrow> mse_inv (?s\<lparr>c_queue := c_queue s @ [p]\<rparr>)"
        using inv Some True by (auto simp: mse_inv_def timers_ok_def buffer_ok_def fifo_ok_def dest: buf_op_cases)
      have direct: "\<not> c_streaming s \<Longrightarrow> mse_inv ((appendMseBuffer ap rm p ?s)\<lparr>c_streaming := True\<rparr>)"
      proof -
        assume str: "\<not> c_streaming s"
        have ok: "fifo_ok b s" "timers_ok s" "c_listen s \<longrightarrow> c_started s"
          using inv Some True by (auto simp: mse_inv_def buffer_ok_def)
        then have err: "given_up (mse_error rm 1 ?s)"
          using Some by (intro error_given_up [where b = b]) (auto simp: timers_ok_def fifo_ok_def)
        then have err: "mse_inv ((mse_error rm 1 ?s)\<lparr>c_streaming := True\<rparr>)" by (simp add: given_up_inv given_up_frame)
        have "mse_inv (s\<lparr>c_received := c_received s @ [p], c_buffer := Some (b\<lparr>sb_op := Appending\<rparr>),
            c_appended := c_appended s @ [p], c_streaming := True\<rparr>)" if "sb_op b = BufIdle" "sb_attached b"
          using that ok str Some True by (auto simp: mse_inv_def timers_ok_def buffer_ok_def fifo_ok_def)
        then show ?thesis using err Some by (simp add: appendMseBuffer_def)
      qed
      show ?thesis
      proof (cases "c_streaming s")
        case True
        then show ?thesis using push [OF True] busy [OF True] Some started by (simp add: readMsePacket_def Let_def)
      next
        case False
        then show ?thesis using direct [OF False] Some started by (simp add: readMsePacket_def Let_def)
      qed
    next
      case False
      show ?thesis by (rule given_up_inv [OF given_up_read [OF mse_inv_given_up [OF inv Some False]]])
    qed
  qed (use inv in \<open>simp add: readMsePacket_def\<close>)
qed (auto simp: readMsePacket_def)

lemma inv_message:
  assumes "mse_inv s" "\<not> c_settled s" "sid \<in> set (c_sockets s)" "is_packet m \<or> c_buffer s = None"
  shows "mse_inv (ws_onmessage ap rm sid m s)"
proof (cases m)
  case (Codec sup)
  then show ?thesis using assms
    by (auto simp: ws_onmessage_def mse_defs split: option.splits)
next
  case (Packet p)
  then show ?thesis using assms(1) inv_read [OF assms(1)] by (auto simp: ws_onmessage_def)
qed

text \<open>\<^verbatim>\<open>startMsePlay\<close> in a session that has no waiting start, no media source and no socket yet.\<close>

lemma inv_startMsePlay:
  assumes "\<forall>t \<in> set (c_timers s). snd t \<le> c_session s" "\<forall>i \<in> set (c_sockets s). i \<le> c_session s"
    "c_session s \<notin> set (c_sockets s)" "\<not> c_listen s" "filter (\<lambda>t. snd t = c_session s) (c_timers s) = []"
    "case c_buffer s of None \<Rightarrow> c_queue s = [] \<and> \<not> c_streaming s | Some b \<Rightarrow> \<not> sb_listening b \<and> \<not> c_cleared s"
  shows "mse_inv ((startMsePlay s)\<lparr>c_started := True\<rparr>)"
proof -
  define s' where "s' = (if c_ws s = Some WsOpen then closeWebSocket s else s)"
  have s': "c_timers s' = c_timers s" "c_sockets s' = c_sockets s" "c_session s' = c_session s" "c_listen s' = c_listen s"
    "c_buffer s' = c_buffer s" "c_cleared s' = c_cleared s" "c_streaming s' = c_streaming s" "c_queue s = [] \<Longrightarrow> c_queue s' = []"
    by (auto simp: s'_def closeWebSocket_def)
  let ?ok = "c_cleared s \<and> \<not> (c_ws s = Some WsOpen \<or> c_ws s = Some WsConnecting)"
  have "startMsePlay s = (if ?ok
         then s'\<lparr>c_timers := filter (\<lambda>t. Some (fst t) \<noteq> c_waitingStart s') (c_timers s'), c_mse := Some False, c_listen := True\<rparr>
         else s'\<lparr>c_timers := c_timers s' @ [(c_ids s', c_session s')], c_waitingStart := Some (c_ids s'), c_ids := c_ids s' + 1\<rparr>)"
    by (simp add: startMsePlay_def s'_def Let_def)
  moreover have "mse_inv (s'\<lparr>c_timers := filter P (c_timers s'), c_mse := Some False, c_listen := True, c_started := True\<rparr>)"
    if "c_cleared s" for P
    using assms s' that by (cases "c_buffer s") (simp_all add: mse_inv_def timers_ok_def buffer_ok_def filter_empty_conv)
  moreover have "mse_inv (s'\<lparr>c_timers := c_timers s' @ [(i, c_session s')], c_waitingStart := w, c_ids := n, c_started := True\<rparr>)" for i w n
    using assms s' by (cases "c_buffer s") (simp_all add: mse_inv_def timers_ok_def buffer_ok_def)
  ultimately show ?thesis by simp
qed

lemma started_startMsePlay [simp]: "c_started (startMsePlay s) = c_started s"
  by (simp add: startMsePlay_def closeWebSocket_def Let_def split: option.split ws_state.split)

lemma inv_idle_buffer:
  "mse_inv s \<Longrightarrow> \<not> c_started s \<or> \<not> c_listen s \<and> c_session s \<notin> set (c_sockets s)
     \<Longrightarrow> case c_buffer s of None \<Rightarrow> c_queue s = [] \<and> \<not> c_streaming s | Some b \<Rightarrow> \<not> sb_listening b \<and> \<not> c_cleared s"
  by (auto simp: mse_inv_def buffer_ok_def fifo_ok_def split: option.splits if_splits)

lemma inv_start:
  assumes "mse_inv s"
  shows "mse_inv (mse_start s)"
proof (cases "c_started s")
  case False
  have "filter (\<lambda>t. snd t = c_session s + 1) (c_timers s) = []"
    using assms by (force simp: mse_inv_def timers_ok_def filter_empty_conv)
  then have "mse_inv ((startMsePlay (s\<lparr>c_session := c_session s + 1\<rparr>))\<lparr>c_started := True\<rparr>)"
    using assms False inv_idle_buffer [OF assms]
    by (intro inv_startMsePlay; cases "c_buffer s") (auto simp: mse_inv_def timers_ok_def buffer_ok_def le_SucI)
  then show ?thesis using False by (simp add: mse_start_def)
qed (use assms in \<open>simp add: mse_start_def\<close>)

lemma started_same: "c_started s \<Longrightarrow> s\<lparr>c_started := True\<rparr> = s"
  by (cases s) simp

lemma filter_remove1_single:
  assumes "length (filter P xs) \<le> 1" "t \<in> set xs" "P t"
  shows "filter P (remove1 t xs) = []"
proof -
  have "t \<in> set (filter P xs)" using assms(2,3) by simp
  then have "length (remove1 t (filter P xs)) = 0" using assms(1) length_remove1 [of t "filter P xs"] by simp
  then show ?thesis by (simp add: filter_remove1)
qed

lemma inv_waiting:
  assumes "mse_inv s" "t \<in> set (c_timers s)"
  shows "mse_inv (waiting_fires t s)"
proof (cases "snd t = c_session s \<and> c_started s")
  case True
  let ?s = "s\<lparr>c_timers := remove1 t (c_timers s)\<rparr>"
  have "filter (\<lambda>t. snd t = c_session s) (c_timers s) \<noteq> []" using True assms(2) by (auto simp: filter_empty_conv)
  then have f: "c_session s \<notin> set (c_sockets s)" "\<not> c_listen s"
    using assms(1) by (auto simp: mse_inv_def timers_ok_def)
  have t: "\<forall>t \<in> set (c_timers ?s). snd t \<le> c_session s" "\<forall>i \<in> set (c_sockets s). i \<le> c_session s"
    using assms(1) set_remove1_subset [of t "c_timers s"] by (auto simp: mse_inv_def timers_ok_def)
  have e: "filter (\<lambda>t. snd t = c_session s) (remove1 t (c_timers s)) = []"
    using assms True by (intro filter_remove1_single) (auto simp: mse_inv_def timers_ok_def)
  have "mse_inv ((startMsePlay ?s)\<lparr>c_started := True\<rparr>)"
    using t e f inv_idle_buffer [OF assms(1)] by (intro inv_startMsePlay; cases "c_buffer s") simp_all
  moreover have "(startMsePlay ?s)\<lparr>c_started := True\<rparr> = startMsePlay ?s"
    using True by (intro started_same) simp
  ultimately show ?thesis using True by (simp add: waiting_fires_def Let_def)
next
  case False
  have "length (filter P (remove1 t xs)) \<le> length (filter P xs)" for P and xs :: "(nat \<times> nat) list"
    by (induction xs) auto
  then have n: "length (filter P (remove1 t (c_timers s))) \<le> 1" if "length (filter P (c_timers s)) \<le> 1" for P
    using that le_trans by blast
  have t: "\<forall>x \<in> set (remove1 t (c_timers s)). snd x \<le> c_session s"
    using assms(1) set_remove1_subset [of t "c_timers s"] by (auto simp: mse_inv_def timers_ok_def)
  have e: "filter P (remove1 t (c_timers s)) = []" if "filter P (c_timers s) = []" for P
    using that set_remove1_subset [of t "c_timers s"] by (auto simp: filter_empty_conv)
  have "timers_ok (s\<lparr>c_timers := remove1 t (c_timers s)\<rparr>)"
    using assms(1) n t e by (auto simp: mse_inv_def timers_ok_def)
  then have "mse_inv (s\<lparr>c_timers := remove1 t (c_timers s)\<rparr>)"
    using assms(1) by (auto simp: mse_inv_def buffer_ok_def fifo_ok_def split: option.splits if_splits)
  then show ?thesis using False by (auto simp: waiting_fires_def Let_def)
qed

lemma inv_updateend:
  assumes "mse_inv s"
  shows "mse_inv (buffer_updateend ap rm s)"
proof (cases "c_buffer s")
  case (Some b)
  define b1 where "b1 = (if sb_late b then b\<lparr>sb_late := False\<rparr> else b\<lparr>sb_op := BufIdle\<rparr>)"
  define s1 where "s1 = s\<lparr>c_buffer := Some b1, c_settled := c_settled s \<or> sb_id b \<in> set (c_awaiting s),
      c_awaiting := filter (\<lambda>i. i \<noteq> sb_id b) (c_awaiting s)\<rparr>"
  have eq: "buffer_updateend ap rm s = (if \<not> sb_late b \<and> sb_op b = BufIdle then s
      else if sb_listening b then pushMsePacket ap rm s1 else s1)"
    using Some by (simp add: buffer_updateend_def Let_def b1_def s1_def)
  have t: "timers_ok s1" using assms by (simp add: s1_def mse_inv_def timers_ok_def)
  have l: "sb_listening b1 = sb_listening b" by (simp add: b1_def)
  have "ready s1" if "sb_listening b"
    using assms Some that by (auto simp: s1_def b1_def ready_def mse_inv_def buffer_ok_def fifo_ok_def)
  moreover have "given_up s1" if "\<not> sb_listening b"
    using mse_inv_given_up [OF assms Some that] l that by (simp add: given_up_def s1_def t timers_ok_def)
  ultimately show ?thesis using assms inv_push [OF t] given_up_inv by (auto simp: eq)
qed (use assms in \<open>simp add: buffer_updateend_def\<close>)

lemma inv_others:
  assumes "mse_inv s"
  shows "mse_inv (old_updateend i s)" "mse_inv (mse_detached s)" "mse_inv (ws_onclose sid (s\<lparr>c_ws := w\<rparr>))"
    "mse_inv (ws_onerror rm sid s)" "c_listen s \<Longrightarrow> mse_inv (mseListenerSourceopen (s\<lparr>c_mse := Some True\<rparr>))"
  using assms by (auto simp: mse_defs old_updateend_def mse_detached_def ws_onclose_def ws_onerror_def mseListenerSourceopen_def
      split: option.splits if_splits)

lemma inv_task: "mse_inv s \<Longrightarrow> page_call ev \<or> \<not> c_settled s \<Longrightarrow> mse_inv (mse_task ev s)"
proof (cases ev)
  case (WsOpened)
  assume "mse_inv s"
  then have "mse_inv (s\<lparr>c_ws := w\<rparr>)" for w
    by (auto simp: mse_inv_def timers_ok_def buffer_ok_def fifo_ok_def split: option.splits if_splits)
  then show ?thesis using WsOpened \<open>mse_inv s\<close> by simp
qed (auto simp: inv_start inv_stop inv_waiting inv_updateend inv_others inv_message)

lemma settled_microtasks [simp]: "\<not> c_settled (microtasks s)"
  by (simp add: microtasks_def)

lemma mse_reachable_inv: "mse_reachable s \<Longrightarrow> mse_inv s"
proof (induction rule: mse_reachable.induct)
  case mse_init
  then show ?case by (simp add: fresh_mse_def mse_inv_def timers_ok_def buffer_ok_def)
next
  case (mse_step s ev)
  then show ?case by (simp add: mse_exec_def inv_task inv_microtasks)
qed

section \<open>Refinement of a channel\<close>

text \<open>The specification: a first-in first-out channel, its waiting and its delivered packets.\<close>

datatype 'p fifo_op = Put 'p | Get

fun fifo_apply :: "'p fifo_op \<Rightarrow> 'p list \<times> 'p list \<Rightarrow> 'p list \<times> 'p list" where
  "fifo_apply (Put p) (q, d) = (q @ [p], d)"
| "fifo_apply Get ([], d) = ([], d)"
| "fifo_apply Get (p # q, d) = (q, d @ [p])"

definition channel :: "'p mse_ctx \<Rightarrow> 'p list \<times> 'p list" where
  "channel s = (c_queue s, c_appended s)"

definition live :: "'p mse_ctx \<Rightarrow> bool" where
  "live s = (case c_buffer s of None \<Rightarrow> False | Some b \<Rightarrow> sb_listening b)"

definition update_pending :: "'p mse_ctx \<Rightarrow> bool" where
  "update_pending s = (case c_buffer s of None \<Rightarrow> False | Some b \<Rightarrow> sb_op b = Appending \<or> sb_late b)"

text \<open>What an event is to the channel.\<close>

fun fifo_ops :: "'p mse_event \<Rightarrow> 'p mse_ctx \<Rightarrow> 'p fifo_op list" where
  "fifo_ops (Message ap rm sid (Packet p)) s =
     (if sid = c_session s \<and> c_mse s = Some True then Put p # (if update_pending s then [] else [Get]) else [])"
| "fifo_ops (UpdateEnd ap rm) s = (if update_pending s then [Get] else [])"
| "fifo_ops _ s = []"

lemma live_stop: "c_started s \<Longrightarrow> (\<And>b. c_buffer s = Some b \<Longrightarrow> sb_op b \<noteq> Removing) \<Longrightarrow> \<not> live (mse_stop rm s)"
  by (auto simp: live_def mse_stop_def stopMse_def Let_def split: option.splits)

lemma live_fifo: "mse_inv s \<Longrightarrow> live s \<Longrightarrow> c_buffer s = Some b \<Longrightarrow> fifo_ok b s"
  by (auto simp: mse_inv_def buffer_ok_def live_def split: option.splits if_splits)

lemma live_append:
  assumes "c_buffer s = Some b" "c_started s" "sb_op b \<noteq> Removing" "live (appendMseBuffer ap rm p s)"
  shows "appendMseBuffer ap rm p s = s\<lparr>c_buffer := Some (b\<lparr>sb_op := Appending\<rparr>), c_appended := c_appended s @ [p]\<rparr> \<and> sb_attached b"
  using assms live_stop [of "s\<lparr>c_failures := c_failures s + 1\<rparr>" rm]
  by (auto simp: appendMseBuffer_def mse_error_def split: if_splits)

lemma live_push:
  assumes "c_buffer s = Some b" "c_started s" "sb_op b = BufIdle" "live (pushMsePacket ap rm s)"
  shows "channel (pushMsePacket ap rm s) = fifo_apply Get (channel s) \<and> (c_queue s \<noteq> [] \<longrightarrow> sb_attached b)"
  using assms live_append [of "s\<lparr>c_queue := tl (c_queue s)\<rparr>" b ap rm "hd (c_queue s)"]
  by (auto simp: pushMsePacket_def channel_def split: list.splits)

lemma live_read:
  assumes inv: "mse_inv s" and "live s" and "live (readMsePacket ap rm p s)"
  shows "channel (readMsePacket ap rm p s) = fold fifo_apply (Put p # (if update_pending s then [] else [Get])) (channel s)"
proof -
  obtain b where b: "c_buffer s = Some b" using assms(2) by (auto simp: live_def split: option.splits)
  have ok: "fifo_ok b s" by (rule live_fifo [OF inv assms(2) b])
  let ?s = "s\<lparr>c_received := c_received s @ [p]\<rparr>" and ?q = "c_queue s @ [p]"
  have st: "c_started s" "sb_op b \<noteq> Removing" using ok by (simp_all add: fifo_ok_def)
  show ?thesis
  proof (cases "c_streaming s")
    case False
    then have i: "sb_op b = BufIdle" "c_queue s = []" using ok by (simp_all add: fifo_ok_def)
    have r: "readMsePacket ap rm p s = (appendMseBuffer ap rm p ?s)\<lparr>c_streaming := True\<rparr>"
      using b st False by (simp add: readMsePacket_def Let_def)
    have "live (appendMseBuffer ap rm p ?s)" using assms(3) by (simp add: r live_def)
    from live_append [OF _ _ _ this, of b] show ?thesis
      using b st i ok by (auto simp: r channel_def update_pending_def fifo_ok_def)
  next
    case True
    show ?thesis
    proof (cases "sb_op b = BufIdle")
      case i: True
      have r: "readMsePacket ap rm p s = pushMsePacket ap rm (?s\<lparr>c_queue := ?q\<rparr>)"
        using b st True i by (simp add: readMsePacket_def Let_def)
      from live_push [of "?s\<lparr>c_queue := ?q\<rparr>" b ap rm] show ?thesis
        using assms(3) b st i ok by (auto simp: r channel_def update_pending_def fifo_ok_def)
    next
      case False
      then show ?thesis using b st True ok
        by (auto simp: readMsePacket_def Let_def channel_def update_pending_def fifo_ok_def dest: buf_op_cases)
    qed
  qed
qed

lemma live_updateend:
  assumes inv: "mse_inv s" and "live s" and "live (buffer_updateend ap rm s)"
  shows "channel (buffer_updateend ap rm s) = fold fifo_apply (if update_pending s then [Get] else []) (channel s)"
proof -
  obtain b where b: "c_buffer s = Some b" "sb_listening b" using assms(2) by (auto simp: live_def split: option.splits)
  have ok: "fifo_ok b s" by (rule live_fifo [OF inv assms(2) b(1)])
  define b1 where "b1 = (if sb_late b then b\<lparr>sb_late := False\<rparr> else b\<lparr>sb_op := BufIdle\<rparr>)"
  define s1 where "s1 = s\<lparr>c_buffer := Some b1, c_settled := c_settled s \<or> sb_id b \<in> set (c_awaiting s),
      c_awaiting := filter (\<lambda>i. i \<noteq> sb_id b) (c_awaiting s)\<rparr>"
  have eq: "buffer_updateend ap rm s = (if \<not> sb_late b \<and> sb_op b = BufIdle then s else pushMsePacket ap rm s1)"
    using b by (simp add: buffer_updateend_def Let_def b1_def s1_def)
  have s1: "c_buffer s1 = Some b1" "c_started s1" "sb_op b1 = BufIdle" "channel s1 = channel s"
    using ok by (simp_all add: s1_def b1_def fifo_ok_def channel_def)
  show ?thesis using live_push [OF s1(1-3), of ap rm] assms(3) b s1(4) ok
    by (auto simp: eq update_pending_def fifo_ok_def dest: buf_op_cases)
qed

lemma dead_task: "c_buffer s = None \<Longrightarrow> c_mse s = None \<Longrightarrow> \<not> page_call ev \<Longrightarrow> \<not> live (mse_task ev s)"
  by (cases ev) (auto simp: live_def waiting_fires_def startMsePlay_def closeWebSocket_def ws_onmessage_def ws_onclose_def clearWebSocket_def
      ws_onerror_def mse_error_def mse_stop_def stopMse_def buffer_updateend_def old_updateend_def mse_detached_def mseListenerSourceopen_def Let_def
      split: option.splits ws_state.splits)

lemma live_task:
  assumes inv: "mse_inv s" and live: "live s" and t: "live (mse_task ev s)"
  shows "channel (mse_task ev s) = fold fifo_apply (fifo_ops ev s) (channel s)"
proof -
  obtain b where b: "c_buffer s = Some b" "sb_listening b" using live by (auto simp: live_def split: option.splits)
  have ok: "fifo_ok b s" by (rule live_fifo [OF inv live b(1)])
  have no_timer: "\<And>x. x \<in> set (c_timers s) \<Longrightarrow> snd x \<noteq> c_session s"
    using inv ok by (auto simp: mse_inv_def timers_ok_def fifo_ok_def filter_empty_conv)
  show ?thesis
  proof (cases ev)
    case (Message ap rm sid m)
    then show ?thesis using inv live t b ok live_read [OF inv live]
      by (cases m) (auto simp: ws_onmessage_def fifo_ok_def)
  next
    case (UpdateEnd ap rm)
    then show ?thesis using live_updateend [OF inv live] t by simp
  next
    case MseStart
    then show ?thesis using ok by (simp add: mse_start_def fifo_ok_def)
  next
    case (MseStop rm)
    then show ?thesis using live_stop [of s rm] t b ok by (simp add: fifo_ok_def)
  next
    case (WsError rm sid)
    then show ?thesis using live_stop [of "s\<lparr>c_failures := c_failures s + 1\<rparr>" rm] t b ok
      by (auto simp: ws_onerror_def mse_error_def fifo_ok_def split: if_splits)
  next
    case (Waiting x)
    then show ?thesis using no_timer [of x] by (auto simp: waiting_fires_def channel_def)
  qed (auto simp: channel_def mseListenerSourceopen_def ws_onclose_def clearWebSocket_def old_updateend_def mse_detached_def)
qed

lemma live_exec:
  assumes "mse_reachable s" "live s" "live (mse_exec ev s)"
  shows "mse_exec ev s = mse_task ev s"
proof (rule ccontr)
  assume ne: "mse_exec ev s \<noteq> mse_task ev s"
  then have c: "\<not> page_call ev" "c_settled s" by (auto simp: mse_exec_def microtasks_def split: if_splits)
  then have "c_buffer (microtasks s) = None" "c_mse (microtasks s) = None"
    by (simp_all add: microtasks_def mse_stopped_def)
  then show False using dead_task [of "microtasks s" ev] assms(3) c by (simp add: mse_exec_def)
qed

text \<open>
  C5. While a stream plays, its packets go through a first-in first-out channel: whatever
  happens (packets, ends of updates, sockets, timers, calls of the page), a step that leaves
  the stream playing is a put of the packet received, a get, both or nothing. So the packets
  the browser was given, followed by the queue, are those that were received, none lost,
  repeated or out of order; and a packet only waits while an update is under way, whose end
  will fetch it.
\<close>

theorem mse_refines_fifo:
  fixes s :: "'p mse_ctx" and ev :: "'p mse_event"
  defines "t \<equiv> mse_exec ev s"
  assumes "mse_reachable s" and "live s" and "live t"
  shows "channel t = fold fifo_apply (fifo_ops ev s) (channel s)
    \<and> c_appended t @ c_queue t = c_received t \<and> (c_queue t \<noteq> [] \<longrightarrow> update_pending t)"
proof -
  have t: "t = mse_task ev s" using live_exec assms by blast
  have inv: "mse_inv s" "mse_inv t" using assms mse_reachable_inv mse_step unfolding t_def by blast+
  obtain b where b: "c_buffer t = Some b" using assms(4) by (auto simp: live_def split: option.splits)
  have "fifo_ok b t" by (rule live_fifo [OF inv(2) assms(4) b])
  then show ?thesis using live_task [OF inv(1) assms(3)] assms(4) b
    by (auto simp: t fifo_ok_def update_pending_def)
qed

section \<open>A media source that was taken away\<close>

text \<open>
  \<^verbatim>\<open>stopMse\<close> waits for the \<^verbatim>\<open>updateend\<close> of a removal that it does not start when the buffer has
  already left the media source.
\<close>

definition mse_stuck :: "'p mse_ctx \<Rightarrow> bool" where
  "mse_stuck s \<longleftrightarrow> (case c_buffer s of None \<Rightarrow> False
     | Some b \<Rightarrow> \<not> sb_listening b \<and> \<not> sb_attached b \<and> \<not> sb_late b \<and> sb_op b = BufIdle \<and> set (c_awaiting s) \<subseteq> {sb_id b})
     \<and> c_mse s = Some False \<and> \<not> c_listen s \<and> \<not> c_cleared s \<and> \<not> c_settled s"

lemma stuck_stop: "mse_stuck s \<Longrightarrow> mse_stuck (mse_stop rm s)"
  by (auto simp: mse_stuck_def mse_stop_def stopMse_def Let_def split: option.splits)

lemma stuck_start: "mse_stuck s \<Longrightarrow> mse_stuck (startMsePlay (s\<lparr>c_session := i\<rparr>))" "mse_stuck s \<Longrightarrow> mse_stuck (startMsePlay s)"
  by (auto simp: mse_stuck_def startMsePlay_def closeWebSocket_def Let_def split: option.splits ws_state.splits)

lemma stuck_frame: "mse_stuck (s\<lparr>c_started := v\<rparr>) = mse_stuck s" "mse_stuck (s\<lparr>c_timers := ts\<rparr>) = mse_stuck s"
  "mse_stuck (s\<lparr>c_ws := w\<rparr>) = mse_stuck s" "mse_stuck (s\<lparr>c_failures := n\<rparr>) = mse_stuck s"
  by (simp_all add: mse_stuck_def split: option.split)

lemma stuck_task: "mse_stuck s \<Longrightarrow> mse_stuck (mse_task ev s)"
proof (cases ev)
  case (Message ap rm sid m)
  assume "mse_stuck s"
  then have "ws_onmessage ap rm sid m s = s" by (simp add: mse_stuck_def ws_onmessage_def)
  then show ?thesis using Message \<open>mse_stuck s\<close> by simp
next
  case (WsError rm sid)
  assume "mse_stuck s"
  then show ?thesis using WsError by (simp add: ws_onerror_def mse_error_def stuck_stop stuck_frame)
next
  case (UpdateEnd ap rm)
  assume "mse_stuck s"
  then show ?thesis using UpdateEnd by (auto simp: mse_stuck_def buffer_updateend_def split: option.splits)
next
  case (OldUpdateEnd i)
  assume "mse_stuck s"
  then show ?thesis using OldUpdateEnd by (auto simp: mse_stuck_def old_updateend_def split: option.splits)
qed (auto simp: stuck_stop stuck_start stuck_frame mse_start_def waiting_fires_def Let_def ws_onclose_def clearWebSocket_def
       mse_detached_def mse_stuck_def [of s])

lemma stuck_run: "mse_stuck s \<Longrightarrow> mse_stuck (fold mse_exec evs s)"
proof (induction evs arbitrary: s)
  case (Cons ev evs)
  have "microtasks s = s" using Cons.prems by (simp add: microtasks_def mse_stuck_def)
  then show ?case using Cons by (simp add: mse_exec_def stuck_task)
qed simp

text \<open>
  C36. When the browser takes the media source from a playing stream whose buffer is idle,
  stopping the stream waits for a removal that was never started. From then on MSE is dead
  for this monitor until the page is loaded again: whatever happens later, no start gets past
  the wait for the old buffer and no media source is ever opened.
\<close>

theorem detached_mse_never_restarts:
  fixes s :: "'p mse_ctx" and rm :: bool and evs :: "'p mse_event list"
  assumes "mse_reachable s" and "live s" and "\<not> update_pending s" and "c_mse s = Some True"
    and "c_awaiting s = []" and "\<not> c_settled s"
  defines "t \<equiv> fold mse_exec evs (mse_exec (MseStop rm) (mse_exec Detached s))"
  shows "\<not> live t \<and> \<not> c_cleared t \<and> c_mse t = Some False"
proof -
  obtain b where b: "c_buffer s = Some b" using assms(2) by (auto simp: live_def split: option.splits)
  have "fifo_ok b s" by (rule live_fifo [OF mse_reachable_inv [OF assms(1)] assms(2) b])
  then have "mse_stuck (mse_exec (MseStop rm) (mse_exec Detached s))"
    using assms b by (auto simp: mse_exec_def microtasks_def mse_detached_def mse_stop_def stopMse_def mse_stuck_def
        fifo_ok_def update_pending_def Let_def dest: buf_op_cases)
  then have "mse_stuck t" unfolding t_def by (rule stuck_run)
  then show ?thesis by (auto simp: mse_stuck_def live_def split: option.splits)
qed

section \<open>Witnesses\<close>

definition demo_media :: "nat mse_ctx" where
  "demo_media = fold mse_exec [MseStart, SourceOpen, WsOpened, Message True True 1 (Codec True), Message True True 1 (Packet 10),
     Message True True 1 (Packet 20), Message True True 1 (Packet 30)] fresh_mse"

lemma reachable_fold: "mse_reachable s \<Longrightarrow> mse_reachable (fold mse_exec evs s)"
  by (induction evs arbitrary: s) (auto intro: mse_step)

lemma demo_media_reachable: "mse_reachable demo_media"
  unfolding demo_media_def by (rule reachable_fold) (rule mse_init)

lemma demo_media_facts:
  "live demo_media" "channel demo_media = ([20, 30], [10])" "live (mse_exec (UpdateEnd True True) demo_media)"
  "fifo_ops (UpdateEnd True True) demo_media = [Get]"
  by code_simp+

theorem mse_refines_fifo_witness:
  "channel (mse_exec (UpdateEnd True True) demo_media) = ([30], [10, 20])"
  using mse_refines_fifo [OF demo_media_reachable demo_media_facts(1,3)] by (simp add: demo_media_facts del: fifo_ops.simps)

lemma demo_idle_facts:
  "live (fold mse_exec [UpdateEnd True True, UpdateEnd True True, UpdateEnd True True] demo_media)"
  "\<not> update_pending (fold mse_exec [UpdateEnd True True, UpdateEnd True True, UpdateEnd True True] demo_media)"
  "c_mse (fold mse_exec [UpdateEnd True True, UpdateEnd True True, UpdateEnd True True] demo_media) = Some True"
  "c_awaiting (fold mse_exec [UpdateEnd True True, UpdateEnd True True, UpdateEnd True True] demo_media) = []"
  "\<not> c_settled (fold mse_exec [UpdateEnd True True, UpdateEnd True True, UpdateEnd True True] demo_media)"
  by code_simp+

theorem detached_mse_never_restarts_witness:
  "\<not> live (fold mse_exec [MseStart, Waiting (1, 2)] (mse_exec (MseStop True) (mse_exec Detached
      (fold mse_exec [UpdateEnd True True, UpdateEnd True True, UpdateEnd True True] demo_media))))"
  using detached_mse_never_restarts [OF reachable_fold [OF demo_media_reachable] demo_idle_facts] by blast

text \<open>
  Stopping twice while a removal runs leaves two promises; the second one's continuation lets
  a new start through, and the first one's then takes that start's media source away: the
  stream counts as started, nothing is opened and no start is waiting.
\<close>

lemma double_stop_kills_restart:
  "(\<lambda>s. (c_started s, c_mse s, c_timers s)) (fold mse_exec [UpdateEnd True True, UpdateEnd True True, UpdateEnd True True,
       MseStop True, MseStart, MseStop True, WsOpened, MseStart, SourceOpen, WsOpened, OldUpdateEnd 0, WsClose 3] demo_media)
   = (True, None, [])"
  by code_simp

end
