(* ===== verification/Annotation_Editor.thy ===== *)
theory Annotation_Editor
  imports Js_Text "HOL-Library.Multiset"
begin

text \<open>
  The annotation editor of the training view (\<^verbatim>\<open>web/skins/classic/views/js/training.js\<close>, class
  \<^verbatim>\<open>AnnotationEditor\<close>): drawing, dragging and resizing boxes on a frame, labels, undo,
  detection, saving and the requests whose replies arrive later. Positions are exact
  rationals in image coordinates.
\<close>

section \<open>State\<close>

definition ANNOTATION_HIT_THRESHOLD :: rat where "ANNOTATION_HIT_THRESHOLD = 8"

definition ANNOTATION_MIN_BOX_SIZE :: rat where "ANNOTATION_MIN_BOX_SIZE = 10"

definition ANNOTATION_MAX_UNDO :: nat where "ANNOTATION_MAX_UNDO = 50"

type_synonym position = "rat \<times> rat"

record ann =
  a_label :: string
  a_conf :: rat
  a_x1 :: rat
  a_y1 :: rat
  a_x2 :: rat
  a_y2 :: rat
  a_pending :: bool

datatype handle = H_nw | H_n | H_ne | H_e | H_se | H_s | H_sw | H_w

datatype cursor = CursorDraw | CursorMove | CursorResize handle

text \<open>Requests under way: each carries what its url or body named when it was sent.\<close>

datatype ae_request = RSaved string string | RDetect string string | RSave string string
  | REvent string "string option" | RImage string | RDelete string string | RDeleteAll

datatype ae_entry = Posted string string "ann list" | Deleted string string | AeTypeError

record editor =
  e_eventId :: string
  e_anns :: "ann list"
  e_selected :: int
  e_classLabels :: "string list"
  e_recentLabels :: "string list"
  e_dirty :: bool
  e_naturalW :: rat
  e_naturalH :: rat
  e_canvasW :: rat
  e_canvasH :: rat
  e_frame :: "string option"
  e_totalFrames :: nat
  e_hasDetect :: bool
  e_isDrawing :: bool
  e_drawStart :: "position option"
  e_drawCurrent :: "position option"
  e_isDragging :: bool
  e_isResizing :: bool
  e_handle :: "handle option"
  e_dragOffset :: position
  e_undo :: "(ann list \<times> int) list"
  e_picker :: "(rat \<times> rat \<times> rat \<times> rat) option"
  e_cursor :: cursor
  e_requests :: "ae_request list"
  e_log :: "ae_entry list"

text \<open>The canvas of the page has no size of its own, which is 300 by 150 until an image has loaded.\<close>

definition new_editor :: "string \<Rightarrow> editor" where
  "new_editor eid = \<lparr>e_eventId = eid, e_anns = [], e_selected = -1, e_classLabels = [], e_recentLabels = [],
     e_dirty = False, e_naturalW = 0, e_naturalH = 0, e_canvasW = 300, e_canvasH = 150, e_frame = None,
     e_totalFrames = 0, e_hasDetect = False, e_isDrawing = False, e_drawStart = None, e_drawCurrent = None,
     e_isDragging = False, e_isResizing = False, e_handle = None, e_dragOffset = (0, 0), e_undo = [],
     e_picker = None, e_cursor = CursorDraw, e_requests = [], e_log = []\<rparr>"

definition ae_emit :: "ae_entry \<Rightarrow> editor \<Rightarrow> editor" where
  "ae_emit x s = s\<lparr>e_log := e_log s @ [x]\<rparr>"

definition ae_send :: "ae_request \<Rightarrow> editor \<Rightarrow> editor" where
  "ae_send r s = s\<lparr>e_requests := e_requests s @ [r]\<rparr>"

text \<open>\<^verbatim>\<open>annotations[i]\<close>, undefined outside the array.\<close>

definition nth_ann :: "int \<Rightarrow> ann list \<Rightarrow> ann option" where
  "nth_ann i as = (if 0 \<le> i \<and> nat i < length as then Some (as ! nat i) else None)"

section \<open>Geometry\<close>

definition getHandlePositions :: "ann \<Rightarrow> (handle \<times> position) list" where
  "getHandlePositions a =
     (let x1 = min (a_x1 a) (a_x2 a); y1 = min (a_y1 a) (a_y2 a);
          x2 = max (a_x1 a) (a_x2 a); y2 = max (a_y1 a) (a_y2 a);
          mx = (x1 + x2) / 2; my = (y1 + y2) / 2
      in [(H_nw, (x1, y1)), (H_n, (mx, y1)), (H_ne, (x2, y1)), (H_e, (x2, my)),
          (H_se, (x2, y2)), (H_s, (mx, y2)), (H_sw, (x1, y2)), (H_w, (x1, my))])"

text \<open>\<open>r\<close> is the canvas on the screen: left, top, width and height.\<close>

definition mouseToImage :: "rat \<times> rat \<times> rat \<times> rat \<Rightarrow> rat \<times> rat \<Rightarrow> editor \<Rightarrow> position" where
  "mouseToImage r c s = (case r of (left, upper, w, h) \<Rightarrow>
     ((fst c - left) * (e_canvasW s / w), (snd c - upper) * (e_canvasH s / h)))"

definition hit_box :: "position \<Rightarrow> ann \<Rightarrow> bool" where
  "hit_box p a \<longleftrightarrow> min (a_x1 a) (a_x2 a) \<le> fst p \<and> fst p \<le> max (a_x1 a) (a_x2 a)
     \<and> min (a_y1 a) (a_y2 a) \<le> snd p \<and> snd p \<le> max (a_y1 a) (a_y2 a)"

text \<open>The top-most box under the position.\<close>

definition hitTestBoxes :: "position \<Rightarrow> ann list \<Rightarrow> int" where
  "hitTestBoxes p as = (case filter (\<lambda>i. hit_box p (as ! i)) (rev [0..<length as]) of [] \<Rightarrow> -1 | i # _ \<Rightarrow> int i)"

definition hitTestHandles :: "position \<Rightarrow> ann \<Rightarrow> handle option" where
  "hitTestHandles p a =
     map_option fst (List.find (\<lambda>(h, q). \<bar>fst p - fst q\<bar> \<le> ANNOTATION_HIT_THRESHOLD
        \<and> \<bar>snd p - snd q\<bar> \<le> ANNOTATION_HIT_THRESHOLD) (getHandlePositions a))"

definition getNormalizedRect :: "rat \<Rightarrow> rat \<Rightarrow> rat \<Rightarrow> rat \<Rightarrow> rat \<times> rat \<times> rat \<times> rat" where
  "getNormalizedRect x1 y1 x2 y2 = (min x1 x2, min y1 y2, max x1 x2, max y1 y2)"

definition set_corners :: "rat \<times> rat \<times> rat \<times> rat \<Rightarrow> ann \<Rightarrow> ann" where
  "set_corners r a = (case r of (x1, y1, x2, y2) \<Rightarrow> a\<lparr>a_x1 := x1, a_y1 := y1, a_x2 := x2, a_y2 := y2\<rparr>)"

definition move_box :: "rat \<Rightarrow> rat \<Rightarrow> position \<Rightarrow> ann \<Rightarrow> ann" where
  "move_box cw ch p a =
     (let w = \<bar>a_x2 a - a_x1 a\<bar>; h = \<bar>a_y2 a - a_y1 a\<bar>;
          x = max 0 (min (fst p) (cw - w)); y = max 0 (min (snd p) (ch - h))
      in set_corners (x, y, x + w, y + h) a)"

fun resize_box :: "handle option \<Rightarrow> rat \<Rightarrow> rat \<Rightarrow> ann \<Rightarrow> ann" where
  "resize_box (Some H_nw) px py a = a\<lparr>a_x1 := px, a_y1 := py\<rparr>"
| "resize_box (Some H_n) px py a = a\<lparr>a_y1 := py\<rparr>"
| "resize_box (Some H_ne) px py a = a\<lparr>a_x2 := px, a_y1 := py\<rparr>"
| "resize_box (Some H_e) px py a = a\<lparr>a_x2 := px\<rparr>"
| "resize_box (Some H_se) px py a = a\<lparr>a_x2 := px, a_y2 := py\<rparr>"
| "resize_box (Some H_s) px py a = a\<lparr>a_y2 := py\<rparr>"
| "resize_box (Some H_sw) px py a = a\<lparr>a_x1 := px, a_y2 := py\<rparr>"
| "resize_box (Some H_w) px py a = a\<lparr>a_x1 := px\<rparr>"
| "resize_box None px py a = a"

text \<open>A change of the selected annotation in place.\<close>

definition map_selected :: "(ann \<Rightarrow> ann) \<Rightarrow> editor \<Rightarrow> editor" where
  "map_selected f s = (case nth_ann (e_selected s) (e_anns s) of
     None \<Rightarrow> ae_emit AeTypeError s
   | Some a \<Rightarrow> s\<lparr>e_anns := (e_anns s)[nat (e_selected s) := f a]\<rparr>)"

definition doResize :: "position \<Rightarrow> editor \<Rightarrow> editor" where
  "doResize p s = (if e_handle s = None then s else map_selected (resize_box (e_handle s)
     (max 0 (min (fst p) (e_canvasW s))) (max 0 (min (snd p) (e_canvasH s)))) s)"

section \<open>Undo\<close>

definition pushUndo :: "editor \<Rightarrow> editor" where
  "pushUndo s = (let st = e_undo s @ [(e_anns s, e_selected s)]
     in s\<lparr>e_undo := (if length st > ANNOTATION_MAX_UNDO then tl st else st)\<rparr>)"

definition ae_undo :: "editor \<Rightarrow> editor" where
  "ae_undo s = (if e_undo s = [] then s
     else s\<lparr>e_undo := butlast (e_undo s), e_anns := fst (last (e_undo s)), e_selected := snd (last (e_undo s)),
            e_dirty := True\<rparr>)"

definition hideLabelPicker :: "editor \<Rightarrow> editor" where
  "hideLabelPicker s = s\<lparr>e_picker := None\<rparr>"

definition selectAnnotation :: "int \<Rightarrow> editor \<Rightarrow> editor" where
  "selectAnnotation i s = s\<lparr>e_selected := i\<rparr>"

section \<open>The mouse\<close>

definition start_drawing :: "position \<Rightarrow> editor \<Rightarrow> editor" where
  "start_drawing p s = s\<lparr>e_selected := -1, e_isDrawing := True, e_drawStart := Some p, e_drawCurrent := Some p\<rparr>"

definition start_dragging :: "int \<Rightarrow> position \<Rightarrow> editor \<Rightarrow> editor" where
  "start_dragging i p s =
     (let s1 = selectAnnotation i (pushUndo s); a = e_anns s ! nat i
      in s1\<lparr>e_isDragging := True, e_dragOffset := (fst p - min (a_x1 a) (a_x2 a), snd p - min (a_y1 a) (a_y2 a))\<rparr>)"

definition onMouseDown :: "nat \<Rightarrow> bool \<Rightarrow> position \<Rightarrow> editor \<Rightarrow> editor" where
  "onMouseDown button shift p s0 =
     (if button \<noteq> 0 then s0
      else (let s = hideLabelPicker s0; hit = hitTestBoxes p (e_anns s);
                boxes = (if 0 \<le> hit then start_dragging hit p s else start_drawing p s)
            in if shift then start_drawing p s
               else if 0 \<le> e_selected s
               then (case nth_ann (e_selected s) (e_anns s) of
                       None \<Rightarrow> ae_emit AeTypeError s
                     | Some a \<Rightarrow> (case hitTestHandles p a of
                         Some h \<Rightarrow> (pushUndo s)\<lparr>e_isResizing := True, e_handle := Some h\<rparr>
                       | None \<Rightarrow> boxes))
               else boxes))"

definition updateCursor :: "bool \<Rightarrow> position \<Rightarrow> editor \<Rightarrow> editor" where
  "updateCursor shift p s =
     (let over = s\<lparr>e_cursor := (if 0 \<le> hitTestBoxes p (e_anns s) then CursorMove else CursorDraw)\<rparr>
      in if shift then s\<lparr>e_cursor := CursorDraw\<rparr>
         else if 0 \<le> e_selected s
         then (case nth_ann (e_selected s) (e_anns s) of
                 None \<Rightarrow> ae_emit AeTypeError s
               | Some a \<Rightarrow> (case hitTestHandles p a of Some h \<Rightarrow> s\<lparr>e_cursor := CursorResize h\<rparr> | None \<Rightarrow> over))
         else over)"

definition selection_missing :: "editor \<Rightarrow> bool" where
  "selection_missing s \<longleftrightarrow> nth_ann (e_selected s) (e_anns s) = None"

definition onMouseMove :: "bool \<Rightarrow> position \<Rightarrow> editor \<Rightarrow> editor" where
  "onMouseMove shift p s =
     (if e_isDrawing s then s\<lparr>e_drawCurrent := Some p\<rparr>
      else if e_isDragging s \<and> 0 \<le> e_selected s
      then (let t = map_selected (move_box (e_canvasW s) (e_canvasH s) (fst p - fst (e_dragOffset s), snd p - snd (e_dragOffset s))) s
            in if selection_missing s then t else t\<lparr>e_dirty := True\<rparr>)
      else if e_isResizing s \<and> 0 \<le> e_selected s
      then (if selection_missing s \<and> e_handle s \<noteq> None then doResize p s else (doResize p s)\<lparr>e_dirty := True\<rparr>)
      else updateCursor shift p s)"

definition normalize_ann :: "ann \<Rightarrow> ann" where
  "normalize_ann a = set_corners (getNormalizedRect (a_x1 a) (a_y1 a) (a_x2 a) (a_y2 a)) a"

definition showLabelPicker :: "rat \<times> rat \<times> rat \<times> rat \<Rightarrow> editor \<Rightarrow> editor" where
  "showLabelPicker r s = (hideLabelPicker s)\<lparr>e_picker := Some r\<rparr>"

text \<open>The end of a drawing: a box that is too small is discarded.\<close>

definition finish_drawing :: "position \<Rightarrow> editor \<Rightarrow> editor" where
  "finish_drawing p s0 =
     (let s = s0\<lparr>e_isDrawing := False\<rparr>
      in (case e_drawStart s of
            None \<Rightarrow> ae_emit AeTypeError s
          | Some q \<Rightarrow>
              (let r = getNormalizedRect (fst q) (snd q) (fst p) (snd p);
                   t = s\<lparr>e_drawStart := None, e_drawCurrent := None\<rparr>
               in (case r of (x1, y1, x2, y2) \<Rightarrow>
                     if x2 - x1 < ANNOTATION_MIN_BOX_SIZE \<or> y2 - y1 < ANNOTATION_MIN_BOX_SIZE then t
                     else showLabelPicker r t))))"

definition finish_resizing :: "editor \<Rightarrow> editor" where
  "finish_resizing s =
     (let t = s\<lparr>e_isResizing := False, e_handle := None\<rparr>
      in if 0 \<le> e_selected t then map_selected normalize_ann t else t)"

definition onMouseUp :: "nat \<Rightarrow> position \<Rightarrow> editor \<Rightarrow> editor" where
  "onMouseUp button p s =
     (if button \<noteq> 0 then s
      else if e_isDrawing s then finish_drawing p s
      else (let t = s\<lparr>e_isDragging := False\<rparr> in if e_isResizing t then finish_resizing t else t))"

section \<open>Labels\<close>

definition trackLabelUsage :: "string \<Rightarrow> editor \<Rightarrow> editor" where
  "trackLabelUsage l s = s\<lparr>e_recentLabels := l # remove1 l (e_recentLabels s)\<rparr>"

text \<open>The position in the list of recent labels, after all of them when it is not in it.\<close>

definition recency :: "string list \<Rightarrow> string \<Rightarrow> nat" where
  "recency recent l = length (takeWhile (\<lambda>x. x \<noteq> l) recent)"

definition getSortedLabels :: "editor \<Rightarrow> string list" where
  "getSortedLabels s = sort_key (recency (e_recentLabels s)) (e_classLabels s)"

definition addAnnotation :: "string \<Rightarrow> rat \<times> rat \<times> rat \<times> rat \<Rightarrow> editor \<Rightarrow> editor" where
  "addAnnotation l r s =
     (let a = set_corners r \<lparr>a_label = l, a_conf = 0, a_x1 = 0, a_y1 = 0, a_x2 = 0, a_y2 = 0, a_pending = False\<rparr>
      in s\<lparr>e_anns := e_anns s @ [a], e_selected := int (length (e_anns s)), e_dirty := True\<rparr>)"

definition use_label :: "string \<Rightarrow> rat \<times> rat \<times> rat \<times> rat \<Rightarrow> editor \<Rightarrow> editor" where
  "use_label l r s = trackLabelUsage l (hideLabelPicker (addAnnotation l r (pushUndo s)))"

text \<open>The label pattern of the input (letters, digits, underscore and dash).\<close>

definition label_char :: "char \<Rightarrow> bool" where
  "label_char c \<longleftrightarrow> is_word_char c \<or> c = CHR ''-''"

definition label_entered :: "string \<Rightarrow> rat \<times> rat \<times> rat \<times> rat \<Rightarrow> editor \<Rightarrow> editor" where
  "label_entered input r s =
     (let l = to_lower (js_trim input)
      in if l \<noteq> [] \<and> list_all label_char l
         then (let t = use_label l r s
               in if l \<in> set (e_classLabels t) then t else t\<lparr>e_classLabels := e_classLabels t @ [l]\<rparr>)
         else s)"

section \<open>Annotations\<close>

definition deleteAnnotation :: "int \<Rightarrow> editor \<Rightarrow> editor" where
  "deleteAnnotation i s0 =
     (if i < 0 \<or> int (length (e_anns s0)) \<le> i then s0
      else (let s = pushUndo s0;
                as = take (nat i) (e_anns s) @ drop (Suc (nat i)) (e_anns s);
                sel1 = (if int (length as) \<le> e_selected s then int (length as) - 1 else e_selected s);
                sel2 = (if sel1 = i then -1 else if i < sel1 then sel1 - 1 else sel1);
                t = s\<lparr>e_anns := as, e_selected := sel2\<rparr>
            in (case e_frame t of
                  Some f \<Rightarrow> if as = [] \<and> f \<noteq> [] then ae_send (RDelete (e_eventId t) f)
                                  (ae_emit (Deleted (e_eventId t) f) (t\<lparr>e_dirty := False\<rparr>))
                            else t\<lparr>e_dirty := True\<rparr>
                | None \<Rightarrow> t\<lparr>e_dirty := True\<rparr>)))"

definition acceptAnnotation :: "int \<Rightarrow> editor \<Rightarrow> editor" where
  "acceptAnnotation i s = (case nth_ann i (e_anns s) of
     None \<Rightarrow> s
   | Some a \<Rightarrow> if \<not> a_pending a then s
               else (let t = pushUndo s in t\<lparr>e_anns := (e_anns t)[nat i := a\<lparr>a_pending := False\<rparr>], e_dirty := True\<rparr>))"

definition acceptAllAnnotations :: "editor \<Rightarrow> editor" where
  "acceptAllAnnotations s =
     (if list_ex a_pending (e_anns s)
      then (let t = pushUndo s in t\<lparr>e_anns := map (\<lambda>a. a\<lparr>a_pending := False\<rparr>) (e_anns t), e_dirty := True\<rparr>)
      else s)"

definition relabelAnnotation :: "int \<Rightarrow> string \<Rightarrow> editor \<Rightarrow> editor" where
  "relabelAnnotation i l s = (case nth_ann i (e_anns s) of
     None \<Rightarrow> s
   | Some a \<Rightarrow> (let t = pushUndo s in t\<lparr>e_anns := (e_anns t)[nat i := a\<lparr>a_label := l\<rparr>], e_dirty := True\<rparr>))"

text \<open>The keys of the open panel.\<close>

datatype ae_key = KeyCtrlZ | KeyDelete | KeyEscape

fun ae_keydown :: "ae_key \<Rightarrow> editor \<Rightarrow> editor" where
  "ae_keydown KeyCtrlZ s = ae_undo s"
| "ae_keydown KeyDelete s = (if 0 \<le> e_selected s then deleteAnnotation (e_selected s) s else s)"
| "ae_keydown KeyEscape s = hideLabelPicker
     (if e_isDrawing s then s\<lparr>e_isDrawing := False, e_drawStart := None, e_drawCurrent := None\<rparr> else s)"

section \<open>Frames and events\<close>

text \<open>\<open>ok\<close> is the answer to the question whether unsaved annotations may be discarded.\<close>

definition confirmDiscardIfDirty :: "bool \<Rightarrow> editor \<Rightarrow> bool \<times> editor" where
  "confirmDiscardIfDirty ok s = (if \<not> e_dirty s then (True, s) else if \<not> ok then (False, s) else (True, s\<lparr>e_dirty := False\<rparr>))"

definition resetAnnotationState :: "editor \<Rightarrow> editor" where
  "resetAnnotationState s = hideLabelPicker (s\<lparr>e_anns := [], e_selected := -1, e_dirty := False, e_isDrawing := False,
     e_isDragging := False, e_isResizing := False, e_undo := []\<rparr>)"

definition loadFrameImage :: "string \<Rightarrow> editor \<Rightarrow> editor" where
  "loadFrameImage f s = ae_send (RImage f) (s\<lparr>e_frame := Some f\<rparr>)"

definition switchFrame :: "bool \<Rightarrow> string \<Rightarrow> editor \<Rightarrow> editor" where
  "switchFrame ok f s = (case confirmDiscardIfDirty ok s of (go, t) \<Rightarrow>
     if go then loadFrameImage f (resetAnnotationState t) else t)"

text \<open>The image of any frame that was asked for; the last one to load is the one shown.\<close>

definition image_onload :: "rat \<Rightarrow> rat \<Rightarrow> editor \<Rightarrow> editor" where
  "image_onload w h s = s\<lparr>e_naturalW := w, e_naturalH := h, e_canvasW := w, e_canvasH := h\<rparr>"

definition image_onerror :: "bool \<Rightarrow> string \<Rightarrow> editor \<Rightarrow> editor" where
  "image_onerror ok f s = (case parseInt10 f of
     None \<Rightarrow> s
   | Some n \<Rightarrow> if 0 < e_totalFrames s \<and> int (e_totalFrames s) < n then switchFrame ok (nat_to_str (e_totalFrames s)) s else s)"

definition loadEventData :: "string \<Rightarrow> string option \<Rightarrow> editor \<Rightarrow> editor" where
  "loadEventData eid frame s = ae_send (REvent eid frame) s"

definition ae_switchEvent :: "bool \<Rightarrow> string \<Rightarrow> string option \<Rightarrow> editor \<Rightarrow> editor" where
  "ae_switchEvent ok eid frame s = (case confirmDiscardIfDirty ok s of (go, t) \<Rightarrow>
     if go then loadEventData eid frame (resetAnnotationState (t\<lparr>e_eventId := eid\<rparr>)) else t)"

definition ae_close :: "bool \<Rightarrow> editor \<Rightarrow> editor" where
  "ae_close ok s = (case confirmDiscardIfDirty ok s of (go, t) \<Rightarrow>
     if go then (resetAnnotationState (hideLabelPicker t))\<lparr>e_frame := None\<rparr> else t)"

text \<open>What a detector wrote of one object; absent fields are \<open>None\<close>.\<close>

record detection =
  o_label :: "string option"
  o_name :: "string option"
  o_class :: "string option"
  o_confidence :: rat
  o_score :: rat
  o_bbox :: "(rat \<times> rat \<times> rat \<times> rat) option"
  o_corners :: "(rat \<times> rat \<times> rat \<times> rat) option"

definition first_text :: "string option list \<Rightarrow> string" where
  "first_text xs = (case filter (\<lambda>x. x \<noteq> None \<and> x \<noteq> Some []) xs of Some l # _ \<Rightarrow> l | _ \<Rightarrow> ''unknown'')"

definition ann_of_detection :: "detection \<Rightarrow> ann" where
  "ann_of_detection d = set_corners (case o_bbox d of Some r \<Rightarrow> r | None \<Rightarrow> (case o_corners d of Some r \<Rightarrow> r | None \<Rightarrow> (0, 0, 0, 0)))
     \<lparr>a_label = first_text [o_label d, o_name d, o_class d],
      a_conf = (if o_confidence d \<noteq> 0 then o_confidence d else o_score d),
      a_x1 = 0, a_y1 = 0, a_x2 = 0, a_y2 = 0, a_pending = False\<rparr>"

definition loadDetectionData :: "detection list \<Rightarrow> editor \<Rightarrow> editor" where
  "loadDetectionData ds s = s\<lparr>e_anns := map ann_of_detection ds\<rparr>"

record event_data =
  ev_total :: nat
  ev_width :: rat
  ev_height :: rat
  ev_hasDetect :: bool
  ev_default :: string
  ev_detection :: "detection list option"

definition applyEventData :: "event_data \<Rightarrow> editor \<Rightarrow> editor" where
  "applyEventData d s =
     (let t = s\<lparr>e_totalFrames := ev_total d, e_naturalW := ev_width d, e_naturalH := ev_height d, e_hasDetect := ev_hasDetect d\<rparr>
      in (case ev_detection d of Some ds \<Rightarrow> loadDetectionData ds t | None \<Rightarrow> t))"

text \<open>The reply to \<^verbatim>\<open>load\<close>; \<open>frame\<close> is the frame asked for with the request.\<close>

definition event_loaded :: "string option \<Rightarrow> event_data \<Rightarrow> editor \<Rightarrow> editor" where
  "event_loaded frame d s =
     (let t = applyEventData d s;
          wanted = (case frame of Some f \<Rightarrow> f | None \<Rightarrow> []);
          f = (if wanted \<noteq> [] then wanted else if ev_default d \<noteq> [] then ev_default d else ''alarm'');
          u = loadFrameImage f t
      in if wanted \<noteq> [] then ae_send (RSaved (e_eventId u) wanted) u else u)"

text \<open>The reply to \<^verbatim>\<open>load_saved\<close>; what it is a reply to is not looked at.\<close>

definition saved_loaded :: "(string \<times> (rat \<times> rat \<times> rat \<times> rat)) list \<Rightarrow> editor \<Rightarrow> editor" where
  "saved_loaded saved s =
     (if saved = [] then s
      else s\<lparr>e_anns := map (\<lambda>(l, r). set_corners r \<lparr>a_label = l, a_conf = 0, a_x1 = 0, a_y1 = 0, a_x2 = 0, a_y2 = 0, a_pending = False\<rparr>) saved,
             e_selected := -1, e_dirty := False\<rparr>)"

section \<open>Detection and saving\<close>

definition detect :: "editor \<Rightarrow> editor" where
  "detect s = (if \<not> e_hasDetect s then s
     else (case e_frame s of Some f \<Rightarrow> if f \<noteq> [] then ae_send (RDetect (e_eventId s) f) s else s | None \<Rightarrow> s))"

definition pending_of_detection :: "detection \<Rightarrow> ann" where
  "pending_of_detection d = set_corners (case o_bbox d of Some r \<Rightarrow> r | None \<Rightarrow> (0, 0, 0, 0))
     \<lparr>a_label = first_text [o_label d], a_conf = o_confidence d, a_x1 = 0, a_y1 = 0, a_x2 = 0, a_y2 = 0, a_pending = True\<rparr>"

definition detected :: "detection list \<Rightarrow> editor \<Rightarrow> editor" where
  "detected ds s =
     (if ds = [] then s
      else (let t = pushUndo s
            in t\<lparr>e_anns := filter (\<lambda>a. \<not> a_pending a) (e_anns t) @ map pending_of_detection ds, e_dirty := True\<rparr>))"

text \<open>\<open>ok\<close> is the answer to the question asked when boxes are unconfirmed or there are none.\<close>

definition ae_save :: "bool \<Rightarrow> editor \<Rightarrow> editor" where
  "ae_save ok s = (case e_frame s of
     None \<Rightarrow> s
   | Some f \<Rightarrow>
      (let accepted = filter (\<lambda>a. \<not> a_pending a) (e_anns s);
           asked = (accepted = [] \<or> list_ex a_pending (e_anns s))
       in if f = [] \<or> asked \<and> \<not> ok then s
          else ae_send (RSave (e_eventId s) f) (ae_emit (Posted (e_eventId s) f accepted) s)))"

definition ae_saved :: "string list option \<Rightarrow> editor \<Rightarrow> editor" where
  "ae_saved labels s = (case labels of None \<Rightarrow> s\<lparr>e_dirty := False\<rparr> | Some ls \<Rightarrow> s\<lparr>e_dirty := False, e_classLabels := ls\<rparr>)"

definition all_deleted :: "string list \<Rightarrow> editor \<Rightarrow> editor" where
  "all_deleted labels s = s\<lparr>e_anns := [], e_selected := -1, e_dirty := False, e_undo := [], e_classLabels := labels\<rparr>"

section \<open>Pages of the frame browser\<close>

text \<open>\<open>None\<close> is an ellipsis.\<close>

definition buildPageNumbers :: "int \<Rightarrow> int \<Rightarrow> int option list" where
  "buildPageNumbers current final =
     (if final \<le> 7 then map Some [1..final]
      else (let rangeStart = max 2 (current - 1); rangeEnd = min (final - 1) (current + 1)
            in [Some 1] @ (if 2 < rangeStart then [None] else []) @ map Some [rangeStart..rangeEnd]
               @ (if rangeEnd < final - 1 then [None] else []) @ [Some final]))"

section \<open>The tree of training files\<close>

text \<open>A directory comes with its children or, as \<open>TBareDir\<close>, without the field.\<close>

datatype tnode = TFile string | TDir string "tnode list" | TBareDir string

fun tnode_path :: "tnode \<Rightarrow> string" where
  "tnode_path (TFile q) = q"
| "tnode_path (TDir q ns) = q"
| "tnode_path (TBareDir q) = q"

definition browsePathStartsWith :: "string \<Rightarrow> string \<Rightarrow> bool" where
  "browsePathStartsWith full prefix \<longleftrightarrow> full = prefix \<or> starts_with (prefix @ ''/'') full"

fun browseFindNode :: "string \<Rightarrow> tnode list \<Rightarrow> tnode option" where
  "browseFindNode p [] = None"
| "browseFindNode p (TDir q cs # ns) =
     (if q = p then Some (TDir q cs)
      else (case browseFindNode p cs of Some m \<Rightarrow> Some m | None \<Rightarrow> browseFindNode p ns))"
| "browseFindNode p (TFile q # ns) = (if q = p then Some (TFile q) else browseFindNode p ns)"
| "browseFindNode p (TBareDir q # ns) = (if q = p then Some (TBareDir q) else browseFindNode p ns)"

fun browseRemoveFromTree :: "string \<Rightarrow> tnode list \<Rightarrow> bool \<times> tnode list" where
  "browseRemoveFromTree p [] = (False, [])"
| "browseRemoveFromTree p (TDir q cs # ns) =
     (if q = p then (True, ns)
      else (case browseRemoveFromTree p cs of (found, cs') \<Rightarrow>
        if found then (True, TDir q cs' # ns)
        else (case browseRemoveFromTree p ns of (f, ns') \<Rightarrow> (f, TDir q cs' # ns'))))"
| "browseRemoveFromTree p (TFile q # ns) =
     (if q = p then (True, ns) else (case browseRemoveFromTree p ns of (f, ns') \<Rightarrow> (f, TFile q # ns')))"
| "browseRemoveFromTree p (TBareDir q # ns) =
     (if q = p then (True, ns) else (case browseRemoveFromTree p ns of (f, ns') \<Rightarrow> (f, TBareDir q # ns')))"

fun is_tfile :: "tnode \<Rightarrow> bool" where
  "is_tfile (TFile q) = True"
| "is_tfile (TDir q ns) = False"
| "is_tfile (TBareDir q) = False"

definition browseGetRootFiles :: "tnode list \<Rightarrow> tnode list" where
  "browseGetRootFiles ns = filter is_tfile ns"

fun browseGetFilesForPath :: "string \<Rightarrow> tnode list \<Rightarrow> tnode list" where
  "browseGetFilesForPath p [] = []"
| "browseGetFilesForPath p (TDir q cs # ns) =
     (if q = p then filter is_tfile cs
      else (let found = browseGetFilesForPath p cs
            in if found \<noteq> [] \<or> browsePathStartsWith p q then found else browseGetFilesForPath p ns))"
| "browseGetFilesForPath p (TBareDir q # ns) = (if q = p then [] else browseGetFilesForPath p ns)"
| "browseGetFilesForPath p (TFile q # ns) = browseGetFilesForPath p ns"

fun tree_paths :: "tnode list \<Rightarrow> string list" where
  "tree_paths [] = []"
| "tree_paths (TDir q cs # ns) = q # tree_paths cs @ tree_paths ns"
| "tree_paths (TFile q # ns) = q # tree_paths ns"
| "tree_paths (TBareDir q # ns) = q # tree_paths ns"

lemma find_node_iff: "(browseFindNode p ns = None) = (p \<notin> set (tree_paths ns))"
  by (induction p ns rule: browseFindNode.induct) (auto split: option.split)

lemma find_node_path: "browseFindNode p ns = Some m \<Longrightarrow> tnode_path m = p"
  by (induction p ns rule: browseFindNode.induct) (auto split: if_splits option.splits)

lemma remove_found: "fst (browseRemoveFromTree p ns) = (p \<in> set (tree_paths ns))"
  by (induction p ns rule: browseRemoveFromTree.induct) (auto split: prod.split)

lemma remove_absent: "p \<notin> set (tree_paths ns) \<Longrightarrow> snd (browseRemoveFromTree p ns) = ns"
  by (induction p ns rule: browseRemoveFromTree.induct) (auto split: prod.split)

text \<open>A file that was deleted is no longer found, when no path occurs twice.\<close>

lemma remove_then_find:
  "distinct (tree_paths ns) \<Longrightarrow> browseFindNode p (snd (browseRemoveFromTree p ns)) = None"
  unfolding find_node_iff
proof (induction p ns rule: browseRemoveFromTree.induct)
  case (2 p q cs ns)
  then show ?case using remove_found [of p cs] remove_absent [of p ns] remove_absent [of p cs]
    by (auto split: prod.split)
qed (auto split: prod.split)

section \<open>The machine\<close>

text \<open>
  User actions and replies; a reply comes for a request under way, in any order. Answers to
  confirmations come with the event that asks.
\<close>

datatype ae_event = MouseDown nat bool position | MouseMove bool position | MouseUp nat position | Keydown ae_key
  | PickLabel string | EnterLabel string | CancelLabel | DeleteBox int | AcceptBox int | AcceptAll | Relabel int string
  | SelectItem int | DetectClicked | SaveClicked bool | ToFrame bool string | ToEvent bool string "string option" | ClosePanel bool
  | ImageLoaded string rat rat | ImageFailed bool string | EventReply string "string option" event_data
  | SavedReply string string "(string \<times> (rat \<times> rat \<times> rat \<times> rat)) list" | DetectReply string string "detection list"
  | SaveReply string string "string list option" | AllDeleted "string list"

definition on_reply :: "ae_request \<Rightarrow> (editor \<Rightarrow> editor) \<Rightarrow> editor \<Rightarrow> editor" where
  "on_reply r f s = (if r \<in> set (e_requests s) then f (s\<lparr>e_requests := remove1 r (e_requests s)\<rparr>) else s)"

fun ae_exec :: "ae_event \<Rightarrow> editor \<Rightarrow> editor" where
  "ae_exec (MouseDown b shift p) s = onMouseDown b shift p s"
| "ae_exec (MouseMove shift p) s = onMouseMove shift p s"
| "ae_exec (MouseUp b p) s = onMouseUp b p s"
| "ae_exec (Keydown k) s = ae_keydown k s"
| "ae_exec (PickLabel l) s = (case e_picker s of Some r \<Rightarrow> if l \<in> set (e_classLabels s) then use_label l r s else s | None \<Rightarrow> s)"
| "ae_exec (EnterLabel t) s = (case e_picker s of Some r \<Rightarrow> label_entered t r s | None \<Rightarrow> s)"
| "ae_exec CancelLabel s = hideLabelPicker s"
| "ae_exec (DeleteBox i) s = deleteAnnotation i s"
| "ae_exec (AcceptBox i) s = acceptAnnotation i s"
| "ae_exec AcceptAll s = acceptAllAnnotations s"
| "ae_exec (Relabel i l) s = relabelAnnotation i l s"
| "ae_exec (SelectItem i) s = (if 0 \<le> i \<and> i < int (length (e_anns s)) then selectAnnotation i s else s)"
| "ae_exec DetectClicked s = detect s"
| "ae_exec (SaveClicked ok) s = ae_save ok s"
| "ae_exec (ToFrame ok f) s = switchFrame ok f s"
| "ae_exec (ToEvent ok eid f) s = ae_switchEvent ok eid f s"
| "ae_exec (ClosePanel ok) s = ae_close ok s"
| "ae_exec (ImageLoaded f w h) s = on_reply (RImage f) (image_onload w h) s"
| "ae_exec (ImageFailed ok f) s = on_reply (RImage f) (image_onerror ok f) s"
| "ae_exec (EventReply eid f d) s = on_reply (REvent eid f) (event_loaded f d) s"
| "ae_exec (SavedReply eid f saved) s = on_reply (RSaved eid f) (saved_loaded saved) s"
| "ae_exec (DetectReply eid f ds) s = on_reply (RDetect eid f) (detected ds) s"
| "ae_exec (SaveReply eid f ls) s = on_reply (RSave eid f) (ae_saved ls) s"
| "ae_exec (AllDeleted ls) s = all_deleted ls s"

section \<open>Boxes stay on the frame\<close>

named_theorems ae_ops "operations of the editor"

lemmas [ae_ops] = ae_emit_def ae_send_def map_selected_def doResize_def pushUndo_def ae_undo_def hideLabelPicker_def
  selectAnnotation_def start_drawing_def start_dragging_def onMouseDown_def updateCursor_def onMouseMove_def
  showLabelPicker_def finish_drawing_def finish_resizing_def onMouseUp_def trackLabelUsage_def addAnnotation_def
  use_label_def label_entered_def acceptAnnotation_def acceptAllAnnotations_def relabelAnnotation_def
  resetAnnotationState_def loadFrameImage_def image_onload_def Let_def

definition inside :: "rat \<Rightarrow> rat \<Rightarrow> ann \<Rightarrow> bool" where
  "inside W H a \<longleftrightarrow> 0 \<le> a_x1 a \<and> a_x1 a \<le> W \<and> 0 \<le> a_x2 a \<and> a_x2 a \<le> W
     \<and> 0 \<le> a_y1 a \<and> a_y1 a \<le> H \<and> 0 \<le> a_y2 a \<and> a_y2 a \<le> H"

definition box_in :: "rat \<Rightarrow> rat \<Rightarrow> rat \<times> rat \<times> rat \<times> rat \<Rightarrow> bool" where
  "box_in W H r = (case r of (x1, y1, x2, y2) \<Rightarrow> 0 \<le> x1 \<and> x1 \<le> W \<and> 0 \<le> x2 \<and> x2 \<le> W
     \<and> 0 \<le> y1 \<and> y1 \<le> H \<and> 0 \<le> y2 \<and> y2 \<le> H)"

definition on_canvas :: "rat \<Rightarrow> rat \<Rightarrow> position \<Rightarrow> bool" where
  "on_canvas W H p \<longleftrightarrow> 0 \<le> fst p \<and> fst p \<le> W \<and> 0 \<le> snd p \<and> snd p \<le> H"

text \<open>The mouse is on the canvas, and the images of the run have one size.\<close>

fun event_ok :: "rat \<Rightarrow> rat \<Rightarrow> ae_event \<Rightarrow> bool" where
  "event_ok W H (MouseDown b shift p) = on_canvas W H p"
| "event_ok W H (MouseMove shift p) = on_canvas W H p"
| "event_ok W H (MouseUp b p) = on_canvas W H p"
| "event_ok W H (ImageLoaded f w h) = (w = W \<and> h = H)"
| "event_ok W H _ = True"

text \<open>The corners of the boxes that a reply brings; nothing is assumed of them.\<close>

definition corners :: "ann \<Rightarrow> rat \<times> rat \<times> rat \<times> rat" where
  "corners a = (a_x1 a, a_y1 a, a_x2 a, a_y2 a)"

fun received :: "ae_event \<Rightarrow> (rat \<times> rat \<times> rat \<times> rat) list" where
  "received (SavedReply eid f saved) = map snd saved"
| "received (DetectReply eid f ds) = map (corners \<circ> pending_of_detection) ds"
| "received (EventReply eid f d) = (case ev_detection d of None \<Rightarrow> [] | Some ds \<Rightarrow> map (corners \<circ> ann_of_detection) ds)"
| "received _ = []"

text \<open>A box that came from off the frame, with what the user has done to it since.\<close>

inductive astray :: "(rat \<times> rat \<times> rat \<times> rat) set \<Rightarrow> rat \<Rightarrow> rat \<Rightarrow> ann \<Rightarrow> bool" for R W H where
  came: "corners a \<in> R \<Longrightarrow> \<not> inside W H a \<Longrightarrow> astray R W H a"
| accepted: "astray R W H a \<Longrightarrow> astray R W H (a\<lparr>a_pending := v\<rparr>)"
| labelled: "astray R W H a \<Longrightarrow> astray R W H (a\<lparr>a_label := l\<rparr>)"
| dragged: "astray R W H a \<Longrightarrow> astray R W H (move_box cw ch p a)"
| resized: "astray R W H a \<Longrightarrow> astray R W H (resize_box h x y a)"
| normalised: "astray R W H a \<Longrightarrow> astray R W H (normalize_ann a)"

definition good :: "(rat \<times> rat \<times> rat \<times> rat) set \<Rightarrow> rat \<Rightarrow> rat \<Rightarrow> ann \<Rightarrow> bool" where
  "good R W H a \<longleftrightarrow> inside W H a \<or> astray R W H a"

definition boxes_inv :: "(rat \<times> rat \<times> rat \<times> rat) set \<Rightarrow> rat \<Rightarrow> rat \<Rightarrow> editor \<Rightarrow> bool" where
  "boxes_inv R W H s \<longleftrightarrow> e_canvasW s \<le> W \<and> e_canvasH s \<le> H \<and> list_all (good R W H) (e_anns s)
     \<and> list_all (\<lambda>u. list_all (good R W H) (fst u)) (e_undo s) \<and> length (e_undo s) \<le> ANNOTATION_MAX_UNDO
     \<and> (case e_picker s of None \<Rightarrow> True | Some r \<Rightarrow> box_in W H r)
     \<and> (case e_drawStart s of None \<Rightarrow> True | Some p \<Rightarrow> on_canvas W H p)"

lemma mouse_on_canvas:
  assumes "left \<le> cx" "cx \<le> left + w" "upper \<le> cy" "cy \<le> upper + h" "0 < w" "0 < h" "0 \<le> e_canvasW s" "0 \<le> e_canvasH s"
  shows "on_canvas (e_canvasW s) (e_canvasH s) (mouseToImage (left, upper, w, h) (cx, cy) s)"
proof -
  have le: "0 \<le> d * (c / w) \<and> d * (c / w) \<le> c" if "0 \<le> d" "d \<le> w" "0 < w" "0 \<le> c" for d c w :: rat
    using that mult_right_mono [of d w c] by (simp add: field_simps)
  show ?thesis using le [of "cx - left" w "e_canvasW s"] le [of "cy - upper" h "e_canvasH s"] assms
    by (simp add: on_canvas_def mouseToImage_def)
qed

lemma inside_corners [simp]: "inside W H (set_corners r a) = box_in W H r"
  by (cases r) (simp add: inside_def box_in_def set_corners_def)

lemma inside_label [simp]: "inside W H (a\<lparr>a_pending := v\<rparr>) = inside W H a" "inside W H (a\<lparr>a_label := l\<rparr>) = inside W H a"
  by (simp_all add: inside_def)

lemma clamp_span:
  fixes u v c d x :: rat
  assumes "\<bar>v - u\<bar> \<le> c" "d \<le> c"
  shows "0 \<le> max 0 (min x (d - \<bar>v - u\<bar>)) \<and> max 0 (min x (d - \<bar>v - u\<bar>)) \<le> c
    \<and> 0 \<le> max 0 (min x (d - \<bar>v - u\<bar>)) + \<bar>v - u\<bar> \<and> max 0 (min x (d - \<bar>v - u\<bar>)) + \<bar>v - u\<bar> \<le> c"
proof -
  have "0 \<le> \<bar>v - u\<bar>" by simp
  then show ?thesis using assms by (auto simp: max_def min_def)
qed

text \<open>Dragging brings any box onto the frame that is not larger than the frame, wherever it was before.\<close>

lemma drag_brings_back:
  assumes "\<bar>a_x2 a - a_x1 a\<bar> \<le> W" "\<bar>a_y2 a - a_y1 a\<bar> \<le> H" "cw \<le> W" "ch \<le> H"
  shows "inside W H (move_box cw ch p a)"
  using clamp_span [OF assms(1,3), of "fst p"] clamp_span [OF assms(2,4), of "snd p"]
  by (simp add: move_box_def Let_def box_in_def)

lemma inside_move: "inside W H a \<Longrightarrow> cw \<le> W \<Longrightarrow> ch \<le> H \<Longrightarrow> inside W H (move_box cw ch p a)"
  by (rule drag_brings_back) (auto simp: inside_def abs_if)

lemma inside_resize: "inside W H a \<Longrightarrow> 0 \<le> x \<Longrightarrow> x \<le> W \<Longrightarrow> 0 \<le> y \<Longrightarrow> y \<le> H \<Longrightarrow> inside W H (resize_box h x y a)"
  by (cases "(h, x, y, a)" rule: resize_box.cases) (simp_all add: inside_def)

lemma inside_normalize [simp]: "inside W H (normalize_ann a) = inside W H a"
  by (auto simp: normalize_ann_def getNormalizedRect_def box_in_def inside_def [of W H a] min_def max_def)

text \<open>What the editor does to a box keeps it good.\<close>

lemma good_ops:
  "good R W H a \<Longrightarrow> good R W H (a\<lparr>a_pending := v\<rparr>)" "good R W H a \<Longrightarrow> good R W H (a\<lparr>a_label := l\<rparr>)"
  "good R W H a \<Longrightarrow> cw \<le> W \<Longrightarrow> ch \<le> H \<Longrightarrow> good R W H (move_box cw ch p a)"
  "good R W H a \<Longrightarrow> 0 \<le> x \<Longrightarrow> x \<le> W \<Longrightarrow> 0 \<le> y \<Longrightarrow> y \<le> H \<Longrightarrow> good R W H (resize_box h x y a)"
  "good R W H a \<Longrightarrow> good R W H (normalize_ann a)"
  by (auto simp: good_def inside_move inside_resize intro: astray.intros)

lemma good_new: "box_in W H r \<Longrightarrow> good R W H (set_corners r a)" "corners a \<in> R \<Longrightarrow> good R W H a"
  by (auto simp: good_def intro: came)

lemma corners_set [simp]: "corners (set_corners r a) = r"
  by (cases r) (simp add: corners_def set_corners_def)

lemma nth_ann_set: "nth_ann i as = Some a \<Longrightarrow> a \<in> set as"
  by (auto simp: nth_ann_def split: if_splits)

lemma boxes_frame:
  "boxes_inv R W H (s\<lparr>e_selected := i\<rparr>) = boxes_inv R W H s" "boxes_inv R W H (s\<lparr>e_dirty := d\<rparr>) = boxes_inv R W H s"
  "boxes_inv R W H (s\<lparr>e_isDrawing := d\<rparr>) = boxes_inv R W H s" "boxes_inv R W H (s\<lparr>e_isDragging := d\<rparr>) = boxes_inv R W H s"
  "boxes_inv R W H (s\<lparr>e_isResizing := d\<rparr>) = boxes_inv R W H s" "boxes_inv R W H (s\<lparr>e_handle := hn\<rparr>) = boxes_inv R W H s"
  "boxes_inv R W H (s\<lparr>e_dragOffset := q\<rparr>) = boxes_inv R W H s" "boxes_inv R W H (s\<lparr>e_drawCurrent := dc\<rparr>) = boxes_inv R W H s"
  "boxes_inv R W H (s\<lparr>e_cursor := cu\<rparr>) = boxes_inv R W H s" "boxes_inv R W H (s\<lparr>e_requests := rs\<rparr>) = boxes_inv R W H s"
  "boxes_inv R W H (s\<lparr>e_log := lg\<rparr>) = boxes_inv R W H s" "boxes_inv R W H (s\<lparr>e_classLabels := ls\<rparr>) = boxes_inv R W H s"
  "boxes_inv R W H (s\<lparr>e_recentLabels := ls\<rparr>) = boxes_inv R W H s" "boxes_inv R W H (s\<lparr>e_frame := fr\<rparr>) = boxes_inv R W H s"
  "boxes_inv R W H (s\<lparr>e_eventId := eid\<rparr>) = boxes_inv R W H s" "boxes_inv R W H (s\<lparr>e_totalFrames := n\<rparr>) = boxes_inv R W H s"
  "boxes_inv R W H (s\<lparr>e_hasDetect := d\<rparr>) = boxes_inv R W H s" "boxes_inv R W H (s\<lparr>e_naturalW := x\<rparr>) = boxes_inv R W H s"
  "boxes_inv R W H (s\<lparr>e_naturalH := x\<rparr>) = boxes_inv R W H s"
  by (simp_all add: boxes_inv_def)

lemma boxes_picker: "boxes_inv R W H s \<Longrightarrow> case r of None \<Rightarrow> True | Some r \<Rightarrow> box_in W H r \<Longrightarrow> boxes_inv R W H (s\<lparr>e_picker := r\<rparr>)"
  by (simp add: boxes_inv_def)

lemma boxes_drawStart: "boxes_inv R W H s \<Longrightarrow> case p of None \<Rightarrow> True | Some p \<Rightarrow> on_canvas W H p \<Longrightarrow> boxes_inv R W H (s\<lparr>e_drawStart := p\<rparr>)"
  by (simp add: boxes_inv_def)

lemma boxes_anns: "boxes_inv R W H s \<Longrightarrow> list_all (good R W H) as \<Longrightarrow> boxes_inv R W H (s\<lparr>e_anns := as\<rparr>)"
  by (simp add: boxes_inv_def)

lemma boxes_list: "boxes_inv R W H s \<Longrightarrow> list_all (good R W H) (e_anns s)"
  by (simp add: boxes_inv_def)

lemma boxes_push: "boxes_inv R W H s \<Longrightarrow> boxes_inv R W H (pushUndo s)"
  by (cases "e_undo s") (auto simp: boxes_inv_def pushUndo_def Let_def)

lemma boxes_undo: "boxes_inv R W H s \<Longrightarrow> boxes_inv R W H (ae_undo s)"
proof (cases "e_undo s" rule: rev_cases)
  case (snoc us u)
  assume "boxes_inv R W H s"
  then show ?thesis using snoc by (auto simp: boxes_inv_def ae_undo_def)
qed (simp add: ae_undo_def)

lemma boxes_map_selected:
  "boxes_inv R W H s \<Longrightarrow> (\<And>a. good R W H a \<Longrightarrow> good R W H (f a)) \<Longrightarrow> boxes_inv R W H (map_selected f s)"
proof (cases "nth_ann (e_selected s) (e_anns s)")
  case (Some a)
  assume inv: "boxes_inv R W H s" and f: "\<And>a. good R W H a \<Longrightarrow> good R W H (f a)"
  have "\<forall>b \<in> set ((e_anns s)[nat (e_selected s) := f a]). good R W H b"
    using boxes_list [OF inv] f nth_ann_set [OF Some] set_update_subset_insert by (fastforce simp: list_all_iff)
  then show ?thesis using Some by (simp add: map_selected_def list_all_iff boxes_anns [OF inv])
qed (simp add: map_selected_def ae_emit_def boxes_frame)

lemma boxes_down: "boxes_inv R W H s \<Longrightarrow> on_canvas W H p \<Longrightarrow> boxes_inv R W H (onMouseDown b shift p s)"
  by (auto simp: onMouseDown_def Let_def hideLabelPicker_def start_dragging_def start_drawing_def selectAnnotation_def ae_emit_def
      boxes_frame split: option.split intro!: boxes_drawStart boxes_picker boxes_push)

lemma boxes_cursor: "boxes_inv R W H s \<Longrightarrow> boxes_inv R W H (updateCursor shift p s)"
  by (simp add: updateCursor_def Let_def ae_emit_def boxes_frame split: option.split)

lemma boxes_resize: "boxes_inv R W H s \<Longrightarrow> 0 \<le> W \<Longrightarrow> 0 \<le> H \<Longrightarrow> boxes_inv R W H (doResize p s)"
proof -
  assume inv: "boxes_inv R W H s" and dim: "0 \<le> W" "0 \<le> H"
  have "e_canvasW s \<le> W" "e_canvasH s \<le> H" using inv by (simp_all add: boxes_inv_def)
  then show ?thesis using inv dim by (auto simp: doResize_def max_def min_def intro!: boxes_map_selected good_ops)
qed

lemma boxes_move:
  assumes "boxes_inv R W H s" "0 \<le> W" "0 \<le> H"
  shows "boxes_inv R W H (onMouseMove shift p s)"
proof -
  have "e_canvasW s \<le> W" "e_canvasH s \<le> H" using assms(1) by (simp_all add: boxes_inv_def)
  then show ?thesis using assms
    by (auto simp: onMouseMove_def Let_def boxes_frame boxes_cursor boxes_resize intro!: boxes_map_selected good_ops)
qed

lemma boxes_up:
  assumes "boxes_inv R W H s" "on_canvas W H p"
  shows "boxes_inv R W H (onMouseUp b p s)"
proof -
  have "box_in W H (getNormalizedRect (fst q) (snd q) (fst p) (snd p))" if "e_drawStart s = Some q" for q
    using assms that by (auto simp: boxes_inv_def box_in_def on_canvas_def getNormalizedRect_def min_def max_def)
  then show ?thesis using assms
    by (auto simp: onMouseUp_def finish_drawing_def finish_resizing_def showLabelPicker_def hideLabelPicker_def ae_emit_def Let_def boxes_frame
        split: option.split prod.split intro!: boxes_map_selected boxes_picker boxes_drawStart good_ops)
qed

lemma boxes_label: "boxes_inv R W H s \<Longrightarrow> box_in W H r \<Longrightarrow> boxes_inv R W H (use_label l r s)"
  by (auto simp: use_label_def trackLabelUsage_def hideLabelPicker_def addAnnotation_def Let_def boxes_frame
      intro!: boxes_picker boxes_anns boxes_push boxes_list good_new(1))

lemma boxes_entered: "boxes_inv R W H s \<Longrightarrow> box_in W H r \<Longrightarrow> boxes_inv R W H (label_entered t r s)"
  by (simp add: label_entered_def Let_def boxes_frame boxes_label)

lemma good_update: "list_all (good R W H) as \<Longrightarrow> good R W H a \<Longrightarrow> list_all (good R W H) (as[i := a])"
  by (auto simp: list_all_iff dest: set_update_subset_insert [THEN subsetD])

lemma list_all_take: "list_all P xs \<Longrightarrow> list_all P (take n xs)" "list_all P xs \<Longrightarrow> list_all P (drop n xs)"
  by (auto simp: list_all_iff dest: in_set_takeD in_set_dropD)

lemma boxes_edit:
  assumes "boxes_inv R W H s"
  shows "boxes_inv R W H (acceptAnnotation i s)" "boxes_inv R W H (acceptAllAnnotations s)"
    "boxes_inv R W H (relabelAnnotation i l s)" "boxes_inv R W H (deleteAnnotation i s)" "boxes_inv R W H (ae_keydown k s)"
proof -
  note p = boxes_push [OF assms] and l = boxes_list [OF boxes_push [OF assms]]
  have n: "good R W H a" if "nth_ann i (e_anns s) = Some a" for a
    using boxes_list [OF assms] nth_ann_set [OF that] by (simp add: list_all_iff)
  show "boxes_inv R W H (acceptAnnotation i s)"
    using p l n assms by (auto simp: acceptAnnotation_def Let_def boxes_frame intro!: boxes_anns good_update good_ops split: option.split)
  show "boxes_inv R W H (relabelAnnotation i l s)"
    using p l n assms by (auto simp: relabelAnnotation_def Let_def boxes_frame intro!: boxes_anns good_update good_ops split: option.split)
  show "boxes_inv R W H (acceptAllAnnotations s)"
    using p l assms by (auto simp: acceptAllAnnotations_def Let_def boxes_frame list_all_iff intro!: boxes_anns good_ops)
  have d: "boxes_inv R W H (deleteAnnotation j s)" for j
    using p l assms by (auto simp: deleteAnnotation_def Let_def boxes_frame ae_send_def ae_emit_def list_all_take
        intro!: boxes_anns split: option.split)
  then show "boxes_inv R W H (deleteAnnotation i s)" .
  show "boxes_inv R W H (ae_keydown k s)"
    using assms d boxes_undo by (cases k) (auto simp: hideLabelPicker_def boxes_frame intro!: boxes_picker boxes_drawStart)
qed

lemma boxes_reset: "boxes_inv R W H s \<Longrightarrow> boxes_inv R W H (resetAnnotationState s)"
  by (simp add: resetAnnotationState_def hideLabelPicker_def boxes_inv_def)

lemma boxes_discard: "boxes_inv R W H s \<Longrightarrow> boxes_inv R W H (snd (confirmDiscardIfDirty ok s))"
  by (simp add: confirmDiscardIfDirty_def boxes_frame)

lemma boxes_frames:
  assumes "boxes_inv R W H s"
  shows "boxes_inv R W H (switchFrame ok f s)" "boxes_inv R W H (ae_switchEvent ok eid fr s)" "boxes_inv R W H (ae_close ok s)"
    "boxes_inv R W H (image_onerror ok f s)"
proof -
  note d = boxes_discard [OF assms, of ok]
  have sw: "boxes_inv R W H (switchFrame ok g s)" for g
    using d by (auto simp: switchFrame_def loadFrameImage_def ae_send_def boxes_frame boxes_reset split: prod.split)
  then show "boxes_inv R W H (switchFrame ok f s)" .
  show "boxes_inv R W H (image_onerror ok f s)" using sw assms by (simp add: image_onerror_def split: option.split)
  show "boxes_inv R W H (ae_switchEvent ok eid fr s)"
    using d by (auto simp: ae_switchEvent_def loadEventData_def ae_send_def boxes_frame intro!: boxes_reset split: prod.split)
  show "boxes_inv R W H (ae_close ok s)"
    using d by (auto simp: ae_close_def boxes_frame hideLabelPicker_def intro!: boxes_reset boxes_picker split: prod.split)
qed

lemma boxes_replies:
  assumes "boxes_inv R W H s"
  shows "boxes_inv R W H (image_onload W H s)"
    and "set (received (SavedReply eid f saved)) \<subseteq> R \<Longrightarrow> boxes_inv R W H (saved_loaded saved s)"
    and "set (received (DetectReply eid f ds)) \<subseteq> R \<Longrightarrow> boxes_inv R W H (detected ds s)"
    and "set (received (EventReply eid fr d)) \<subseteq> R \<Longrightarrow> boxes_inv R W H (event_loaded fr d s)"
    and "boxes_inv R W H (ae_saved ls s)" "boxes_inv R W H (detect s)" "boxes_inv R W H (ae_save ok s)" "boxes_inv R W H (all_deleted l s)"
proof -
  note l = boxes_list [OF boxes_push [OF assms]]
  show "boxes_inv R W H (image_onload W H s)" using assms by (simp add: image_onload_def boxes_inv_def)
  show "boxes_inv R W H (saved_loaded saved s)" if "set (received (SavedReply eid f saved)) \<subseteq> R"
  proof -
    have got: "snd x \<in> R" if "x \<in> set saved" for x using that \<open>set (received (SavedReply eid f saved)) \<subseteq> R\<close> by auto
    have "list_all (good R W H) (map (\<lambda>(l, r). set_corners r \<lparr>a_label = l, a_conf = 0, a_x1 = 0, a_y1 = 0, a_x2 = 0, a_y2 = 0, a_pending = False\<rparr>) saved)"
      using got by (force simp: list_all_iff intro: good_new(2))
    then show ?thesis using assms by (simp add: saved_loaded_def boxes_frame boxes_anns)
  qed
  show "boxes_inv R W H (detected ds s)" if "set (received (DetectReply eid f ds)) \<subseteq> R"
  proof -
    have "list_all (good R W H) (map pending_of_detection ds)" using that by (auto simp: list_all_iff image_subset_iff good_new(2))
    then show ?thesis using assms l by (auto simp: detected_def Let_def boxes_frame list_all_iff intro!: boxes_anns boxes_push)
  qed
  show "boxes_inv R W H (event_loaded fr d s)" if "set (received (EventReply eid fr d)) \<subseteq> R"
  proof -
    have "list_all (good R W H) (map ann_of_detection es)" if "ev_detection d = Some es" for es
      using that \<open>set (received (EventReply eid fr d)) \<subseteq> R\<close> by (auto simp: list_all_iff image_subset_iff good_new(2))
    then show ?thesis using assms
      by (auto simp: event_loaded_def applyEventData_def loadDetectionData_def loadFrameImage_def ae_send_def Let_def boxes_frame
          intro!: boxes_anns split: option.split)
  qed
  show "boxes_inv R W H (ae_saved ls s)" using assms by (simp add: ae_saved_def boxes_frame split: option.split)
  show "boxes_inv R W H (detect s)" using assms by (simp add: detect_def ae_send_def boxes_frame split: option.split)
  show "boxes_inv R W H (ae_save ok s)" using assms by (simp add: ae_save_def ae_send_def ae_emit_def Let_def boxes_frame split: option.split)
  show "boxes_inv R W H (all_deleted l s)" using assms by (simp add: all_deleted_def boxes_inv_def)
qed

lemma boxes_exec:
  assumes inv: "boxes_inv R W H s" and ok: "event_ok W H ev" and got: "set (received ev) \<subseteq> R" and dim: "0 \<le> W" "0 \<le> H"
  shows "boxes_inv R W H (ae_exec ev s)"
proof -
  have r: "boxes_inv R W H (s\<lparr>e_requests := rs\<rparr>)" for rs using inv by (simp add: boxes_frame)
  have pick: "e_picker s = Some x \<Longrightarrow> box_in W H x" for x using inv by (simp add: boxes_inv_def)
  show ?thesis using ok got inv r pick dim
    by (cases ev) (auto simp: on_reply_def boxes_down boxes_move boxes_up boxes_edit boxes_frames boxes_label boxes_entered
        boxes_replies boxes_frame hideLabelPicker_def selectAnnotation_def simp del: ae_keydown.simps received.simps(1-3)
        intro: boxes_picker split: option.split)
qed

lemma boxes_run:
  assumes "boxes_inv R W H s" "list_all (event_ok W H) evs" "set (concat (map received evs)) \<subseteq> R" "0 \<le> W" "0 \<le> H"
  shows "boxes_inv R W H (fold ae_exec evs s)"
  using assms(1-3) by (induction evs arbitrary: s) (auto simp: boxes_exec assms(4,5))

lemma no_astray: "\<forall>r \<in> R. box_in W H r \<Longrightarrow> \<not> astray R W H a"
proof
  assume "astray R W H a" "\<forall>r \<in> R. box_in W H r"
  then show False by (induction rule: astray.induct) (auto simp: inside_def box_in_def corners_def)
qed


section \<open>Every edit can be undone\<close>

fun is_edit :: "ae_event \<Rightarrow> bool" where
  "is_edit (PickLabel l) = True"
| "is_edit (EnterLabel t) = True"
| "is_edit (DeleteBox i) = True"
| "is_edit (AcceptBox i) = True"
| "is_edit AcceptAll = True"
| "is_edit (Relabel i l) = True"
| "is_edit (DetectReply eid f ds) = True"
| "is_edit (Keydown k) = (k = KeyDelete)"
| "is_edit _ = False"

fun is_move :: "ae_event \<Rightarrow> bool" where
  "is_move (MouseMove shift p) = True"
| "is_move _ = False"

text \<open>One edit: a command, or a press of the mouse with its moves and its release.\<close>

fun gesture :: "ae_event list \<Rightarrow> bool" where
  "gesture [] = False"
| "gesture (MouseDown b shift p # evs) =
     (evs \<noteq> [] \<and> list_all is_move (butlast evs) \<and> (case last evs of MouseUp b' p' \<Rightarrow> True | _ \<Rightarrow> False))"
| "gesture (ev # evs) = (evs = [] \<and> is_edit ev)"

text \<open>Nothing has changed, or the state before is on top of the undo stack.\<close>

definition saved_state :: "editor \<Rightarrow> editor \<Rightarrow> bool" where
  "saved_state s t \<longleftrightarrow> e_undo t \<noteq> [] \<and> last (e_undo t) = (e_anns s, e_selected s)"

definition undoable :: "editor \<Rightarrow> editor \<Rightarrow> bool" where
  "undoable s t \<longleftrightarrow> e_anns t = e_anns s \<or> saved_state s t"

lemma saved_push [simp]: "saved_state s (pushUndo s)"
  by (cases "e_undo s") (auto simp: saved_state_def pushUndo_def Let_def ANNOTATION_MAX_UNDO_def)

lemma push_frame [simp]: "e_anns (pushUndo s) = e_anns s" "e_selected (pushUndo s) = e_selected s" "e_frame (pushUndo s) = e_frame s"
  "e_isDrawing (pushUndo s) = e_isDrawing s" "e_isDragging (pushUndo s) = e_isDragging s" "e_isResizing (pushUndo s) = e_isResizing s"
  by (simp_all add: pushUndo_def Let_def)

lemma saved_undo: "e_undo t = e_undo (pushUndo s) \<Longrightarrow> saved_state s t"
  using saved_push [of s] by (simp add: saved_state_def)

lemma undo_saved: "saved_state s t \<Longrightarrow> e_anns (ae_undo t) = e_anns s \<and> e_selected (ae_undo t) = e_selected s"
  by (simp add: saved_state_def ae_undo_def)

lemma undoable_delete: "undoable s (deleteAnnotation i s)"
proof (cases "i < 0 \<or> int (length (e_anns s)) \<le> i")
  case False
  then have "e_undo (deleteAnnotation i s) = e_undo (pushUndo s)"
    by (simp add: deleteAnnotation_def Let_def ae_send_def ae_emit_def split: option.split)
  then show ?thesis by (simp add: undoable_def saved_undo)
qed (simp add: undoable_def deleteAnnotation_def)

lemma undoable_label: "undoable s (use_label l r s)"
  by (auto simp: undoable_def use_label_def trackLabelUsage_def hideLabelPicker_def addAnnotation_def Let_def intro!: saved_undo)

lemma undoable_entered: "undoable s (label_entered t r s)"
  using undoable_label [of s] by (auto simp: label_entered_def Let_def undoable_def saved_state_def)

lemma push_picker: "pushUndo (s\<lparr>e_picker := x\<rparr>) = (pushUndo s)\<lparr>e_picker := x\<rparr>"
  by (simp add: pushUndo_def Let_def)

lemma push_requests: "pushUndo (s\<lparr>e_requests := rs\<rparr>) = (pushUndo s)\<lparr>e_requests := rs\<rparr>"
  by (simp add: pushUndo_def Let_def)

lemma undoable_edit: "is_edit ev \<Longrightarrow> undoable s (ae_exec ev s)"
proof (cases ev)
  case (DetectReply eid f ds)
  then show ?thesis
    by (auto simp: on_reply_def detected_def Let_def push_requests undoable_def intro!: saved_undo)
next
  case (Keydown k)
  assume "is_edit ev"
  then show ?thesis using Keydown undoable_delete by (auto simp: undoable_def)
next
  case (DeleteBox i)
  then show ?thesis using undoable_delete by simp
next
  case (PickLabel l)
  then show ?thesis using undoable_label by (auto simp: undoable_def split: option.split)
next
  case (EnterLabel l)
  then show ?thesis using undoable_entered by (auto simp: undoable_def split: option.split)
qed (auto simp: undoable_def acceptAnnotation_def acceptAllAnnotations_def relabelAnnotation_def Let_def intro!: saved_undo split: option.split)

text \<open>While the mouse is held down.\<close>

definition held :: "editor \<Rightarrow> editor \<Rightarrow> bool" where
  "held s t \<longleftrightarrow> saved_state s t \<or> e_anns t = e_anns s \<and> \<not> e_isDragging t \<and> \<not> e_isResizing t"

lemma selected_frame [simp]: "e_undo (map_selected f s) = e_undo s" "e_isDragging (map_selected f s) = e_isDragging s"
  "e_isResizing (map_selected f s) = e_isResizing s"
  by (simp_all add: map_selected_def ae_emit_def split: option.split)

lemma resize_frame [simp]: "e_undo (doResize p s) = e_undo s" by (simp add: doResize_def)

lemma cursor_frame [simp]: "e_undo (updateCursor shift p s) = e_undo s" "e_anns (updateCursor shift p s) = e_anns s"
  "e_isDragging (updateCursor shift p s) = e_isDragging s" "e_isResizing (updateCursor shift p s) = e_isResizing s"
  by (simp_all add: updateCursor_def Let_def ae_emit_def split: option.split)

lemma saved_frame: "e_undo u = e_undo t \<Longrightarrow> saved_state s u = saved_state s t"
  by (simp add: saved_state_def)

lemma held_down: "\<not> e_isDragging s \<Longrightarrow> \<not> e_isResizing s \<Longrightarrow> held s (onMouseDown b shift p s)"
  by (auto simp: held_def onMouseDown_def Let_def hideLabelPicker_def start_drawing_def start_dragging_def selectAnnotation_def
      ae_emit_def push_picker intro!: saved_undo split: option.split)

lemma held_move: "held s t \<Longrightarrow> held s (onMouseMove shift p t)"
  by (auto simp: held_def onMouseMove_def Let_def saved_state_def)

lemma held_up: "held s t \<Longrightarrow> undoable s (onMouseUp b p t)"
proof -
  assume h: "held s t"
  have "e_undo (onMouseUp b p t) = e_undo t"
    by (auto simp: onMouseUp_def finish_drawing_def finish_resizing_def showLabelPicker_def hideLabelPicker_def ae_emit_def Let_def
        split: option.split prod.split)
  moreover have "e_anns (onMouseUp b p t) = e_anns t" if "\<not> e_isResizing t"
    using that by (auto simp: onMouseUp_def finish_drawing_def showLabelPicker_def hideLabelPicker_def ae_emit_def Let_def
        split: option.split prod.split)
  ultimately show ?thesis using h by (auto simp: held_def undoable_def saved_state_def)
qed

lemma held_moves: "held s t \<Longrightarrow> list_all is_move evs \<Longrightarrow> held s (fold ae_exec evs t)"
proof (induction evs arbitrary: t)
  case (Cons ev evs)
  then show ?case using held_move by (cases ev) auto
qed simp

lemma gesture_undoable:
  assumes "gesture evs" "\<not> e_isDragging s" "\<not> e_isResizing s"
  shows "undoable s (fold ae_exec evs s)"
proof (cases "\<exists>ev. evs = [ev] \<and> is_edit ev")
  case True
  then show ?thesis using undoable_edit by auto
next
  case False
  then obtain b shift p rest where 2: "evs = MouseDown b shift p # rest"
    using assms(1) by (cases evs rule: gesture.cases) auto
  then obtain b' p' where "rest \<noteq> []" "last rest = MouseUp b' p'" and m: "list_all is_move (butlast rest)"
    using assms(1) by (cases "last rest") auto
  then have r: "rest = butlast rest @ [MouseUp b' p']" by (metis append_butlast_last_id)
  have "held s (fold ae_exec (butlast rest) (onMouseDown b shift p s))"
    using held_moves held_down assms(2,3) m by blast
  moreover have "fold ae_exec evs s = onMouseUp b' p' (fold ae_exec (butlast rest) (onMouseDown b shift p s))"
    by (subst 2, subst r) simp
  ultimately show ?thesis using held_up by simp
qed

text \<open>
  C13. Whatever one edit does to the boxes, undo takes back: after adding, deleting, accepting
  or relabelling a box, after a detection and after a whole drag or resize with the mouse,
  either the boxes are as they were or one undo restores them and the selection.
\<close>

theorem edits_can_be_undone:
  assumes "gesture evs" and "\<not> e_isDragging s" and "\<not> e_isResizing s"
    and "e_anns (fold ae_exec evs s) \<noteq> e_anns s"
  shows "e_anns (ae_undo (fold ae_exec evs s)) = e_anns s \<and> e_selected (ae_undo (fold ae_exec evs s)) = e_selected s"
  using gesture_undoable [OF assms(1-3)] assms(4) undo_saved by (simp add: undoable_def)

section \<open>What goes wrong\<close>

text \<open>
  Deleting a box moves the selection: when the selected box was not the last one it stays
  selected, unless it is the one deleted. But when the last box was selected the selection is
  corrected twice. Deleting another box then selects the wrong box or none, and deleting the
  selected box itself selects its neighbour, which the next press of the delete key removes.
\<close>

lemma deletion_moves_selection:
  assumes "0 \<le> i" and "i < int (length (e_anns s))" and "0 \<le> e_selected s" and "e_selected s < int (length (e_anns s))"
  shows "e_selected (deleteAnnotation i s) =
     (if e_selected s < int (length (e_anns s)) - 1
      then (if i < e_selected s then e_selected s - 1 else if i = e_selected s then -1 else e_selected s)
      else if i = e_selected s then e_selected s - 1 else if i = e_selected s - 1 then -1 else e_selected s - 2)"
  using assms by (auto simp: deleteAnnotation_def Let_def ae_send_def ae_emit_def split: option.split)

definition demo_box :: "string \<Rightarrow> rat \<Rightarrow> ann" where
  "demo_box l x = \<lparr>a_label = l, a_conf = 0, a_x1 = x, a_y1 = 0, a_x2 = x + 20, a_y2 = 20, a_pending = False\<rparr>"

definition demo_editor :: editor where
  "demo_editor = (new_editor ''7'')\<lparr>e_canvasW := 640, e_canvasH := 480, e_frame := Some ''1'', e_hasDetect := True,
     e_anns := [demo_box ''cat'' 0, demo_box ''dog'' 100, demo_box ''car'' 200], e_classLabels := [''cat'', ''dog'', ''car'']\<rparr>"

definition demo_detection :: detection where
  "demo_detection = \<lparr>o_label = Some ''cat'', o_name = None, o_class = None, o_confidence = 1 / 2, o_score = 0,
     o_bbox = Some (10, 10, 60, 60), o_corners = None\<rparr>"

definition misfiled :: "ae_event list" where
  "misfiled = [ToEvent True ''8'' (Some ''1''), EventReply ''8'' (Some ''1'')
       \<lparr>ev_total = 9, ev_width = 640, ev_height = 480, ev_hasDetect = True, ev_default = [], ev_detection = None\<rparr>,
     ToFrame True ''2'', SavedReply ''8'' ''1'' [(''cat'', (0, 0, 50, 50))], SaveClicked True]"

definition dangling :: "ae_event list" where
  "dangling = [DetectClicked, DetectReply ''7'' ''1'' [demo_detection, demo_detection], SelectItem 4, DetectClicked,
     DetectReply ''7'' ''1'' [demo_detection], MouseDown 0 False (5, 5)]"

definition lost_edit :: "ae_event list" where
  "lost_edit = [SaveClicked True, Relabel 0 ''dog'', SaveReply ''7'' ''1'' None, ToFrame False ''2'']"

text \<open>The frames and labels that were posted.\<close>

fun posted :: "ae_entry list \<Rightarrow> (string \<times> string list) list" where
  "posted [] = []"
| "posted (Posted eid f as # xs) = (f, map a_label as) # posted xs"
| "posted (_ # xs) = posted xs"

lemma misfiled_log: "posted (e_log (fold ae_exec misfiled demo_editor)) = [(''2'', [''cat''])]"
  by code_simp

lemma dangling_log: "e_log (fold ae_exec dangling demo_editor) = [AeTypeError]"
  by code_simp

lemma lost_edit_state:
  "posted (e_log (fold ae_exec lost_edit demo_editor)) = [(''1'', [''cat'', ''dog'', ''car''])]"
  "map a_label (e_anns (fold ae_exec (butlast lost_edit) demo_editor)) = [''dog'', ''dog'', ''car'']"
  "e_anns (fold ae_exec lost_edit demo_editor) = []"
  "e_undo (fold ae_exec lost_edit demo_editor) = []"
  by code_simp+

text \<open>
  Replies are not matched with what they were asked for. The saved boxes of a frame that
  arrive after the user has moved on to another frame are put on that frame and saved under
  it. A detection that leaves fewer boxes keeps the old selection, and the next press of the
  mouse fails. And the reply to a save marks as saved what was changed after it was sent: the
  change is then thrown away without a question (the answer would have been no) and cannot be
  undone.
\<close>

lemma late_replies_misfile:
  "posted (e_log (fold ae_exec misfiled demo_editor)) = [(''2'', [''cat''])]
   \<and> e_log (fold ae_exec dangling demo_editor) = [AeTypeError]
   \<and> posted (e_log (fold ae_exec lost_edit demo_editor)) = [(''1'', [''cat'', ''dog'', ''car''])]
   \<and> map a_label (e_anns (fold ae_exec (butlast lost_edit) demo_editor)) = [''dog'', ''dog'', ''car'']
   \<and> e_anns (fold ae_exec lost_edit demo_editor) = [] \<and> e_undo (fold ae_exec lost_edit demo_editor) = []"
  by (simp only: misfiled_log dangling_log lost_edit_state simp_thms)

section \<open>Lists shown\<close>

text \<open>The labels offered are all the labels, the recently used ones first.\<close>

lemma sorted_labels: "mset (getSortedLabels s) = mset (e_classLabels s)"
  "sorted (map (recency (e_recentLabels s)) (getSortedLabels s))"
  by (simp_all add: getSortedLabels_def)

lemma used_label_first: "recency (e_recentLabels (trackLabelUsage l s)) l = 0"
  by (simp add: trackLabelUsage_def recency_def)

lemma recent_distinct: "distinct (e_recentLabels s) \<Longrightarrow> distinct (e_recentLabels (trackLabelUsage l s))"
  by (simp add: trackLabelUsage_def)

text \<open>The box under the mouse that was drawn last.\<close>

lemma hitTestBoxes_top:
  assumes "hitTestBoxes p as = i" "0 \<le> i"
  shows "nat i < length as \<and> hit_box p (as ! nat i) \<and> (\<forall>j < length as. nat i < j \<longrightarrow> \<not> hit_box p (as ! j))"
proof -
  let ?xs = "filter (\<lambda>i. hit_box p (as ! i)) (rev [0..<length as])"
  obtain k ks where x: "?xs = k # ks" "nat i = k" using assms by (cases ?xs) (auto simp: hitTestBoxes_def)
  have "k \<in> set ?xs" using x by simp
  moreover have "sorted_wrt (>) ?xs" by (simp add: sorted_wrt_filter sorted_wrt_rev)
  then have "\<forall>j \<in> set ks. j < k" using x by simp
  then have "\<forall>j \<in> set ?xs. j \<le> k" using x(1) by auto
  ultimately show ?thesis using x(2) by (auto simp: not_less [symmetric])
qed

text \<open>The pages offered: in order, with the first, the last and the current one.\<close>

lemma map_filter_Some [simp]: "List.map_filter id (map Some xs) = xs"
  by (induction xs) (simp_all add: List.map_filter_def)

lemma map_filter_append [simp]: "List.map_filter f (xs @ ys) = List.map_filter f xs @ List.map_filter f ys"
  by (simp add: List.map_filter_def)

lemma map_filter_id [simp]: "List.map_filter id (Some x # xs) = x # List.map_filter id xs"
  "List.map_filter id (None # xs) = List.map_filter id xs" "List.map_filter id [] = []"
  by (simp_all add: List.map_filter_def)

lemma buildPageNumbers_sorted: "sorted_wrt (<) (List.map_filter id (buildPageNumbers c n))"
  by (auto simp: buildPageNumbers_def Let_def sorted_wrt_append strict_sorted_iff)

lemma buildPageNumbers_ends:
  assumes "1 \<le> c" "c \<le> n"
  shows "{Some 1, Some c, Some n} \<subseteq> set (buildPageNumbers c n)"
  using assms by (auto simp: buildPageNumbers_def Let_def image_iff)

section \<open>Witnesses\<close>

definition demo_drag :: "ae_event list" where
  "demo_drag = [MouseDown 0 False (110, 10), MouseMove False (150, 40), MouseUp 0 (150, 40)]"

lemma demo_drag_facts:
  "gesture demo_drag" "map a_x1 (e_anns (fold ae_exec demo_drag demo_editor)) = [0, 140, 200]"
  by code_simp+

lemma demo_editor_facts: "\<not> e_isDragging demo_editor" "\<not> e_isResizing demo_editor" "map a_x1 (e_anns demo_editor) = [0, 100, 200]"
  by code_simp+

text \<open>A saved box that sticks out of the frame, and one that is drawn beside it.\<close>

definition demo_boxes :: "ae_event list" where
  "demo_boxes = [ToEvent True ''8'' (Some ''1''), EventReply ''8'' (Some ''1'')
       \<lparr>ev_total = 9, ev_width = 640, ev_height = 480, ev_hasDetect = True, ev_default = [], ev_detection = None\<rparr>,
     ImageLoaded ''1'' 640 480, SavedReply ''8'' ''1'' [(''cat'', (600, 10, 700, 50))],
     MouseDown 0 False (100, 100), MouseMove False (200, 200), MouseUp 0 (200, 200), EnterLabel ''dog'']"

lemma demo_boxes_facts:
  "list_all (event_ok 640 480) demo_boxes" "concat (map received demo_boxes) = [(600, 10, 700, 50)]"
  "map corners (e_anns (fold ae_exec demo_boxes (new_editor ''7''))) = [(600, 10, 700, 50), (100, 100, 200, 200)]"
  by code_simp+


theorem edits_can_be_undone_witness:
  "map a_x1 (e_anns (fold ae_exec demo_drag demo_editor)) = [0, 140, 200]
   \<and> map a_x1 (e_anns (ae_undo (fold ae_exec demo_drag demo_editor))) = [0, 100, 200]"
proof -
  have "e_anns (fold ae_exec demo_drag demo_editor) \<noteq> e_anns demo_editor"
    using demo_drag_facts(2) demo_editor_facts(3) by auto
  then show ?thesis
    using edits_can_be_undone [OF demo_drag_facts(1) demo_editor_facts(1,2)] demo_drag_facts(2) demo_editor_facts(3) by simp
qed

end
