(* ===== verification/Monitor_Links.thy ===== *)
theory Monitor_Links
  imports Js_Text
begin

text \<open>
  The editor of linked monitors (\<^verbatim>\<open>web/js/MonitorLinkExpression.js\<close>): an expression over
  monitors and zones is cut into tokens, shown as a row of selects and read back from them.
  The parser at the end of the file is called by nothing and reads variables that nothing
  declares; it is not modelled.
\<close>

section \<open>Tokens\<close>

text \<open>Type and value.\<close>

type_synonym token = "string \<times> string"

definition js_substring :: "string \<Rightarrow> nat \<Rightarrow> nat \<Rightarrow> string" where
  "js_substring s a b = take (max a b - min a b) (drop (min a b) s)"

text \<open>\<^verbatim>\<open>s.at(n)\<close>: a negative index counts from the end; \<open>None\<close> is undefined.\<close>

definition js_at :: "string \<Rightarrow> int \<Rightarrow> char option" where
  "js_at s n = (let m = (if n < 0 then n + int (length s) else n)
     in if 0 \<le> m \<and> nat m < length s then Some (s ! nat m) else None)"

definition is_op :: "char \<Rightarrow> bool" where
  "is_op c \<longleftrightarrow> c = CHR ''&'' \<or> c = CHR ''|'' \<or> c = CHR '',''"

definition is_paren :: "char \<Rightarrow> bool" where
  "is_paren c \<longleftrightarrow> c = CHR ''('' \<or> c = CHR '')''"

text \<open>
  The search for repeats of a parenthesis compares \<^verbatim>\<open>expr.at(i)\<close>, where \<open>i\<close> is not a variable of
  the function: \<open>gi\<close> is the global of that name, when some script of the page has left one.
  \<open>None\<close> as the answer is a \<^verbatim>\<open>ReferenceError\<close>.
\<close>

definition third_index :: "int option \<Rightarrow> string \<Rightarrow> char \<Rightarrow> nat \<Rightarrow> nat option" where
  "third_index gi s c second =
     (if Suc second < length s
      then (case gi of None \<Rightarrow> None
            | Some i \<Rightarrow> Some (if js_at s i = Some c then length s else Suc second))
      else Some (Suc second))"

definition link_between :: "string \<Rightarrow> nat \<Rightarrow> nat \<Rightarrow> token list" where
  "link_between s first second = (if first \<noteq> second then [(''link'', js_substring s first second)] else [])"

function token_scan :: "int option \<Rightarrow> string \<Rightarrow> nat \<Rightarrow> nat \<Rightarrow> token list \<Rightarrow> token list option" where
  "token_scan gi s first second ts =
     (if second < length s
      then (let c = s ! second
            in if is_op c
               then token_scan gi s (Suc second) (Suc second) (ts @ link_between s first second @ [([c], [c])])
               else if is_paren c
               then (case third_index gi s c second of
                       None \<Rightarrow> None
                     | Some third \<Rightarrow> token_scan gi s third (Suc second)
                         (ts @ link_between s first second @ [([c], js_substring s second third)]))
               else token_scan gi s first (Suc second) ts)
      else Some (ts @ (if second \<noteq> 0 then link_between s first second else [])))"
  by pat_completeness auto
termination by (relation "measure (\<lambda>(gi, s, first, second, ts). length s - second)") auto

declare token_scan.simps [simp del]

definition tokenize :: "int option \<Rightarrow> string \<Rightarrow> token list option" where
  "tokenize gi s = token_scan gi s 0 0 []"

definition count_terms :: "token list \<Rightarrow> nat" where
  "count_terms ts = length (filter (\<lambda>t. fst t = ''link'') ts)"

section \<open>The selects\<close>

definition is_bracket :: "token \<Rightarrow> bool" where
  "is_bracket t \<longleftrightarrow> fst t = ''('' \<or> fst t = '')''"

text \<open>
  The loop that puts a choice of parentheses on either side of every link; the last token is
  not looked at. \<open>prev\<close> is the token before. The number is that of the links met.
\<close>

fun pad_links :: "token \<Rightarrow> token list \<Rightarrow> token list \<times> nat" where
  "pad_links prev (t # u # ts) =
     (if fst t = ''link''
      then (let before = (if is_bracket prev then [] else [(''()'', [])]);
                after = (if is_bracket u then [] else [(''()'', [])]);
                r = pad_links (if after = [] then t else (''()'', [])) (u # ts)
            in (before @ t # after @ fst r, Suc (snd r)))
      else (let r = pad_links t (u # ts) in (t # fst r, snd r)))"
| "pad_links prev ts = (ts, 0)"

definition with_brackets :: "token list \<Rightarrow> token list \<times> int" where
  "with_brackets ts =
     (if 3 < length ts
      then (let t1 = (if fst (hd ts) \<noteq> ''('' then (''('', []) # ts else ts);
                t2 = (if fst (last t1) \<noteq> '')'' then t1 @ [('')'', [])] else t1);
                r = pad_links (hd t2) (tl t2)
            in (hd t2 # fst r, int (snd r) - 1))
      else (ts, -1))"

text \<open>
  The value of a select after \<^verbatim>\<open>select.val(v)\<close>: the option, or \<^verbatim>\<open>null\<close> when there is no such
  option (then none is selected).
\<close>

definition select_val :: "string list \<Rightarrow> string \<Rightarrow> string option" where
  "select_val options v = (if v \<in> set options then Some v else None)"

text \<open>The monitors and zones a link may name; \<open>mid\<close> is the monitor that is edited, 0 a new one.\<close>

definition link_options :: "nat \<Rightarrow> nat list \<Rightarrow> (nat \<times> nat) list \<Rightarrow> string list" where
  "link_options mid monitors zones = concat (map (\<lambda>m.
     if mid \<noteq> 0 \<and> m = mid then []
     else nat_to_str m # map (\<lambda>z. nat_to_str m @ '':'' @ nat_to_str (fst z)) (filter (\<lambda>z. snd z = m) zones)) monitors)"

definition repeats :: "char \<Rightarrow> int \<Rightarrow> string list" where
  "repeats c b = map (\<lambda>i. replicate (nat i) c) [1..b]"

definition token_select :: "string list \<Rightarrow> int \<Rightarrow> token \<Rightarrow> string option" where
  "token_select links b t =
     (if fst t = ''link'' then select_val links (snd t)
      else if is_bracket t then select_val (''0'' # repeats (hd (fst t)) b) (snd t)
      else if fst t = ''()'' then select_val ([] # repeats (CHR ''('') b @ repeats (CHR '')'') b) (snd t)
      else select_val [''|'', ''&''] (fst t))"

definition expr_to_ui :: "string list \<Rightarrow> token list \<Rightarrow> string option list" where
  "expr_to_ui links ts = (case with_brackets ts of (us, b) \<Rightarrow> map (token_select links b) us)"

text \<open>A select without a value adds \<^verbatim>\<open>null\<close> to the string; the line break and the last select add nothing.\<close>

definition ui_to_expr :: "string option list \<Rightarrow> string" where
  "ui_to_expr vs = concat (map (\<lambda>v. case v of Some x \<Rightarrow> x | None \<Rightarrow> ''null'') vs)"

text \<open>Choosing an entry of the last select.\<close>

definition add_to_expr :: "string \<Rightarrow> string \<Rightarrow> string" where
  "add_to_expr oldval v = (if oldval = [] then v else oldval @ ''|'' @ v)"

text \<open>Changing any select: the expression is cut, shown and read back. \<open>None\<close> is a \<^verbatim>\<open>ReferenceError\<close>.\<close>

definition update_expr :: "int option \<Rightarrow> string list \<Rightarrow> string \<Rightarrow> string option" where
  "update_expr gi links s = map_option (\<lambda>ts. ui_to_expr (expr_to_ui links ts)) (tokenize gi s)"

section \<open>Cutting\<close>

text \<open>No parenthesis is taken for a repeat of another.\<close>

definition plain_global :: "int option \<Rightarrow> string \<Rightarrow> bool" where
  "plain_global gi s \<longleftrightarrow> (case gi of None \<Rightarrow> True | Some i \<Rightarrow> (case js_at s i of None \<Rightarrow> True | Some c \<Rightarrow> \<not> is_paren c))"

lemma third_plain: "plain_global gi s \<Longrightarrow> is_paren c \<Longrightarrow> third_index gi s c i = Some k \<Longrightarrow> k = Suc i"
  by (auto simp: third_index_def plain_global_def split: if_splits option.splits)

lemma substring_take: "a \<le> b \<Longrightarrow> take a s @ js_substring s a b = take b s"
  by (simp add: js_substring_def take_add [symmetric])

lemma substring_one: "i < length s \<Longrightarrow> js_substring s i (Suc i) = [s ! i]"
  by (simp add: js_substring_def take_Suc_conv_app_nth)

lemma link_values: "a \<le> b \<Longrightarrow> concat (map snd (link_between s a b)) = js_substring s a b"
  by (simp add: link_between_def js_substring_def)

definition tok_shape :: "token \<Rightarrow> bool" where
  "tok_shape t \<longleftrightarrow> fst t = ''link'' \<or> (\<exists>c. (is_op c \<or> is_paren c) \<and> t = ([c], [c]))"

lemma shape_char: "tok_shape ([c], [c]) = (is_op c \<or> is_paren c)"
  by (simp add: tok_shape_def)

lemma scan_values:
  assumes "plain_global gi s" "first \<le> second" "second \<le> length s" "concat (map snd ts) = take first s" "list_all tok_shape ts"
    "token_scan gi s first second ts = Some us"
  shows "concat (map snd us) = s \<and> list_all tok_shape us"
  using assms
proof (induction gi s first second ts rule: token_scan.induct)
  case (1 gi s first second ts)
  have link: "concat (map snd (ts @ link_between s first second)) = take second s" "list_all tok_shape (link_between s first second)"
    using 1(5,7) substring_take [of first second s] by (simp_all add: link_values) (simp add: link_between_def tok_shape_def)
  show ?case
  proof (cases "second < length s")
    case True
    let ?c = "s ! second"
    have step: "concat (map snd (ts @ link_between s first second @ [([?c], [?c])])) = take (Suc second) s"
      using link True by (simp add: take_Suc_conv_app_nth)
    show ?thesis
    proof (cases "is_op ?c")
      case op: True
      then show ?thesis
        using 1(1) [OF True refl op] 1(4,8,9) step link True
        by (simp add: token_scan.simps [of gi s first] Let_def shape_char)
    next
      case no: False
      show ?thesis
      proof (cases "is_paren ?c")
        case par: True
        then obtain k where k: "third_index gi s ?c second = Some k"
          using 1(9) True no by (auto simp: token_scan.simps [of gi s first] Let_def split: option.splits)
        have "k = Suc second" by (rule third_plain [OF 1(4) par k])
        then show ?thesis
          using 1(2) [OF True refl no par k] 1(4,8,9) step link True k no par substring_one [OF True]
          by (simp add: token_scan.simps [of gi s first] Let_def shape_char)
      next
        case False
        then show ?thesis using 1(3) [OF True refl no False] 1(4-9) True no
          by (simp add: token_scan.simps [of gi s first] Let_def)
      qed
    qed
  next
    case False
    then have e: "second = length s" using 1(6) by simp
    have "us = ts @ (if second \<noteq> 0 then link_between s first second else [])"
      using 1(9) False by (simp add: token_scan.simps [of gi s first second])
    then show ?thesis using link 1(5,7,8) e by auto
  qed
qed

text \<open>A parenthesis before the end stops the editor when nothing has left a global \<open>i\<close>.\<close>

lemma scan_fails:
  "i < length s - 1 \<Longrightarrow> second \<le> i \<Longrightarrow> is_paren (s ! i) \<Longrightarrow> token_scan None s first second ts = None"
proof (induction "None :: int option" s first second ts rule: token_scan.induct)
  case (1 s first second ts)
  have lt: "second < length s" using 1(4,5) by simp
  let ?c = "s ! second"
  have next_i: "\<not> is_paren ?c \<Longrightarrow> Suc second \<le> i" using 1(5,6) by (cases "second = i") auto
  show ?case
  proof (cases "is_op ?c")
    case op: True
    then have "\<not> is_paren ?c" by (auto simp: is_op_def is_paren_def)
    then show ?thesis using 1(1) [OF lt refl op 1(4) next_i 1(6)] lt op by (simp add: token_scan.simps [of _ s first] Let_def)
  next
    case no: False
    show ?thesis
    proof (cases "is_paren ?c")
      case True
      have "Suc second < length s" using 1(4,5) by simp
      then have "third_index None s ?c second = None" by (simp add: third_index_def)
      then show ?thesis using True lt no by (simp add: token_scan.simps [of _ s first] Let_def)
    next
      case False
      then show ?thesis using 1(3) [OF lt refl no False 1(4) next_i 1(6)] lt no
        by (simp add: token_scan.simps [of _ s first] Let_def)
    qed
  qed
qed

section \<open>Showing and reading back\<close>

lemma select_known [simp]: "v \<in> set options \<Longrightarrow> select_val options v = Some v"
  by (simp add: select_val_def)

lemma repeats_one: "1 \<le> b \<Longrightarrow> [c] \<in> set (repeats c b)"
  by (auto simp: repeats_def image_iff intro!: bexI [of _ 1])

lemma repeats_nonempty [simp]: "[] \<notin> set (repeats c b)"
  by (auto simp: repeats_def)

text \<open>A token the selects can show: a known link, a single parenthesis, and, or.\<close>

definition showable :: "string list \<Rightarrow> token \<Rightarrow> bool" where
  "showable links t \<longleftrightarrow> tok_shape t \<and> (fst t = ''link'' \<longrightarrow> snd t \<in> set links) \<and> fst t \<noteq> '',''"

lemma shown:
  assumes "showable links t" "1 \<le> b \<or> \<not> is_bracket t"
  shows "token_select links b t = Some (snd t)"
proof (cases "fst t = ''link''")
  case True
  then show ?thesis using assms by (simp add: showable_def token_select_def)
next
  case False
  then obtain c where c: "t = ([c], [c])" "is_op c \<or> is_paren c" using assms by (auto simp: showable_def tok_shape_def)
  show ?thesis
  proof (cases "is_paren c")
    case True
    then have "is_bracket t" using c by (auto simp: is_bracket_def is_paren_def)
    then show ?thesis using assms(2) c repeats_one [of b c] by (simp add: token_select_def)
  next
    case no: False
    then have "\<not> is_bracket t" using c by (auto simp: is_bracket_def is_paren_def)
    moreover have "c = CHR ''&'' \<or> c = CHR ''|''" using c no assms(1) by (auto simp: is_op_def showable_def)
    ultimately show ?thesis using c(1) by (auto simp: token_select_def)
  qed
qed

lemma shown_both [simp]: "token_select links b (''()'', []) = Some []"
  by (simp add: token_select_def is_bracket_def select_val_def)

lemma pad_values: "f (''()'', []) = [] \<Longrightarrow> concat (map f (fst (pad_links prev ts))) = concat (map f ts)"
  by (induction prev ts rule: pad_links.induct) (simp_all add: Let_def)

lemma pad_count: "ts \<noteq> [] \<Longrightarrow> fst (last ts) \<noteq> ''link'' \<Longrightarrow> snd (pad_links prev ts) = count_terms ts"
  by (induction prev ts rule: pad_links.induct) (auto simp: Let_def count_terms_def)

lemma count_append: "count_terms (ts @ us) = count_terms ts + count_terms us"
  by (simp add: count_terms_def)

text \<open>
  What is read back from more than three tokens: the expression, with \<^verbatim>\<open>null\<close> for each end
  where the editor had to add a parenthesis.
\<close>

definition null_unless :: "bool \<Rightarrow> string" where
  "null_unless b = (if b then [] else ''null'')"

lemma expr_read_back:
  assumes ok: "list_all (showable links) ts" and len: "3 < length ts" and two: "2 \<le> count_terms ts"
  shows "ui_to_expr (expr_to_ui links ts)
     = null_unless (fst (hd ts) = ''('') @ concat (map snd ts) @ null_unless (fst (last ts) = '')'')"
proof -
  have ts: "ts \<noteq> []" using len by auto
  define pre post where "pre = (if fst (hd ts) \<noteq> ''('' then [(''('', [])] else [] :: token list)"
    and "post = (if fst (last ts) \<noteq> '')'' then [('')'', [])] else [] :: token list)"
  let ?ts = "pre @ ts @ post"
  let ?r = "pad_links (hd ?ts) (tl ?ts)" and ?b = "int (snd (pad_links (hd (pre @ ts @ post)) (tl (pre @ ts @ post)))) - 1"
  have wb: "with_brackets ts = (hd ?ts # fst ?r, ?b)"
    using ts len by (auto simp: with_brackets_def Let_def pre_def post_def)
  have tl: "tl ?ts \<noteq> []" using len by (cases ts; cases "tl ts") (auto simp: pre_def)
  have "last (tl ?ts) = last ?ts" using tl by (simp add: last_tl)
  moreover have "fst (last ?ts) = '')''" using ts by (auto simp: post_def)
  ultimately have last: "fst (last (tl ?ts)) \<noteq> ''link''" by simp
  have hd: "fst (hd ?ts) = ''(''" using ts by (auto simp: pre_def)
  have "count_terms ?ts = count_terms ts" by (simp add: count_append) (simp add: pre_def post_def count_terms_def)
  moreover have "count_terms (tl ?ts) = count_terms ?ts"
    using hd ts by (cases ?ts) (auto simp: count_terms_def)
  ultimately have b: "1 \<le> ?b" using pad_count [OF tl last, of "hd ?ts"] two by simp
  define f where "f t = (case token_select links ?b t of Some x \<Rightarrow> x | None \<Rightarrow> ''null'')" for t
  have "ui_to_expr (expr_to_ui links ts) = f (hd ?ts) @ concat (map f (fst ?r))"
    unfolding f_def [abs_def] by (simp add: expr_to_ui_def wb ui_to_expr_def comp_def)
  also have "\<dots> = f (hd ?ts) @ concat (map f (tl ?ts))" by (simp add: pad_values f_def)
  also have "\<dots> = concat (map f ?ts)" using ts by (cases ?ts) auto
  also have "\<dots> = concat (map f pre) @ concat (map snd ts) @ concat (map f post)"
  proof -
    have "f t = snd t" if "t \<in> set ts" for t using shown ok b that by (simp add: f_def list_all_iff)
    then have "concat (map f ts) = concat (map snd ts)" by (intro arg_cong [where f = concat] map_cong) simp_all
    then show ?thesis by simp
  qed
  also have "concat (map f pre) = null_unless (fst (hd ts) = ''('')"
    by (simp add: pre_def f_def null_unless_def token_select_def is_bracket_def select_val_def)
  also have "concat (map f post) = null_unless (fst (last ts) = '')'')"
    by (simp add: post_def f_def null_unless_def token_select_def is_bracket_def select_val_def)
  finally show ?thesis .
qed

lemma short_read_back:
  assumes "list_all (showable links) ts" and "length ts \<le> 3" and "\<forall>t \<in> set ts. \<not> is_bracket t"
  shows "ui_to_expr (expr_to_ui links ts) = concat (map snd ts)"
proof -
  have "token_select links (-1) t = Some (snd t)" if "t \<in> set ts" for t
    using assms that shown by (simp add: list_all_iff)
  then have "concat (map (\<lambda>t. case token_select links (-1) t of Some x \<Rightarrow> x | None \<Rightarrow> ''null'') ts) = concat (map snd ts)"
    by (intro arg_cong [where f = concat] map_cong) simp_all
  then show ?thesis using assms(2) by (simp add: expr_to_ui_def with_brackets_def ui_to_expr_def comp_def)
qed

text \<open>
  Changing a select rewrites the expression from the selects. With at most three tokens
  (two links and what joins them) that gives the expression back. With more, every end at
  which the expression has no parenthesis of its own gains the word \<^verbatim>\<open>null\<close>, because the
  select added there has no option for the empty choice: only expressions in outer
  parentheses survive. (No parenthesis is mistaken for a repeat, the links are on offer,
  there are two of them at least and no comma.)
\<close>

lemma links_read_back:
  assumes "tokenize gi s = Some ts" and "plain_global gi s" and "list_all (showable links) ts"
    and "if length ts \<le> 3 then \<forall>t \<in> set ts. \<not> is_bracket t else 2 \<le> count_terms ts"
  shows "update_expr gi links s = Some (if length ts \<le> 3 then s
    else null_unless (fst (hd ts) = ''('') @ s @ null_unless (fst (last ts) = '')''))"
proof -
  have "concat (map snd ts) = s"
    using scan_values [OF assms(2), of 0 0 "[]" ts] assms(1) by (simp add: tokenize_def)
  then show ?thesis using assms expr_read_back short_read_back by (simp add: update_expr_def)
qed

text \<open>
  An expression with a parenthesis anywhere but at its end cannot be shown at all when no
  script has left a global \<open>i\<close>: the editor stops with an error.
\<close>

lemma parenthesis_stops_editor:
  assumes "k < length s - 1" and "is_paren (s ! k)"
  shows "tokenize None s = None \<and> update_expr None links s = None"
  using scan_fails [of k s 0] assms by (simp add: tokenize_def update_expr_def)

section \<open>Witnesses\<close>

end
