(* ===== verification/Review_Frames.thy ===== *)
theory Review_Frames
  imports Js_Text
begin

text \<open>
  The recorded events and frames behind the montage review
  (\<^verbatim>\<open>web/skins/classic/views/js/montagereview.js\<close>): receiving them from the API, and finding the
  event and the frame that were recorded at a time. Numbers that the API sends are numbers, times are
  seconds since the epoch. An array or object with integer keys is the list of its entries
  in ascending order of the keys, which is how \<^verbatim>\<open>Object.keys\<close> and \<^verbatim>\<open>for ... in\<close> enumerate it.
\<close>

section \<open>Integer-keyed objects\<close>

fun arr_put :: "nat \<Rightarrow> 'a \<Rightarrow> (nat \<times> 'a) list \<Rightarrow> (nat \<times> 'a) list" where
  "arr_put k v [] = [(k, v)]"
| "arr_put k v ((j, w) # xs) =
     (if k < j then (k, v) # (j, w) # xs else if k = j then (k, v) # xs else (j, w) # arr_put k v xs)"

definition arr_ok :: "(nat \<times> 'a) list \<Rightarrow> bool" where
  "arr_ok xs \<longleftrightarrow> sorted_wrt (<) (map fst xs)"

definition arr_upd :: "nat \<Rightarrow> ('a \<Rightarrow> 'a) \<Rightarrow> (nat \<times> 'a) list \<Rightarrow> (nat \<times> 'a) list" where
  "arr_upd k f xs = map (\<lambda>(j, w). (j, if j = k then f w else w)) xs"

lemma set_arr_put_keys: "fst ` set (arr_put k v xs) = insert k (fst ` set xs)"
  by (induction k v xs rule: arr_put.induct) auto

lemma arr_ok_put [simp, intro]: "arr_ok xs \<Longrightarrow> arr_ok (arr_put k v xs)"
  by (induction k v xs rule: arr_put.induct) (auto simp: arr_ok_def set_arr_put_keys simp flip: image_iff)

lemma arr_ok_upd [simp]: "arr_ok (arr_upd k f xs) = arr_ok xs"
proof -
  have "map fst (arr_upd k f xs) = map fst xs" by (auto simp: arr_upd_def)
  then show ?thesis by (simp add: arr_ok_def)
qed

lemma map_of_arr_put: "arr_ok xs \<Longrightarrow> map_of (arr_put k v xs) = (map_of xs)(k \<mapsto> v)"
proof (induction k v xs rule: arr_put.induct)
  case (2 k v j w xs)
  then have "arr_ok xs" by (auto simp: arr_ok_def)
  with 2 show ?case by (auto simp: fun_eq_iff)
qed auto

lemma map_of_arr_upd: "map_of (arr_upd k f xs) i = (if i = k then map_option f (map_of xs i) else map_of xs i)"
  by (induction xs) (auto simp: arr_upd_def)

lemma arr_upd_absent: "map_of xs k = None \<Longrightarrow> arr_upd k f xs = xs"
  by (induction xs) (auto simp: arr_upd_def split: if_splits)

lemma fst_arr_upd [simp]: "map fst (arr_upd k f xs) = map fst xs"
  by (auto simp: arr_upd_def)

section \<open>Events and frames\<close>

record frame =
  f_id :: js_num
  f_event :: nat
  f_time :: rat
  f_bulk :: bool
  f_score :: rat
  f_prev :: "nat option"
  f_next :: "nat option"
  f_nextTime :: "rat option"

record zm_event =
  e_id :: nat
  e_monitor :: nat
  e_start :: rat
  e_end :: "rat option"
  e_closed :: bool
  e_frames :: "(nat \<times> frame) list option"
  e_newest :: "rat option"
  e_refreshed :: "nat option"

definition falsy_num :: "rat option \<Rightarrow> bool" where
  "falsy_num x \<longleftrightarrow> x = None \<or> x = Some 0"

definition eventEndTimeSecs :: "rat \<Rightarrow> zm_event \<Rightarrow> rat" where
  "eventEndTimeSecs maxT e = (case e_end e of None \<Rightarrow> maxT | Some t \<Rightarrow> if t = 0 then maxT else t)"

definition covers :: "rat \<Rightarrow> rat \<Rightarrow> zm_event \<Rightarrow> bool" where
  "covers maxT time e \<longleftrightarrow> e_start e \<le> time \<and> time \<le> eventEndTimeSecs maxT e"

section \<open>The event at a time\<close>

function event_search :: "rat \<Rightarrow> zm_event list \<Rightarrow> rat \<Rightarrow> int \<Rightarrow> int \<Rightarrow> zm_event option" where
  "event_search maxT arr time start end' =
     (if \<not> (start \<le> end' \<and> e_start (arr ! nat start) \<le> time \<and> time \<le> eventEndTimeSecs maxT (arr ! nat end')) then None
      else (let middle = (start + end') div 2; e = arr ! nat middle
            in if covers maxT time e then Some e
               else if e_start e < time then event_search maxT arr time (middle + 1) end'
               else if eventEndTimeSecs maxT e > time then event_search maxT arr time start (middle - 1)
               else None))"
  by pat_completeness auto
termination by (relation "measure (\<lambda>(m, a, t, s, e). nat (e - s + 1))") auto

declare event_search.simps [simp del]

definition findEventByTime :: "rat \<Rightarrow> zm_event list \<Rightarrow> rat \<Rightarrow> zm_event option" where
  "findEventByTime maxT arr time = event_search maxT arr time 0 (int (length arr) - 1)"

section \<open>The frame at a time\<close>

text \<open>\<^verbatim>\<open>parseInt\<close> of a finite number whose text has no exponent.\<close>

definition trunc :: "rat \<Rightarrow> int" where
  "trunc x = (if 0 \<le> x then \<lfloor>x\<rfloor> else \<lceil>x\<rceil>)"

fun num_trunc :: "js_num \<Rightarrow> js_num" where
  "num_trunc (Fin x) = Fin (of_int (trunc x))"
| "num_trunc _ = NaN"

definition num_opt :: "rat option \<Rightarrow> js_num" where
  "num_opt x = (case x of None \<Rightarrow> NaN | Some r \<Rightarrow> Fin r)"

text \<open>The frame number at \<open>time\<close> between a frame and the next one that was stored.\<close>

definition interpolated :: "frame \<Rightarrow> frame \<Rightarrow> rat \<Rightarrow> js_num" where
  "interpolated f nx time =
     num_add (num_trunc (f_id f))
       (num_trunc (num_div (num_mul (num_sub (f_id nx) (f_id f)) (Fin (time - f_time f)))
                           (num_sub (num_opt (f_nextTime f)) (Fin (f_time f)))))"

definition frame_matches :: "rat \<Rightarrow> frame \<Rightarrow> bool" where
  "frame_matches time f \<longleftrightarrow> f_time f = time \<or>
     f_time f < time \<and> (falsy_num (f_nextTime f) \<or> time < the (f_nextTime f))"

text \<open>\<^verbatim>\<open>frame.NextTimeStampSecs < time\<close>.\<close>

definition ends_before :: "frame \<Rightarrow> rat \<Rightarrow> bool" where
  "ends_before f time \<longleftrightarrow> (case f_nextTime f of None \<Rightarrow> False | Some t \<Rightarrow> t < time)"

function frame_search :: "(nat \<times> frame) list \<Rightarrow> rat \<Rightarrow> int \<Rightarrow> int \<Rightarrow> (nat \<times> frame) option" where
  "frame_search arr time start end' =
     (if \<not> start \<le> end' then None
      else if f_time (snd (arr ! nat start)) > time \<or> ends_before (snd (arr ! nat end')) time then None
      else (let middle = (start + end') div 2; f = snd (arr ! nat middle)
            in if frame_matches time f then Some (arr ! nat middle)
               else if f_time f < time then frame_search arr time (middle + 1) end'
               else if f_time f > time then frame_search arr time start (middle - 1)
               else None))"
  by pat_completeness auto
termination by (relation "measure (\<lambda>(a, t, s, e). nat (e - s + 1))") auto

declare frame_search.simps [simp del]

text \<open>
  What the lookup does to the frame it has found: between two frames of which one is a bulk
  frame it overwrites the frame's number. \<open>e\<close> is the frame's event.
\<close>

definition number_frame :: "zm_event option \<Rightarrow> rat \<Rightarrow> frame \<Rightarrow> frame" where
  "number_frame ev time f = (case ev of
     None \<Rightarrow> f
   | Some e \<Rightarrow>
      (case (f_next f, e_frames e) of
        (Some n, Some fs) \<Rightarrow>
          if n = 0 then f
          else (case map_of fs n of
             None \<Rightarrow> f
           | Some nx \<Rightarrow> if f_time f \<noteq> time \<and> (f_bulk f \<or> f_bulk nx) then f\<lparr>f_id := interpolated f nx time\<rparr> else f)
      | _ \<Rightarrow> f))"

section \<open>The page's data\<close>

text \<open>
  The log: the text drawn over a monitor, the requests for frames, each with the ids of its
  events, the cookies and the addresses the page goes to. \<^verbatim>\<open>events_for_monitor\<close> holds the event objects themselves; here it holds their ids,
  since an event belongs to one monitor and is received once per load.
\<close>

datatype rv_note = Wrote nat string | AskedFrames "nat list" | Cookie string string | WentTo string

record review_data =
  rd_events :: "(nat \<times> zm_event) list"
  rd_for_monitor :: "(nat \<times> nat list) list"
  rd_max :: rat
  rd_log :: "rv_note list"

definition rd_note :: "rv_note \<Rightarrow> 'a review_data_scheme \<Rightarrow> 'a review_data_scheme" where
  "rd_note n s = s\<lparr>rd_log := rd_log s @ [n]\<rparr>"

definition event_of :: "'a review_data_scheme \<Rightarrow> nat \<Rightarrow> zm_event option" where
  "event_of s i = map_of (rd_events s) i"

definition upd_event :: "nat \<Rightarrow> (zm_event \<Rightarrow> zm_event) \<Rightarrow> 'a review_data_scheme \<Rightarrow> 'a review_data_scheme" where
  "upd_event i f s = s\<lparr>rd_events := arr_upd i f (rd_events s)\<rparr>"

definition ids_of_monitor :: "'a review_data_scheme \<Rightarrow> nat \<Rightarrow> nat list" where
  "ids_of_monitor s mon = (case map_of (rd_for_monitor s) mon of None \<Rightarrow> [] | Some is \<Rightarrow> is)"

definition events_of_monitor :: "'a review_data_scheme \<Rightarrow> nat \<Rightarrow> zm_event list" where
  "events_of_monitor s mon = List.map_filter (event_of s) (ids_of_monitor s mon)"

section \<open>Asking for frames\<close>

definition frame_query :: "nat list \<Rightarrow> string" where
  "frame_query is = concat (map (\<lambda>i. ''/EventId:'' @ nat_to_str i) is)"

fun frame_batches :: "nat list \<Rightarrow> nat list \<Rightarrow> nat list list" where
  "frame_batches acc [] = []"
| "frame_batches acc (i # is) =
     (let acc' = acc @ [i]
      in if is = [] \<or> length (frame_query acc') > 1000 then acc' # frame_batches [] is
         else frame_batches acc' is)"

definition wants_frames :: "zm_event \<Rightarrow> bool" where
  "wants_frames e \<longleftrightarrow> \<not> (e_frames e \<noteq> None \<and> e_closed e)"

definition mark_loading :: "zm_event \<Rightarrow> zm_event" where
  "mark_loading e = (if e_frames e = None then e\<lparr>e_frames := Some []\<rparr> else e)"

text \<open>\<open>is\<close> are the keys of the object passed, in ascending order.\<close>

definition loadFrames :: "nat list \<Rightarrow> 'a review_data_scheme \<Rightarrow> 'a review_data_scheme" where
  "loadFrames is s =
     (let ids = filter (\<lambda>i. case event_of s i of None \<Rightarrow> False | Some e \<Rightarrow> wants_frames e) is;
          s1 = fold (\<lambda>i. upd_event i mark_loading) ids s
      in fold (\<lambda>b. rd_note (AskedFrames b)) (frame_batches [] ids) s1)"

section \<open>Receiving events and frames\<close>

record event_row =
  w_id :: nat
  w_monitor :: nat
  w_start :: rat
  w_end :: "rat option"
  w_closed :: bool
  w_frames :: "int option"

definition event_of_row :: "event_row \<Rightarrow> zm_event" where
  "event_of_row w = \<lparr>e_id = w_id w, e_monitor = w_monitor w, e_start = w_start w,
     e_end = (if w_closed w then w_end w else None), e_closed = w_closed w,
     e_frames = None, e_newest = None, e_refreshed = None\<rparr>"

text \<open>\<^verbatim>\<open>!parseInt(ev.Frames)\<close>.\<close>

definition row_skipped :: "event_row \<Rightarrow> bool" where
  "row_skipped w \<longleftrightarrow> w_frames w = None \<or> w_frames w = Some 0"

definition receive_event :: "event_row \<Rightarrow> 'a review_data_scheme \<Rightarrow> 'a review_data_scheme" where
  "receive_event w s =
     (if row_skipped w then s
      else s\<lparr>rd_events := arr_put (w_id w) (event_of_row w) (rd_events s),
             rd_for_monitor := arr_put (w_monitor w) (ids_of_monitor s (w_monitor w) @ [w_id w]) (rd_for_monitor s)\<rparr>)"

datatype events_reply = EventsError | NoEventsField | Events "event_row list"

definition receive_events :: "events_reply \<Rightarrow> 'a review_data_scheme \<Rightarrow> 'a review_data_scheme" where
  "receive_events rsp s = (case rsp of
     Events (w # ws) \<Rightarrow>
       loadFrames (sort (remdups (map w_id (filter (\<lambda>w. \<not> row_skipped w) (w # ws)))))
         (fold receive_event (w # ws) s)
   | _ \<Rightarrow> s)"

record frame_row =
  r_id :: nat
  r_event :: nat
  r_time :: rat
  r_bulk :: bool
  r_score :: rat

definition link_to :: "frame_row \<Rightarrow> frame \<Rightarrow> frame" where
  "link_to r l = (let l1 = l\<lparr>f_next := Some (r_id r)\<rparr>
     in if r_time r \<ge> f_time l then l1\<lparr>f_nextTime := Some (r_time r)\<rparr> else l1)"

definition upd_frame :: "nat \<Rightarrow> nat \<Rightarrow> (frame \<Rightarrow> frame) \<Rightarrow> 'a review_data_scheme \<Rightarrow> 'a review_data_scheme" where
  "upd_frame i k f = upd_event i (\<lambda>e. e\<lparr>e_frames := map_option (arr_upd k f) (e_frames e)\<rparr>)"

definition frame_of_row :: "frame_row \<Rightarrow> nat option \<Rightarrow> frame" where
  "frame_of_row r prev = \<lparr>f_id = Fin (of_nat (r_id r)), f_event = r_event r, f_time = r_time r, f_bulk = r_bulk r,
     f_score = r_score r, f_prev = prev, f_next = None, f_nextTime = None\<rparr>"

definition store_frame :: "frame_row \<Rightarrow> nat option \<Rightarrow> zm_event \<Rightarrow> zm_event" where
  "store_frame r prev e =
     e\<lparr>e_frames := map_option (arr_put (r_id r) (frame_of_row r prev)) (e_frames e),
       e_newest := (if falsy_num (e_newest e) \<or> r_time r > the (e_newest e) then Some (r_time r) else e_newest e)\<rparr>"

text \<open>
  The rows of a reply in turn; \<open>lst\<close> is the event and the number of the row before. A row of an
  event whose frames were never asked for raises an exception, which ends the loop.
\<close>

fun receive_frames :: "frame_row list \<Rightarrow> (nat \<times> nat) option \<Rightarrow> 'a review_data_scheme \<Rightarrow> 'a review_data_scheme" where
  "receive_frames [] lst s = s"
| "receive_frames (r # rs) lst s = (case event_of s (r_event r) of
     None \<Rightarrow> receive_frames rs lst s
   | Some e \<Rightarrow>
      (let lst1 = (case lst of Some (le, lk) \<Rightarrow> if r_event r \<noteq> le then None else lst | None \<Rightarrow> None);
           s1 = (case lst1 of None \<Rightarrow> s | Some (le, lk) \<Rightarrow> upd_frame le lk (link_to r) s)
       in if e_frames e = None then s1
          else receive_frames rs (Some (r_event r, r_id r))
                 (upd_event (r_event r) (store_frame r (map_option snd lst1)) s1)))"

section \<open>The frame of a monitor\<close>

text \<open>The linear search over the monitor's events.\<close>

fun scan_events :: "'a review_data_scheme \<Rightarrow> rat \<Rightarrow> nat list \<Rightarrow> zm_event option" where
  "scan_events s time [] = None"
| "scan_events s time (i # is) = (case event_of s i of
     None \<Rightarrow> None
   | Some e \<Rightarrow> if covers (rd_max s) time e then Some e else scan_events s time is)"

definition event_at :: "'a review_data_scheme \<Rightarrow> nat \<Rightarrow> rat \<Rightarrow> zm_event option" where
  "event_at s mon time = (case findEventByTime (rd_max s) (events_of_monitor s mon) time of
     None \<Rightarrow> scan_events s time (ids_of_monitor s mon) | found \<Rightarrow> found)"

definition OPEN_EVENT_FRAME_REFRESH_MS :: nat where "OPEN_EVENT_FRAME_REFRESH_MS = 5000"

definition refreshOpenEventFrames :: "nat \<Rightarrow> zm_event \<Rightarrow> 'a review_data_scheme \<Rightarrow> 'a review_data_scheme" where
  "refreshOpenEventFrames now e s =
     (if (case e_refreshed e of None \<Rightarrow> False | Some t \<Rightarrow> t \<noteq> 0 \<and> int now - int t < int OPEN_EVENT_FRAME_REFRESH_MS)
      then s
      else loadFrames [e_id e] (upd_event (e_id e) (\<lambda>e. e\<lparr>e_refreshed := Some now\<rparr>) s))"

definition findFrameByTime :: "zm_event \<Rightarrow> rat \<Rightarrow> 'a review_data_scheme \<Rightarrow> frame option \<times> 'a review_data_scheme" where
  "findFrameByTime e time s = (case e_frames e of
     None \<Rightarrow> (None, s)
   | Some fs \<Rightarrow> (case frame_search fs time 0 (int (length fs) - 1) of
       None \<Rightarrow> (None, s)
     | Some (k, f) \<Rightarrow>
        (let f1 = number_frame (event_of s (f_event f)) time f
         in (Some f1, upd_frame (e_id e) k (\<lambda>_. f1) s))))"

definition scan_frames :: "zm_event \<Rightarrow> rat \<Rightarrow> frame option" where
  "scan_frames e time = find (frame_matches time) (map snd (the (e_frames e)))"

text \<open>
  No caller passes \<^verbatim>\<open>last_Frame\<close>. \<open>now\<close> is \<^verbatim>\<open>Date.now()\<close>.
\<close>

definition getFrame :: "nat \<Rightarrow> nat \<Rightarrow> rat \<Rightarrow> 'a review_data_scheme \<Rightarrow> frame option \<times> 'a review_data_scheme" where
  "getFrame now mon time s =
     (if ids_of_monitor s mon = [] then (None, s)
      else (case event_at s mon time of
         None \<Rightarrow> (None, rd_note (Wrote mon ''No event'') s)
       | Some e \<Rightarrow> (case e_frames e of
           None \<Rightarrow> (None, loadFrames [e_id e] s)
         | Some [] \<Rightarrow> (None, s)
         | Some fs \<Rightarrow>
            (let s1 = (if \<not> e_closed e \<and> \<not> falsy_num (e_newest e) \<and> time > the (e_newest e)
                       then refreshOpenEventFrames now e s else s)
             in case findFrameByTime e time s1 of
                  (Some f, s2) \<Rightarrow> (Some f, s2)
                | (None, s2) \<Rightarrow> (scan_frames e time, s2)))))"

section \<open>The search for an event\<close>

lemma event_search_sound:
  assumes "event_search m arr t a b = Some e" "0 \<le> a" "b < int (length arr)"
  shows "e \<in> set arr \<and> covers m t e"
  using assms
proof (induction m arr t a b rule: event_search.induct)
  case (1 m arr t a b)
  have g: "a \<le> b \<and> e_start (arr ! nat a) \<le> t \<and> t \<le> eventEndTimeSecs m (arr ! nat b)"
    using 1(3) by (subst (asm) event_search.simps) (auto split: if_splits)
  let ?mid = "(a + b) div 2"
  have mid: "0 \<le> ?mid" "a \<le> ?mid" "?mid \<le> b" "nat ?mid < length arr" using g 1(4,5) by auto
  note IH = 1(1)[OF _ refl refl] 1(2)[OF _ refl refl]
  show ?case
  proof (cases "covers m t (arr ! nat ?mid)")
    case True
    with 1(3) g have "e = arr ! nat ?mid" by (subst (asm) event_search.simps) (auto simp: Let_def)
    with True mid show ?thesis by simp
  next
    case False
    with 1(3) g consider
      "e_start (arr ! nat ?mid) < t" "event_search m arr t (?mid + 1) b = Some e"
    | "\<not> e_start (arr ! nat ?mid) < t" "eventEndTimeSecs m (arr ! nat ?mid) > t" "event_search m arr t a (?mid - 1) = Some e"
      by (subst (asm) event_search.simps) (auto simp: Let_def split: if_splits)
    then show ?thesis
      by cases (use IH False g mid 1(4,5) in auto)
  qed
qed

text \<open>Events in order that do not overlap.\<close>

definition in_order :: "rat \<Rightarrow> zm_event list \<Rightarrow> bool" where
  "in_order m arr \<longleftrightarrow> (\<forall>e \<in> set arr. e_start e \<le> eventEndTimeSecs m e)
     \<and> sorted_wrt (\<lambda>e1 e2. eventEndTimeSecs m e1 \<le> e_start e2) arr"

lemma in_order_nth:
  assumes "in_order m arr" "i < length arr"
  shows "e_start (arr ! i) \<le> eventEndTimeSecs m (arr ! i)"
    and "\<lbrakk>i < j; j < length arr\<rbrakk> \<Longrightarrow> eventEndTimeSecs m (arr ! i) \<le> e_start (arr ! j)"
  using assms by (auto simp: in_order_def sorted_wrt_iff_nth_less)

lemma event_search_complete:
  assumes "in_order m arr" "0 \<le> a" "b < int (length arr)" "a \<le> int i" "int i \<le> b" "covers m t (arr ! i)"
  shows "event_search m arr t a b \<noteq> None"
  using assms
proof (induction m arr t a b rule: event_search.induct)
  case (1 m arr t a b)
  note ord = in_order_nth [OF 1(3)]
  let ?mid = "(a + b) div 2"
  have mid: "0 \<le> ?mid" "a \<le> ?mid" "?mid \<le> b" "nat ?mid < length arr" "i < length arr" using 1(4-7) by auto
  have t: "e_start (arr ! i) \<le> t" "t \<le> eventEndTimeSecs m (arr ! i)" using 1(8) by (auto simp: covers_def)
  have "e_start (arr ! nat a) \<le> t"
    using ord(2)[of "nat a" i] ord(1)[of "nat a"] t mid 1(4,6) by (cases "nat a = i") force+
  moreover have "t \<le> eventEndTimeSecs m (arr ! nat b)"
    using ord(2)[of i "nat b"] ord(1)[of "nat b"] t mid 1(5,7) by (cases "i = nat b") force+
  ultimately have g: "a \<le> b \<and> e_start (arr ! nat a) \<le> t \<and> t \<le> eventEndTimeSecs m (arr ! nat b)" using 1(6,7) by simp
  show ?case
  proof (cases "covers m t (arr ! nat ?mid)")
    case True
    with g show ?thesis by (subst event_search.simps) (simp add: Let_def)
  next
    case False
    then have ne: "i \<noteq> nat ?mid" using 1(8) by auto
    show ?thesis
    proof (cases "e_start (arr ! nat ?mid) < t")
      case True
      with False have "eventEndTimeSecs m (arr ! nat ?mid) < t" by (auto simp: covers_def)
      then have "nat ?mid < i" using ord(2)[of i "nat ?mid"] ord(1)[of "nat ?mid"] mid t ne by (cases "i < nat ?mid") auto
      then have "event_search m arr t (?mid + 1) b \<noteq> None"
        using 1(1)[OF _ refl refl False True] g 1(3-8) mid by auto
      with True False g show ?thesis by (subst event_search.simps) (simp add: Let_def)
    next
      case nl: False
      have gt: "t < e_start (arr ! nat ?mid)"
        using nl False ord(1)[OF mid(4)] by (cases "e_start (arr ! nat ?mid) = t") (auto simp: covers_def)
      then have e: "t < eventEndTimeSecs m (arr ! nat ?mid)" using ord(1)[OF mid(4)] by simp
      then have "i < nat ?mid" using ord(2)[of "nat ?mid" i] mid t ne by (cases "nat ?mid < i") auto
      then have "event_search m arr t a (?mid - 1) \<noteq> None"
        using 1(2)[OF _ refl refl False nl e] g 1(3-8) mid by auto
      with nl e False g show ?thesis by (subst event_search.simps) (simp add: Let_def)
    qed
  qed
qed

lemma findEventByTime_sound:
  "findEventByTime m arr t = Some e \<Longrightarrow> e \<in> set arr \<and> covers m t e"
  unfolding findEventByTime_def by (erule event_search_sound) auto

lemma findEventByTime_iff:
  assumes "in_order m arr"
  shows "findEventByTime m arr t = None \<longleftrightarrow> (\<forall>e \<in> set arr. \<not> covers m t e)"
proof
  assume none: "findEventByTime m arr t = None"
  show "\<forall>e \<in> set arr. \<not> covers m t e"
  proof
    fix e assume "e \<in> set arr"
    then obtain i where "i < length arr" "arr ! i = e" by (auto simp: in_set_conv_nth)
    then show "\<not> covers m t e"
      using event_search_complete[OF assms, of 0 "int (length arr) - 1" i t] none by (auto simp: findEventByTime_def)
  qed
next
  assume "\<forall>e \<in> set arr. \<not> covers m t e"
  then show "findEventByTime m arr t = None" by (metis findEventByTime_sound not_None_eq)
qed

section \<open>The search for a frame\<close>

text \<open>
  Frames in order: the times do not decrease and each frame but the last knows the time of the
  next one.
\<close>

definition frames_in_order :: "(nat \<times> frame) list \<Rightarrow> bool" where
  "frames_in_order fs \<longleftrightarrow> sorted (map (f_time \<circ> snd) fs) \<and> (\<forall>x \<in> set fs. 0 < f_time (snd x))
     \<and> (\<forall>i < length fs. f_nextTime (snd (fs ! i)) = (if Suc i < length fs then Some (f_time (snd (fs ! Suc i))) else None))"

lemma frames_in_order_nth:
  assumes "frames_in_order fs" "j < length fs"
  shows "i \<le> j \<Longrightarrow> f_time (snd (fs ! i)) \<le> f_time (snd (fs ! j))"
    and "0 < f_time (snd (fs ! j))"
    and "f_nextTime (snd (fs ! j)) = (if Suc j < length fs then Some (f_time (snd (fs ! Suc j))) else None)"
proof -
  show "i \<le> j \<Longrightarrow> f_time (snd (fs ! i)) \<le> f_time (snd (fs ! j))"
    using assms sorted_nth_mono[of "map (f_time \<circ> snd) fs" i j] by (auto simp: frames_in_order_def)
  show "0 < f_time (snd (fs ! j))" using assms by (auto simp: frames_in_order_def)
  show "f_nextTime (snd (fs ! j)) = (if Suc j < length fs then Some (f_time (snd (fs ! Suc j))) else None)"
    using assms by (auto simp: frames_in_order_def)
qed

lemma frame_search_sound:
  assumes "frame_search arr t a b = Some x" "0 \<le> a" "b < int (length arr)"
  shows "x \<in> set arr \<and> frame_matches t (snd x)"
  using assms
proof (induction arr t a b rule: frame_search.induct)
  case (1 arr t a b)
  let ?mid = "(a + b) div 2"
  have g: "\<not> \<not> a \<le> b" "\<not> (f_time (snd (arr ! nat a)) > t \<or> ends_before (snd (arr ! nat b)) t)"
    using 1(3) by (subst (asm) frame_search.simps, auto split: if_splits)+
  have mid: "0 \<le> ?mid" "a \<le> ?mid" "?mid \<le> b" "nat ?mid < length arr" using g 1(4,5) by auto
  show ?case
  proof (cases "frame_matches t (snd (arr ! nat ?mid))")
    case True
    with 1(3) g have "x = arr ! nat ?mid" by (subst (asm) frame_search.simps) (auto simp: Let_def)
    with True mid show ?thesis by simp
  next
    case False
    with 1(3) g consider
      "f_time (snd (arr ! nat ?mid)) < t" "frame_search arr t (?mid + 1) b = Some x"
    | "\<not> f_time (snd (arr ! nat ?mid)) < t" "f_time (snd (arr ! nat ?mid)) > t" "frame_search arr t a (?mid - 1) = Some x"
      by (subst (asm) frame_search.simps) (auto simp: Let_def split: if_splits)
    then show ?thesis
    proof cases
      case 1
      show ?thesis by (rule "1.IH"(1)[OF g refl refl False 1]) (use mid "1.prems" in auto)
    next
      case 2
      show ?thesis by (rule "1.IH"(2)[OF g refl refl False 2]) (use mid "1.prems" in auto)
    qed
  qed
qed

lemma match_bounds:
  assumes "frames_in_order fs" "i < length fs" "frame_matches t (snd (fs ! i))"
  shows "f_time (snd (fs ! i)) \<le> t" and "\<lbrakk>i < j; j < length fs\<rbrakk> \<Longrightarrow> t \<le> f_time (snd (fs ! j))"
    and "\<lbrakk>i < j; j < length fs; f_time (snd (fs ! j)) \<le> t\<rbrakk> \<Longrightarrow> f_time (snd (fs ! j)) = t"
proof -
  show le: "f_time (snd (fs ! i)) \<le> t" using assms(3) by (auto simp: frame_matches_def)
  show ge: "t \<le> f_time (snd (fs ! j))" if j: "i < j" "j < length fs" for j
  proof (cases "f_time (snd (fs ! i)) = t")
    case True
    then show ?thesis using frames_in_order_nth(1)[OF assms(1) j(2), of i] j by simp
  next
    case False
    have S: "Suc i < length fs" "Suc i \<le> j" using j by auto
    have "t < f_time (snd (fs ! Suc i))"
      using False assms(3) frames_in_order_nth(3)[OF assms(1,2)] frames_in_order_nth(2)[OF assms(1) S(1)] S
      by (simp add: frame_matches_def falsy_num_def)
    then show ?thesis using frames_in_order_nth(1)[OF assms(1) j(2) S(2)] by simp
  qed
  show "\<lbrakk>i < j; j < length fs; f_time (snd (fs ! j)) \<le> t\<rbrakk> \<Longrightarrow> f_time (snd (fs ! j)) = t"
    using ge[of j] by simp
qed

lemma frame_search_complete:
  assumes "frames_in_order arr" "0 \<le> a" "b < int (length arr)" "a \<le> int i" "int i \<le> b" "frame_matches t (snd (arr ! i))"
  shows "frame_search arr t a b \<noteq> None"
  using assms
proof (induction arr t a b rule: frame_search.induct)
  case (1 arr t a b)
  let ?mid = "(a + b) div 2"
  have mid: "0 \<le> ?mid" "a \<le> ?mid" "?mid \<le> b" "nat ?mid < length arr" "i < length arr" using 1(4-7) by auto
  note m = match_bounds [OF 1(3) mid(5) 1(8)]
  have "f_time (snd (arr ! nat a)) \<le> t"
    using m(1) frames_in_order_nth(1)[OF 1(3) mid(5), of "nat a"] 1(4,6) by linarith
  moreover have "\<not> ends_before (snd (arr ! nat b)) t"
  proof (cases "nat b = i")
    case True
    then show ?thesis
      using 1(8) frames_in_order_nth[OF 1(3) mid(5)] frames_in_order_nth(1)[OF 1(3), of "Suc i" i]
        frames_in_order_nth(2)[OF 1(3), of "Suc i"]
      by (auto simp: ends_before_def frame_matches_def falsy_num_def)
  next
    case False
    then have b: "i < nat b" "nat b < length arr" using 1(5,7) by auto
    have "t \<le> f_time (snd (arr ! Suc (nat b)))" if "Suc (nat b) < length arr"
      using m(2)[of "Suc (nat b)"] that b by simp
    then show ?thesis using frames_in_order_nth(3)[OF 1(3) b(2)] by (auto simp: ends_before_def)
  qed
  ultimately have g: "\<not> \<not> a \<le> b" "\<not> (f_time (snd (arr ! nat a)) > t \<or> ends_before (snd (arr ! nat b)) t)"
    using 1(6,7) by auto
  show ?case
  proof (cases "frame_matches t (snd (arr ! nat ?mid))")
    case True
    with g show ?thesis by (subst frame_search.simps) (simp add: Let_def)
  next
    case False
    then have ne: "i \<noteq> nat ?mid" "f_time (snd (arr ! nat ?mid)) \<noteq> t" using 1(8) by (auto simp: frame_matches_def)
    show ?thesis
    proof (cases "f_time (snd (arr ! nat ?mid)) < t")
      case True
      then have "nat ?mid < i" using m(2)[of "nat ?mid"] mid ne by (cases "i < nat ?mid") auto
      then have "frame_search arr t (?mid + 1) b \<noteq> None"
        using 1(1)[OF g refl refl False True] g 1(3-8) mid by auto
      with True False g show ?thesis by (subst frame_search.simps) (simp add: Let_def)
    next
      case nl: False
      then have gt: "f_time (snd (arr ! nat ?mid)) > t" using ne by simp
      then have "i < nat ?mid" using m(1) frames_in_order_nth(1)[OF 1(3) mid(5), of "nat ?mid"] ne by (cases "nat ?mid < i") auto
      then have "frame_search arr t a (?mid - 1) \<noteq> None"
        using 1(2)[OF g refl refl False nl gt] g 1(3-8) mid by auto
      with nl gt False g show ?thesis by (subst frame_search.simps) (simp add: Let_def)
    qed
  qed
qed

text \<open>From the first frame on, every time has a frame.\<close>

lemma matching_frame_exists:
  assumes "frames_in_order fs" "fs \<noteq> []" "f_time (snd (hd fs)) \<le> t"
  shows "\<exists>i < length fs. frame_matches t (snd (fs ! i))"
proof -
  let ?P = "\<lambda>i. i < length fs \<and> f_time (snd (fs ! i)) \<le> t"
  have 0: "?P 0" using assms by (simp add: hd_conv_nth)
  define i where "i = (GREATEST i. ?P i)"
  have i: "?P i" unfolding i_def by (rule GreatestI_nat[of ?P 0 "length fs"]) (use 0 in auto)
  have last: "\<not> ?P (Suc i)"
    using Greatest_le_nat[of ?P "Suc i" "length fs"] i_def by fastforce
  have "frame_matches t (snd (fs ! i))"
    using i last frames_in_order_nth(3)[OF assms(1), of i] by (auto simp: frame_matches_def falsy_num_def)
  with i show ?thesis by blast
qed

text \<open>The search looks at the times only.\<close>

lemma frame_search_cong:
  assumes "\<And>x. x \<in> set arr \<Longrightarrow> f_time (snd (g x)) = f_time (snd x) \<and> f_nextTime (snd (g x)) = f_nextTime (snd x)"
    and "0 \<le> a" "b < int (length arr)"
  shows "frame_search (map g arr) t a b = map_option g (frame_search arr t a b)"
  using assms
proof (induction arr t a b rule: frame_search.induct)
  case (1 arr t a b)
  let ?mid = "(a + b) div 2"
  show ?case
  proof (cases "a \<le> b \<and> \<not> (f_time (snd (arr ! nat a)) > t \<or> ends_before (snd (arr ! nat b)) t)")
    case False
    then show ?thesis using 1(3)[of "arr ! nat a"] 1(3)[of "arr ! nat b"] 1(4,5)
      by (subst (1 2) frame_search.simps) (auto simp: ends_before_def)
  next
    case True
    have mid: "0 \<le> ?mid" "a \<le> ?mid" "?mid \<le> b" "nat ?mid < length arr" using True 1(4,5) by auto
    have same: "\<And>i. i < length arr \<Longrightarrow> f_time (snd (map g arr ! i)) = f_time (snd (arr ! i))
        \<and> f_nextTime (snd (map g arr ! i)) = f_nextTime (snd (arr ! i))" using 1(3) by simp
    have m: "\<And>i. i < length arr \<Longrightarrow> frame_matches t (snd (map g arr ! i)) = frame_matches t (snd (arr ! i))"
      and e: "\<And>i. i < length arr \<Longrightarrow> ends_before (snd (map g arr ! i)) t = ends_before (snd (arr ! i)) t"
      using same by (auto simp: frame_matches_def ends_before_def)
    have ab: "nat a < length arr" "nat b < length arr" using True 1(4,5) by auto
    note IH = 1(1)[OF _ _ refl refl] 1(2)[OF _ _ refl refl]
    show ?thesis
      apply (subst (1 2) frame_search.simps)
      using True IH 1(3-5) mid same[OF ab(1)] same[OF mid(4)] e[OF ab(2)] m[OF mid(4)]
      by (simp add: Let_def)
  qed
qed

section \<open>What a reply of frames leaves\<close>

lemma event_of_upd [simp]:
  "event_of (upd_event i f s) j = (if j = i then map_option f (event_of s j) else event_of s j)"
  by (simp add: event_of_def upd_event_def map_of_arr_upd)

lemma event_of_upd_frame [simp]:
  "event_of (upd_frame i k f s) j =
     (if j = i then map_option (\<lambda>e. e\<lparr>e_frames := map_option (arr_upd k f) (e_frames e)\<rparr>) (event_of s j) else event_of s j)"
  by (simp add: upd_frame_def)

lemma number_frame_times [simp]:
  "f_time (number_frame ev t f) = f_time f" "f_nextTime (number_frame ev t f) = f_nextTime f"
  "f_event (number_frame ev t f) = f_event f" "f_next (number_frame ev t f) = f_next f"
  "f_bulk (number_frame ev t f) = f_bulk f"
  by (auto simp: number_frame_def split: option.splits)

lemma frame_matches_number [simp]: "frame_matches t (number_frame ev u f) = frame_matches t f"
  by (simp add: frame_matches_def)

lemma arr_put_append: "\<forall>x \<in> set xs. fst x < k \<Longrightarrow> arr_put k v xs = xs @ [(k, v)]"
  by (induction k v xs rule: arr_put.induct) auto

lemma arr_upd_append:
  "arr_upd k f (xs @ ys) = arr_upd k f xs @ arr_upd k f ys" by (simp add: arr_upd_def)

lemma arr_upd_below: "\<forall>x \<in> set xs. fst x < k \<Longrightarrow> arr_upd k f xs = xs"
  unfolding arr_upd_def by (rule map_idI) auto

text \<open>The frames that rows in order become.\<close>

fun chained :: "nat option \<Rightarrow> frame_row list \<Rightarrow> (nat \<times> frame) list" where
  "chained p [] = []"
| "chained p (r # rs) =
     (r_id r, case rs of [] \<Rightarrow> frame_of_row r p | r' # _ \<Rightarrow> link_to r' (frame_of_row r p)) # chained (Some (r_id r)) rs"

lemma length_chained [simp]: "length (chained p rs) = length rs"
  by (induction p rs rule: chained.induct) auto

lemma chained_nth:
  "i < length rs \<Longrightarrow> f_time (snd (chained p rs ! i)) = r_time (rs ! i)
     \<and> f_nextTime (snd (chained p rs ! i)) =
        (if Suc i < length rs \<and> r_time (rs ! Suc i) \<ge> r_time (rs ! i) then Some (r_time (rs ! Suc i)) else None)"
proof (induction p rs arbitrary: i rule: chained.induct)
  case (2 p r rs)
  then show ?case
    by (cases i; cases rs) (auto simp: frame_of_row_def link_to_def Let_def)
qed simp

lemma chained_in_order:
  assumes "sorted (map r_time rs)" "\<forall>r \<in> set rs. 0 < r_time r"
  shows "frames_in_order (chained p rs)"
proof -
  have "map (f_time \<circ> snd) (chained p rs) = map r_time rs"
    by (rule nth_equalityI) (auto simp: chained_nth)
  moreover have "r_time (rs ! i) \<le> r_time (rs ! Suc i)" if "Suc i < length rs" for i
    using sorted_nth_mono[OF assms(1), of i "Suc i"] that by simp
  moreover have "0 < f_time (snd x)" if "x \<in> set (chained p rs)" for x
  proof -
    have "f_time (snd x) \<in> set (map (f_time \<circ> snd) (chained p rs))" using that by force
    with assms(2) calculation(1) show ?thesis by auto
  qed
  ultimately show ?thesis
    using assms chained_nth[of _ rs p] by (auto simp: frames_in_order_def)
qed

lemma frames_follow:
  assumes "event_of s i = Some e" "e_frames e = Some (fs @ [(k, l)])" "\<forall>x \<in> set fs. fst x < k"
    and "\<forall>r \<in> set rs. r_event r = i" "sorted_wrt (<) (k # map r_id rs)"
  shows "\<exists>e'. event_of (receive_frames rs (Some (i, k)) s) i = Some e' \<and> e_id e' = e_id e \<and>
     e_frames e' = Some (fs @ (k, case rs of [] \<Rightarrow> l | r # _ \<Rightarrow> link_to r l) # chained (Some k) rs)"
  using assms
proof (induction rs arbitrary: s e fs k l)
  case (Cons r rs)
  let ?l = "link_to r l"
  let ?s = "upd_event i (store_frame r (Some k)) (upd_frame i k (link_to r) s)"
  let ?f = "frame_of_row r (Some k)"
  have ev: "r_event r = i" and kr: "k < r_id r" using Cons.prems(4,5) by auto
  have step: "receive_frames (r # rs) (Some (i, k)) s = receive_frames rs (Some (i, r_id r)) ?s"
    using Cons.prems(1,2) ev by (simp add: Let_def)
  have below: "\<forall>x \<in> set (fs @ [(k, ?l)]). fst x < r_id r" using Cons.prems(3) kr by auto
  obtain e1 where e1: "event_of ?s i = Some e1" "e_id e1 = e_id e"
      "e_frames e1 = Some ((fs @ [(k, ?l)]) @ [(r_id r, ?f)])"
    using Cons.prems(1-3) below arr_put_append[OF below]
    by (auto simp: store_frame_def arr_upd_append arr_upd_below arr_upd_def[of _ _ "[_]"])
  have "\<exists>e'. event_of (receive_frames rs (Some (i, r_id r)) ?s) i = Some e' \<and> e_id e' = e_id e1 \<and>
     e_frames e' = Some ((fs @ [(k, ?l)]) @ (r_id r, case rs of [] \<Rightarrow> ?f | r' # _ \<Rightarrow> link_to r' ?f) # chained (Some (r_id r)) rs)"
    using Cons.prems(4,5) by (intro Cons.IH[OF e1(1,3) below]) auto
  then show ?case using e1(2) unfolding step by simp
qed simp

lemma frames_received:
  assumes "event_of s i = Some e" "e_frames e = Some []" "rs \<noteq> []"
    and "\<forall>r \<in> set rs. r_event r = i" "sorted_wrt (<) (map r_id rs)"
  shows "\<exists>e'. event_of (receive_frames rs None s) i = Some e' \<and> e_id e' = e_id e \<and> e_frames e' = Some (chained None rs)"
proof -
  obtain r rs' where rs: "rs = r # rs'" using assms(3) by (cases rs) auto
  let ?s = "upd_event i (store_frame r None) s"
  have step: "receive_frames rs None s = receive_frames rs' (Some (i, r_id r)) ?s"
    using assms(1,2,4) rs by simp
  obtain e1 where e1: "event_of ?s i = Some e1" "e_id e1 = e_id e" "e_frames e1 = Some ([] @ [(r_id r, frame_of_row r None)])"
    using assms(1,2) by (auto simp: store_frame_def)
  have "\<exists>e'. event_of (receive_frames rs' (Some (i, r_id r)) ?s) i = Some e' \<and> e_id e' = e_id e1 \<and>
     e_frames e' = Some ([] @ (r_id r, case rs' of [] \<Rightarrow> frame_of_row r None | r' # _ \<Rightarrow> link_to r' (frame_of_row r None)) # chained (Some (r_id r)) rs')"
    using assms(4,5) rs by (intro frames_follow[OF e1(1,3)]) auto
  then show ?thesis unfolding step using e1(2) rs by simp
qed

text \<open>
  Frames of an event that arrive in the order of their numbers and times can all be reached:
  for every time from the first of them on, the lookup finds a frame, and it is one that
  was on screen at that time. So linking each frame to the next while the reply is read and
  the binary search over the links fit together.
\<close>
lemma loaded_frames_reachable:
  assumes "event_of s i = Some e" "e_frames e = Some []" "rs \<noteq> []"
    and "\<forall>r \<in> set rs. r_event r = i" "sorted_wrt (<) (map r_id rs)"
    and "sorted (map r_time rs)" "0 < r_time (hd rs)" "r_time (hd rs) \<le> t"
  shows "\<exists>e' f. event_of (receive_frames rs None s) i = Some e'
     \<and> fst (findFrameByTime e' t (receive_frames rs None s)) = Some f \<and> frame_matches t f"
proof -
  let ?fs = "chained None rs"
  obtain e' where e': "event_of (receive_frames rs None s) i = Some e'" "e_frames e' = Some ?fs"
    using frames_received[OF assms(1-5)] by blast
  have "\<forall>r \<in> set rs. 0 < r_time r" using assms(3,6,7) by (cases rs) fastforce+
  then have ord: "frames_in_order ?fs" using assms(6) by (intro chained_in_order)
  have ne: "?fs \<noteq> []" using assms(3) length_chained[of None rs] by (metis length_0_conv)
  have hd: "f_time (snd (hd ?fs)) \<le> t"
    using assms(3,8) chained_nth[of 0 rs None] ne by (simp add: hd_conv_nth)
  obtain j where j: "j < length ?fs" "frame_matches t (snd (?fs ! j))"
    using matching_frame_exists[OF ord ne hd] by blast
  have "frame_search ?fs t 0 (int (length ?fs) - 1) \<noteq> None"
    by (rule frame_search_complete[OF ord, where i = j]) (use j in auto)
  then obtain x where x: "frame_search ?fs t 0 (int (length ?fs) - 1) = Some x" by auto
  have "frame_matches t (snd x)" using frame_search_sound[OF x] by simp
  with e' x show ?thesis by (cases x) (auto simp: findFrameByTime_def Let_def)
qed

section \<open>Selecting the event\<close>

lemma scan_events_iff:
  assumes "\<forall>i \<in> set is. event_of s i \<noteq> None"
  shows "scan_events s t is = None \<longleftrightarrow> (\<forall>i \<in> set is. \<not> covers (rd_max s) t (the (event_of s i)))"
    and "scan_events s t is = Some e \<Longrightarrow> \<exists>i \<in> set is. event_of s i = Some e \<and> covers (rd_max s) t e"
  using assms by (induction "is") (auto split: option.splits if_splits)

lemma in_events_of_monitor:
  "e \<in> set (events_of_monitor s mon) \<longleftrightarrow> (\<exists>i \<in> set (ids_of_monitor s mon). event_of s i = Some e)"
  by (force simp: events_of_monitor_def List.map_filter_def image_iff)

text \<open>Every id kept for a monitor has an event.\<close>

definition ids_known :: "'a review_data_scheme \<Rightarrow> bool" where
  "ids_known s \<longleftrightarrow> arr_ok (rd_events s) \<and> arr_ok (rd_for_monitor s)
     \<and> (\<forall>(mon, is) \<in> set (rd_for_monitor s). \<forall>i \<in> set is. event_of s i \<noteq> None)
     \<and> (\<forall>(i, e) \<in> set (rd_events s). e_id e = i)"

lemma ids_known_monitor:
  assumes "ids_known s" "i \<in> set (ids_of_monitor s mon)"
  shows "event_of s i \<noteq> None"
proof -
  obtain "is" where "map_of (rd_for_monitor s) mon = Some is" "i \<in> set is"
    using assms(2) by (cases "map_of (rd_for_monitor s) mon") (auto simp: ids_of_monitor_def)
  then show ?thesis using assms(1) map_of_SomeD[of "rd_for_monitor s" mon "is"] unfolding ids_known_def by fast
qed

lemma ids_known_upd [intro]:
  assumes "ids_known s" "\<And>e. e_id (f e) = e_id e"
  shows "ids_known (upd_event i f s)"
proof -
  have "(j, e) \<in> set (arr_upd i f (rd_events s)) \<Longrightarrow> e_id e = j" for j e
    using assms by (auto simp: arr_upd_def ids_known_def split: if_splits)
  moreover have "event_of (upd_event i f s) j = None \<longleftrightarrow> event_of s j = None" for j by simp
  ultimately show ?thesis using assms(1) by (auto simp: ids_known_def upd_event_def event_of_def map_of_arr_upd)
qed

lemma ids_known_upd_frame [intro]: "ids_known s \<Longrightarrow> ids_known (upd_frame i k f s)"
  unfolding upd_frame_def by (rule ids_known_upd) auto

lemma ids_known_note [simp]: "ids_known (rd_note n s) = ids_known s"
  by (simp add: ids_known_def rd_note_def event_of_def)

lemma ids_known_fold: "\<lbrakk>ids_known s; \<And>x s. ids_known s \<Longrightarrow> ids_known (f x s)\<rbrakk> \<Longrightarrow> ids_known (fold f xs s)"
  by (induction xs arbitrary: s) auto

lemma ids_known_loadFrames [intro]: "ids_known s \<Longrightarrow> ids_known (loadFrames is s)"
  unfolding loadFrames_def Let_def by (intro ids_known_fold) (auto simp: mark_loading_def)

lemma store_frame_id [simp]: "e_id (store_frame r p e) = e_id e"
  by (simp add: store_frame_def)

lemma ids_known_receive_frames [intro]: "ids_known s \<Longrightarrow> ids_known (receive_frames rs lst s)"
proof (induction rs lst s rule: receive_frames.induct)
  case (2 r rs lst s)
  show ?case
  proof (cases "event_of s (r_event r)")
    case None
    with 2 show ?thesis by simp
  next
    case (Some e)
    define lst1 where "lst1 = (case lst of Some (le, lk) \<Rightarrow> if r_event r \<noteq> le then None else lst | None \<Rightarrow> None)"
    define s1 where "s1 = (case lst1 of None \<Rightarrow> s | Some (le, lk) \<Rightarrow> upd_frame le lk (link_to r) s)"
    have s1: "ids_known s1" using 2(3) by (auto simp: s1_def split: option.splits)
    show ?thesis
    proof (cases "e_frames e = None")
      case True
      with Some s1 show ?thesis by (simp add: Let_def lst1_def s1_def)
    next
      case False
      have "ids_known (receive_frames rs (Some (r_event r, r_id r)) (upd_event (r_event r) (store_frame r (map_option snd lst1)) s1))"
        by (rule 2(2)[OF Some lst1_def s1_def False], rule ids_known_upd[OF s1]) simp
      with False Some show ?thesis by (simp add: Let_def lst1_def s1_def del: not_None_eq)
    qed
  qed
qed simp

lemma set_arr_put: "set (arr_put k v xs) \<subseteq> insert (k, v) (set xs)"
  by (induction k v xs rule: arr_put.induct) auto

lemma ids_known_receive_event [intro]:
  assumes "ids_known s" shows "ids_known (receive_event w s)"
proof (cases "row_skipped w")
  case False
  let ?s = "receive_event w s"
  have ev: "event_of ?s i = (if i = w_id w then Some (event_of_row w) else event_of s i)" for i
    using assms False by (auto simp: receive_event_def event_of_def ids_known_def map_of_arr_put)
  have "event_of ?s i \<noteq> None" if m: "(mon, is) \<in> set (rd_for_monitor ?s)" and i: "i \<in> set is" for mon "is" i
  proof (cases "(mon, is) \<in> set (rd_for_monitor s)")
    case True
    then show ?thesis using assms i ev unfolding ids_known_def by auto
  next
    case new: False
    then have "is = ids_of_monitor s (w_monitor w) @ [w_id w]"
      using m False set_arr_put by (fastforce simp: receive_event_def)
    then show ?thesis using i ev ids_known_monitor[OF assms] by auto
  qed
  moreover have "e_id e = i" if "(i, e) \<in> set (rd_events ?s)" for i e
    using that False assms set_arr_put[of "w_id w" "event_of_row w" "rd_events s"]
    by (auto simp: receive_event_def ids_known_def event_of_row_def)
  ultimately show ?thesis using assms False unfolding ids_known_def by (auto simp: receive_event_def)
qed (use assms in \<open>simp add: receive_event_def\<close>)

lemma ids_known_receive_events [intro]: "ids_known s \<Longrightarrow> ids_known (receive_events rsp s)"
  unfolding receive_events_def
  by (auto split: events_reply.splits list.splits simp del: fold_simps intro!: ids_known_loadFrames ids_known_fold)

lemma ids_known_find [intro]: "ids_known s \<Longrightarrow> ids_known (snd (findFrameByTime e t s))"
  by (auto simp: findFrameByTime_def Let_def split: option.splits)

lemma ids_known_refresh [intro]: "ids_known s \<Longrightarrow> ids_known (refreshOpenEventFrames now e s)"
  unfolding refreshOpenEventFrames_def by (cases "e_refreshed e") (auto intro!: ids_known_loadFrames ids_known_upd)

lemma ids_known_getFrame [intro]:
  assumes "ids_known s" shows "ids_known (snd (getFrame now mon t s))"
proof -
  have "ids_known s' \<Longrightarrow> ids_known (snd (case findFrameByTime e t s' of
      (Some f, s2) \<Rightarrow> (Some f, s2) | (None, s2) \<Rightarrow> (g, s2)))" for s' :: "'a review_data_scheme" and e g
    using ids_known_find[of s' e t] by (auto split: prod.splits option.splits)
  with assms show ?thesis
    unfolding getFrame_def Let_def
    by (auto split: option.split list.split intro!: ids_known_loadFrames ids_known_refresh)
qed

text \<open>What happens to the data: replies in any order, and lookups.\<close>

inductive data_run :: "review_data \<Rightarrow> bool" where
  empty: "data_run \<lparr>rd_events = [], rd_for_monitor = [], rd_max = m, rd_log = l\<rparr>"
| events: "data_run s \<Longrightarrow> data_run (receive_events rsp s)"
| frames: "data_run s \<Longrightarrow> data_run (receive_frames rs None s)"
| look: "data_run s \<Longrightarrow> data_run (snd (getFrame now mon t s))"

lemma data_run_known: "data_run s \<Longrightarrow> ids_known s"
  by (induction rule: data_run.induct) (auto, simp add: ids_known_def arr_ok_def)

text \<open>
  C11. Whatever has been received, and in whatever order the events came, the event selected for a
  monitor at a time is one of that monitor that was being recorded then, and none is selected
  only when there is none. The binary search alone has this only for events in order that
  do not overlap, which is the second part.
\<close>
theorem event_at_correct:
  assumes "data_run s"
  shows "(\<forall>e. event_at s mon t = Some e \<longrightarrow> (\<exists>i \<in> set (ids_of_monitor s mon). event_of s i = Some e \<and> covers (rd_max s) t e))
     \<and> (event_at s mon t = None \<longleftrightarrow> (\<forall>e \<in> set (events_of_monitor s mon). \<not> covers (rd_max s) t e))
     \<and> (in_order (rd_max s) (events_of_monitor s mon)
        \<longrightarrow> event_at s mon t = findEventByTime (rd_max s) (events_of_monitor s mon) t)"
proof -
  have known: "\<forall>i \<in> set (ids_of_monitor s mon). event_of s i \<noteq> None"
    using ids_known_monitor[OF data_run_known[OF assms]] by blast
  note scan = scan_events_iff[OF known]
  have 1: "event_at s mon t = Some e \<Longrightarrow> \<exists>i \<in> set (ids_of_monitor s mon). event_of s i = Some e \<and> covers (rd_max s) t e" for e
    using scan(2)[of t e] findEventByTime_sound[of "rd_max s" "events_of_monitor s mon" t]
    by (auto simp: event_at_def in_events_of_monitor split: option.splits)
  have 2: "event_at s mon t = None \<longleftrightarrow> (\<forall>e \<in> set (events_of_monitor s mon). \<not> covers (rd_max s) t e)"
  proof
    assume "event_at s mon t = None"
    then have "scan_events s t (ids_of_monitor s mon) = None" by (auto simp: event_at_def split: option.splits)
    with scan(1)[of t] show "\<forall>e \<in> set (events_of_monitor s mon). \<not> covers (rd_max s) t e"
      by (fastforce simp: in_events_of_monitor)
  next
    assume "\<forall>e \<in> set (events_of_monitor s mon). \<not> covers (rd_max s) t e"
    with 1 show "event_at s mon t = None" by (cases "event_at s mon t") (auto simp: in_events_of_monitor)
  qed
  have 3: "event_at s mon t = findEventByTime (rd_max s) (events_of_monitor s mon) t"
    if "in_order (rd_max s) (events_of_monitor s mon)"
    using 2 findEventByTime_iff[OF that, of t] by (auto simp: event_at_def split: option.splits)
  from 1 2 3 show ?thesis by blast
qed

section \<open>Asking for frames in batches\<close>

lemma frame_query_append: "frame_query (xs @ ys) = frame_query xs @ frame_query ys"
  by (simp add: frame_query_def)

lemma frame_batches_concat: "acc = [] \<or> is \<noteq> [] \<Longrightarrow> concat (frame_batches acc is) = acc @ is"
  by (induction acc "is" rule: frame_batches.induct) (auto simp: Let_def)

lemma frame_batches_bound:
  "length (frame_query acc) \<le> 1000 \<Longrightarrow> b \<in> set (frame_batches acc is) \<Longrightarrow>
     b \<noteq> [] \<and> length (frame_query (butlast b)) \<le> 1000"
proof (induction acc "is" rule: frame_batches.induct)
  case (2 acc i "is")
  then show ?case by (auto simp: Let_def frame_query_def split: if_splits)
qed simp

lemma loadFrames_log:
  "rd_log (loadFrames is s) =
     rd_log s @ map AskedFrames (frame_batches [] (filter (\<lambda>i. case event_of s i of None \<Rightarrow> False | Some e \<Rightarrow> wants_frames e) is))"
proof -
  have asked: "rd_log (fold (\<lambda>b. rd_note (AskedFrames b)) bs s) = rd_log s @ map AskedFrames bs" for bs and s :: "'a review_data_scheme"
    by (induction bs arbitrary: s) (auto simp: rd_note_def)
  have marks: "rd_log (fold (\<lambda>i. upd_event i mark_loading) ids s) = rd_log s" for ids and s :: "'a review_data_scheme"
    by (induction ids arbitrary: s) (auto simp: upd_event_def)
  show ?thesis by (simp add: loadFrames_def Let_def asked marks)
qed

text \<open>
  The requests that \<open>loadFrames\<close> sends ask for each event whose frames are missing or can
  still grow exactly once, in order, and no request is longer than the limit before its
  last event is added.
\<close>
lemma loadFrames_asks_once:
  "\<exists>bs. rd_log (loadFrames is s) = rd_log s @ map AskedFrames bs
     \<and> concat bs = filter (\<lambda>i. case event_of s i of None \<Rightarrow> False | Some e \<Rightarrow> wants_frames e) is
     \<and> (\<forall>b \<in> set bs. b \<noteq> [] \<and> length (frame_query (butlast b)) \<le> 1000)"
  using frame_batches_concat[of "[]"] frame_batches_bound[of "[]"]
  by (intro exI[of _ "frame_batches [] (filter (\<lambda>i. case event_of s i of None \<Rightarrow> False | Some e \<Rightarrow> wants_frames e) is)"])
    (simp add: loadFrames_log frame_query_def)

section \<open>Looking twice\<close>

lemma arr_upd_frame_times:
  assumes "frame_search fs t 0 (int (length fs) - 1) = Some (k, f)" "f_time g = f_time f" "f_nextTime g = f_nextTime f" "arr_ok fs"
  shows "frame_search (arr_upd k (\<lambda>_. g) fs) t 0 (int (length fs) - 1) = Some (k, g)"
proof -
  have kf: "(k, f) \<in> set fs" using frame_search_sound[OF assms(1)] by simp
  have uniq: "h = f" if "(k, h) \<in> set fs" for h
  proof -
    have "distinct (map fst fs)" using assms(4) strict_sorted_iff[of "map fst fs"] unfolding arr_ok_def by blast
    then show ?thesis using kf that by (metis eq_key_imp_eq_value)
  qed
  show ?thesis
    unfolding arr_upd_def
    by (subst frame_search_cong) (use assms uniq in \<open>auto split: if_splits\<close>)
qed

text \<open>
  Looking up a time between a bulk frame and the next stored one renumbers the frame, so
  that looking the same time up again gives another frame number: with \<open>a\<close> the number found first,
  \<open>b\<close> the next stored one and \<open>x\<close> the fraction of the gap that has passed, the second
  lookup gives \<open>a + \<lfloor>(b - a) x\<rfloor>\<close>, although nothing has moved.
\<close>
lemma bulk_lookup_drifts:
  assumes "event_of s i = Some e" "e_id e = i" "e_frames e = Some fs" "arr_ok fs" "map_of fs n = Some nx" "n \<noteq> 0"
    and "frame_search fs t 0 (int (length fs) - 1) = Some (k, f)" "k \<noteq> n" "f_event f = i" "f_bulk f"
    and "f_next f = Some n" "f_nextTime f = Some t'" "f_time f < t" "t < t'"
    and "findFrameByTime e t s = (Some f1, s1)" "f_id f1 = Fin (of_int a)" "f_id nx = Fin (of_int b)" "a \<le> b"
  shows "\<exists>e1 f2. event_of s1 i = Some e1 \<and> fst (findFrameByTime e1 t s1) = Some f2
     \<and> f_id f2 = Fin (of_int (a + \<lfloor>of_int (b - a) * ((t - f_time f) / (t' - f_time f))\<rfloor>))"
proof -
  define g where "g = number_frame (Some e) t f"
  let ?s = "upd_frame i k (\<lambda>_. g) s"
  let ?fs = "arr_upd k (\<lambda>_. g) fs"
  have 1: "f1 = g" "s1 = ?s" using assms(1,2,3,7,9,15) by (auto simp: findFrameByTime_def g_def Let_def)
  let ?e1 = "e\<lparr>e_frames := Some ?fs\<rparr>"
  have e1: "event_of s1 i = Some ?e1" using assms(1,3) by (simp add: 1)
  have g: "f_time g = f_time f" "f_nextTime g = Some t'" "f_next g = Some n" "f_bulk g" "f_event g = i" "f_id g = Fin (of_int a)"
    using assms 1(1) by (auto simp: g_def)
  have found: "frame_search ?fs t 0 (int (length ?fs) - 1) = Some (k, g)"
    using arr_upd_frame_times[OF assms(7) g(1) _ assms(4)] g(2) assms(12) by (simp add: arr_upd_def)
  have nx: "map_of ?fs n = Some nx" using assms(5,8) by (simp add: map_of_arr_upd)
  define x where "x = of_int (b - a) * ((t - f_time f) / (t' - f_time f))"
  have x0: "0 \<le> x" unfolding x_def using assms(13,14,18) by (intro mult_nonneg_nonneg divide_nonneg_nonneg) auto
  have d: "t' - f_time f \<noteq> 0" using assms(13,14) by simp
  have "number_frame (event_of s1 i) t g = g\<lparr>f_id := interpolated g nx t\<rparr>"
    using e1 nx g assms(6,13) by (simp add: number_frame_def)
  moreover have "interpolated g nx t = Fin (of_int (a + \<lfloor>x\<rfloor>))"
    using g assms(13,14,17) d x0
    by (simp add: interpolated_def num_opt_def num_sub_def trunc_def x_def)
  ultimately have "fst (findFrameByTime ?e1 t s1) = Some (g\<lparr>f_id := Fin (of_int (a + \<lfloor>x\<rfloor>))\<rparr>)"
    using found g by (simp add: findFrameByTime_def Let_def)
  with e1 show ?thesis unfolding x_def by auto
qed

section \<open>Concrete runs\<close>

definition demo_data :: review_data where
  "demo_data = receive_events (Events [\<lparr>w_id = 5, w_monitor = 1, w_start = 100, w_end = Some 103, w_closed = False, w_frames = Some 60\<rparr>,
       \<lparr>w_id = 4, w_monitor = 1, w_start = 20, w_end = Some 90, w_closed = True, w_frames = Some 9\<rparr>])
     \<lparr>rd_events = [], rd_for_monitor = [], rd_max = 500, rd_log = []\<rparr>"

definition demo_rows :: "frame_row list" where
  "demo_rows = [\<lparr>r_id = 1, r_event = 5, r_time = 100, r_bulk = True, r_score = 0\<rparr>,
     \<lparr>r_id = 51, r_event = 5, r_time = 110, r_bulk = True, r_score = 7\<rparr>]"

definition demo_event :: zm_event where
  "demo_event = \<lparr>e_id = 5, e_monitor = 1, e_start = 100, e_end = None, e_closed = False, e_frames = Some [],
     e_newest = None, e_refreshed = None\<rparr>"

lemma demo_data_run: "data_run demo_data"
  unfolding demo_data_def by (intro data_run.events data_run.empty)

lemma demo_data_event: "event_of demo_data 5 = Some demo_event"
  by code_simp

theorem event_at_correct_witness:
  "event_at demo_data 1 105 = Some demo_event \<and> covers (rd_max demo_data) 105 demo_event"
proof -
  have found: "event_at demo_data 1 105 = Some demo_event" by code_simp
  moreover have "covers (rd_max demo_data) 105 demo_event"
    using event_at_correct[OF demo_data_run, of 1 105] found by blast
  ultimately show ?thesis ..
qed

definition drift_state :: review_data where
  "drift_state = receive_frames demo_rows None demo_data"

definition drift_event :: zm_event where "drift_event = the (event_of drift_state 5)"
definition drift_frames :: "(nat \<times> frame) list" where "drift_frames = the (e_frames drift_event)"
definition drift_next :: frame where "drift_next = the (map_of drift_frames 51)"
definition drift_frame :: frame where "drift_frame = the (map_of drift_frames 1)"

lemma drift_facts:
  "event_of drift_state 5 = Some drift_event" "e_id drift_event = 5" "e_frames drift_event = Some drift_frames"
  "map_of drift_frames 51 = Some drift_next" "(51 :: nat) \<noteq> 0"
  "frame_search drift_frames 105 0 (int (length drift_frames) - 1) = Some (1, drift_frame)" "(1 :: nat) \<noteq> 51"
  "f_event drift_frame = 5" "f_bulk drift_frame" "f_next drift_frame = Some 51" "f_nextTime drift_frame = Some 110"
  "f_time drift_frame < 105" "(105 :: rat) < 110" "f_id drift_next = Fin (of_int 51)"
  by code_simp+

lemma drift_ok: "arr_ok drift_frames"
  by (simp add: drift_frames_def drift_event_def drift_state_def arr_ok_def) code_simp

definition drift_looked :: "frame option \<times> review_data" where
  "drift_looked = findFrameByTime drift_event 105 drift_state"

lemma drift_first: "fst drift_looked = Some (drift_frame\<lparr>f_id := Fin (of_int 26)\<rparr>)"
  by code_simp

lemma drift_first_id: "f_id (drift_frame\<lparr>f_id := Fin (of_int 26)\<rparr>) = Fin (of_int 26)"
  by simp

text \<open>Frame 26 the first time, 38 the second.\<close>

end
