(* ===== verification/Montage_Review.thy ===== *)
theory Montage_Review
  imports Event_Stream Review_Frames
begin

text \<open>
  The montage review page (\<^verbatim>\<open>web/skins/classic/views/js/montagereview.js\<close>): one clock, moved by a
  timer or dragged on the timeline, that drives one event stream per monitor (the
  \<open>estream\<close> of \<^verbatim>\<open>Event_Stream\<close>) at the normal and fast speeds and single images below
  them. Drawing is reduced to the positions that are computed for it.
  \<^verbatim>\<open>Date.now()\<close> read twice in one handler is one instant.
\<close>

section \<open>State\<close>

text \<open>
  What the page is given: the instant, the random keys of new connections, the browser's
  resolution of an address, the address of the zms that serves an event, the two
  functions that print a time in the server's zone (library luxon), and its calendar
  arithmetic.
\<close>

record review_env =
  v_now :: nat
  v_rnd :: "nat \<Rightarrow> nat"
  v_resolve :: "string \<Rightarrow> string"
  v_zms :: "zm_event \<Rightarrow> nat \<Rightarrow> string"
  v_inputstr :: "rat \<Rightarrow> string"
  v_dbstr :: "rat \<Rightarrow> string"
  v_plusDays :: "int \<Rightarrow> rat \<Rightarrow> rat"

record mon_img =
  i_src :: string
  i_staged :: string
  i_loading :: bool
  i_startms :: nat
  i_endms :: nat

text \<open>
  The time of the last tick is 0 before the first one. \<open>rv_indexText\<close>: the speed was set with
  the slider, whose value is text. \<open>rv_syncs\<close> counts the syncs that are still to come; \<open>rv_requests\<close> holds the event requests that run.
\<close>

record review = review_data +
  rv_monitors :: "nat list"
  rv_names :: "(nat \<times> string) list"
  rv_streams :: "(nat \<times> estream) list"
  rv_images :: "(nat \<times> mon_img) list"
  rv_auth :: zm_auth
  rv_active :: bool
  rv_scrub :: bool
  rv_mouse :: bool
  rv_live :: bool
  rv_min :: rat
  rv_range :: rat
  rv_cur :: rat
  rv_speed :: rat
  rv_index :: nat
  rv_indexText :: bool
  rv_lastFire :: nat
  rv_timer :: "rat option"
  rv_interval :: "rat option"
  rv_display :: rat
  rv_loads :: "rat list"
  rv_drift :: "(nat \<times> nat) list"
  rv_syncs :: nat
  rv_width :: "(nat \<times> rat) list"
  rv_canvas :: "(nat \<times> rat) list"
  rv_norm :: "(nat \<times> rat) list"
  rv_zoom :: "(nat \<times> rat) list"
  rv_fit :: bool
  rv_requests :: "(nat \<times> nat) list"
  rv_generation :: nat
  rv_waiting :: bool

definition speeds :: "rat list" where
  "speeds = [0, 1/10, 1/4, 1/2, 3/4, 1, 3/2, 2, 3, 5, 10, 20, 50]"

definition streamDriftThreshold :: rat where "streamDriftThreshold = 2"
definition driftCorrectionCooldown :: nat where "driftCorrectionCooldown = 3000"
definition imageLoadTimesNeeded :: nat where "imageLoadTimesNeeded = 15"

definition stream_of :: "review \<Rightarrow> nat \<Rightarrow> estream option" where
  "stream_of s mon = map_of (rv_streams s) mon"

definition upd_stream :: "nat \<Rightarrow> (estream \<Rightarrow> estream) \<Rightarrow> review \<Rightarrow> review" where
  "upd_stream mon f s = s\<lparr>rv_streams := arr_upd mon f (rv_streams s)\<rparr>"

definition upd_image :: "nat \<Rightarrow> (mon_img \<Rightarrow> mon_img) \<Rightarrow> review \<Rightarrow> review" where
  "upd_image mon f s = s\<lparr>rv_images := arr_upd mon f (rv_images s)\<rparr>"

definition image_of :: "review \<Rightarrow> nat \<Rightarrow> mon_img" where
  "image_of s mon = (case map_of (rv_images s) mon of Some i \<Rightarrow> i
     | None \<Rightarrow> \<lparr>i_src = [], i_staged = [], i_loading = False, i_startms = 0, i_endms = 0\<rparr>)"

definition event_for :: "review \<Rightarrow> nat \<Rightarrow> rat \<Rightarrow> zm_event option" where
  "event_for s mon time =
     (if ids_of_monitor s mon = [] then None else findEventByTime (rd_max s) (events_of_monitor s mon) time)"

section \<open>The streams\<close>

definition stream_options :: "review \<Rightarrow> rat \<Rightarrow> es_options" where
  "stream_options s time = \<lparr>o_time = JNum (Fin time), o_frame = JUndef, o_rate = JNum (Fin (100 * rv_speed s)),
     o_replay = JUndef, o_maxfps = JNum (Fin 15)\<rparr>"

definition stream_follows :: "review_env \<Rightarrow> rat \<Rightarrow> nat \<Rightarrow> review \<Rightarrow> review" where
  "stream_follows env time mon s = (case stream_of s mon of
     None \<Rightarrow> s
   | Some es \<Rightarrow> (case event_for s mon time of
       None \<Rightarrow> rd_note (Wrote mon ''No Event'') (if started es then upd_stream mon es_stop s else s)
     | Some ev \<Rightarrow>
         if \<not> started es then
           upd_stream mon (es_start (v_rnd env mon) (nat_to_str (e_id ev)) (stream_options s time)) s
         else if currentEventId es \<noteq> nat_to_str (e_id ev) then
           upd_stream mon (switchEvent (v_rnd env mon) (nat_to_str (e_id ev)) (stream_options s time)) s
         else if rv_scrub s then upd_stream mon (seek (max 0 (time - e_start ev))) s
         else s))"

definition sync_one :: "rat \<Rightarrow> nat \<Rightarrow> review \<Rightarrow> review" where
  "sync_one time mon s = (case stream_of s mon of
     None \<Rightarrow> s
   | Some es \<Rightarrow>
       if \<not> started es then s
       else (case event_for s mon time of
           None \<Rightarrow> s
         | Some ev \<Rightarrow> upd_stream mon (seek (max 0 (time - e_start ev))) s))"

definition syncEventStreamsToTime :: "rat \<Rightarrow> review \<Rightarrow> review" where
  "syncEventStreamsToTime time s = fold (sync_one time) (rv_monitors s) s"

text \<open>\<open>f\<close> on every stream of the page that runs.\<close>

definition on_running :: "(estream \<Rightarrow> estream) \<Rightarrow> review \<Rightarrow> review" where
  "on_running f s = fold (\<lambda>mon. upd_stream mon (\<lambda>es. if started es then f es else es)) (rv_monitors s) s"

section \<open>Single images\<close>

definition frame_number :: "zm_event \<Rightarrow> frame \<Rightarrow> rat \<Rightarrow> js_num option" where
  "frame_number e f time = (case f_next f of
     None \<Rightarrow> Some (f_id f)
   | Some n \<Rightarrow>
      if n = 0 then Some (f_id f)
      else (case e_frames e of
          None \<Rightarrow> None
        | Some fs \<Rightarrow> (case map_of fs n of
            None \<Rightarrow> Some NaN
          | Some nx \<Rightarrow> Some (if f_bulk nx then interpolated f nx time else f_id f))))"

text \<open>\<^verbatim>\<open>undefined\<close> is \<open>None\<close>.\<close>

definition getImageSource :: "review_env \<Rightarrow> nat \<Rightarrow> rat \<Rightarrow> nat \<Rightarrow> review \<Rightarrow> string option \<times> review" where
  "getImageSource env mon time scale s =
     (if rv_live s then
        (Some (ZMAuth_applyTo (rv_auth s) (addOrUpdateRandParam (v_now env) (i_src (image_of s mon))) JUndef), s)
      else (case getFrame (v_now env) mon time s of
        (None, s1) \<Rightarrow> (Some [], s1)
      | (Some f, s1) \<Rightarrow> (case event_of s1 (f_event f) of
          None \<Rightarrow> (Some [], s1)
        | Some e \<Rightarrow> (case frame_number e f time of
            None \<Rightarrow> (Some [], s1)
          | Some fid \<Rightarrow>
              (if num_trunc fid = NaN \<or> num_trunc fid = Fin 0 then (None, s1)
               else (Some (ZMAuth_appendTo (rv_auth s1)
                 (v_zms env e mon @ ''?mode=single&event='' @ nat_to_str (f_event f) @ ''&time='' @ rat_to_str time
                  @ ''&scale='' @ nat_to_str scale @ ''&monitor='' @ nat_to_str mon @ ''&frames=1&rate=''
                  @ rat_to_str (100 * speeds ! rv_index s1))), s1))))))"

definition loadImage2Monitor :: "review_env \<Rightarrow> nat \<Rightarrow> string option \<Rightarrow> review \<Rightarrow> review" where
  "loadImage2Monitor env mon url s =
     (let img = image_of s mon; differs = (url \<noteq> Some (i_src img));
          text = (case url of Some u \<Rightarrow> u | None \<Rightarrow> ''undefined'')
      in if i_loading img \<and> differs then upd_image mon (\<lambda>i. i\<lparr>i_staged := text\<rparr>) s
         else if \<not> differs then s
         else if text = ''no data'' then rd_note (Wrote mon ''No Event'') s
         else upd_image mon (\<lambda>i. i\<lparr>i_loading := True, i_startms := v_now env, i_src := v_resolve env text\<rparr>) s)"

definition streamScaleForMonitor :: "review \<Rightarrow> nat \<Rightarrow> nat" where
  "streamScaleForMonitor s mon = (case (map_of (rv_canvas s) mon, map_of (rv_width s) mon) of
     (Some c, Some w) \<Rightarrow>
       if w = 0 then 100
       else nat (min 100 (max 10 (10 * \<lceil>100 * c / w / 10\<rceil>)))
   | _ \<Rightarrow> 100)"

definition updateStreamScales :: "review \<Rightarrow> review" where
  "updateStreamScales s = fold (\<lambda>mon s. case stream_of s mon of
       None \<Rightarrow> s
     | Some es \<Rightarrow> (let sc = JNum (Fin (of_nat (streamScaleForMonitor s mon)))
         in if es_scale es = sc then s else upd_stream mon (es_setScale sc) s)) (rv_monitors s) s"

definition show_frame :: "review_env \<Rightarrow> rat \<Rightarrow> nat \<Rightarrow> review \<Rightarrow> review" where
  "show_frame env time mon s =
     (case getImageSource env mon time (streamScaleForMonitor s mon) s of (src, s1) \<Rightarrow> loadImage2Monitor env mon src s1)"

definition outputUpdate :: "review_env \<Rightarrow> rat \<Rightarrow> review \<Rightarrow> review" where
  "outputUpdate env time s =
     (let s1 = (if rd_events s = [] then s
                else if rv_active s \<and> rv_speed s \<ge> 1 then fold (stream_follows env time) (rv_monitors s) s
                else fold (show_frame env time) (rv_monitors s) s)
      in s1\<lparr>rv_cur := time\<rparr>)"

section \<open>Load times\<close>

definition load_multiplier :: "rat \<Rightarrow> rat" where
  "load_multiplier avg =
     (if avg \<ge> 9/10 then 1/2 else if avg \<ge> 8/10 then 55/100 else if avg \<ge> 7/10 then 6/10 else if avg \<ge> 6/10 then 65/100
      else if avg \<ge> 5/10 then 7/10 else if avg \<ge> 4/10 then 8/10 else if avg \<ge> 35/100 then 9/10 else if avg \<ge> 3/10 then 1
      else if avg \<ge> 25/100 then 12/10 else if avg \<ge> 2/10 then 15/10 else if avg \<ge> 1/10 then 2 else 25/10)"

text \<open>The first start and the last end; 0 is unset, also where a start is 0 by chance.\<close>

fun load_span :: "(nat \<times> nat) list \<Rightarrow> nat \<Rightarrow> nat \<Rightarrow> (nat \<times> nat) option" where
  "load_span [] a b = Some (a, b)"
| "load_span ((st, en) # xs) a b =
     (if en = 0 then None
      else load_span xs (if a = 0 \<or> a > st then st else a) (if b = 0 \<or> b < en then en else b))"

definition evaluateLoadTimes :: "review \<Rightarrow> review" where
  "evaluateLoadTimes s =
     (if \<not> rv_live s \<and> rv_speed s = 0 then s
      else (case load_span [(i_startms (image_of s m), i_endms (image_of s m)).
                            m \<leftarrow> map fst (filter (\<lambda>(m, n). n \<noteq> []) (rv_names s))] 0 0 of
        None \<Rightarrow> s
      | Some (a, b) \<Rightarrow>
          if a = 0 \<or> b = 0 then s
          else (let s1 = fold (\<lambda>m. upd_image m (\<lambda>i. i\<lparr>i_startms := 0, i_endms := 0\<rparr>)) (rv_monitors s) s;
                    l = rv_loads s1 @ [1 - (of_nat b - of_nat a) / rv_display s1]
                in if length l < imageLoadTimesNeeded then s1\<lparr>rv_loads := l\<rparr>
                   else (let avg = sum_list l / of_nat (length l)
                         in s1\<lparr>rv_loads := [],
                               rv_display := clamp 40 10000 (of_int (math_round (rv_display s1 * load_multiplier avg * 10)) / 10)\<rparr>))))"

definition imagedone :: "review_env \<Rightarrow> nat \<Rightarrow> bool \<Rightarrow> review \<Rightarrow> review" where
  "imagedone env mon success s =
     (let s1 = (if success then evaluateLoadTimes (upd_image mon (\<lambda>i. i\<lparr>i_endms := v_now env\<rparr>) s) else s);
          s2 = upd_image mon (\<lambda>i. i\<lparr>i_loading := False\<rparr>) s1
      in if success then s2
         else rd_note (Wrote mon (if rv_live s2 then ''Camera Offline'' else ''No event'')) s2)"

section \<open>The clock\<close>

definition apply_speed :: "review_env \<Rightarrow> nat \<Rightarrow> bool \<Rightarrow> review \<Rightarrow> review" where
  "apply_speed env idx txt s =
     (let s1 = rd_note (Cookie ''speed'' (rat_to_str (speeds ! idx)))
                 (s\<lparr>rv_speed := speeds ! idx, rv_index := idx, rv_indexText := txt, rv_lastFire := v_now env\<rparr>)
      in if \<not> rv_active s1 then s1
         else if rv_speed s1 \<ge> 1 then
           (on_running (\<lambda>es. let e1 = setRate (JNum (Fin (100 * rv_speed s1))) es
                              in if paused e1 then es_play e1 else e1) s1)\<lparr>rv_syncs := rv_syncs s1 + 1\<rparr>
         else on_running es_stop s1)"

definition index_truthy :: "review \<Rightarrow> bool" where
  "index_truthy s \<longleftrightarrow> rv_index s \<noteq> 0 \<or> rv_indexText s"

definition stop_interval :: "review \<Rightarrow> review" where
  "stop_interval s = (if rv_interval s \<noteq> Some (rv_display s) \<or> rv_speed s = 0
     then s\<lparr>rv_timer := None, rv_interval := Some (rv_display s)\<rparr> else s)"

definition play_secs :: "review_env \<Rightarrow> review \<Rightarrow> rat" where
  "play_secs env s = (if rv_lastFire s \<noteq> 0 then rv_speed s * (of_nat (v_now env) - of_nat (rv_lastFire s)) / 1000 else 0)"

definition start_interval :: "review \<Rightarrow> review" where
  "start_interval s = (if (rv_speed s > 0 \<or> rv_live s) \<and> rv_timer s = None then s\<lparr>rv_timer := rv_interval s\<rparr> else s)"

lemma index_apply_speed [simp]: "index_truthy (apply_speed env 0 False s) = False"
proof -
  have upd: "rv_index (upd_stream m f s) = rv_index s" "rv_indexText (upd_stream m f s) = rv_indexText s" for m f s
    by (simp_all add: upd_stream_def)
  have "rv_index (fold (\<lambda>m. upd_stream m (g m)) xs s) = rv_index s
      \<and> rv_indexText (fold (\<lambda>m. upd_stream m (g m)) xs s) = rv_indexText s" for xs g s
    by (induction xs arbitrary: s) (auto simp: upd)
  then show ?thesis by (simp add: apply_speed_def index_truthy_def on_running_def rd_note_def Let_def)
qed

lemma index_stop_interval [simp]:
  "index_truthy (stop_interval s) = index_truthy s" "index_truthy (s\<lparr>rv_lastFire := n\<rparr>) = index_truthy s"
  by (simp_all add: index_truthy_def stop_interval_def)

function timerFire :: "review_env \<Rightarrow> review \<Rightarrow> review" where
  "timerFire env s =
     (let s1 = stop_interval s; play = play_secs env s1; s2 = s1\<lparr>rv_lastFire := v_now env\<rparr>;
          s3 = (if rv_live s2 then s2
                else if rv_cur s2 + play \<ge> rd_max s2 then
                  (if index_truthy s2 then timerFire env (apply_speed env 0 False s2) else s2)
                else if play \<noteq> 0 \<or> rv_cur s2 = rv_min s2 then s2\<lparr>rv_cur := play + rv_cur s2\<rparr>
                else s2)
      in start_interval (outputUpdate env (rv_cur s3) s3))"
  by pat_completeness auto
termination by (relation "measure (\<lambda>(env, s). if index_truthy s then 1 else 0)") auto

declare timerFire.simps [simp del]

definition setSpeed :: "review_env \<Rightarrow> nat \<Rightarrow> bool \<Rightarrow> review \<Rightarrow> review" where
  "setSpeed env idx txt s = (if rv_live s then s else timerFire env (apply_speed env idx txt s))"

definition sync_fires :: "review \<Rightarrow> review" where
  "sync_fires s = (if rv_syncs s = 0 then s
     else syncEventStreamsToTime (rv_cur s) (s\<lparr>rv_syncs := rv_syncs s - 1\<rparr>))"

definition setLive :: "bool \<Rightarrow> review \<Rightarrow> review" where
  "setLive v s = rd_note (WentTo (if v then ''live=1'' else ''live=0''))
     (((if rv_active s then on_running es_stop s else s)\<lparr>rv_active := False\<rparr>)\<lparr>rv_timer := None, rv_live := v\<rparr>)"

section \<open>The timeline\<close>

text \<open>\<open>relx\<close> is the position of the pointer and \<open>w\<close> the width of the timeline.\<close>

definition mmove :: "review_env \<Rightarrow> rat \<Rightarrow> rat \<Rightarrow> review \<Rightarrow> review" where
  "mmove env w relx s =
     (if rv_mouse s then (let sec = rv_min s + rv_range s / w * relx in if sec \<noteq> 0 then outputUpdate env sec s else s) else s)"

definition mdown :: "review_env \<Rightarrow> rat \<Rightarrow> rat \<Rightarrow> review \<Rightarrow> review" where
  "mdown env w relx s =
     (let s1 = s\<lparr>rv_mouse := True, rv_scrub := True\<rparr>
      in mmove env w relx (if rv_active s1 then on_running es_pause s1 else s1))"

definition resume_streams :: "review \<Rightarrow> review" where
  "resume_streams s = (if rv_active s \<and> rv_speed s \<ge> 1 then on_running es_play (syncEventStreamsToTime (rv_cur s) s) else s)"

definition mup :: "review \<Rightarrow> review" where
  "mup s = resume_streams (s\<lparr>rv_mouse := False, rv_scrub := False\<rparr>)"

definition mout :: "review \<Rightarrow> review" where
  "mout s = (if rv_scrub s then resume_streams (s\<lparr>rv_mouse := False, rv_scrub := False\<rparr>) else s\<lparr>rv_mouse := False\<rparr>)"

definition tmove :: "review_env \<Rightarrow> rat \<Rightarrow> rat \<Rightarrow> review \<Rightarrow> review" where
  "tmove env w relx s = mmove env w relx (s\<lparr>rv_mouse := True\<rparr>)"

text \<open>The left side of the slider on a timeline of width \<open>w\<close>.\<close>

definition sliderWidth :: rat where "sliderWidth = 10"

definition slider_left :: "review \<Rightarrow> rat \<Rightarrow> rat \<Rightarrow> js_num" where
  "slider_left s w val =
     (let x = num_trunc (num_sub (num_mul (num_div (Fin (val - rv_min s)) (Fin (rv_range s))) (Fin w)) (Fin (sliderWidth / 2)));
          x1 = (if num_lt x (Fin 0) then Fin 0 else x)
      in if num_lt (Fin w) (num_add x1 (Fin sliderWidth)) then Fin (w - sliderWidth - 1) else x1)"

text \<open>The pixels of an event: the left side and the width of its bar.\<close>

definition event_bar :: "review \<Rightarrow> rat \<Rightarrow> zm_event \<Rightarrow> int \<times> int" where
  "event_bar s w e =
     (let x1 = trunc ((e_start e - rv_min s) / rv_range s * w);
          x2 = trunc ((eventEndTimeSecs (rd_max s) e - rv_min s) / rv_range s * w + 1 / 2)
      in (x1, x2 - x1))"

definition frame_bar :: "review \<Rightarrow> rat \<Rightarrow> frame \<Rightarrow> (int \<times> int) option" where
  "frame_bar s w f =
     (if f_score f = 0 then None
      else (let x1 = trunc ((f_time f - rv_min s) / rv_range s * w);
                x2 = trunc ((f_time f - rv_min s) / rv_range s * w + 1 / 2)
            in Some (x1, (if x2 - x1 < 2 then x1 + 2 else x2) - x1)))"

section \<open>Drift\<close>

text \<open>A status of the monitor's stream: the event zms plays and how far it is in it.\<close>

definition stream_status :: "review_env \<Rightarrow> nat \<Rightarrow> rat option \<Rightarrow> nat option \<Rightarrow> review \<Rightarrow> review" where
  "stream_status env mon progress ev s =
     (if rv_scrub s \<or> \<not> rv_active s \<or> rv_speed s < 1 then s
      else (case (progress, ev) of
        (Some p, Some i) \<Rightarrow>
          if i = 0 then s
          else (case event_of s i of
             None \<Rightarrow> s
           | Some e \<Rightarrow>
               if e_start e = 0 \<or> \<bar>e_start e + p - rv_cur s\<bar> \<le> streamDriftThreshold
                 \<or> (case map_of (rv_drift s) mon of None \<Rightarrow> False
                      | Some t \<Rightarrow> t \<noteq> 0 \<and> int (v_now env) - int t \<le> int driftCorrectionCooldown) then s
               else (let s1 = s\<lparr>rv_drift := arr_put mon (v_now env) (rv_drift s)\<rparr>
                     in case event_for s1 mon (rv_cur s1) of
                          None \<Rightarrow> s1
                        | Some tgt \<Rightarrow>
                            if e_id tgt = i then upd_stream mon (seek (max 0 (rv_cur s1 - e_start tgt))) s1
                            else upd_stream mon (switchEvent (v_rnd env mon) (nat_to_str (e_id tgt)) (stream_options s1 (rv_cur s1))) s1))
      | _ \<Rightarrow> s))"

section \<open>The window\<close>

record nav_form =
  n_view :: string
  n_scale :: string
  n_speed :: nat

text \<open>The seconds of the epoch now; a window that ends later is cut off there.\<close>

definition now_secs :: "review_env \<Rightarrow> rat" where
  "now_secs env = of_int \<lfloor>of_nat (v_now env) / 1000 :: rat\<rfloor>"

definition zoom_params :: "review \<Rightarrow> string" where
  "zoom_params s = concat (map (\<lambda>mon. case map_of (rv_zoom s) mon of
       None \<Rightarrow> []
     | Some z \<Rightarrow> if z < 99/100 \<or> z > 101/100 then ''&z'' @ nat_to_str mon @ ''='' @ toFixed2 (Fin z) else []) (rv_monitors s))"

definition clicknav :: "review_env \<Rightarrow> nav_form \<Rightarrow> rat \<Rightarrow> rat \<Rightarrow> bool \<Rightarrow> review \<Rightarrow> review" where
  "clicknav env form minSecs maxSecs live s =
     (let mx = (if minSecs > 0 \<and> maxSecs > now_secs env then now_secs env else maxSecs);
          s1 = (if minSecs > 0 then
                  rd_note (Cookie ''zmFilter_EndDateTime'' (v_dbstr env mx))
                    (rd_note (Cookie ''zmFilter_StartDateTime'' (v_dbstr env minSecs)) s)
                else s);
          every = (mx = 0 \<and> minSecs = 0);
          maxStr = (if every then ''&maxTime=2035-12-31+12:00:00'' else if minSecs > 0 then ''&maxTime='' @ v_inputstr env mx else []);
          minStr = (if every then ''&minTime=1950-01-01+12:00:00'' else if minSecs > 0 then ''&minTime='' @ v_inputstr env minSecs else []);
          currentStr = (if minSecs \<noteq> 0 \<and> mx \<noteq> 0 \<and> rv_cur s > minSecs \<and> rv_cur s < mx
                        then ''&current='' @ v_dbstr env (rv_cur s) else [])
      in rd_note (WentTo (''?view='' @ n_view form @ ''&fit='' @ (if rv_fit s then ''1'' else ''0'') @ minStr @ maxStr @ currentStr
           @ ''&displayinterval='' @ rat_to_str (rv_display s) @ (if live then ''&live=1'' else ''&live=0'')
           @ zoom_params s @ ''&scale='' @ n_scale form @ ''&speed='' @ rat_to_str (speeds ! n_speed form))) s1)"

text \<open>The assignments of the zoom and pan buttons; each then goes to the window it has set.\<close>

definition set_window :: "rat \<Rightarrow> rat \<Rightarrow> rat \<Rightarrow> review \<Rightarrow> review" where
  "set_window r mn mx s = s\<lparr>rv_range := r, rv_min := mn, rd_max := mx\<rparr>"

definition centred :: "rat \<Rightarrow> review \<Rightarrow> review" where
  "centred r s = set_window r (of_int (trunc (rv_cur s - r / 2))) (of_int (trunc (rv_cur s + r / 2))) s"

definition go_to_window :: "review_env \<Rightarrow> nav_form \<Rightarrow> review \<Rightarrow> review" where
  "go_to_window env form s = clicknav env form (rv_min s) (rd_max s) False s"

definition click_zoomin :: "review_env \<Rightarrow> nav_form \<Rightarrow> review \<Rightarrow> review" where
  "click_zoomin env form s = go_to_window env form (centred (of_int (trunc (rv_range s / 2))) s)"

definition click_zoomout :: "review_env \<Rightarrow> nav_form \<Rightarrow> review \<Rightarrow> review" where
  "click_zoomout env form s = go_to_window env form (centred (of_int (trunc (rv_range s * 2))) s)"

definition click_panleft :: "review_env \<Rightarrow> nav_form \<Rightarrow> review \<Rightarrow> review" where
  "click_panleft env form s =
     (let mn = of_int (trunc (rv_min s - rv_range s / 2))
      in go_to_window env form ((set_window (rv_range s) mn (mn + rv_range s - 1) s)\<lparr>rv_cur := rv_cur s - rv_range s / 2\<rparr>))"

definition click_panright :: "review_env \<Rightarrow> nav_form \<Rightarrow> review \<Rightarrow> review" where
  "click_panright env form s =
     (let mn = of_int (trunc (rv_min s + rv_range s / 2))
      in go_to_window env form (set_window (rv_range s) mn (mn + rv_range s - 1) s))"

definition click_last :: "rat \<Rightarrow> review_env \<Rightarrow> nav_form \<Rightarrow> review \<Rightarrow> review" where
  "click_last secs env form s = clicknav env form (now_secs env - secs + 1) (now_secs env) False s"

definition click_all_events :: "review_env \<Rightarrow> nav_form \<Rightarrow> review \<Rightarrow> review" where
  "click_all_events env form s = clicknav env form 0 0 False s"

section \<open>The date fields\<close>

datatype changed_field = MinField | MaxField | OtherField

text \<open>
  The two fields hold times, or nothing that is a time. First the fields and the window that
  a change leaves, then the change with the reload that follows it.
\<close>

definition limit_window :: "review_env \<Rightarrow> changed_field \<Rightarrow> rat \<Rightarrow> rat \<Rightarrow> (rat \<times> rat) \<times> rat \<times> rat" where
  "limit_window env which mn mx = (case which of
     MinField \<Rightarrow>
       if mn > mx then ((mn, mn), mn, mn + 3600)
       else if mx - mn > 86400 then ((mn, v_plusDays env 1 mn), mn, v_plusDays env 1 mn)
       else ((mn, mx), mn, mx)
   | MaxField \<Rightarrow>
       if mn > mx then ((mx, mx), mx, mx)
       else if (mn - mx) * 1000 > 86400 * 1000 then ((v_plusDays env (- 1) mx, mx), v_plusDays env (- 1) mx, mx)
       else ((mn, mx), mn, mx)
   | OtherField \<Rightarrow> ((mn, mx), mn, mx))"

definition take_window :: "rat \<Rightarrow> rat \<Rightarrow> review \<Rightarrow> review" where
  "take_window mn mx s =
     (let s1 = set_window (mx - mn) mn mx s
      in s1\<lparr>rv_cur := (if rv_cur s1 < mn then mn else if rv_cur s1 > mx then mn else rv_cur s1)\<rparr>)"

definition review_loadEventData :: "review \<Rightarrow> review" where
  "review_loadEventData s =
     (let g = rv_generation s + 1;
          s1 = fold (\<lambda>mon. upd_image mon (\<lambda>i. i\<lparr>i_loading := False\<rparr>)) (rv_monitors s) s
      in s1\<lparr>rv_generation := g,
            rv_requests := (if rv_monitors s = [] then [(g, 0)] else map (\<lambda>mon. (g, mon)) (rv_monitors s))\<rparr>)"

definition review_events :: "nat \<times> nat \<Rightarrow> events_reply \<Rightarrow> review \<Rightarrow> review" where
  "review_events req rsp s =
     (if req \<in> set (rv_requests s) then receive_events rsp (s\<lparr>rv_requests := remove1 req (rv_requests s)\<rparr>) else s)"

definition wait_for_events :: "review_env \<Rightarrow> review \<Rightarrow> review" where
  "wait_for_events env s =
     (if rd_events s = [] then s\<lparr>rv_waiting := True\<rparr> else timerFire env (s\<lparr>rv_waiting := False\<rparr>))"

definition changeFilters :: "review_env \<Rightarrow> changed_field \<Rightarrow> (rat option \<times> rat option) option \<Rightarrow> review
    \<Rightarrow> (rat option \<times> rat option) option \<times> review" where
  "changeFilters env which inputs s =
     (let reload = (\<lambda>s1. wait_for_events env (review_loadEventData
            (s1\<lparr>rd_events := [], rd_for_monitor := map (\<lambda>(m, is). (m, [])) (rd_for_monitor s1), rv_timer := None\<rparr>)))
      in case inputs of
           None \<Rightarrow> (None, reload s)
         | Some (Some mn, Some mx) \<Rightarrow>
             (case limit_window env which mn mx of
               ((f1, f2), mn1, mx1) \<Rightarrow> (Some (Some f1, Some f2), reload (take_window mn1 mx1 s)))
         | _ \<Rightarrow> (inputs, s))"

section \<open>The monitors\<close>

definition setScale_page :: "rat \<Rightarrow> review \<Rightarrow> review" where
  "setScale_page newscale s =
     (let size = (\<lambda>mon w. w * the (map_of (rv_norm s) mon) * the (map_of (rv_zoom s) mon) * newscale)
      in updateStreamScales (s\<lparr>rv_canvas :=
           map (\<lambda>(m, c). (m, if m \<in> set (rv_monitors s) then size m (the (map_of (rv_width s) m)) else c)) (rv_canvas s)\<rparr>))"

definition monitor_url :: "review_env \<Rightarrow> nat \<Rightarrow> review \<Rightarrow> string \<times> review" where
  "monitor_url env mon s =
     (let watch = ''?view=watch&mid='' @ nat_to_str mon
      in if rv_live s then (watch, s)
         else (case getFrame (v_now env) mon (rv_cur s) s of
           (None, s1) \<Rightarrow> (watch, s1)
         | (Some f, s1) \<Rightarrow> (''?view=event&eid='' @ nat_to_str (f_event f) @ ''&fid='' @ num_to_str (f_id f), s1)))"

definition showOneMonitor :: "review_env \<Rightarrow> nat \<Rightarrow> review \<Rightarrow> review" where
  "showOneMonitor env mon s = (case monitor_url env mon s of (url, s1) \<Rightarrow> rd_note (WentTo url) s1)"

datatype monitor_click = ZoomBy rat | OpenMonitor

definition clickMonitor :: "rat \<Rightarrow> rat \<Rightarrow> rat \<Rightarrow> rat \<Rightarrow> monitor_click" where
  "clickMonitor w h x y =
     (if x < w / 4 \<and> y < h / 4 then ZoomBy (115/100)
      else if x > w * 3 / 4 \<and> y < h / 4 then ZoomBy (100/115)
      else OpenMonitor)"

section \<open>One operation on every monitor\<close>

text \<open>
  A loop over the monitors that touches one stream at a time and does not read what it
  changes does the same to each stream, whatever the order.
\<close>

locale stream_op =
  fixes step :: "nat \<Rightarrow> review \<Rightarrow> review"
    and act :: "review \<Rightarrow> nat \<Rightarrow> estream \<Rightarrow> estream"
  assumes step_stream: "stream_of (step mon s) m = (if m = mon then map_option (act s mon) (stream_of s m) else stream_of s m)"
    and step_act: "act (step mon s) = act s"
begin

lemma fold_stream:
  "distinct xs \<Longrightarrow> stream_of (fold step xs s) m =
     (if m \<in> set xs then map_option (act s m) (stream_of s m) else stream_of s m)"
  by (induction xs arbitrary: s) (auto simp: step_stream step_act)

end

lemma stream_of_upd [simp]:
  "stream_of (upd_stream mon f s) m = (if m = mon then map_option f (stream_of s m) else stream_of s m)"
  by (simp add: stream_of_def upd_stream_def map_of_arr_upd)

lemma stream_of_note [simp]: "stream_of (rd_note n s) = stream_of s"
  by (simp add: stream_of_def rd_note_def fun_eq_iff)

lemma event_of_cong: "rd_events s' = rd_events s \<Longrightarrow> event_of s' = event_of s"
  by (simp add: event_of_def fun_eq_iff)

lemma event_for_cong:
  "\<lbrakk>rd_events s' = rd_events s; rd_for_monitor s' = rd_for_monitor s; rd_max s' = rd_max s\<rbrakk>
     \<Longrightarrow> event_for s' = event_for s"
  using event_of_cong[of s' s]
  by (intro ext) (simp add: event_for_def events_of_monitor_def ids_of_monitor_def)

lemma event_for_upd [simp]: "event_for (upd_stream mon f s) = event_for s" "event_for (rd_note n s) = event_for s"
  by (rule event_for_cong; simp add: upd_stream_def rd_note_def)+

definition follow_act :: "review_env \<Rightarrow> rat \<Rightarrow> review \<Rightarrow> nat \<Rightarrow> estream \<Rightarrow> estream" where
  "follow_act env time s mon es = (case event_for s mon time of
     None \<Rightarrow> if started es then es_stop es else es
   | Some ev \<Rightarrow>
       if \<not> started es then es_start (v_rnd env mon) (nat_to_str (e_id ev)) (stream_options s time) es
       else if currentEventId es \<noteq> nat_to_str (e_id ev) then
         switchEvent (v_rnd env mon) (nat_to_str (e_id ev)) (stream_options s time) es
       else if rv_scrub s then seek (max 0 (time - e_start ev)) es else es)"

definition sync_act :: "rat \<Rightarrow> review \<Rightarrow> nat \<Rightarrow> estream \<Rightarrow> estream" where
  "sync_act time s mon es = (if \<not> started es then es
     else (case event_for s mon time of None \<Rightarrow> es | Some ev \<Rightarrow> seek (max 0 (time - e_start ev)) es))"

text \<open>What a step on one monitor leaves alone.\<close>

lemma stream_fields [simp]:
  "rv_speed (upd_stream m f s) = rv_speed s" "rv_scrub (upd_stream m f s) = rv_scrub s"
  "rv_speed (rd_note n s) = rv_speed s" "rv_scrub (rd_note n s) = rv_scrub s"
  by (simp_all add: upd_stream_def rd_note_def)

lemma stream_options_upd [simp]:
  "stream_options (upd_stream m f s) = stream_options s" "stream_options (rd_note n s) = stream_options s"
  by (simp_all add: stream_options_def fun_eq_iff)

interpretation follow: stream_op "stream_follows env time" "follow_act env time" for env time
proof
  show "stream_of (stream_follows env time mon s) m =
      (if m = mon then map_option (follow_act env time s mon) (stream_of s m) else stream_of s m)" for mon s m
    by (cases "stream_of s mon"; cases "event_for s mon time") (auto simp: stream_follows_def follow_act_def)
  show "follow_act env time (stream_follows env time mon s) = follow_act env time s" for mon s
  proof -
    have "follow_act env time t = follow_act env time s"
      if "event_for t = event_for s" "stream_options t = stream_options s" "rv_scrub t = rv_scrub s" for t
      unfolding fun_eq_iff follow_act_def that by blast
    moreover have "event_for (stream_follows env time mon s) = event_for s"
      "stream_options (stream_follows env time mon s) = stream_options s"
      "rv_scrub (stream_follows env time mon s) = rv_scrub s"
      by (cases "stream_of s mon"; cases "event_for s mon time"; simp add: stream_follows_def)+
    ultimately show ?thesis by blast
  qed
qed

interpretation sync: stream_op "sync_one time" "sync_act time" for time
proof
  show "stream_of (sync_one time mon s) m =
      (if m = mon then map_option (sync_act time s mon) (stream_of s m) else stream_of s m)" for mon s m
    by (cases "stream_of s mon"; cases "event_for s mon time") (auto simp: sync_one_def sync_act_def)
  show "sync_act time (sync_one time mon s) = sync_act time s" for mon s
  proof -
    have "sync_act time t = sync_act time s" if "event_for t = event_for s" for t
      unfolding fun_eq_iff sync_act_def that by blast
    moreover have "event_for (sync_one time mon s) = event_for s"
      by (cases "stream_of s mon"; cases "event_for s mon time"; simp add: sync_one_def)
    ultimately show ?thesis by blast
  qed
qed

interpretation running: stream_op "\<lambda>mon. upd_stream mon (\<lambda>es. if started es then f es else es)"
    "\<lambda>s mon es. if started es then f es else es" for f
  by unfold_locales auto

lemma on_running_stream:
  assumes "distinct (rv_monitors s)"
  shows "stream_of (on_running f s) m =
     (if m \<in> set (rv_monitors s) then map_option (\<lambda>es. if started es then f es else es) (stream_of s m) else stream_of s m)"
  unfolding on_running_def using running.fold_stream[OF assms, of f s m] by simp

section \<open>What a step leaves alone\<close>

text \<open>The events, the log, the streams and the images may differ.\<close>

definition page_rest :: "review \<Rightarrow> review" where
  "page_rest s = s\<lparr>rd_events := [], rd_log := [], rv_streams := [], rv_images := []\<rparr>"

definition same_page :: "review \<Rightarrow> review \<Rightarrow> bool" where
  "same_page s t \<longleftrightarrow> page_rest t = page_rest s"

lemma same_page_refl [simp]: "same_page s s"
  by (simp add: same_page_def)

lemma same_page_trans: "\<lbrakk>same_page s t; same_page t u\<rbrakk> \<Longrightarrow> same_page s u"
  by (simp add: same_page_def)

lemma same_page_fields:
  assumes "same_page s t"
  shows "rv_speed t = rv_speed s" "rv_index t = rv_index s" "rv_indexText t = rv_indexText s"
    "rv_lastFire t = rv_lastFire s" "rv_live t = rv_live s" "rd_max t = rd_max s"
    "rv_timer t = rv_timer s" "rv_interval t = rv_interval s" "rv_display t = rv_display s"
    "rv_active t = rv_active s" "rv_monitors t = rv_monitors s" "rv_min t = rv_min s"
    "rv_scrub t = rv_scrub s" "rd_for_monitor t = rd_for_monitor s" "rv_cur t = rv_cur s"
  using assms by (cases s; cases t; simp add: same_page_def page_rest_def)+

lemma same_page_ops [simp]:
  "same_page s (upd_stream m f s)" "same_page s (upd_image m g s)" "same_page s (rd_note n s)" "same_page s (upd_event i h s)"
  "same_page s (upd_frame i k u s)"
  by (simp_all add: upd_stream_def upd_image_def rd_note_def upd_event_def upd_frame_def same_page_def page_rest_def)

text \<open>
  What holds of the steps that a lookup is made of holds of the lookup, and of showing the frame
  it finds.
\<close>

locale kept_by_lookups =
  fixes kept :: "review \<Rightarrow> review \<Rightarrow> bool"
  assumes kept_refl [simp]: "kept s s"
    and kept_trans: "\<lbrakk>kept s t; kept t u\<rbrakk> \<Longrightarrow> kept s u"
    and kept_note [simp]: "kept s (rd_note n s)"
    and kept_event [simp]: "kept s (upd_event i h s)"
    and kept_image [simp]: "kept s (upd_image m g s)"
begin

lemma kept_fold: "(\<And>x s. kept s (f x s)) \<Longrightarrow> kept s (fold f xs s)"
proof (induction xs arbitrary: s)
  case (Cons x xs)
  then show ?case using kept_trans[of s "f x s"] by simp
qed simp

lemma kept_frame [simp]: "kept s (upd_frame i k u s)"
  by (simp add: upd_frame_def)

lemma kept_loadFrames [simp]: "kept s (loadFrames is s)"
  unfolding loadFrames_def Let_def
  by (rule kept_trans[OF kept_fold kept_fold]) auto

lemma kept_refresh [simp]: "kept s (refreshOpenEventFrames now e s)"
  unfolding refreshOpenEventFrames_def using kept_trans[OF kept_event kept_loadFrames] by auto

lemma kept_find [simp]: "kept s (snd (findFrameByTime e t s))"
  by (auto simp: findFrameByTime_def Let_def split: option.splits)

lemma kept_getFrame: "kept s (snd (getFrame now mon t s))"
proof -
  have "kept s u \<Longrightarrow> kept s (snd (case findFrameByTime e t u of (Some f, v) \<Rightarrow> (Some f, v) | (None, v) \<Rightarrow> (g, v)))" for u e g
    using kept_trans[OF _ kept_find[of u e t]] by (auto split: prod.splits option.splits)
  then show ?thesis unfolding getFrame_def Let_def by (auto split: option.split list.split)
qed

lemma kept_show [simp]: "kept s (show_frame env time mon s)"
proof -
  have src: "kept s (snd (getImageSource env mon time scale s))" for scale
    using kept_getFrame[of s "v_now env" mon time]
    by (auto simp: getImageSource_def split: prod.splits option.splits)
  have "kept u (loadImage2Monitor env mon url u)" for url u
    by (auto simp: loadImage2Monitor_def Let_def)
  with src show ?thesis
    unfolding show_frame_def by (auto split: prod.split) (metis kept_trans snd_conv)
qed

lemma kept_show_frames: "kept s (fold (show_frame env time) xs s)"
  by (rule kept_fold) simp

end

definition same_streams :: "review \<Rightarrow> review \<Rightarrow> bool" where
  "same_streams s t \<longleftrightarrow> rv_streams t = rv_streams s"

interpretation page: kept_by_lookups same_page
  by unfold_locales (auto intro: same_page_trans)

interpretation streams: kept_by_lookups same_streams
  by unfold_locales (auto simp: same_streams_def rd_note_def upd_event_def upd_image_def)

lemma same_page_follows [simp]: "same_page s (stream_follows env time mon s)"
proof -
  have "same_page s (rd_note n (upd_stream m f s))" for n m f
    by (rule same_page_trans[OF same_page_ops(1) same_page_ops(3)])
  then show ?thesis by (auto simp: stream_follows_def split: option.split)
qed

lemma outputUpdate_page:
  obtains u where "same_page s u" "outputUpdate env time s = u\<lparr>rv_cur := time\<rparr>"
proof -
  define u where "u = (if rd_events s = [] then s
     else if rv_active s \<and> rv_speed s \<ge> 1 then fold (stream_follows env time) (rv_monitors s) s
     else fold (show_frame env time) (rv_monitors s) s)"
  have "same_page s u" unfolding u_def by (simp add: page.kept_fold)
  moreover have "outputUpdate env time s = u\<lparr>rv_cur := time\<rparr>" by (simp add: outputUpdate_def u_def Let_def)
  ultimately show ?thesis by (rule that)
qed

lemma outputUpdate_fields [simp]:
  "rv_cur (outputUpdate env time s) = time" "rv_speed (outputUpdate env time s) = rv_speed s"
  "rv_index (outputUpdate env time s) = rv_index s" "rv_indexText (outputUpdate env time s) = rv_indexText s"
  "rv_lastFire (outputUpdate env time s) = rv_lastFire s" "rv_live (outputUpdate env time s) = rv_live s"
  "rd_max (outputUpdate env time s) = rd_max s" "rv_timer (outputUpdate env time s) = rv_timer s"
  "rv_interval (outputUpdate env time s) = rv_interval s" "rv_display (outputUpdate env time s) = rv_display s"
  "rv_active (outputUpdate env time s) = rv_active s" "rv_monitors (outputUpdate env time s) = rv_monitors s"
  "rv_min (outputUpdate env time s) = rv_min s"
  by (rule outputUpdate_page[of s env time]; simp add: same_page_fields)+

section \<open>The streams follow the clock\<close>

lemma es_start_state [simp]:
  "started (es_start r e opts s)" "currentEventId (es_start r e opts s) = e" "recoveryTimer (es_start r e opts s) = None"
  "img (es_start r e opts s) \<noteq> None"
  by (auto simp: es_start_def Let_def teardown_def streamCommand_def streamCmdReq_def split: option.split)

lemma switchEvent_state [simp]: "started (switchEvent r e opts s)" "currentEventId (switchEvent r e opts s) = e"
  by (simp_all add: switchEvent_def)

lemma es_stop_state [simp]: "\<not> started (es_stop s)"
  by (auto simp: es_stop_def teardown_def Let_def)

lemma seek_state [simp]: "started (seek x s) = started s" "currentEventId (seek x s) = currentEventId s"
  by (auto simp: seek_def streamCommand_def streamCmdReq_def split: option.split)

lemma outputUpdate_streams:
  assumes "rv_active s" "1 \<le> rv_speed s" "rd_events s \<noteq> []" "distinct (rv_monitors s)" "mon \<in> set (rv_monitors s)"
  shows "stream_of (outputUpdate env time s) mon = map_option (follow_act env time s mon) (stream_of s mon)"
  using assms follow.fold_stream[OF assms(4), of env time s mon] by (simp add: outputUpdate_def stream_of_def)

lemma event_for_covering:
  assumes "event_for s mon time = Some e"
  shows "e \<in> set (events_of_monitor s mon) \<and> covers (rd_max s) time e"
  using assms findEventByTime_sound[of "rd_max s" "events_of_monitor s mon" time e]
  by (auto simp: event_for_def split: if_splits)

lemma event_for_none:
  assumes "in_order (rd_max s) (events_of_monitor s mon)"
  shows "event_for s mon time = None \<longleftrightarrow> (\<forall>e \<in> set (events_of_monitor s mon). \<not> covers (rd_max s) time e)"
  using findEventByTime_iff[OF assms, of time]
  by (auto simp: event_for_def events_of_monitor_def map_filter_def)

text \<open>
  C6. At the normal and fast speeds, after every update of the page a monitor's stream that runs
  plays an event of that monitor whose recording began no later and ended no earlier than the
  slider's time; and where the monitor's events are in order and do not overlap, it runs exactly
  when there is such an event. (Where events overlap, the search may miss the one that is
  playing and the stream may stand still.)
\<close>
theorem streams_follow_slider:
  assumes "rv_active s" "1 \<le> rv_speed s" "rd_events s \<noteq> []" "distinct (rv_monitors s)" "mon \<in> set (rv_monitors s)"
    and "stream_of (outputUpdate env time s) mon = Some es"
  shows "(started es \<longrightarrow> (\<exists>e. e \<in> set (events_of_monitor s mon)
            \<and> e_start e \<le> time \<and> time \<le> eventEndTimeSecs (rd_max s) e \<and> currentEventId es = nat_to_str (e_id e)))
    \<and> (in_order (rd_max s) (events_of_monitor s mon) \<longrightarrow>
         started es = (\<exists>e. e \<in> set (events_of_monitor s mon)
            \<and> e_start e \<le> time \<and> time \<le> eventEndTimeSecs (rd_max s) e))"
proof -
  obtain es0 where es: "es = follow_act env time s mon es0"
    using outputUpdate_streams[OF assms(1-5), of env time] assms(6) by (cases "stream_of s mon") auto
  then have found: "started es = (event_for s mon time \<noteq> None)"
      "event_for s mon time = Some e \<Longrightarrow> currentEventId es = nat_to_str (e_id e)" for e
    by (cases "event_for s mon time"; auto simp: follow_act_def)+
  have 1: "\<exists>e. e \<in> set (events_of_monitor s mon) \<and> covers (rd_max s) time e \<and> currentEventId es = nat_to_str (e_id e)"
    if "started es" using that found event_for_covering[of s mon time] by (cases "event_for s mon time") auto
  have 2: "started es = (\<exists>e. e \<in> set (events_of_monitor s mon) \<and> covers (rd_max s) time e)"
    if "in_order (rd_max s) (events_of_monitor s mon)" using event_for_none[OF that, of time] found(1) by blast
  show ?thesis using 1 2 unfolding covers_def by blast
qed

section \<open>The clock follows real time\<close>

lemma timerFire_below:
  assumes "\<not> rv_live s" "rv_cur s + play_secs env s < rd_max s"
  shows "rv_cur (timerFire env s) = rv_cur s + play_secs env s" "rv_speed (timerFire env s) = rv_speed s"
    "rv_lastFire (timerFire env s) = v_now env" "rv_live (timerFire env s) = rv_live s" "rd_max (timerFire env s) = rd_max s"
proof -
  have st: "play_secs env (stop_interval s) = play_secs env s" "rv_live (stop_interval s) = rv_live s"
    "rv_cur (stop_interval s) = rv_cur s" "rd_max (stop_interval s) = rd_max s" "rv_speed (stop_interval s) = rv_speed s"
    "rv_min (stop_interval s) = rv_min s"
    by (simp_all add: stop_interval_def play_secs_def)
  have si: "rv_cur (start_interval t) = rv_cur t" "rv_speed (start_interval t) = rv_speed t"
    "rv_lastFire (start_interval t) = rv_lastFire t" "rv_live (start_interval t) = rv_live t" "rd_max (start_interval t) = rd_max t" for t
    by (simp_all add: start_interval_def)
  show "rv_cur (timerFire env s) = rv_cur s + play_secs env s" "rv_speed (timerFire env s) = rv_speed s"
    "rv_lastFire (timerFire env s) = v_now env" "rv_live (timerFire env s) = rv_live s" "rd_max (timerFire env s) = rd_max s"
    using assms by (subst timerFire.simps, simp add: st si Let_def)+
qed

definition ticks :: "review_env \<Rightarrow> nat list \<Rightarrow> review \<Rightarrow> review" where
  "ticks env ts s = fold (\<lambda>t. timerFire (env\<lparr>v_now := t\<rparr>)) ts s"

text \<open>
  C25. However late or irregularly the timer fires, playback runs at real time: after any
  ticks that stay inside the window the clock has advanced by the speed times the time that
  has passed since the last tick before them.
\<close>
theorem clock_follows_real_time:
  assumes "\<not> rv_live s" "0 < rv_lastFire s" "0 \<le> rv_speed s" "sorted (rv_lastFire s # ts)" "ts \<noteq> []"
    and "rv_cur s + rv_speed s * (of_nat (List.last ts) - of_nat (rv_lastFire s)) / 1000 < rd_max s"
  shows "rv_cur (ticks env ts s) = rv_cur s + rv_speed s * (of_nat (List.last ts) - of_nat (rv_lastFire s)) / 1000"
  using assms
proof (induction ts arbitrary: s)
  case (Cons t ts)
  let ?s = "timerFire (env\<lparr>v_now := t\<rparr>) s"
  have play: "play_secs (env\<lparr>v_now := t\<rparr>) s = rv_speed s * (of_nat t - of_nat (rv_lastFire s)) / 1000"
    using Cons.prems(2) by (simp add: play_secs_def)
  have "t \<le> List.last (t # ts)" using Cons.prems(4) by (cases "ts = []") auto
  then have "rv_speed s * (of_nat t - of_nat (rv_lastFire s)) / 1000
      \<le> rv_speed s * (of_nat (List.last (t # ts)) - of_nat (rv_lastFire s)) / 1000"
    using Cons.prems(3) by (intro divide_right_mono mult_left_mono) auto
  then have below: "rv_cur s + play_secs (env\<lparr>v_now := t\<rparr>) s < rd_max s" using Cons.prems(6) play by simp
  note f = timerFire_below[OF Cons.prems(1) below]
  show ?case
  proof (cases "ts = []")
    case True
    then show ?thesis using f play by (simp add: ticks_def)
  next
    case False
    have "rv_cur (ticks env ts ?s) = rv_cur ?s + rv_speed ?s * (of_nat (List.last ts) - of_nat (rv_lastFire ?s)) / 1000"
      using Cons.prems False f play by (intro Cons.IH) (auto simp: field_simps)
    then show ?thesis using f play False by (simp add: ticks_def field_simps)
  qed
qed simp

section \<open>Slow speeds\<close>

lemma on_running_fields [simp]:
  "rv_speed (on_running f s) = rv_speed s" "rv_active (on_running f s) = rv_active s" "rv_monitors (on_running f s) = rv_monitors s"
  "rv_live (on_running f s) = rv_live s"
proof -
  have "same_page s (on_running f s)" unfolding on_running_def by (rule page.kept_fold) simp
  then show "rv_speed (on_running f s) = rv_speed s" "rv_active (on_running f s) = rv_active s"
    "rv_monitors (on_running f s) = rv_monitors s" "rv_live (on_running f s) = rv_live s"
    by (simp_all add: same_page_fields)
qed

lemma stream_of_same [simp]:
  "stream_of (s\<lparr>rv_speed := a, rv_index := b, rv_indexText := c, rv_lastFire := d\<rparr>) = stream_of s"
  "stream_of (s\<lparr>rv_cur := x\<rparr>) = stream_of s" "stream_of (s\<lparr>rv_timer := y\<rparr>) = stream_of s"
  "stream_of (s\<lparr>rv_timer := y, rv_interval := z\<rparr>) = stream_of s" "stream_of (s\<lparr>rv_lastFire := d\<rparr>) = stream_of s"
  by (simp_all add: stream_of_def fun_eq_iff)

definition stop_if_running :: "estream \<Rightarrow> estream" where
  "stop_if_running es = (if started es then es_stop es else es)"

lemma stop_twice [simp]: "stop_if_running (stop_if_running es) = stop_if_running es"
  by (simp add: stop_if_running_def)

lemma apply_slow:
  assumes "distinct (rv_monitors s)" "rv_active s" "speeds ! idx < 1" "mon \<in> set (rv_monitors s)"
  shows "stream_of (apply_speed env idx txt s) mon = map_option stop_if_running (stream_of s mon)"
    "rv_speed (apply_speed env idx txt s) = speeds ! idx" "rv_active (apply_speed env idx txt s)"
    "rv_monitors (apply_speed env idx txt s) = rv_monitors s" "rv_live (apply_speed env idx txt s) = rv_live s"
  using assms on_running_stream[of "rd_note n (s\<lparr>rv_speed := speeds ! idx, rv_index := idx, rv_indexText := txt, rv_lastFire := v_now env\<rparr>)" es_stop mon for n]
  by (auto simp: apply_speed_def Let_def rd_note_def stream_of_def stop_if_running_def[abs_def])

lemma outputUpdate_slow:
  assumes "rv_speed s < 1"
  shows "stream_of (outputUpdate env time s) = stream_of s"
proof -
  have "rv_streams (fold (show_frame env time) xs s) = rv_streams s" for xs
    using streams.kept_show_frames[of s env time xs] by (simp add: same_streams_def)
  with assms show ?thesis by (simp add: outputUpdate_def stream_of_def fun_eq_iff)
qed

lemma timerFire_slow:
  assumes "rv_speed s < 1" "rv_active s" "distinct (rv_monitors s)" "mon \<in> set (rv_monitors s)"
    and "stream_of s mon = map_option stop_if_running (stream_of s' mon)"
  shows "stream_of (timerFire env s) mon = map_option stop_if_running (stream_of s' mon) \<and> rv_speed (timerFire env s) < 1"
  using assms
proof (induction env s rule: timerFire.induct)
  case (1 env s)
  let ?s2 = "(stop_interval s)\<lparr>rv_lastFire := v_now env\<rparr>"
  have s2: "rv_speed ?s2 = rv_speed s" "rv_active ?s2 = rv_active s" "rv_monitors ?s2 = rv_monitors s" "stream_of ?s2 = stream_of s"
    by (simp_all add: stop_interval_def)
  have si: "stream_of (start_interval t) = stream_of t" "rv_speed (start_interval t) = rv_speed t" for t
    by (simp_all add: start_interval_def)
  define s3 where "s3 = (if rv_live ?s2 then ?s2
                else if rv_cur ?s2 + play_secs env (stop_interval s) \<ge> rd_max ?s2 then
                  (if index_truthy ?s2 then timerFire env (apply_speed env 0 False ?s2) else ?s2)
                else if play_secs env (stop_interval s) \<noteq> 0 \<or> rv_cur ?s2 = rv_min ?s2
                  then ?s2\<lparr>rv_cur := play_secs env (stop_interval s) + rv_cur ?s2\<rparr> else ?s2)"
  note slow0 = apply_slow[of ?s2 0 mon env False]
  have zero: "speeds ! 0 = 0" by (simp add: speeds_def)
  have s3: "stream_of s3 mon = map_option stop_if_running (stream_of s' mon) \<and> rv_speed s3 < 1"
  proof (cases "\<not> rv_live ?s2 \<and> rv_cur ?s2 + play_secs env (stop_interval s) \<ge> rd_max ?s2 \<and> index_truthy ?s2")
    case False
    then show ?thesis using 1(2,6) s2 by (auto simp: s3_def)
  next
    case True
    let ?a = "apply_speed env 0 False ?s2"
    have a: "rv_speed ?a < 1" "rv_active ?a" "distinct (rv_monitors ?a)" "mon \<in> set (rv_monitors ?a)"
      "stream_of ?a mon = map_option stop_if_running (stream_of s' mon)"
      using slow0 1(2-6) s2 zero by (auto simp: option.map_comp comp_def)
    have "stream_of (timerFire env ?a) mon = map_option stop_if_running (stream_of s' mon) \<and> rv_speed (timerFire env ?a) < 1"
      by (rule 1(1)[OF refl refl refl _ _ _ a]) (use True in auto)
    then show ?thesis using True by (simp add: s3_def)
  qed
  have "timerFire env s = start_interval (outputUpdate env (rv_cur s3) s3)"
    by (subst timerFire.simps) (simp add: Let_def s3_def)
  then show ?case using s3 by (simp add: si outputUpdate_slow)
qed

text \<open>
  Choosing a speed below the normal one stops every stream that runs. A stream that is
  waiting to reconnect is not stopped: its timer stays, and when it fires the stream
  plays again, beside the single images of the slow speed.
\<close>
lemma slow_speed_stops_running:
  assumes "\<not> rv_live s" "rv_active s" "distinct (rv_monitors s)" "mon \<in> set (rv_monitors s)" "speeds ! idx < 1"
    and "stream_of s mon = Some es"
  shows "\<exists>es'. stream_of (setSpeed env idx txt s) mon = Some es' \<and> \<not> started es'
    \<and> (\<not> started es \<and> recoveryTimer es \<noteq> None \<longrightarrow> started (recovery_fires r es'))"
proof -
  note a = apply_slow[OF assms(3,2,5,4), of env "txt"]
  have "stream_of (timerFire env (apply_speed env idx txt s)) mon = map_option stop_if_running (stream_of s mon)"
    by (rule conjunct1[OF timerFire_slow[where s' = s]]) (use a assms in auto)
  then have "stream_of (setSpeed env idx txt s) mon = Some (stop_if_running es)"
    using assms(1,6) by (simp add: setSpeed_def)
  moreover have "\<not> started (stop_if_running es)" by (simp add: stop_if_running_def)
  moreover have "started (recovery_fires r (stop_if_running es))" if "\<not> started es" "recoveryTimer es \<noteq> None"
    using that by (auto simp: stop_if_running_def recovery_fires_def Let_def split: option.split)
  ultimately show ?thesis by blast
qed

section \<open>A stream that has given up\<close>

fun is_opened :: "es_entry \<Rightarrow> bool" where
  "is_opened (Opened k u) = True"
| "is_opened _ = False"

definition opened :: "estream \<Rightarrow> nat" where
  "opened es = length (filter is_opened (es_log es))"

text \<open>An update of the page after which the connection of \<open>mon\<close> fails at once.\<close>

definition failing_update :: "review_env \<Rightarrow> rat \<Rightarrow> nat \<Rightarrow> review \<Rightarrow> review" where
  "failing_update env time mon s = upd_stream mon img_onerror (outputUpdate env time s)"

lemma failed_start:
  assumes "\<not> started es" "img es = None"
  shows "opened (img_onerror (es_start r e opts es)) = opened es + 1"
    "\<not> started (img_onerror (es_start r e opts es))" "img (img_onerror (es_start r e opts es)) = None"
    "consecutiveErrors (img_onerror (es_start r e opts es)) = consecutiveErrors es + 1"
  using assms
  by (auto simp: opened_def img_onerror_def recover_def es_start_def teardown_def Let_def split: option.split)

lemma follows_fold_events:
  "rd_events (fold (stream_follows env time) xs s) = rd_events s \<and> event_for (fold (stream_follows env time) xs s) = event_for s"
proof (induction xs arbitrary: s)
  case (Cons x xs)
  have "rd_events (stream_follows env time x s) = rd_events s \<and> event_for (stream_follows env time x s) = event_for s"
    by (cases "stream_of s x"; cases "event_for s x time")
      (auto simp: stream_follows_def rd_note_def[of _ s] rd_note_def upd_stream_def intro!: event_for_cong)
  with Cons show ?case by simp
qed simp

lemma failing_update_spec:
  assumes "rv_active s" "1 \<le> rv_speed s" "rd_events s \<noteq> []" "distinct (rv_monitors s)" "mon \<in> set (rv_monitors s)"
    and "event_for s mon time = Some ev" "stream_of s mon = Some es" "\<not> started es" "img es = None"
  shows "\<exists>es'. stream_of (failing_update env time mon s) mon = Some es' \<and> opened es' = opened es + 1
     \<and> \<not> started es' \<and> img es' = None \<and> consecutiveErrors es' = consecutiveErrors es + 1"
    and "rv_active (failing_update env time mon s)" "rv_speed (failing_update env time mon s) = rv_speed s"
    and "rd_events (failing_update env time mon s) = rd_events s" "rv_monitors (failing_update env time mon s) = rv_monitors s"
    and "event_for (failing_update env time mon s) = event_for s"
proof -
  have "follow_act env time s mon es = es_start (v_rnd env mon) (nat_to_str (e_id ev)) (stream_options s time) es"
    using assms(6,8) by (simp add: follow_act_def)
  then show "\<exists>es'. stream_of (failing_update env time mon s) mon = Some es' \<and> opened es' = opened es + 1
     \<and> \<not> started es' \<and> img es' = None \<and> consecutiveErrors es' = consecutiveErrors es + 1"
    using outputUpdate_streams[OF assms(1-5), of env time] failed_start[OF assms(8,9)] assms(7)
    by (simp add: failing_update_def)
  have page: "same_page (outputUpdate env time s) (failing_update env time mon s)" by (simp add: failing_update_def)
  show "rv_active (failing_update env time mon s)" "rv_speed (failing_update env time mon s) = rv_speed s"
    "rv_monitors (failing_update env time mon s) = rv_monitors s"
    using same_page_fields[OF page] assms(1) by simp_all
  have out: "outputUpdate env time s = (fold (stream_follows env time) (rv_monitors s) s)\<lparr>rv_cur := time\<rparr>"
    using assms(1-3) by (simp add: outputUpdate_def)
  have cur: "event_for (u\<lparr>rv_cur := time\<rparr>) = event_for u" for u by (rule event_for_cong) simp_all
  show "rd_events (failing_update env time mon s) = rd_events s" "event_for (failing_update env time mon s) = event_for s"
    using follows_fold_events[of env time "rv_monitors s" s] by (simp_all add: failing_update_def out cur) (simp add: upd_stream_def)
qed

text \<open>
  While the page plays at a normal speed the limit on reconnecting does not hold: with a zms
  that fails at once, every update of the page opens another connection, however many
  errors in a row the stream has counted and whether or not it waits for its timer.
\<close>
lemma given_up_stream_reopened:
  assumes "rv_active s" "1 \<le> rv_speed s" "rd_events s \<noteq> []" "distinct (rv_monitors s)" "mon \<in> set (rv_monitors s)"
    and "event_for s mon time = Some ev" "stream_of s mon = Some es" "\<not> started es" "img es = None"
  shows "\<exists>es'. stream_of ((failing_update env time mon ^^ n) s) mon = Some es'
     \<and> opened es' = opened es + n \<and> consecutiveErrors es' = consecutiveErrors es + n"
  using assms
proof (induction n arbitrary: s es)
  case (Suc n)
  note f = failing_update_spec[OF Suc.prems, of env]
  obtain es1 where es1: "stream_of (failing_update env time mon s) mon = Some es1" "opened es1 = opened es + 1"
    "\<not> started es1" "img es1 = None" "consecutiveErrors es1 = consecutiveErrors es + 1" using f(1) by blast
  have "\<exists>es'. stream_of ((failing_update env time mon ^^ n) (failing_update env time mon s)) mon = Some es'
     \<and> opened es' = opened es1 + n \<and> consecutiveErrors es' = consecutiveErrors es1 + n"
    by (rule Suc.IH) (use f(2-) es1 Suc.prems in auto)
  then show ?case using es1 by (simp add: funpow_Suc_right del: funpow.simps)
qed simp

section \<open>The date fields\<close>

text \<open>
  The three cases of a change of the window's dates. A change of the start never leaves a window
  longer than a day; a change of the end is never limited, because the source compares
  the negative difference; and a start moved past the end makes a window of an hour whose
  end the field does not show.
\<close>
lemma date_fields_limit:
  assumes "\<And>t. t \<le> v_plusDays env 1 t"
  shows "(mn \<le> mx \<longrightarrow> (case limit_window env MinField mn mx of (fs, a, b) \<Rightarrow>
            fs = (a, b) \<and> a = mn \<and> a \<le> b \<and> (b - a \<le> 86400 \<or> b = v_plusDays env 1 a)))
    \<and> (mn \<le> mx \<longrightarrow> limit_window env MaxField mn mx = ((mn, mx), mn, mx))
    \<and> (mx < mn \<longrightarrow> limit_window env MinField mn mx = ((mn, mn), mn, mn + 3600))"
  using assms by (auto simp: limit_window_def not_less)

section \<open>Bounds\<close>

text \<open>
  The scale asked of zms lies between 10 and 100 percent, and unless it is 100 the image sent is at
  least as wide as the canvas, so the browser never enlarges it.
\<close>
lemma stream_scale_bounds:
  assumes "map_of (rv_canvas s) mon = Some c" "map_of (rv_width s) mon = Some w" "0 < w"
  shows "10 \<le> streamScaleForMonitor s mon \<and> streamScaleForMonitor s mon \<le> 100
    \<and> (streamScaleForMonitor s mon = 100 \<or> c \<le> of_nat (streamScaleForMonitor s mon) * w / 100)"
proof -
  let ?k = "10 * \<lceil>100 * c / w / 10\<rceil>"
  have sc: "streamScaleForMonitor s mon = nat (min 100 (max 10 ?k))"
    using assms by (simp add: streamScaleForMonitor_def)
  have up: "x \<le> of_int (10 * \<lceil>x / 10\<rceil>)" for x :: rat
    using le_of_int_ceiling[of "x / 10"] by linarith
  have "100 * c / w \<le> of_int ?k" by (rule up)
  then have "100 * c / w \<le> of_int (max 10 ?k)" by linarith
  then have "c \<le> of_int (max 10 ?k) * w / 100" using assms(3) by (simp add: field_simps)
  then show ?thesis unfolding sc by (auto simp: min_def)
qed

section \<open>Concrete runs\<close>

definition demo_env :: review_env where
  "demo_env = \<lparr>v_now = 1000, v_rnd = (\<lambda>m. m), v_resolve = (\<lambda>u. u), v_zms = (\<lambda>e m. ''/zms''),
     v_inputstr = (\<lambda>t. []), v_dbstr = (\<lambda>t. []), v_plusDays = (\<lambda>n t. t + 86400 * of_int n)\<rparr>"

definition demo_evt :: zm_event where
  "demo_evt = \<lparr>e_id = 5, e_monitor = 1, e_start = 100, e_end = Some 200, e_closed = True, e_frames = Some [],
     e_newest = None, e_refreshed = None\<rparr>"

definition demo_page :: review where
  "demo_page = \<lparr>rd_events = [(5, demo_evt)], rd_for_monitor = [(1, [5])], rd_max = 500, rd_log = [],
     rv_monitors = [1], rv_names = [(1, ''Door'')], rv_streams = [(1, newEventStream 1 ''/zms'' JUndef (ZMAuth_new []))],
     rv_images = [], rv_auth = ZMAuth_new [], rv_active = True, rv_scrub = False, rv_mouse = False, rv_live = False,
     rv_min = 50, rv_range = 450, rv_cur = 150, rv_speed = 1, rv_index = 5, rv_indexText = False, rv_lastFire = 900,
     rv_timer = None, rv_interval = None, rv_display = 100, rv_loads = [], rv_drift = [], rv_syncs = 0,
     rv_width = [(1, 640)], rv_canvas = [(1, 200)], rv_norm = [(1, 1)], rv_zoom = [(1, 1)], rv_fit = False,
     rv_requests = [], rv_generation = 0, rv_waiting = False\<rparr>"

lemma demo_page_facts:
  "rv_active demo_page" "1 \<le> rv_speed demo_page" "rd_events demo_page \<noteq> []" "distinct (rv_monitors demo_page)"
  "1 \<in> set (rv_monitors demo_page)" "\<not> rv_live demo_page"
  by (simp_all add: demo_page_def)

lemma demo_page_stream:
  "stream_of demo_page 1 = Some (newEventStream 1 ''/zms'' JUndef (ZMAuth_new []))"
  by (simp add: demo_page_def stream_of_def)

lemma demo_stream_idle:
  "\<not> started (newEventStream 1 ''/zms'' JUndef (ZMAuth_new []))" "img (newEventStream 1 ''/zms'' JUndef (ZMAuth_new [])) = None"
  by (simp_all add: newEventStream_def)

theorem streams_follow_slider_witness:
  "\<exists>es. stream_of (outputUpdate demo_env 150 demo_page) 1 = Some es \<and> started es \<and> currentEventId es = ''5''"
proof -
  obtain es where es: "stream_of (outputUpdate demo_env 150 demo_page) 1 = Some es"
    using outputUpdate_streams[OF demo_page_facts(1-5), of demo_env 150] demo_page_stream by simp
  have ev: "events_of_monitor demo_page 1 = [demo_evt]" and max: "rd_max demo_page = 500" by code_simp+
  have "nat_to_str (e_id demo_evt) = ''5''" by code_simp
  moreover have "in_order 500 [demo_evt]" "e_start demo_evt \<le> 150" "150 \<le> eventEndTimeSecs 500 demo_evt"
    by (simp_all add: in_order_def demo_evt_def eventEndTimeSecs_def)
  ultimately show ?thesis
    using streams_follow_slider[OF demo_page_facts(1-5) es] es unfolding ev max by auto
qed

theorem clock_follows_real_time_witness: "rv_cur (ticks demo_env [1000, 1370, 2900] demo_page) = 152"
  using clock_follows_real_time[of demo_page "[1000, 1370, 2900]" demo_env] by (simp add: demo_page_def)

end
