(* ===== verification/Montage_Layout.thy ===== *)
theory Montage_Layout
  imports Js_Prelude
begin

text \<open>
  Fitting the monitors of a montage into the window
  (\<^verbatim>\<open>web/skins/classic/js/montage_common.js\<close>, \<^verbatim>\<open>maxfit2\<close>): for one scale the monitors are placed one
  after the other beside or below an earlier one; the scale is found by bisection. Sizes
  are exact rationals.
\<close>

section \<open>Placing the monitors\<close>

record monitor_size =
  z_width :: rat
  z_height :: rat
  z_norm :: rat
  z_zoom :: rat

text \<open>The window, and what the borders add to each size.\<close>

record fit_window =
  f_divW :: rat
  f_divH :: rat
  f_bw :: rat
  f_bh :: rat

record block =
  b_x :: rat
  b_y :: rat
  b_x2 :: rat
  b_y2 :: rat

definition block_w :: "fit_window \<Rightarrow> rat \<Rightarrow> monitor_size \<Rightarrow> rat" where
  "block_w win sc m = z_width m * sc * z_norm m * z_zoom m + f_bw win"

definition block_h :: "fit_window \<Rightarrow> rat \<Rightarrow> monitor_size \<Rightarrow> rat" where
  "block_h win sc m = z_height m * sc * z_norm m * z_zoom m + f_bh win"

definition apart :: "rat \<Rightarrow> rat \<Rightarrow> rat \<Rightarrow> rat \<Rightarrow> block \<Rightarrow> bool" where
  "apart x y w h b \<longleftrightarrow> b_x b > x + w - 1 \<or> b_x2 b < x \<or> b_y b > y + h - 1 \<or> b_y2 b < y"

definition doesItFit :: "fit_window \<Rightarrow> rat \<Rightarrow> rat \<Rightarrow> rat \<Rightarrow> rat \<Rightarrow> block list \<Rightarrow> bool" where
  "doesItFit win x y w h done \<longleftrightarrow>
     \<not> (x + w \<ge> f_divW win \<or> y + h \<ge> f_divH win) \<and> list_all (apart x y w h) done"

definition nowhere :: rat where "nowhere = 999999999"

text \<open>A position replaces the best one so far when it is higher up, or as high and further left.\<close>

definition try_at :: "fit_window \<Rightarrow> rat \<Rightarrow> rat \<Rightarrow> block list \<Rightarrow> rat \<times> rat \<Rightarrow> rat \<times> rat \<Rightarrow> rat \<times> rat" where
  "try_at win w h done p best =
     (if doesItFit win (fst p) (snd p) w h done \<and> (snd p < snd best \<or> snd p = snd best \<and> fst p < fst best)
      then p else best)"

definition find_place :: "fit_window \<Rightarrow> rat \<Rightarrow> rat \<Rightarrow> block list \<Rightarrow> rat \<times> rat" where
  "find_place win w h done =
     (let best = fold (\<lambda>a best. try_at win w h done (b_x a, b_y2 a + 1) (try_at win w h done (b_x2 a + 1, b_y a) best))
                   done (nowhere, nowhere)
      in if done = [] \<and> doesItFit win 0 0 w h [] then (0, 0) else best)"

fun place_all :: "fit_window \<Rightarrow> rat \<Rightarrow> monitor_size list \<Rightarrow> block list \<Rightarrow> block list option" where
  "place_all win sc [] done = Some done"
| "place_all win sc (m # ms) done =
     (let w = block_w win sc m; h = block_h win sc m; p = find_place win w h done
      in if fst p = nowhere then None
         else place_all win sc ms (done @ [\<lparr>b_x = fst p, b_y = snd p, b_x2 = fst p + w, b_y2 = snd p + h\<rparr>]))"

definition blocks_area :: "block list \<Rightarrow> rat" where
  "blocks_area bs = sum_list (map (\<lambda>b. (b_x2 b - b_x b) * (b_y2 b - b_y b)) bs)"

section \<open>The scale\<close>

definition minScale :: rat where "minScale = 5/100"
definition maxScale :: rat where "maxScale = 5"

definition better :: "rat \<times> block list \<Rightarrow> block list \<Rightarrow> rat \<times> block list" where
  "better best bs = (if fst best < blocks_area bs then (blocks_area bs, bs) else best)"

definition gap :: "rat \<Rightarrow> nat" where "gap d = nat \<lfloor>d * 200\<rfloor>"

lemma gap_half: "\<not> d < 1/100 \<Longrightarrow> gap (d / 2) < gap d"
proof -
  assume "\<not> d < 1/100"
  then have d: "d / 2 * 200 + 1 \<le> d * 200" "0 \<le> d / 2 * 200" by linarith+
  have "\<lfloor>d / 2 * 200 + 1\<rfloor> \<le> \<lfloor>d * 200\<rfloor>" using d(1) by (rule floor_mono)
  moreover have "0 \<le> \<lfloor>d / 2 * 200\<rfloor>" using d(2) by (simp only: zero_le_floor)
  ultimately show ?thesis unfolding gap_def by linarith
qed

function fit_scale :: "fit_window \<Rightarrow> monitor_size list \<Rightarrow> rat \<Rightarrow> rat \<Rightarrow> rat \<times> block list \<Rightarrow> rat \<times> block list" where
  "fit_scale win ms lo hi best =
     (if hi - lo < 1/100 then best
      else (let sc = (hi + lo) / 2
            in case place_all win sc ms [] of
                 Some bs \<Rightarrow> fit_scale win ms sc hi (better best bs)
               | None \<Rightarrow> fit_scale win ms lo sc best))"
  by pat_completeness auto
termination
proof (relation "measure (\<lambda>(win, ms, lo, hi, best). gap (hi - lo))", goal_cases)
  case (2 win ms lo hi best sc)
  then have "sc - lo = (hi - lo) / 2" by (simp add: field_simps)
  then have "gap (sc - lo) < gap (hi - lo)" using gap_half[OF 2(1)] by (simp only:)
  then show ?case by simp
next
  case (3 win ms lo hi best sc bs)
  then have "hi - sc = (hi - lo) / 2" by (simp add: field_simps)
  then have "gap (hi - sc) < gap (hi - lo)" using gap_half[OF 3(1)] by (simp only:)
  then show ?case by simp
qed simp

declare fit_scale.simps [simp del]

text \<open>What the canvases are set to.\<close>

record canvas_place =
  c_left :: rat
  c_top :: rat
  c_w :: rat
  c_h :: rat

definition placed :: "fit_window \<Rightarrow> block list \<Rightarrow> canvas_place list" where
  "placed win bs =
     (let maxRight = fold (\<lambda>b r. if b_x2 b > r then b_x2 b else r) bs 0;
          off = max 0 (of_int \<lfloor>(f_divW win - maxRight) / 2\<rfloor>)
      in map (\<lambda>b. \<lparr>c_left = b_x b + off, c_top = b_y b, c_w = b_x2 b - b_x b + 1 - f_bw win,
                   c_h = b_y2 b - b_y b + 1 - f_bh win\<rparr>) bs)"

definition maxfit2 :: "fit_window \<Rightarrow> monitor_size list \<Rightarrow> canvas_place list option" where
  "maxfit2 win ms =
     (case fit_scale win ms minScale maxScale (0, []) of
        (area, bs) \<Rightarrow> if area > 0 then Some (placed win bs) else None)"

section \<open>A placement\<close>

definition in_window :: "fit_window \<Rightarrow> block \<Rightarrow> bool" where
  "in_window win b \<longleftrightarrow> b_x2 b < f_divW win \<and> b_y2 b < f_divH win"

text \<open>
  How far two intervals run into each other; two blocks that run into each other by less than a pixel, across
  or down. The sizes are not whole numbers and the code's test leaves a pixel, so no more than that holds.
\<close>

definition overlap :: "rat \<Rightarrow> rat \<Rightarrow> rat \<Rightarrow> rat \<Rightarrow> rat" where
  "overlap lo hi lo' hi' = min hi hi' - max lo lo'"

definition clear_of :: "block \<Rightarrow> block \<Rightarrow> bool" where
  "clear_of a b \<longleftrightarrow> overlap (b_x a) (b_x2 a) (b_x b) (b_x2 b) < 1 \<or> overlap (b_y a) (b_y2 a) (b_y b) (b_y2 b) < 1"

text \<open>Inside the window, no two blocks over each other by a pixel or more, and each of the size its monitor has at the scale.\<close>

definition layout_ok :: "fit_window \<Rightarrow> block list \<Rightarrow> bool" where
  "layout_ok win bs \<longleftrightarrow> list_all (\<lambda>b. in_window win b \<and> 0 \<le> b_x b \<and> 0 \<le> b_y b) bs \<and> sorted_wrt clear_of bs"

definition sized :: "fit_window \<Rightarrow> rat \<Rightarrow> monitor_size \<Rightarrow> block \<Rightarrow> bool" where
  "sized win sc m b \<longleftrightarrow> b_x2 b - b_x b = sc * (z_width m * z_norm m * z_zoom m) + f_bw win
     \<and> b_y2 b - b_y b = sc * (z_height m * z_norm m * z_zoom m) + f_bh win"

lemma apart_clear:
  "apart x y w h a \<Longrightarrow> clear_of a \<lparr>b_x = x, b_y = y, b_x2 = x + w, b_y2 = y + h\<rparr>"
  by (auto simp: apart_def clear_of_def overlap_def min_def max_def)

lemma try_at_fits:
  "try_at win w h done p best = best
     \<or> try_at win w h done p best = p \<and> doesItFit win (fst p) (snd p) w h done"
  by (simp add: try_at_def)

definition place_ok :: "fit_window \<Rightarrow> rat \<Rightarrow> rat \<Rightarrow> block list \<Rightarrow> rat \<times> rat \<Rightarrow> bool" where
  "place_ok win w h done p \<longleftrightarrow>
     fst p = nowhere \<or> doesItFit win (fst p) (snd p) w h done \<and> 0 \<le> fst p \<and> 0 \<le> snd p"

lemma try_at_ok:
  "\<lbrakk>place_ok win w h done best; 0 \<le> fst p; 0 \<le> snd p\<rbrakk> \<Longrightarrow> place_ok win w h done (try_at win w h done p best)"
  using try_at_fits[of win w h "done" p best] by (auto simp: place_ok_def)

lemma find_place_ok:
  assumes "list_all (\<lambda>b. 0 \<le> b_x b \<and> 0 \<le> b_y b \<and> 0 \<le> b_x2 b \<and> 0 \<le> b_y2 b) done"
  shows "place_ok win w h done (find_place win w h done)"
proof -
  have "list_all (\<lambda>b. 0 \<le> b_x b \<and> 0 \<le> b_y b \<and> 0 \<le> b_x2 b \<and> 0 \<le> b_y2 b) as \<Longrightarrow> place_ok win w h done best \<Longrightarrow>
     place_ok win w h done (fold (\<lambda>a best. try_at win w h done (b_x a, b_y2 a + 1) (try_at win w h done (b_x2 a + 1, b_y a) best)) as best)"
    for as best
  proof (induction as arbitrary: best)
    case (Cons a as)
    then show ?case by (simp add: try_at_ok)
  qed simp
  from this[OF assms, of "(nowhere, nowhere)"] show ?thesis
    by (auto simp: find_place_def Let_def place_ok_def)
qed

text \<open>Sizes that are not negative.\<close>

definition sizes_ok :: "fit_window \<Rightarrow> monitor_size list \<Rightarrow> bool" where
  "sizes_ok win ms \<longleftrightarrow> 0 \<le> f_bw win \<and> 0 \<le> f_bh win
     \<and> list_all (\<lambda>m. 0 < z_width m * z_norm m * z_zoom m \<and> 0 < z_height m * z_norm m * z_zoom m) ms"

lemma block_size:
  "block_w win sc m = sc * (z_width m * z_norm m * z_zoom m) + f_bw win"
  "block_h win sc m = sc * (z_height m * z_norm m * z_zoom m) + f_bh win"
  by (simp_all add: block_w_def block_h_def)

lemma place_all_ok:
  assumes "sizes_ok win ms" "0 < sc" "layout_ok win done" "list_all (\<lambda>b. b_x b \<le> b_x2 b \<and> b_y b \<le> b_y2 b) done"
    and "place_all win sc ms done = Some bs"
  shows "layout_ok win bs \<and> length bs = length done + length ms"
  using assms
proof (induction ms arbitrary: "done")
  case (Cons m ms)
  let ?w = "block_w win sc m" and ?h = "block_h win sc m"
  let ?p = "find_place win ?w ?h done"
  let ?b = "\<lparr>b_x = fst ?p, b_y = snd ?p, b_x2 = fst ?p + ?w, b_y2 = snd ?p + ?h\<rparr>"
  have pos: "0 \<le> ?w" "0 \<le> ?h" using Cons.prems(1,2) by (auto simp: sizes_ok_def block_size)
  have p: "fst ?p \<noteq> nowhere" and rest: "place_all win sc ms (done @ [?b]) = Some bs"
    using Cons.prems(5) by (auto simp: Let_def split: if_splits)
  have "list_all (\<lambda>b. 0 \<le> b_x b \<and> 0 \<le> b_y b \<and> 0 \<le> b_x2 b \<and> 0 \<le> b_y2 b) done"
    using Cons.prems(3,4) by (fastforce simp: layout_ok_def list_all_iff)
  from find_place_ok[OF this, of win ?w ?h] p
  have fit: "doesItFit win (fst ?p) (snd ?p) ?w ?h done" "0 \<le> fst ?p" "0 \<le> snd ?p" by (auto simp: place_ok_def)
  have "layout_ok win (done @ [?b])"
    using Cons.prems(3) fit apart_clear
    by (auto simp: layout_ok_def sorted_wrt_append doesItFit_def in_window_def list_all_iff not_le)
  moreover have "list_all (\<lambda>b. b_x b \<le> b_x2 b \<and> b_y b \<le> b_y2 b) (done @ [?b])" using Cons.prems(4) pos by simp
  moreover have "sizes_ok win ms" using Cons.prems(1) by (simp add: sizes_ok_def)
  ultimately have "layout_ok win bs \<and> length bs = length (done @ [?b]) + length ms"
    using Cons.IH Cons.prems(2) rest by blast
  then show ?case by simp
qed simp

lemma place_all_sized: "place_all win sc ms done = Some bs \<Longrightarrow> \<exists>cs. bs = done @ cs \<and> list_all2 (sized win sc) ms cs"
proof (induction ms arbitrary: "done")
  case (Cons m ms)
  let ?w = "block_w win sc m" and ?h = "block_h win sc m"
  let ?p = "find_place win ?w ?h done"
  let ?b = "\<lparr>b_x = fst ?p, b_y = snd ?p, b_x2 = fst ?p + ?w, b_y2 = snd ?p + ?h\<rparr>"
  have "place_all win sc ms (done @ [?b]) = Some bs" using Cons.prems by (auto simp: Let_def split: if_splits)
  from Cons.IH [OF this] obtain cs where cs: "bs = done @ ?b # cs" "list_all2 (sized win sc) ms cs" by auto
  moreover have "sized win sc m ?b" by (simp add: sized_def block_size)
  ultimately show ?case by (intro exI[of _ "?b # cs"]) simp
qed simp

section \<open>The best scale\<close>

text \<open>The area of a placement depends on the scale only.\<close>

definition scale_area :: "fit_window \<Rightarrow> rat \<Rightarrow> monitor_size list \<Rightarrow> rat" where
  "scale_area win sc ms = sum_list (map (\<lambda>m. block_w win sc m * block_h win sc m) ms)"

lemma blocks_area_all:
  "place_all win sc ms done = Some bs \<Longrightarrow> blocks_area bs = blocks_area done + scale_area win sc ms"
proof (induction ms arbitrary: "done")
  case (Cons m ms)
  then show ?case by (fastforce simp: Let_def blocks_area_def scale_area_def split: if_splits)
qed (simp add: scale_area_def)

lemma blocks_area_placed:
  "place_all win sc ms [] = Some bs \<Longrightarrow> blocks_area bs = scale_area win sc ms"
  using blocks_area_all[of win sc ms "[]" bs] by (simp add: blocks_area_def)

lemma scale_area_mono:
  assumes "sizes_ok win ms" "0 \<le> a" "a < b" "ms \<noteq> []"
  shows "scale_area win a ms < scale_area win b ms" "0 < scale_area win b ms"
proof -
  have one: "block_w win a m * block_h win a m < block_w win b m * block_h win b m \<and> 0 < block_w win b m * block_h win b m"
    if "m \<in> set ms" for m
  proof -
    have m: "0 \<le> f_bw win" "0 \<le> f_bh win" "0 < z_width m * z_norm m * z_zoom m" "0 < z_height m * z_norm m * z_zoom m"
      using assms(1) that by (auto simp: sizes_ok_def list_all_iff)
    have "0 \<le> block_w win a m" "0 \<le> block_h win a m" using m assms(2) by (simp_all add: block_size)
    moreover have "block_w win a m < block_w win b m" "block_h win a m < block_h win b m"
      using m(3,4) assms(3) unfolding block_size by (auto intro!: mult_strict_right_mono)
    ultimately show ?thesis by (auto intro: mult_strict_mono)
  qed
  have "xs \<noteq> [] \<Longrightarrow> set xs \<subseteq> set ms \<Longrightarrow> scale_area win a xs < scale_area win b xs \<and> 0 < scale_area win b xs" for xs
  proof (induction xs)
    case (Cons x xs)
    then show ?case using one[of x] by (cases xs) (auto simp: scale_area_def intro: add_strict_mono add_pos_pos)
  qed simp
  from this[OF assms(4)] show "scale_area win a ms < scale_area win b ms" "0 < scale_area win b ms" by auto
qed

text \<open>What the bisection knows: the best placement is that of the lower end, the upper end does not fit.\<close>

definition search_ok :: "fit_window \<Rightarrow> monitor_size list \<Rightarrow> rat \<Rightarrow> rat \<Rightarrow> rat \<times> block list \<Rightarrow> bool" where
  "search_ok win ms lo hi best \<longleftrightarrow> 0 < lo \<and> lo < hi
     \<and> (lo = minScale \<and> best = (0, []) \<or> place_all win lo ms [] = Some (snd best) \<and> fst best = blocks_area (snd best))
     \<and> (hi = maxScale \<or> place_all win hi ms [] = None)"

lemma search_better:
  assumes "sizes_ok win ms" "ms \<noteq> []" "search_ok win ms lo hi best" "lo < sc" "sc < hi" "place_all win sc ms [] = Some bs"
  shows "better best bs = (blocks_area bs, bs)" "search_ok win ms sc hi (better best bs)"
proof -
  have lo: "0 \<le> lo" using assms(3) by (simp add: search_ok_def)
  have "fst best < blocks_area bs"
    using assms(3) blocks_area_placed[of win lo ms "snd best"] blocks_area_placed[OF assms(6)]
      scale_area_mono[OF assms(1) lo assms(4,2)]
    by (auto simp: search_ok_def)
  then show "better best bs = (blocks_area bs, bs)" by (simp add: better_def)
  then show "search_ok win ms sc hi (better best bs)" using assms(3-6) by (auto simp: search_ok_def)
qed

lemma fit_scale_ok:
  assumes "sizes_ok win ms" "ms \<noteq> []" "search_ok win ms lo hi best"
  shows "\<exists>lo' hi'. search_ok win ms lo' hi' (fit_scale win ms lo hi best) \<and> hi' - lo' < 1/100"
  using assms
proof (induction win ms lo hi best rule: fit_scale.induct)
  case (1 win ms lo hi best)
  show ?case
  proof (cases "hi - lo < 1/100")
    case True
    then show ?thesis using 1(5) by (subst fit_scale.simps) auto
  next
    case False
    define sc where "sc = (hi + lo) / 2"
    have sc: "lo < sc" "sc < hi" using 1(5) by (auto simp: sc_def search_ok_def)
    show ?thesis
    proof (cases "place_all win sc ms []")
      case None
      then have "search_ok win ms lo sc best" using 1(5) sc by (auto simp: search_ok_def)
      from 1(1)[OF False sc_def None 1(3,4) this] show ?thesis
        using None False by (subst fit_scale.simps) (simp add: sc_def Let_def)
    next
      case (Some bs)
      from 1(2)[OF False sc_def Some 1(3,4) search_better(2)[OF 1(3,4,5) sc Some]] show ?thesis
        using Some False by (subst fit_scale.simps) (simp add: sc_def Let_def)
    qed
  qed
qed

lemma max_right:
  "fold (\<lambda>b r. if b_x2 b > r then b_x2 b else r) bs r0 = r \<Longrightarrow> r0 \<le> r \<and> (\<forall>b \<in> set bs. b_x2 b \<le> r)"
proof (induction bs arbitrary: r0)
  case (Cons b bs)
  from Cons.IH[OF Cons.prems[unfolded fold_simps]] show ?case by (auto split: if_splits)
qed auto

text \<open>
  C15. The layout that \<open>maxfit2\<close> chooses is the one of the largest scale it can tell: there is
  a scale at which every monitor has the size that belongs to the scale and exactly the place the code gives it,
  all inside the window and no two over each other by a pixel or more; and within a hundredth above it lies a scale at
  which the code finds no places for them, or the largest scale allowed. When it gives up, it finds no
  places at a scale within a hundredth of the smallest.
\<close>
theorem maxfit2_best_scale:
  assumes "sizes_ok win ms" "ms \<noteq> []"
  shows "case maxfit2 win ms of
      Some cs \<Rightarrow> (\<exists>sc hi bs. 0 < sc \<and> place_all win sc ms [] = Some bs \<and> cs = placed win bs \<and> layout_ok win bs
                 \<and> list_all2 (sized win sc) ms bs \<and> sc < hi \<and> hi < sc + 1/100 \<and> (hi = maxScale \<or> place_all win hi ms [] = None))
    | None \<Rightarrow> (\<exists>hi. hi < minScale + 1/100 \<and> place_all win hi ms [] = None)"
proof -
  have "search_ok win ms minScale maxScale (0, [])" by (simp add: search_ok_def minScale_def maxScale_def)
  from fit_scale_ok[OF assms this] obtain lo hi where
    ok: "search_ok win ms lo hi (fit_scale win ms minScale maxScale (0, []))" and close: "hi - lo < 1/100" by blast
  obtain area bs where fs: "fit_scale win ms minScale maxScale (0, []) = (area, bs)" by (cases "fit_scale win ms minScale maxScale (0, [])") auto
  show ?thesis
  proof (cases "place_all win lo ms [] = Some bs \<and> area = blocks_area bs")
    case True
    have lo: "0 < lo" "lo < hi" using ok by (auto simp: search_ok_def)
    have "area > 0"
      using True blocks_area_placed[of win lo ms bs] scale_area_mono(2)[OF assms(1), of 0 lo] assms(2) lo by simp
    then have m: "maxfit2 win ms = Some (placed win bs)" by (simp add: maxfit2_def fs)
    have "layout_ok win bs"
      using place_all_ok[OF assms(1) lo(1), of "[]" bs] True by (simp add: layout_ok_def)
    moreover have "list_all2 (sized win lo) ms bs" using place_all_sized[of win lo ms "[]" bs] True by auto
    moreover have "hi = maxScale \<or> place_all win hi ms [] = None" using ok by (auto simp: search_ok_def)
    moreover have "hi < lo + 1/100" using close by linarith
    ultimately show ?thesis unfolding m using True lo by auto
  next
    case False
    then have lo: "lo = minScale" "area = 0" using ok fs by (auto simp: search_ok_def)
    then have "hi < minScale + 1/100" "hi \<noteq> maxScale" using close by (auto simp: minScale_def maxScale_def)
    then show ?thesis using ok lo fs by (auto simp: maxfit2_def search_ok_def)
  qed
qed

text \<open>Centring keeps the blocks in the window.\<close>

lemma placed_in_window:
  assumes "layout_ok win bs" "c \<in> set (placed win bs)"
  shows "0 \<le> c_left c \<and> c_left c + (c_w c - 1 + f_bw win) \<le> f_divW win"
proof -
  define r where "r = fold (\<lambda>b r. if b_x2 b > r then b_x2 b else r) bs 0"
  define off :: rat where "off = max 0 (of_int \<lfloor>(f_divW win - r) / 2\<rfloor>)"
  obtain b where b: "b \<in> set bs" "c = \<lparr>c_left = b_x b + off, c_top = b_y b, c_w = b_x2 b - b_x b + 1 - f_bw win,
      c_h = b_y2 b - b_y b + 1 - f_bh win\<rparr>"
    using assms(2) by (auto simp: placed_def Let_def off_def r_def)
  have win: "b_x2 b < f_divW win" "0 \<le> b_x b" using assms(1) b(1) by (auto simp: layout_ok_def list_all_iff in_window_def)
  have r: "b_x2 b \<le> r" using max_right[of bs 0 r] b(1) by (simp add: r_def)
  have "of_int \<lfloor>(f_divW win - r) / 2\<rfloor> \<le> (f_divW win - r) / 2" by (rule of_int_floor_le)
  then have "off = 0 \<or> off \<le> (f_divW win - r) / 2 \<and> 0 \<le> off" by (auto simp: off_def max_def)
  then have "b_x2 b + off \<le> f_divW win" "0 \<le> off" using win r by (auto simp: off_def)
  then show ?thesis using win by (simp add: b(2))
qed

section \<open>A concrete window\<close>

definition demo_window :: fit_window where
  "demo_window = \<lparr>f_divW = 1000, f_divH = 500, f_bw = 2, f_bh = 2\<rparr>"

definition demo_sizes :: "monitor_size list" where
  "demo_sizes = [\<lparr>z_width = 640, z_height = 480, z_norm = 1, z_zoom = 1\<rparr>, \<lparr>z_width = 320, z_height = 240, z_norm = 1, z_zoom = 1\<rparr>]"

theorem maxfit2_best_scale_witness:
  "case maxfit2 demo_window demo_sizes of
      Some cs \<Rightarrow> (\<exists>sc hi bs. 0 < sc \<and> place_all demo_window sc demo_sizes [] = Some bs \<and> cs = placed demo_window bs
                 \<and> layout_ok demo_window bs \<and> list_all2 (sized demo_window sc) demo_sizes bs \<and> sc < hi \<and> hi < sc + 1/100
                 \<and> (hi = maxScale \<or> place_all demo_window hi demo_sizes [] = None))
    | None \<Rightarrow> (\<exists>hi. hi < minScale + 1/100 \<and> place_all demo_window hi demo_sizes [] = None)"
  by (rule maxfit2_best_scale) (simp_all add: demo_window_def demo_sizes_def sizes_ok_def)

lemma demo_places: "place_all demo_window (1/2) demo_sizes [] =
   Some [\<lparr>b_x = 0, b_y = 0, b_x2 = 322, b_y2 = 242\<rparr>, \<lparr>b_x = 323, b_y = 0, b_x2 = 485, b_y2 = 122\<rparr>]"
  by code_simp

text \<open>The test leaves a pixel: the third monitor lies half a pixel over the second.\<close>

lemma blocks_may_overlap:
  "place_all demo_window (1/2)
     [\<lparr>z_width = 640, z_height = 480, z_norm = 1, z_zoom = 1\<rparr>, \<lparr>z_width = 1000, z_height = 800, z_norm = 1, z_zoom = 1\<rparr>,
      \<lparr>z_width = 643, z_height = 100, z_norm = 1, z_zoom = 1\<rparr>] [] =
   Some [\<lparr>b_x = 0, b_y = 0, b_x2 = 322, b_y2 = 242\<rparr>, \<lparr>b_x = 323, b_y = 0, b_x2 = 825, b_y2 = 402\<rparr>,
      \<lparr>b_x = 0, b_y = 243, b_x2 = 647/2, b_y2 = 295\<rparr>]"
  by code_simp

end
