(* ===== verification/Event_Playback.thy ===== *)
theory Event_Playback
  imports Js_Prelude
begin

text \<open>
  The transport controls of the event view (\<^verbatim>\<open>web/skins/classic/views/js/event.js\<close>): playing,
  pausing, changing the rate, rewinding and seeking with video.js or with zms, what happens at
  the end of the video, and restarting zms after it has crashed. The events that video.js
  fires (play, pause, ratechange) arrive later and wait in a queue. The hints for
  zms about the neighbouring events are in \<^verbatim>\<open>Zms_Hints\<close>.
\<close>

section \<open>State\<close>

definition rates :: "rat list" where
  "rates = [- 1600, - 1000, - 500, - 200, - 100, - 50, - 25, 0, 25, 50, 100, 200, 500, 1000, 1600]"

datatype pbtn = pauseBtn | playBtn | fastFwdBtn | slowFwdBtn | slowRevBtn | fastRevBtn
datatype btn_state = BActive | BInactive | BUnavail

datatype pb_cmd = PPlay | PPause | PVarplay rat | PFastFwd | PSlowFwd | PSlowRev | PFastRev | PQuit | PSeek rat
  | PQuery | PScale rat | AskedEvent nat | GoTo nat

datatype video_event = VPlay | VPause | VRate

text \<open>
  \<open>pb_vid\<close>: the page has video.js. \<open>pb_rewindId\<close>: the id the variable of the rewind interval
  holds; \<open>pb_intervals\<close>: the rewind intervals that run; \<open>pb_fresh\<close>: the browser's next id. \<open>pb_poll\<close>: the interval of the status
  queries runs. \<open>pb_loading\<close>: the callback of the image that is being restarted, with
  the position it will seek to. \<open>pb_end\<close>: \<^verbatim>\<open>Date.parse\<close> of the event's end, where it has one.
\<close>

record playback =
  pb_vid :: bool
  pb_time :: rat
  pb_length :: rat
  pb_spf :: rat
  pb_rate :: rat
  pb_paused :: bool
  pb_events :: "video_event list"
  pb_rewindId :: "nat option"
  pb_intervals :: "nat list"
  pb_fresh :: nat
  pb_rev :: rat
  pb_select :: "rat option"
  pb_cookie :: "rat option"
  pb_btn :: "pbtn \<Rightarrow> btn_state"
  pb_pauseShown :: bool
  pb_replay :: string
  pb_next :: nat
  pb_prev :: nat
  pb_end :: "js_num option"
  pb_broke :: bool
  pb_poll :: bool
  pb_last :: nat
  pb_imgEvent :: nat
  pb_imgScale :: rat
  pb_scale :: rat
  pb_quality :: rat
  pb_loading :: "rat option option"
  pb_message :: bool
  pb_log :: "pb_cmd list"

definition pb_req :: "pb_cmd \<Rightarrow> playback \<Rightarrow> playback" where
  "pb_req c s = s\<lparr>pb_log := pb_log s @ [c]\<rparr>"

text \<open>Selecting a rate that is not in the list selects nothing.\<close>

definition select_rate :: "rat \<Rightarrow> playback \<Rightarrow> playback" where
  "select_rate r s = s\<lparr>pb_select := (if r \<in> set rates then Some r else None)\<rparr>"

definition rate_cookie :: "rat option \<Rightarrow> playback \<Rightarrow> playback" where
  "rate_cookie r s = s\<lparr>pb_cookie := r\<rparr>"

definition set_btns :: "(pbtn \<times> btn_state) list \<Rightarrow> playback \<Rightarrow> playback" where
  "set_btns bs s = fold (\<lambda>(b, st) s. s\<lparr>pb_btn := (pb_btn s)(b := st)\<rparr>) bs s"

section \<open>The video player\<close>

text \<open>
  What the page uses of a video.js player is what an HTML media element does: a rate, a position
  and the paused flag, whose changes are announced by events.
\<close>

definition vid_play :: "playback \<Rightarrow> playback" where
  "vid_play s = (if pb_paused s then s\<lparr>pb_paused := False, pb_events := pb_events s @ [VPlay]\<rparr> else s)"

definition vid_pause :: "playback \<Rightarrow> playback" where
  "vid_pause s = (if \<not> pb_paused s then s\<lparr>pb_paused := True, pb_events := pb_events s @ [VPause]\<rparr> else s)"

definition vid_rate :: "rat \<Rightarrow> playback \<Rightarrow> playback" where
  "vid_rate r s = (if pb_rate s \<noteq> r then s\<lparr>pb_rate := r, pb_events := pb_events s @ [VRate]\<rparr> else s)"

text \<open>A position before the start is the start.\<close>

definition vid_seek :: "rat \<Rightarrow> playback \<Rightarrow> playback" where
  "vid_seek t s = s\<lparr>pb_time := max 0 t\<rparr>"

section \<open>Playing and pausing\<close>

definition streamPause :: "playback \<Rightarrow> playback" where
  "streamPause s = set_btns [(pauseBtn, BActive), (playBtn, BInactive), (fastFwdBtn, BUnavail), (slowFwdBtn, BInactive),
     (slowRevBtn, BInactive), (fastRevBtn, BUnavail)] (s\<lparr>pb_pauseShown := False\<rparr>)"

definition streamPlay :: "playback \<Rightarrow> playback" where
  "streamPlay s = set_btns [(pauseBtn, BInactive), (playBtn, BActive), (fastFwdBtn, BInactive), (slowFwdBtn, BUnavail),
     (slowRevBtn, BUnavail), (fastRevBtn, BInactive)] (s\<lparr>pb_pauseShown := True\<rparr>)"

text \<open>\<^verbatim>\<open>clearInterval\<close> of the id that is held.\<close>

definition clear_rewind :: "playback \<Rightarrow> playback" where
  "clear_rewind s = s\<lparr>pb_intervals := filter (\<lambda>i. pb_rewindId s \<noteq> Some i) (pb_intervals s)\<rparr>"

definition stopRewind :: "playback \<Rightarrow> playback" where
  "stopRewind s = (clear_rewind s)\<lparr>pb_rewindId := None, pb_rev := 1/2\<rparr>"

definition stopFastRev :: "playback \<Rightarrow> playback" where
  "stopFastRev s = rate_cookie (Some 100) (select_rate 100 (vid_rate 1 (stopRewind s)))"

definition pauseClicked :: "playback \<Rightarrow> playback" where
  "pauseClicked s =
     (if pb_vid s then vid_pause (if pb_rewindId s \<noteq> None then stopFastRev s else s)
      else streamPause (pb_req PPause s))"

definition vjsPlay :: "playback \<Rightarrow> playback" where
  "vjsPlay s = (let s1 = (if pb_rewindId s \<noteq> None then stopFastRev s else s)
     in streamPlay (rate_cookie (Some (pb_rate s1 * 100)) (select_rate (pb_rate s1 * 100) s1)))"

text \<open>
  \<open>seek\<close> is what the restarted zms is told once its first image has arrived. The
  image goes to the event zms was playing.
\<close>

definition restartZmsStream :: "rat option \<Rightarrow> playback \<Rightarrow> playback" where
  "restartZmsStream seek s =
     s\<lparr>pb_imgScale := pb_scale s,
       pb_imgEvent := (if pb_last s \<noteq> 0 \<and> pb_imgEvent s \<noteq> pb_last s then pb_last s else pb_imgEvent s),
       pb_loading := Some seek\<rparr>"

definition streamSeek :: "rat \<Rightarrow> playback \<Rightarrow> playback" where
  "streamSeek offset s =
     (if pb_vid s then vid_seek offset s
      else if pb_broke s then restartZmsStream (Some offset) s
      else pb_req (PSeek offset) s)"

definition zms_image_loaded :: "playback \<Rightarrow> playback" where
  "zms_image_loaded s = (case pb_loading s of
     None \<Rightarrow> s
   | Some seek \<Rightarrow>
       (let s1 = s\<lparr>pb_loading := None, pb_broke := False\<rparr>
        in case seek of None \<Rightarrow> s1 | Some offset \<Rightarrow> streamSeek offset s1))"

definition playClicked :: "playback \<Rightarrow> playback" where
  "playClicked s =
     (let s1 = (if pb_select s = None then select_rate 100 s else s)
      in if pb_vid s1 then (if pb_paused s1 then vid_play s1 else vjsPlay s1)
         else streamPlay (if pb_broke s1 then restartZmsStream None s1 else pb_req PPlay s1))"

section \<open>Rates\<close>

fun position_of :: "rat \<Rightarrow> rat list \<Rightarrow> nat option" where
  "position_of x [] = None"
| "position_of x (y # ys) = (if x = y then Some 0 else map_option Suc (position_of x ys))"

text \<open>The first of the entries that are nearest.\<close>

definition nearest_index :: "rat list \<Rightarrow> rat \<Rightarrow> nat" where
  "nearest_index rs c = fold (\<lambda>i best. if \<bar>rs ! i - c\<bar> < \<bar>rs ! best - c\<bar> then i else best) [1..<length rs] 0"

definition stepRate :: "rat list \<Rightarrow> rat \<Rightarrow> int \<Rightarrow> rat option" where
  "stepRate rs current direction =
     (if rs = [] then None
      else (let i = (case position_of current rs of Some i \<Rightarrow> i | None \<Rightarrow> nearest_index rs current);
                next = int i + direction
            in if next < 0 \<or> next \<ge> int (length rs) then None else Some (rs ! nat next)))"

definition start_rewind :: "rat \<Rightarrow> playback \<Rightarrow> playback" where
  "start_rewind speed s =
     (let s1 = clear_rewind (s\<lparr>pb_rev := speed\<rparr>)
      in s1\<lparr>pb_intervals := pb_fresh s1 # pb_intervals s1, pb_rewindId := Some (pb_fresh s1), pb_fresh := pb_fresh s1 + 1\<rparr>)"

text \<open>The select's handler; the value is read from the select.\<close>

definition changeRate :: "playback \<Rightarrow> playback" where
  "changeRate s =
     rate_cookie (pb_select s)
       (case pb_select s of
          None \<Rightarrow> pauseClicked s
        | Some r \<Rightarrow>
            if r = 0 then pauseClicked s
            else if r < 0 then (if pb_vid s then start_rewind (- r / 100) s else pb_req (PVarplay r) s)
            else (if pb_vid s then vid_rate (r / 100) (stopRewind s) else pb_req (PVarplay r) s))"

definition streamFastFwd :: "playback \<Rightarrow> playback" where
  "streamFastFwd s0 =
     (let s = set_btns [(pauseBtn, BInactive), (playBtn, BInactive), (fastFwdBtn, BActive), (slowFwdBtn, BUnavail),
                (slowRevBtn, BUnavail), (fastRevBtn, BInactive)] s0
      in if pb_vid s then
           (let s1 = (if pb_rev s \<noteq> 1/2 then stopFastRev s else s)
            in case stepRate rates (pb_rate s1 * 100) 1 of
                 None \<Rightarrow> set_btns [(fastFwdBtn, BUnavail)] s1
               | Some next \<Rightarrow>
                   (let s2 = vid_rate (next / 100) s1;
                        s3 = (if stepRate rates next 1 = None then set_btns [(fastFwdBtn, BUnavail)] s2 else s2)
                    in rate_cookie (Some next) (select_rate next s3)))
         else pb_req PFastFwd s)"

definition streamSlowFwd :: "playback \<Rightarrow> playback" where
  "streamSlowFwd s = (if pb_vid s then vid_seek (pb_time s + pb_spf s) s else pb_req PSlowFwd s)"

definition streamSlowRev :: "playback \<Rightarrow> playback" where
  "streamSlowRev s = (if pb_vid s then vid_seek (pb_time s - pb_spf s) s else pb_req PSlowRev s)"

definition streamFastRev :: "playback \<Rightarrow> playback" where
  "streamFastRev s0 =
     (let s = set_btns [(pauseBtn, BInactive), (playBtn, BInactive), (fastFwdBtn, BInactive), (slowFwdBtn, BUnavail),
                (slowRevBtn, BUnavail), (fastRevBtn, BActive)] s0
      in if pb_vid s then
           (case stepRate rates (pb_rev s * - 100) (- 1) of
              None \<Rightarrow> set_btns [(fastRevBtn, BUnavail)] s
            | Some next \<Rightarrow>
                (let s1 = (if stepRate rates next (- 1) = None then set_btns [(fastRevBtn, BUnavail)] s else s)
                 in start_rewind (- next / 100) (rate_cookie (Some (pb_rate s1 * 100)) (select_rate next s1))))
         else pb_req PFastRev s)"

text \<open>The interval \<open>i\<close> fires; at the start of the video it clears the id that is held then.\<close>

definition rewind_tick :: "nat \<Rightarrow> playback \<Rightarrow> playback" where
  "rewind_tick i s =
     (if i \<notin> set (pb_intervals s) then s
      else if pb_time s \<le> 0 then vid_pause (clear_rewind s)
      else vid_seek (pb_time s - pb_rev s / 2) (vid_rate 0 s))"

section \<open>Other events\<close>

definition goToEvent :: "nat \<Rightarrow> playback \<Rightarrow> playback" where
  "goToEvent e s = pb_req (GoTo e) s"

definition streamPrev :: "playback \<Rightarrow> playback" where
  "streamPrev s =
     (let s1 = s\<lparr>pb_message := False\<rparr>
      in if pb_prev s1 \<noteq> 0 then goToEvent (pb_prev s1) (if \<not> pb_vid s1 then pb_req PQuit s1 else s1) else s1)"

definition streamNext :: "playback \<Rightarrow> playback" where
  "streamNext s =
     (let s1 = s\<lparr>pb_message := False\<rparr>
      in if pb_next s1 = 0 then
           (let s2 = (pauseClicked s1)\<lparr>pb_message := True\<rparr> in if \<not> pb_vid s2 then s2\<lparr>pb_broke := True\<rparr> else s2)
         else goToEvent (pb_next s1) (if \<not> pb_vid s1 then pb_req PQuit s1 else s1))"

text \<open>
  \<^verbatim>\<open>Date.parse\<close> returns a number, which has no method \<^verbatim>\<open>getTime\<close>: the branch that waits
  for the next event to start is never reached.
\<close>

definition vjsReplay :: "playback \<Rightarrow> playback" where
  "vjsReplay s =
     (if pb_replay s = ''single'' then vid_play s
      else if pb_replay s = ''all'' then
        (if pb_next s = 0 then s\<lparr>pb_message := True\<rparr>
         else (case pb_end s of
             None \<Rightarrow> streamNext s
           | Some date \<Rightarrow> if date = NaN \<or> date = Fin 0 then streamNext s else s))
      else if pb_replay s = ''gapless'' then streamNext s
      else s)"

section \<open>zms\<close>

definition deltaScale :: "playback \<Rightarrow> rat" where
  "deltaScale s = (let x = pb_scale s / 100 * pb_quality s in of_int (if 0 \<le> x then \<lfloor>x\<rfloor> else \<lceil>x\<rceil>))"

definition event_streamScale :: "playback \<Rightarrow> playback" where
  "event_streamScale s = (if pb_vid s then s else pb_req (PScale (min 100 (pb_scale s + deltaScale s))) s)"

definition streamQuery :: "playback \<Rightarrow> playback" where
  "streamQuery s =
     (if \<not> pb_poll s then s else if \<not> pb_broke s then pb_req PQuery s else s\<lparr>pb_poll := False\<rparr>)"

text \<open>A status: the event, whether zms is paused, its rate, and the duration where it says one.\<close>

record zms_status =
  sz_event :: nat
  sz_paused :: bool
  sz_rate :: rat
  sz_duration :: rat
  sz_scale :: "rat option"

datatype zms_reply = ZmsError | ZmsStatus "zms_status option"

definition event_getCmdResponse :: "zms_reply \<Rightarrow> playback \<Rightarrow> playback" where
  "event_getCmdResponse rsp s = (case rsp of
     ZmsError \<Rightarrow> s\<lparr>pb_broke := True\<rparr>
   | ZmsStatus None \<Rightarrow> s\<lparr>pb_broke := False\<rparr>
   | ZmsStatus (Some st) \<Rightarrow>
       (let s1 = s\<lparr>pb_broke := False, pb_length := (if sz_duration st \<noteq> 0 then sz_duration st else pb_length s)\<rparr>;
            s2 = (if pb_last s1 \<noteq> 0 \<and> sz_event st \<noteq> pb_last s1 then pb_req (AskedEvent (sz_event st)) s1 else s1)\<lparr>pb_last := sz_event st\<rparr>;
            s3 = (if sz_paused st then streamPause s2
                  else streamPlay (rate_cookie (Some (sz_rate st * 100)) (select_rate (sz_rate st * 100) s2)))
        in if pb_scale s3 \<noteq> 0 \<and> sz_scale st \<noteq> None \<and> sz_scale st \<noteq> Some (pb_scale s3 + deltaScale s3)
           then event_streamScale s3 else s3))"

section \<open>The progress bar\<close>

definition progress_width :: "rat \<Rightarrow> rat \<Rightarrow> js_num" where
  "progress_width time len =
     (let w = num_mul (num_div (Fin time) (Fin len)) (Fin 100) in if num_lt (Fin 100) w then Fin 100 else w)"

definition seek_time :: "rat \<Rightarrow> rat \<Rightarrow> rat \<Rightarrow> rat" where
  "seek_time x w len = (if x < 0 then 0 else x) / w * len"

section \<open>Runs\<close>

text \<open>Delivering the first event that waits.\<close>

definition video_fires :: "playback \<Rightarrow> playback" where
  "video_fires s = (case pb_events s of
     [] \<Rightarrow> s
   | ev # rest \<Rightarrow>
       (let s1 = s\<lparr>pb_events := rest\<rparr>
        in case ev of
             VPlay \<Rightarrow> streamPlay s1
           | VPause \<Rightarrow> streamPause s1
           | VRate \<Rightarrow> rate_cookie (Some (pb_rate s1 * 100)) (select_rate (pb_rate s1 * 100) s1)))"

datatype pb_event = Play | Pause | ChooseRate rat | FastFwd | SlowFwd | SlowRev | FastRev | Tick nat | Ended | Prev | Next
  | SeekTo rat | Poll | Reply zms_reply | ImageLoaded | VideoFires | PlaysOn rat

text \<open>While the video plays its position moves on by itself.\<close>

definition pb_exec :: "pb_event \<Rightarrow> playback \<Rightarrow> playback" where
  "pb_exec ev s = (case ev of
     Play \<Rightarrow> playClicked s
   | Pause \<Rightarrow> pauseClicked s
   | ChooseRate r \<Rightarrow> changeRate (select_rate r s)
   | FastFwd \<Rightarrow> streamFastFwd s
   | SlowFwd \<Rightarrow> streamSlowFwd s
   | SlowRev \<Rightarrow> streamSlowRev s
   | FastRev \<Rightarrow> streamFastRev s
   | Tick i \<Rightarrow> rewind_tick i s
   | Ended \<Rightarrow> (if pb_vid s then vjsReplay (s\<lparr>pb_paused := True\<rparr>) else s)
   | Prev \<Rightarrow> streamPrev s
   | Next \<Rightarrow> streamNext s
   | SeekTo t \<Rightarrow> streamSeek t s
   | Poll \<Rightarrow> streamQuery s
   | Reply rsp \<Rightarrow> if pb_vid s then s else event_getCmdResponse rsp s
   | ImageLoaded \<Rightarrow> zms_image_loaded s
   | VideoFires \<Rightarrow> video_fires s
   | PlaysOn dt \<Rightarrow> if pb_vid s \<and> \<not> pb_paused s \<and> 0 \<le> dt then s\<lparr>pb_time := pb_time s + dt * pb_rate s\<rparr> else s)"

section \<open>The rates\<close>

lemma position_of_Some: "position_of x ys = Some i \<Longrightarrow> i < length ys \<and> ys ! i = x"
  by (induction ys arbitrary: i) (auto split: if_splits)

lemma position_of_None: "position_of x ys = None \<longleftrightarrow> x \<notin> set ys"
  by (induction ys) auto

lemma least_fold:
  fixes g :: "nat \<Rightarrow> rat"
  assumes "b < n" "\<forall>i \<in> set is. i < n"
  shows "fold (\<lambda>i best. if g i < g best then i else best) is b < n
      \<and> (\<forall>i \<in> set (b # is). g (fold (\<lambda>i best. if g i < g best then i else best) is b) \<le> g i)"
  using assms
proof (induction "is" arbitrary: b)
  case (Cons i "is")
  let ?b = "if g i < g b then i else b"
  define k where "k = fold (\<lambda>i best. if g i < g best then i else best) is ?b"
  have "k < n" "\<forall>x \<in> set is. g k \<le> g x" "g k \<le> g ?b"
    using Cons.IH[of ?b] Cons.prems by (auto simp: k_def)
  moreover have "g ?b \<le> g i" "g ?b \<le> g b" by auto
  ultimately have "k < n \<and> (\<forall>x \<in> set (b # i # is). g k \<le> g x)" by (auto intro: order_trans)
  then show ?case by (simp add: k_def)
qed simp

lemma nearest_index_spec:
  assumes "rs \<noteq> []"
  shows "nearest_index rs c < length rs \<and> (\<forall>x \<in> set rs. \<bar>rs ! nearest_index rs c - c\<bar> \<le> \<bar>x - c\<bar>)"
proof -
  have "0 < length rs" using assms by simp
  from least_fold[OF this, of "[1..<length rs]" "\<lambda>i. \<bar>rs ! i - c\<bar>"] have
    n: "nearest_index rs c < length rs"
       "\<forall>i \<in> set (0 # [1..<length rs]). \<bar>rs ! nearest_index rs c - c\<bar> \<le> \<bar>rs ! i - c\<bar>"
    by (simp_all add: nearest_index_def)
  have "\<bar>rs ! nearest_index rs c - c\<bar> \<le> \<bar>rs ! i - c\<bar>" if "i < length rs" for i
    using n that by (cases "i = 0") auto
  with n(1) show ?thesis by (auto simp: in_set_conv_nth)
qed

lemma stepRate_listed: "stepRate rs c d = Some r \<Longrightarrow> r \<in> set rs"
  by (auto simp: stepRate_def Let_def split: if_splits option.splits)

lemma rates_sorted: "sorted_wrt (<) rates" "rates \<noteq> []"
  by (simp_all add: rates_def)

text \<open>From a listed rate a step goes to the neighbour in the list; at the end there is none.\<close>

lemma stepRate_neighbour:
  assumes "sorted_wrt (<) rs" "c \<in> set rs"
  shows "case stepRate rs c 1 of Some r \<Rightarrow> r \<in> set rs \<and> c < r \<and> (\<forall>x \<in> set rs. c < x \<longrightarrow> r \<le> x)
                              | None \<Rightarrow> \<forall>x \<in> set rs. x \<le> c"
    and "case stepRate rs c (- 1) of Some r \<Rightarrow> r \<in> set rs \<and> r < c \<and> (\<forall>x \<in> set rs. x < c \<longrightarrow> x \<le> r)
                              | None \<Rightarrow> \<forall>x \<in> set rs. c \<le> x"
proof -
  obtain i where i: "position_of c rs = Some i" "i < length rs" "rs ! i = c"
    using position_of_None[of c rs] position_of_Some assms(2) by (cases "position_of c rs") auto
  have lt: "rs ! j < rs ! k" if "j < k" "k < length rs" for j k
    using assms(1) that by (simp add: sorted_wrt_iff_nth_less)
  have le: "rs ! j \<le> rs ! k" if "j \<le> k" "k < length rs" for j k
    using lt[of j k] that by (cases "j = k") auto
  have ne: "rs \<noteq> []" using assms(2) by auto
  have up: "\<exists>k. rs ! k = x \<and> i < k \<and> k < length rs" if x: "x \<in> set rs" "c < x" for x
  proof -
    obtain k where k: "k < length rs" "rs ! k = x" using x(1) by (auto simp: in_set_conv_nth)
    then have "i < k" using le[of k i] i x(2) by (cases "i < k") auto
    with k show ?thesis by blast
  qed
  have down: "\<exists>k. rs ! k = x \<and> k < i" if x: "x \<in> set rs" "x < c" for x
  proof -
    obtain k where k: "k < length rs" "rs ! k = x" using x(1) by (auto simp: in_set_conv_nth)
    then have "k < i" using le[of i k] i x(2) by (cases "k < i") auto
    with k show ?thesis by blast
  qed
  show "case stepRate rs c 1 of Some r \<Rightarrow> r \<in> set rs \<and> c < r \<and> (\<forall>x \<in> set rs. c < x \<longrightarrow> r \<le> x)
                              | None \<Rightarrow> \<forall>x \<in> set rs. x \<le> c"
  proof (cases "i + 1 < length rs")
    case True
    then have "stepRate rs c 1 = Some (rs ! (i + 1))" using i ne by (simp add: stepRate_def nat_add_distrib)
    moreover have "c < rs ! (i + 1)" using lt[of i "i + 1"] True i by simp
    moreover have "\<forall>x \<in> set rs. c < x \<longrightarrow> rs ! (i + 1) \<le> x"
    proof (intro ballI impI)
      fix x assume "x \<in> set rs" "c < x"
      from up[OF this] obtain k where "rs ! k = x" "i < k" "k < length rs" by blast
      then show "rs ! (i + 1) \<le> x" using le[of "i + 1" k] by simp
    qed
    ultimately show ?thesis using True by simp
  next
    case False
    then have "stepRate rs c 1 = None" using i ne by (simp add: stepRate_def)
    moreover have "\<forall>x \<in> set rs. x \<le> c" using up False by fastforce
    ultimately show ?thesis by simp
  qed
  show "case stepRate rs c (- 1) of Some r \<Rightarrow> r \<in> set rs \<and> r < c \<and> (\<forall>x \<in> set rs. x < c \<longrightarrow> x \<le> r)
                              | None \<Rightarrow> \<forall>x \<in> set rs. c \<le> x"
  proof (cases "0 < i")
    case True
    then have n: "nat (int i - 1) = i - 1" by simp
    then have "stepRate rs c (- 1) = Some (rs ! (i - 1))" using i ne True by (simp add: stepRate_def)
    moreover have "rs ! (i - 1) < c" using lt[of "i - 1" i] True i by simp
    moreover have "\<forall>x \<in> set rs. x < c \<longrightarrow> x \<le> rs ! (i - 1)"
    proof (intro ballI impI)
      fix x assume "x \<in> set rs" "x < c"
      from down[OF this] obtain k where "rs ! k = x" "k < i" by blast
      then show "x \<le> rs ! (i - 1)" using le[of k "i - 1"] i(2) by simp
    qed
    ultimately show ?thesis using True i by simp
  next
    case False
    then have "stepRate rs c (- 1) = None" using i ne by (simp add: stepRate_def)
    moreover have "\<forall>x \<in> set rs. c \<le> x" using down False by fastforce
    ultimately show ?thesis by simp
  qed
qed

text \<open>A step up from a rate that is not negative, listed or not, gives a listed rate that is not negative.\<close>

lemma stepRate_up:
  assumes "stepRate rates c 1 = Some q" "0 \<le> c"
  shows "q \<in> set rates \<and> 0 \<le> q"
proof -
  define i where "i = (case position_of c rates of Some i \<Rightarrow> i | None \<Rightarrow> nearest_index rates c)"
  have i: "i < length rates" "0 \<le> rates ! i"
  proof -
    have "0 \<in> set rates" by (simp add: rates_def)
    then have n: "nearest_index rates c < length rates" "\<bar>rates ! nearest_index rates c - c\<bar> \<le> \<bar>0 - c\<bar>"
      using nearest_index_spec [OF rates_sorted(2), of c] by blast+
    show "i < length rates" "0 \<le> rates ! i"
      using n position_of_Some [of c rates] assms(2) by (auto simp: i_def abs_if split: option.split if_splits)
  qed
  have q: "q = rates ! (i + 1)" "i + 1 < length rates"
    using assms(1) rates_sorted(2) unfolding i_def stepRate_def by (auto simp: Let_def nat_add_distrib split: if_splits)
  then have "rates ! i < q" using rates_sorted(1) by (simp add: sorted_wrt_iff_nth_less)
  then show ?thesis using i q by simp
qed

section \<open>The invariant\<close>

text \<open>\<open>r0\<close> is the rate the player was opened with.\<close>

definition pb_inv :: "rat \<Rightarrow> playback \<Rightarrow> bool" where
  "pb_inv r0 s \<longleftrightarrow> (pb_intervals s = [] \<or> (\<exists>i. pb_intervals s = [i] \<and> pb_rewindId s = Some i \<and> pb_vid s))
     \<and> 0 < pb_rev s \<and> pb_rev s * - 100 \<in> set rates
     \<and> 0 \<le> pb_rate s \<and> (pb_rate s = r0 \<or> pb_rate s * 100 \<in> set rates) \<and> 0 \<le> pb_time s"

lemma set_btns_rest [simp]:
  "pb_vid (set_btns bs s) = pb_vid s" "pb_intervals (set_btns bs s) = pb_intervals s" "pb_rewindId (set_btns bs s) = pb_rewindId s"
  "pb_rev (set_btns bs s) = pb_rev s" "pb_rate (set_btns bs s) = pb_rate s" "pb_time (set_btns bs s) = pb_time s"
  "pb_poll (set_btns bs s) = pb_poll s" "pb_log (set_btns bs s) = pb_log s" "pb_broke (set_btns bs s) = pb_broke s"
  "pb_loading (set_btns bs s) = pb_loading s" "pb_paused (set_btns bs s) = pb_paused s" "pb_select (set_btns bs s) = pb_select s"
  by (induction bs arbitrary: s; simp add: set_btns_def split: prod.split)+

lemma pb_inv_btns [simp]: "pb_inv r0 (set_btns bs s) = pb_inv r0 s"
  by (simp add: pb_inv_def)

named_theorems pb_ops \<open>definitions of the player's operations\<close>

lemmas [pb_ops] = pb_req_def select_rate_def rate_cookie_def vid_play_def vid_pause_def vid_seek_def goToEvent_def

lemma pb_inv_simple [simp]:
  "pb_inv r0 (pb_req c s) = pb_inv r0 s" "pb_inv r0 (select_rate r s) = pb_inv r0 s" "pb_inv r0 (rate_cookie x s) = pb_inv r0 s"
  "pb_inv r0 (vid_play s) = pb_inv r0 s" "pb_inv r0 (vid_pause s) = pb_inv r0 s"
  "pb_inv r0 (s\<lparr>pb_message := m\<rparr>) = pb_inv r0 s" "pb_inv r0 (s\<lparr>pb_broke := b\<rparr>) = pb_inv r0 s" "pb_inv r0 (s\<lparr>pb_poll := b\<rparr>) = pb_inv r0 s"
  "pb_inv r0 (s\<lparr>pb_last := n\<rparr>) = pb_inv r0 s" "pb_inv r0 (s\<lparr>pb_loading := l\<rparr>) = pb_inv r0 s" "pb_inv r0 (s\<lparr>pb_events := evs\<rparr>) = pb_inv r0 s"
  "pb_inv r0 (s\<lparr>pb_length := len\<rparr>) = pb_inv r0 s" "pb_inv r0 (s\<lparr>pb_paused := b\<rparr>) = pb_inv r0 s"
  "pb_inv r0 (s\<lparr>pb_imgScale := sc, pb_imgEvent := n, pb_loading := l\<rparr>) = pb_inv r0 s" "pb_inv r0 (s\<lparr>pb_pauseShown := b\<rparr>) = pb_inv r0 s"
  by (simp_all add: pb_inv_def pb_ops)

lemma pb_inv_seek [simp]: "pb_inv r0 s \<Longrightarrow> pb_inv r0 (vid_seek t s)"
  by (simp add: pb_inv_def pb_ops)

lemma pb_inv_rate: "\<lbrakk>pb_inv r0 s; 0 \<le> r; r * 100 \<in> set rates\<rbrakk> \<Longrightarrow> pb_inv r0 (vid_rate r s)"
  by (simp add: pb_inv_def vid_rate_def)

lemma listed [simp]: "100 \<in> set rates" "- 50 \<in> set rates" "0 \<in> set rates"
  by (simp_all add: rates_def)

lemma pb_inv_stopRewind [simp]: "pb_inv r0 s \<Longrightarrow> pb_inv r0 (stopRewind s)"
  by (auto simp: pb_inv_def stopRewind_def clear_rewind_def)

lemma pb_inv_stopFastRev [simp]: "pb_inv r0 s \<Longrightarrow> pb_inv r0 (stopFastRev s)"
  by (simp add: stopFastRev_def pb_inv_rate)

lemma pb_inv_pause [simp]: "pb_inv r0 s \<Longrightarrow> pb_inv r0 (pauseClicked s)"
  by (simp add: pauseClicked_def streamPause_def)

lemma pb_inv_play [simp]: "pb_inv r0 s \<Longrightarrow> pb_inv r0 (streamPlay s)" "pb_inv r0 s \<Longrightarrow> pb_inv r0 (vjsPlay s)" "pb_inv r0 s \<Longrightarrow> pb_inv r0 (streamPause s)"
  by (simp_all add: streamPlay_def vjsPlay_def streamPause_def Let_def)

lemma pb_inv_restart [simp]: "pb_inv r0 s \<Longrightarrow> pb_inv r0 (restartZmsStream c s)"
  by (simp add: restartZmsStream_def pb_inv_def)

lemma pb_inv_streamSeek [simp]: "pb_inv r0 s \<Longrightarrow> pb_inv r0 (streamSeek t s)"
  by (simp add: streamSeek_def)

lemma pb_inv_next [simp]: "pb_inv r0 s \<Longrightarrow> pb_inv r0 (streamNext s)" "pb_inv r0 s \<Longrightarrow> pb_inv r0 (streamPrev s)"
  by (simp_all add: streamNext_def streamPrev_def goToEvent_def Let_def)

lemma pb_inv_start_rewind: "\<lbrakk>pb_inv r0 s; pb_vid s; 0 < v; v * - 100 \<in> set rates\<rbrakk> \<Longrightarrow> pb_inv r0 (start_rewind v s)"
  by (auto simp: pb_inv_def start_rewind_def clear_rewind_def Let_def)

lemma vid_kept [simp]: "pb_vid (rate_cookie r s) = pb_vid s" "pb_vid (select_rate q s) = pb_vid s"
  by (simp_all add: pb_ops)

lemma negative_rates: "r \<in> set rates \<Longrightarrow> r < 0 \<Longrightarrow> stepRate rates r (- 1) = Some q \<Longrightarrow> q \<in> set rates \<and> q < 0"
  using stepRate_neighbour(2)[OF rates_sorted(1), of r] by (auto split: option.splits)

lemma pb_inv_fastRev [simp]:
  assumes "pb_inv r0 s" shows "pb_inv r0 (streamFastRev s)"
proof (cases "pb_vid s \<and> stepRate rates (pb_rev s * - 100) (- 1) \<noteq> None")
  case True
  then obtain q where q: "stepRate rates (pb_rev s * - 100) (- 1) = Some q" by auto
  then have "q \<in> set rates" "q < 0"
    using negative_rates[OF _ _ q] assms by (auto simp: pb_inv_def)
  then show ?thesis
    using True q assms by (auto simp: streamFastRev_def Let_def intro!: pb_inv_start_rewind)
qed (use assms in \<open>auto simp: streamFastRev_def Let_def split: option.splits\<close>)

lemma pb_inv_fastFwd [simp]:
  assumes "pb_inv r0 s" shows "pb_inv r0 (streamFastFwd s)"
proof -
  have "pb_inv r0 (vid_rate (q / 100) t)" if "pb_inv r0 t" "stepRate rates (pb_rate t * 100) 1 = Some q" for t q
    using stepRate_up[OF that(2)] that(1) by (intro pb_inv_rate) (auto simp: pb_inv_def)
  then show ?thesis using assms by (auto simp: streamFastFwd_def Let_def split: option.splits)
qed

lemma pb_inv_exec: "pb_inv r0 s \<Longrightarrow> pb_inv r0 (pb_exec ev s)"
proof (cases ev)
  case (ChooseRate r)
  moreover assume "pb_inv r0 s"
  moreover have "pb_inv r0 t \<Longrightarrow> pb_select t \<in> Some ` set rates \<or> pb_select t = None \<Longrightarrow> pb_inv r0 (changeRate t)" for t
    by (auto simp: changeRate_def intro!: pb_inv_start_rewind pb_inv_rate)
  ultimately show ?thesis by (simp add: pb_exec_def select_rate_def pb_inv_def)
next
  case (Tick i)
  moreover assume "pb_inv r0 s"
  moreover have "pb_inv r0 (clear_rewind s)" using \<open>pb_inv r0 s\<close> by (auto simp: pb_inv_def clear_rewind_def)
  ultimately show ?thesis by (auto simp: pb_exec_def rewind_tick_def intro!: pb_inv_seek pb_inv_rate)
next
  case (Reply rsp)
  moreover assume "pb_inv r0 s"
  moreover have "pb_inv r0 (event_getCmdResponse rsp s)" if "pb_inv r0 s"
  proof (cases rsp)
    case (ZmsStatus st)
    have kept: "pb_inv r0 (t\<lparr>pb_broke := False, pb_length := len\<rparr>) = pb_inv r0 t" "pb_inv r0 (event_streamScale t) = pb_inv r0 t" for t len
      by (simp_all add: pb_inv_def event_streamScale_def pb_req_def)
    from that ZmsStatus show ?thesis
      by (cases st) (simp_all add: event_getCmdResponse_def Let_def kept)
  qed (use that in \<open>simp add: event_getCmdResponse_def\<close>)
  ultimately show ?thesis by (simp add: pb_exec_def)
next
  case (PlaysOn dt)
  moreover assume "pb_inv r0 s"
  ultimately show ?thesis by (auto simp: pb_exec_def pb_inv_def)
next
  case VideoFires
  moreover assume "pb_inv r0 s"
  ultimately show ?thesis by (auto simp: pb_exec_def video_fires_def Let_def split: list.split video_event.split)
next
  case ImageLoaded
  moreover assume "pb_inv r0 s"
  moreover have "pb_inv r0 (s\<lparr>pb_loading := None, pb_broke := False\<rparr>)" using \<open>pb_inv r0 s\<close> by (simp add: pb_inv_def)
  ultimately show ?thesis by (auto simp: pb_exec_def zms_image_loaded_def Let_def split: option.split)
qed (auto simp: pb_exec_def playClicked_def streamSlowFwd_def streamSlowRev_def vjsReplay_def streamQuery_def Let_def
    split: option.split)

definition pb_run :: "pb_event list \<Rightarrow> playback \<Rightarrow> playback" where
  "pb_run evs s = fold pb_exec evs s"

lemma pb_inv_run: "pb_inv r0 s \<Longrightarrow> pb_inv r0 (pb_run evs s)"
  by (induction evs arbitrary: s) (simp_all add: pb_run_def pb_inv_exec)

text \<open>
  A page as it is opened. The rate comes from the request or a cookie and need not be in the list
  (event.php only limits it to 1600); where it is not positive the player keeps its own, which is 1.
\<close>

definition opened_page :: "playback \<Rightarrow> bool" where
  "opened_page s \<longleftrightarrow> pb_intervals s = [] \<and> pb_rewindId s = None \<and> pb_rev s = 1/2 \<and> 0 < pb_rate s \<and> pb_rate s \<le> 16 \<and> pb_time s = 0"

lemma opened_inv: "opened_page s \<Longrightarrow> pb_inv (pb_rate s) s"
proof -
  assume o: "opened_page s"
  then have "pb_rev s * - 100 = - 50" by (simp add: opened_page_def)
  then have "pb_rev s * - 100 \<in> set rates" by (simp only: listed)
  with o show ?thesis by (simp add: opened_page_def pb_inv_def)
qed

text \<open>
  C14. However the controls are used, the rate of the player is not negative and is one of the list unless it is still the
  one the page was opened with; the speed of a rewind is the negative of a listed rate; at most
  one rewind interval runs, only for a video and under the id the page holds, so that the page can
  always stop it; and the position is never before the start.
\<close>
theorem playback_rates_listed:
  assumes "opened_page s" and "t = pb_run evs s"
  shows "(pb_rate t * 100 \<in> set rates \<or> pb_rate t = pb_rate s) \<and> 0 \<le> pb_rate t
    \<and> pb_rev t * - 100 \<in> set rates \<and> 0 < pb_rev t
    \<and> (pb_intervals t = [] \<or> (\<exists>i. pb_intervals t = [i] \<and> pb_rewindId t = Some i \<and> pb_vid t))
    \<and> 0 \<le> pb_time t"
proof -
  from pb_inv_run[OF opened_inv[OF assms(1)], of evs] show ?thesis unfolding assms(2) pb_inv_def by blast
qed

section \<open>Leaving reverse\<close>

lemma ticking_simple [simp]:
  "pb_intervals (pb_req c s) = pb_intervals s" "pb_intervals (select_rate r s) = pb_intervals s" "pb_intervals (rate_cookie x s) = pb_intervals s"
  "pb_intervals (vid_play s) = pb_intervals s" "pb_intervals (vid_pause s) = pb_intervals s" "pb_intervals (vid_rate r s) = pb_intervals s"
  "pb_intervals (streamPlay s) = pb_intervals s" "pb_intervals (streamPause s) = pb_intervals s"
  "pb_intervals (s\<lparr>pb_message := b\<rparr>) = pb_intervals s"
  by (simp_all add: pb_ops vid_rate_def streamPlay_def streamPause_def)

text \<open>Clearing the interval that is held leaves none.\<close>

lemma ticking_stop: "pb_inv r0 s \<Longrightarrow> pb_intervals (stopRewind s) = []" "pb_inv r0 s \<Longrightarrow> pb_intervals (stopFastRev s) = []"
  by (auto simp: stopFastRev_def stopRewind_def clear_rewind_def pb_inv_def)

text \<open>
  Pausing, playing, and choosing a forward rate end a rewind, whatever was done before. The
  fast-forward button ends it too, except a rewind at half speed: the code takes that speed
  to mean that nothing is rewinding, and the interval goes on pulling the video back.
\<close>
lemma leaving_reverse:
  assumes "opened_page s" "t = pb_run evs s" "pb_vid t"
  shows "pb_intervals (pauseClicked t) = [] \<and> pb_intervals (vjsPlay t) = []
    \<and> (r \<in> set rates \<and> 0 < r \<longrightarrow> pb_intervals (changeRate (select_rate r t)) = [])
    \<and> pb_intervals (streamFastFwd t) = (if pb_rev t = 1/2 then pb_intervals t else [])"
proof -
  have inv: "pb_inv (pb_rate s) t" using pb_inv_run[OF opened_inv[OF assms(1)]] assms(2) by simp
  then have id: "pb_rewindId t = None \<Longrightarrow> pb_intervals t = []" by (auto simp: pb_inv_def)
  have "pb_intervals (pauseClicked t) = []" "pb_intervals (vjsPlay t) = []"
    using id assms(3) ticking_stop[OF inv] by (auto simp: pauseClicked_def vjsPlay_def Let_def)
  moreover have "pb_intervals (changeRate (select_rate r t)) = []" if "r \<in> set rates" "0 < r"
  proof -
    have "pb_inv (pb_rate s) (select_rate r t)" using inv by simp
    from ticking_stop(1)[OF this] show ?thesis using that assms(3) by (simp add: changeRate_def) (simp add: select_rate_def)
  qed
  moreover have "pb_intervals (streamFastFwd t) = (if pb_rev t = 1/2 then pb_intervals t else [])"
  proof -
    have "pb_inv (pb_rate s) (set_btns bs t)" for bs using inv by simp
    from ticking_stop(2)[OF this] show ?thesis
      using assms(3) by (auto simp: streamFastFwd_def Let_def split: option.splits)
  qed
  ultimately show ?thesis by blast
qed

section \<open>Rewinding to the start\<close>

text \<open>
  A rewind ends: after as many ticks as its speed needs to cover the position, and one
  more, the video stands paused at its start and nothing ticks.
\<close>
lemma rewind_reaches_start:
  assumes "pb_intervals s = [i]" "pb_rewindId s = Some i" "0 < pb_rev s" "0 \<le> pb_time s" "pb_time s \<le> of_nat n * (pb_rev s / 2)"
  shows "pb_intervals ((rewind_tick i ^^ (n + 1)) s) = [] \<and> pb_paused ((rewind_tick i ^^ (n + 1)) s)
    \<and> pb_time ((rewind_tick i ^^ (n + 1)) s) = 0"
  using assms
proof (induction n arbitrary: s)
  case 0
  then show ?case by (simp add: rewind_tick_def vid_pause_def clear_rewind_def)
next
  case (Suc n)
  have rest: "pb_rev (vid_seek x (vid_rate 0 s)) = pb_rev s" "pb_intervals (vid_seek x (vid_rate 0 s)) = pb_intervals s"
    "pb_rewindId (vid_seek x (vid_rate 0 s)) = pb_rewindId s" for x
    by (simp_all add: vid_seek_def vid_rate_def)
  show ?case
  proof (cases "pb_time s \<le> 0")
    case True
    then have stopped: "pb_intervals (rewind_tick i s) = []" "pb_paused (rewind_tick i s)" "pb_time (rewind_tick i s) = 0"
      using Suc.prems(1,2,4) by (simp_all add: rewind_tick_def vid_pause_def clear_rewind_def)
    then have twice: "rewind_tick i (rewind_tick i s) = rewind_tick i s" by (simp add: rewind_tick_def[of i "rewind_tick i s"])
    then have "(rewind_tick i ^^ k) (rewind_tick i s) = rewind_tick i s" for k by (induction k) simp_all
    with twice have "(rewind_tick i ^^ (Suc n + 1)) s = rewind_tick i s"
      by (simp only: Suc_eq_plus1[symmetric] funpow_Suc_right comp_apply)
    then show ?thesis using stopped by (simp only: simp_thms)
  next
    case False
    let ?t = "vid_seek (pb_time s - pb_rev s / 2) (vid_rate 0 s)"
    have step: "rewind_tick i s = ?t" using Suc.prems(1) False by (simp add: rewind_tick_def)
    have "pb_time ?t = max 0 (pb_time s - pb_rev s / 2)" by (simp add: vid_seek_def)
    then have "0 \<le> pb_time ?t" "pb_time ?t \<le> of_nat n * (pb_rev ?t / 2)"
      using Suc.prems(3,5) rest by (auto simp: field_simps max_def)
    from Suc.IH[OF _ _ _ this] Suc.prems(1-3) rest show ?thesis
      by (simp add: funpow_Suc_right step del: funpow.simps)
  qed
qed

section \<open>The end of the video\<close>

text \<open>
  In the mode that plays all events the end of a video with a proper end date leaves the page as it
  is, although there is a next event: \<^verbatim>\<open>Date.parse\<close> gives a number and the code asks
  for its \<^verbatim>\<open>getTime\<close>.
\<close>
lemma replay_all_stops:
  assumes "pb_replay s = ''all''" "pb_next s \<noteq> 0" "pb_end s = Some (Fin d)" "d \<noteq> 0"
  shows "vjsReplay s = s"
  using assms by (simp add: vjsReplay_def)

section \<open>Status queries\<close>

definition queries :: "playback \<Rightarrow> nat" where
  "queries s = length (filter (\<lambda>c. c = PQuery) (pb_log s))"

text \<open>Whether the page polls, and the queries it has sent.\<close>

definition poll_state :: "playback \<Rightarrow> bool \<times> nat" where
  "poll_state s = (pb_poll s, queries s)"

lemma poll_simple [simp]:
  "poll_state (set_btns bs s) = poll_state s" "poll_state (select_rate r s) = poll_state s" "poll_state (rate_cookie x s) = poll_state s"
  "poll_state (vid_play s) = poll_state s" "poll_state (vid_pause s) = poll_state s" "poll_state (vid_rate r s) = poll_state s"
  "poll_state (vid_seek t s) = poll_state s" "poll_state (stopRewind s) = poll_state s" "poll_state (start_rewind v s) = poll_state s"
  "c \<noteq> PQuery \<Longrightarrow> poll_state (pb_req c s) = poll_state s" "poll_state (restartZmsStream k s) = poll_state s"
  "poll_state (s\<lparr>pb_message := m\<rparr>) = poll_state s" "poll_state (s\<lparr>pb_broke := b\<rparr>) = poll_state s"
  "poll_state (s\<lparr>pb_last := i\<rparr>) = poll_state s" "poll_state (s\<lparr>pb_paused := b\<rparr>) = poll_state s"
  "poll_state (s\<lparr>pb_events := evs\<rparr>) = poll_state s" "poll_state (clear_rewind s) = poll_state s"
  "poll_state (s\<lparr>pb_time := t\<rparr>) = poll_state s" "poll_state (s\<lparr>pb_pauseShown := b\<rparr>) = poll_state s"
  "poll_state (s\<lparr>pb_loading := l\<rparr>) = poll_state s" "poll_state (s\<lparr>pb_broke := b, pb_length := len\<rparr>) = poll_state s"
  by (simp_all add: poll_state_def queries_def pb_ops vid_rate_def stopRewind_def start_rewind_def clear_rewind_def
      restartZmsStream_def Let_def)

lemma poll_play [simp]:
  "poll_state (streamPlay s) = poll_state s" "poll_state (streamPause s) = poll_state s" "poll_state (stopFastRev s) = poll_state s"
  by (simp_all add: streamPlay_def streamPause_def stopFastRev_def)

lemma poll_controls [simp]:
  "poll_state (pauseClicked s) = poll_state s" "poll_state (vjsPlay s) = poll_state s" "poll_state (streamSeek t s) = poll_state s"
  by (simp_all add: pauseClicked_def vjsPlay_def streamSeek_def Let_def)

lemma poll_more [simp]:
  "poll_state (playClicked s) = poll_state s" "poll_state (changeRate s) = poll_state s" "poll_state (streamNext s) = poll_state s"
  "poll_state (streamPrev s) = poll_state s" "poll_state (zms_image_loaded s) = poll_state s" "poll_state (event_streamScale s) = poll_state s"
  "poll_state (streamFastFwd s) = poll_state s" "poll_state (streamFastRev s) = poll_state s" "poll_state (rewind_tick i s) = poll_state s"
  by (simp_all add: playClicked_def changeRate_def streamNext_def streamPrev_def zms_image_loaded_def event_streamScale_def goToEvent_def
      streamFastFwd_def streamFastRev_def rewind_tick_def Let_def split: option.split)

lemma poll_reply [simp]: "poll_state (event_getCmdResponse rsp s) = poll_state s"
  by (cases rsp) (simp_all add: event_getCmdResponse_def Let_def split: option.split)

lemma poll_exec: "ev \<noteq> Poll \<Longrightarrow> poll_state (pb_exec ev s) = poll_state s"
  by (cases ev)
    (simp_all add: pb_exec_def streamSlowFwd_def streamSlowRev_def vjsReplay_def video_fires_def Let_def
      split: option.split list.split video_event.split)

lemma poll_off: "\<not> pb_poll s \<Longrightarrow> poll_state (pb_exec ev s) = poll_state s"
  by (cases "ev = Poll") (auto simp: poll_exec, simp add: pb_exec_def streamQuery_def)

text \<open>
  One status query that comes due while zms is known to have failed stops the
  queries for good: whatever happens afterwards, the restart of zms included, no query is sent
  again, so neither the position nor the event shown follows zms any more.
\<close>
lemma polling_never_resumes:
  assumes "pb_broke s"
  shows "\<not> pb_poll (pb_run (Poll # evs) s) \<and> queries (pb_run (Poll # evs) s) = queries s"
proof -
  have off: "\<not> pb_poll (pb_exec Poll s)" "queries (pb_exec Poll s) = queries s"
    using assms by (simp_all add: pb_exec_def streamQuery_def queries_def)
  have "\<not> pb_poll t \<Longrightarrow> poll_state (pb_run es t) = poll_state t" for es t
  proof (induction es arbitrary: t)
    case (Cons e es)
    then have "poll_state (pb_exec e t) = poll_state t" by (simp add: poll_off)
    moreover from this have "\<not> pb_poll (pb_exec e t)" using Cons.prems by (simp add: poll_state_def)
    ultimately show ?case using Cons.IH by (simp add: pb_run_def)
  qed (simp add: pb_run_def)
  from this[OF off(1), of evs] show ?thesis using off by (simp add: pb_run_def poll_state_def)
qed

section \<open>Seeking after a crash\<close>

text \<open>
  Seeking while zms has failed restarts it on the event it was playing, and once its first
  image has arrived it is sent the last position asked for, once.
\<close>
lemma seek_after_crash:
  assumes "\<not> pb_vid s" "pb_broke s" "offs \<noteq> []"
  shows "pb_log (zms_image_loaded (fold streamSeek offs s)) = pb_log s @ [PSeek (List.last offs)]
    \<and> \<not> pb_broke (zms_image_loaded (fold streamSeek offs s))
    \<and> (pb_last s \<noteq> 0 \<longrightarrow> pb_imgEvent (zms_image_loaded (fold streamSeek offs s)) = pb_last s)"
proof -
  have "offs \<noteq> [] \<Longrightarrow> \<not> pb_vid t \<Longrightarrow> pb_broke t \<Longrightarrow>
     (let u = fold streamSeek offs t in pb_loading u = Some (Some (List.last offs)) \<and> \<not> pb_vid u \<and> pb_log u = pb_log t
        \<and> (pb_last t \<noteq> 0 \<longrightarrow> pb_imgEvent u = pb_last t) \<and> pb_last u = pb_last t)" for t
  proof (induction offs arbitrary: t)
    case (Cons x xs)
    have step: "streamSeek x t = restartZmsStream (Some x) t" using Cons.prems by (simp add: streamSeek_def)
    show ?case
    proof (cases "xs = []")
      case True
      then show ?thesis using Cons.prems by (simp add: step restartZmsStream_def Let_def)
    next
      case False
      from Cons.IH[OF False, of "restartZmsStream (Some x) t"] Cons.prems show ?thesis
        using False by (simp add: step Let_def) (simp add: restartZmsStream_def)
    qed
  qed simp
  from this[OF assms(3,1,2)] show ?thesis
    by (simp add: zms_image_loaded_def streamSeek_def pb_req_def Let_def)
qed

section \<open>The progress bar\<close>

text \<open>Clicking on the bar and showing the position clicked are inverse.\<close>

lemma progress_of_click:
  assumes "0 \<le> x" "x \<le> w" "0 < w" "0 < len"
  shows "progress_width (seek_time x w len) len = Fin (x / w * 100)"
proof -
  have "x * 100 / w \<le> 100" using assms by (simp add: field_simps)
  moreover have "x / w * len / len = x / w" using assms by simp
  ultimately show ?thesis using assms by (simp add: progress_width_def seek_time_def Let_def not_less)
qed

section \<open>Concrete runs\<close>

definition demo_video :: playback where
  "demo_video = \<lparr>pb_vid = True, pb_time = 0, pb_length = 60, pb_spf = 1/25, pb_rate = 3/4, pb_paused = True, pb_events = [],
     pb_rewindId = None, pb_intervals = [], pb_fresh = 1, pb_rev = 1/2, pb_select = Some 100, pb_cookie = None,
     pb_btn = (\<lambda>b. BInactive), pb_pauseShown = False, pb_replay = ''all'', pb_next = 8, pb_prev = 6, pb_end = Some (Fin 1700000000000),
     pb_broke = False, pb_poll = False, pb_last = 7, pb_imgEvent = 7, pb_imgScale = 100, pb_scale = 100, pb_quality = 0,
     pb_loading = None, pb_message = False, pb_log = []\<rparr>"

definition demo_zms :: playback where
  "demo_zms = demo_video\<lparr>pb_vid := False, pb_broke := True, pb_poll := True\<rparr>"

lemma demo_video_opened: "opened_page demo_video"
  by (simp add: opened_page_def demo_video_def)

text \<open>Half speed backwards, then fast forward: the rewind goes on.\<close>

definition demo_half :: "pb_event list" where
  "demo_half = [Play, PlaysOn 10, ChooseRate (- 50), Tick 1]"

lemma demo_half_state:
  "pb_vid (pb_run demo_half demo_video) \<and> pb_intervals (pb_run demo_half demo_video) = [1]
    \<and> pb_rev (pb_run demo_half demo_video) = 1/2 \<and> pb_rate (pb_run demo_half demo_video) = 0"
  by code_simp

text \<open>A page opened at the unlisted rate of 75 per cent, forwards one step.\<close>

theorem playback_rates_listed_witness:
  "pb_rate (pb_run [FastFwd] demo_video) * 100 \<in> set rates \<and> pb_rate (pb_run [FastFwd] demo_video) \<noteq> pb_rate demo_video"
proof -
  have "pb_rate (pb_run [FastFwd] demo_video) \<noteq> pb_rate demo_video" by code_simp
  then show ?thesis using playback_rates_listed[OF demo_video_opened refl, of "[FastFwd]"] by blast
qed

end
