(* ===== verification/Filter_Editor.thy ===== *)
theory Filter_Editor
  imports Js_Text
begin

text \<open>
  The filter page (\<^verbatim>\<open>web/skins/classic/views/js/filter.js\<close>): the rows of the query, each a table row of
  form controls that \<^verbatim>\<open>parseRows\<close> builds again after every change, the check of the form, and the
  buttons. A control carries the row number in its name. What the scripts use of jQuery is
  \<^verbatim>\<open>val\<close>: reading the value of a control and selecting or typing one. Texts
  put into option values are free of quotes and ampersands.
\<close>

section \<open>Controls\<close>

text \<open>
  A cell of a row: empty (\<^verbatim>\<open>&nbsp;\<close>), a select with its option values, the value it takes when it is
  reset or cloned and the selected value, a select with \<^verbatim>\<open>multiple\<close> as the server renders it,
  an input (of type number where the flag is set), a hidden input. The number is the row in its name.
\<close>

datatype cell = Blank
  | Select nat "string list" "string option" "string option"
  | Multi nat "string list" "string list" "string list"
  | Input bool nat string
  | Hidden nat string

datatype jq_value = Undef | Null | Str string | Arr "string list"

fun jq_val :: "cell \<Rightarrow> jq_value" where
  "jq_val Blank = Undef"
| "jq_val (Select i os d None) = Null"
| "jq_val (Select i os d (Some v)) = Str v"
| "jq_val (Multi i os d vs) = Arr vs"
| "jq_val (Input num i s) = Str s"
| "jq_val (Hidden i s) = Str s"

fun jq_falsy :: "jq_value \<Rightarrow> bool" where
  "jq_falsy (Str s) = (s = [])"
| "jq_falsy (Arr vs) = False"
| "jq_falsy _ = True"

fun jq_texts :: "jq_value \<Rightarrow> string list" where
  "jq_texts (Str s) = [s]"
| "jq_texts (Arr vs) = vs"
| "jq_texts _ = [[]]"

fun comma_join :: "string list \<Rightarrow> string" where
  "comma_join [] = []"
| "comma_join [s] = s"
| "comma_join (s # ss) = s @ '','' @ comma_join ss"

text \<open>A number input keeps only the text of a valid number.\<close>

definition number_text :: "string \<Rightarrow> string" where
  "number_text s = (if valid_float s then s else [])"

text \<open>
  \<^verbatim>\<open>val(v)\<close>: of the options of a select the last whose value is asked for; where there is none
  nothing is selected.
\<close>

fun jq_set :: "jq_value \<Rightarrow> cell \<Rightarrow> cell" where
  "jq_set v (Select i os d sel) = Select i os d (find (\<lambda>x. x \<in> set (jq_texts v)) (rev os))"
| "jq_set v (Input num i s) = Input num i (let t = comma_join (jq_texts v) in if num then number_text t else t)"
| "jq_set v c = c"

text \<open>A new select shows its first option, or the one with the attribute \<^verbatim>\<open>selected\<close>.\<close>

definition first_option :: "string list \<Rightarrow> string option" where
  "first_option os = (case os of [] \<Rightarrow> None | x # _ \<Rightarrow> Some x)"

definition new_select :: "nat \<Rightarrow> string list \<Rightarrow> cell" where
  "new_select i os = Select i os (first_option os) (first_option os)"

definition new_select_at :: "nat \<Rightarrow> string list \<Rightarrow> string \<Rightarrow> cell" where
  "new_select_at i os key = (if key \<in> set os then Select i os (Some key) (Some key) else new_select i os)"

text \<open>\<^verbatim>\<open>element.value\<close>; \<open>None\<close> where the form has no such element.\<close>

fun elem_value :: "cell \<Rightarrow> string option" where
  "elem_value Blank = None"
| "elem_value (Select i os d None) = Some []"
| "elem_value (Select i os d (Some v)) = Some v"
| "elem_value (Multi i os d vs) = Some (case vs of [] \<Rightarrow> [] | v # _ \<Rightarrow> v)"
| "elem_value (Input num i s) = Some s"
| "elem_value (Hidden i s) = Some s"

text \<open>
  What a clone of a cell holds: a select falls back to its default; text inputs are then emptied by
  the script.
\<close>

fun clone_cell :: "cell \<Rightarrow> cell" where
  "clone_cell (Select i os d sel) = Select i os d d"
| "clone_cell (Multi i os d vs) = Multi i os d d"
| "clone_cell (Input num i s) = Input num i (if num then s else [])"
| "clone_cell c = c"

fun reset_cell :: "cell \<Rightarrow> cell" where
  "reset_cell (Select i os d sel) = Select i os d d"
| "reset_cell (Multi i os d vs) = Multi i os d d"
| "reset_cell (Input num i s) = Input num i []"
| "reset_cell c = c"

section \<open>Rows\<close>

text \<open>The attribute is a select that the server renders, always with one of its options selected.\<close>

record filter_row =
  fr_cnj :: cell
  fr_obr :: cell
  fr_attr :: string
  fr_attr_dflt :: string
  fr_attr_name :: nat
  fr_op :: cell
  fr_val :: cell
  fr_cbr :: cell
  fr_del_disabled :: bool

text \<open>
  The data of the page: for zones the monitor each belongs to; keys of objects in the order they
  are enumerated.
\<close>

record filter_env =
  fe_attrs :: "string list"
  fe_monitor_keys :: "string list"
  fe_zones :: "(string \<times> string) list"
  fe_states :: "string list"
  fe_servers :: "string list"
  fe_storage :: "string list"
  fe_sorted_monitors :: "string list"
  fe_monitor_name :: "string \<Rightarrow> string"
  fe_tags :: "string list"

definition conjTypes :: "string list" where "conjTypes = [''and'', ''or'']"

definition opTypes :: "string list" where
  "opTypes = [''='', ''!='', ''>='', ''>'', ''<'', ''<='', ''=~'', ''!~'', ''=[]'', ''![]'', ''IS'', ''IS NOT'', ''LIKE'',
     ''NOT LIKE'']"

definition tags_opTypes :: "string list" where "tags_opTypes = [''='', ''!='']"

fun includes_sub :: "string \<Rightarrow> string \<Rightarrow> bool" where
  "includes_sub pat [] = (pat = [])"
| "includes_sub pat (c # s) = (take (length pat) (c # s) = pat \<or> includes_sub pat s)"

text \<open>The values offered for an attribute, where they are offered.\<close>

definition value_options :: "filter_env \<Rightarrow> string \<Rightarrow> string list option" where
  "value_options env a =
     (if a = ''Archived'' then Some [''0'', ''1'']
      else if a = ''AlarmedZoneId'' then
        Some (concat (map (\<lambda>m. map fst (filter (\<lambda>z. snd z = m) (fe_zones env))) (fe_monitor_keys env)))
      else if includes_sub ''Weekday'' a then Some (map nat_to_str [0..<7])
      else if a = ''StateId'' then Some (fe_states env)
      else if a \<in> {''ServerId'', ''MonitorServerId'', ''StorageServerId'', ''FilterServerId''} then Some (fe_servers env)
      else if a = ''StorageId'' \<or> a = ''SecondaryStorageId'' then Some (fe_storage env)
      else if a = ''Monitor'' then Some (fe_sorted_monitors env)
      else if a = ''MonitorName'' then Some (map (fe_monitor_name env) (fe_sorted_monitors env))
      else if a = ''Tags'' then Some (fe_tags env)
      else if a = ''ExistsInFileSystem'' then Some [''false'', ''true'']
      else None)"

definition val_widget :: "filter_env \<Rightarrow> string \<Rightarrow> nat \<Rightarrow> cell" where
  "val_widget env a i = (case value_options env a of
     Some os \<Rightarrow> new_select i os
   | None \<Rightarrow> Input (a = ''DiskPercent'') i [])"

definition op_options :: "string \<Rightarrow> string list" where
  "op_options a = (if a = ''ExistsInFileSystem'' then [''IS'', ''IS NOT''] else if a = ''Tags'' then tags_opTypes else opTypes)"

definition default_op :: "string \<Rightarrow> string" where
  "default_op a = (if a = ''ExistsInFileSystem'' then ''IS'' else ''='')"

definition parse_cnj :: "nat \<Rightarrow> cell \<Rightarrow> cell" where
  "parse_cnj i c =
     (if i = 0 then Blank else jq_set (if jq_val c = Undef then Str ''and'' else jq_val c) (new_select i conjTypes))"

text \<open>With three rows or more there is a bracket select, with one level for each row after the second.\<close>

definition bracket_options :: "nat \<Rightarrow> string list" where
  "bracket_options n = map nat_to_str [0..<n - 1]"

definition parse_bracket :: "nat \<Rightarrow> nat \<Rightarrow> cell \<Rightarrow> cell" where
  "parse_bracket n i c =
     (if n > 2 then jq_set (if jq_val c \<in> {Undef, Null} then Str ''0'' else jq_val c) (new_select i (bracket_options n))
      else Blank)"

definition parse_val :: "filter_env \<Rightarrow> string \<Rightarrow> nat \<Rightarrow> cell \<Rightarrow> cell" where
  "parse_val env a i c =
     jq_set (if a = ''ExistsInFileSystem'' \<and> jq_falsy (jq_val c) then Str ''false'' else jq_val c) (val_widget env a i)"

fun new_op :: "string list \<Rightarrow> nat \<Rightarrow> jq_value \<Rightarrow> cell" where
  "new_op os i (Str s) = jq_set (Str s) (new_select_at i os s)"
| "new_op os i v = jq_set v (new_select i os)"

definition parse_op :: "string \<Rightarrow> nat \<Rightarrow> cell \<Rightarrow> cell" where
  "parse_op a i c =
     (let v = (if a = ''Archived'' then Str ''='' else jq_val c)
      in new_op (op_options a) i (if jq_falsy v then Str (default_op a) else v))"

definition parse_row :: "filter_env \<Rightarrow> nat \<Rightarrow> nat \<Rightarrow> filter_row \<Rightarrow> filter_row" where
  "parse_row env n i r =
     r\<lparr>fr_cnj := parse_cnj i (fr_cnj r),
       fr_obr := parse_bracket n i (fr_obr r),
       fr_cbr := parse_bracket n i (fr_cbr r),
       fr_del_disabled := (n = 1),
       fr_val := parse_val env (fr_attr r) i (fr_val r),
       fr_op := parse_op (fr_attr r) i (fr_op r),
       fr_attr_name := i\<rparr>"

definition parseRows :: "filter_env \<Rightarrow> filter_row list \<Rightarrow> filter_row list" where
  "parseRows env rs = map (\<lambda>(i, r). parse_row env (length rs) i r) (enumerate 0 rs)"

definition clone_row :: "filter_row \<Rightarrow> filter_row" where
  "clone_row r = r\<lparr>fr_cnj := clone_cell (fr_cnj r), fr_obr := clone_cell (fr_obr r), fr_attr := fr_attr_dflt r,
     fr_op := clone_cell (fr_op r), fr_val := clone_cell (fr_val r), fr_cbr := clone_cell (fr_cbr r)\<rparr>"

definition addTerm :: "filter_env \<Rightarrow> nat \<Rightarrow> filter_row list \<Rightarrow> filter_row list" where
  "addTerm env k rs = parseRows env (take (Suc k) rs @ clone_row (rs ! k) # drop (Suc k) rs)"

definition delTerm :: "filter_env \<Rightarrow> nat \<Rightarrow> filter_row list \<Rightarrow> filter_row list" where
  "delTerm env k rs = parseRows env (take k rs @ drop (Suc k) rs)"

definition reset_row :: "filter_row \<Rightarrow> filter_row" where
  "reset_row r = r\<lparr>fr_cnj := reset_cell (fr_cnj r), fr_obr := reset_cell (fr_obr r), fr_attr := fr_attr_dflt r,
     fr_op := reset_cell (fr_op r), fr_val := reset_cell (fr_val r), fr_cbr := reset_cell (fr_cbr r)\<rparr>"

section \<open>The page\<close>

text \<open>
  The checkboxes: \<open>None\<close> where the server did not render one. \<open>fp_sent\<close> holds what left the page,
  with the rows at that time.
\<close>

datatype filter_out = Submitted string | Navigated string

record filter_page =
  fp_rows :: "filter_row list"
  fp_boxes :: "string \<Rightarrow> bool option"
  fp_boxes_dflt :: "string \<Rightarrow> bool option"
  fp_limit :: string
  fp_limit_dflt :: string
  fp_cmd :: string
  fp_cmd_dflt :: string
  fp_name :: string
  fp_name_dflt :: string
  fp_id :: nat
  fp_canEditEvents :: bool
  fp_canViewEvents :: bool
  fp_canEditSystem :: bool
  fp_owner :: bool
  fp_execute_disabled :: bool
  fp_save_disabled :: bool
  fp_delete_disabled :: bool
  fp_action :: string
  fp_sent :: "(filter_out \<times> filter_row list) list"

text \<open>\<^verbatim>\<open>a.checked || b.checked || ...\<close>; \<open>None\<close> is the TypeError of an element that is missing.\<close>

fun js_or :: "bool option list \<Rightarrow> bool option" where
  "js_or [] = Some False"
| "js_or (None # cs) = None"
| "js_or (Some True # cs) = Some True"
| "js_or (Some False # cs) = js_or cs"

text \<open>\<^verbatim>\<open>element && element.checked\<close>\<close>

definition guarded :: "filter_page \<Rightarrow> string \<Rightarrow> bool option" where
  "guarded p b = Some (fp_boxes p b = Some True)"

definition execute_conditions :: "filter_page \<Rightarrow> bool option list" where
  "execute_conditions p =
     [guarded p ''AutoArchive'', guarded p ''AutoUnarchive'', guarded p ''AutoCopy'', guarded p ''AutoMove'', guarded p ''AutoVideo'',
      map_option (\<lambda>c. c \<and> fp_cmd p \<noteq> []) (fp_boxes p ''AutoExecute''), fp_boxes p ''AutoDelete'', fp_boxes p ''UpdateDiskSpace'',
      guarded p ''AutoUpload'', guarded p ''AutoEmail'', guarded p ''AutoMessage'']"

definition can_execute :: "filter_page \<Rightarrow> bool option" where
  "can_execute p =
     (if fp_canEditEvents p then js_or (execute_conditions p)
      else if fp_canViewEvents p then js_or [guarded p ''AutoUpload'', guarded p ''AutoEmail'', guarded p ''AutoMessage'']
      else Some False)"

definition updateButtons :: "filter_page \<Rightarrow> filter_page" where
  "updateButtons p = (case can_execute p of
     None \<Rightarrow> p
   | Some ex \<Rightarrow>
       (let canWeEdit = (fp_canEditSystem p \<or> fp_owner p \<or> fp_id p = 0);
            canSave = (fp_name p \<noteq> [] \<and> canWeEdit)
        in p\<lparr>fp_execute_disabled := \<not> ex, fp_save_disabled := \<not> canSave, fp_delete_disabled := \<not> (fp_id p \<noteq> 0 \<and> canWeEdit)\<rparr>))"

section \<open>Checking the form\<close>

datatype verdict = Accepted | AcceptedNoAction | BadValue | BadBrackets | BadLimit | AskArchived | AskEndTime | TypeError

text \<open>The sum of the numbers that selects hold; \<open>None\<close> is NaN.\<close>

definition add_int :: "int option \<Rightarrow> int option \<Rightarrow> int option" where
  "add_int a b = (case (a, b) of (Some x, Some y) \<Rightarrow> Some (x + y) | _ \<Rightarrow> None)"

text \<open>
  The loop over the rows: \<open>Inl\<close> ends it. A control that is missing is a TypeError, its value an
  alert where it is empty.
\<close>

fun check_rows :: "bool \<Rightarrow> filter_row list \<Rightarrow> int option \<Rightarrow> int option \<Rightarrow> verdict + int option \<times> int option" where
  "check_rows br [] ob cb = Inr (ob, cb)"
| "check_rows br (r # rs) ob cb =
     (case (if br then (case (elem_value (fr_obr r), elem_value (fr_cbr r)) of
                          (Some o1, Some c1) \<Rightarrow> Some (add_int ob (parseInt o1), add_int cb (parseInt c1))
                        | _ \<Rightarrow> None)
            else Some (ob, cb)) of
        None \<Rightarrow> Inl TypeError
      | Some (ob', cb') \<Rightarrow>
          (case elem_value (fr_val r) of
             None \<Rightarrow> Inl TypeError
           | Some v \<Rightarrow> if v = [] then Inl BadValue else check_rows br rs ob' cb'))"

definition background_conditions :: "filter_page \<Rightarrow> bool option list" where
  "background_conditions p =
     [fp_boxes p ''AutoArchive'', fp_boxes p ''AutoUnarchive'', fp_boxes p ''UpdateDiskSpace'', fp_boxes p ''AutoVideo'',
      guarded p ''AutoEmail'', guarded p ''AutoMessage'', fp_boxes p ''AutoExecute'', fp_boxes p ''AutoDelete'',
      fp_boxes p ''AutoCopy'', fp_boxes p ''AutoMove'']"

definition filter_validateForm :: "filter_page \<Rightarrow> verdict" where
  "filter_validateForm p =
     (case check_rows (length (fp_rows p) > 2) (fp_rows p) (Some 0) (Some 0) of
        Inl v \<Rightarrow> v
      | Inr (ob, cb) \<Rightarrow>
          if \<not> (ob \<noteq> None \<and> cb \<noteq> None \<and> ob = cb) then BadBrackets
          else if \<exists>c \<in> set (fp_limit p). \<not> is_digit c then BadLimit
          else (case fp_boxes p ''AutoDelete'' of
              None \<Rightarrow> TypeError
            | Some True \<Rightarrow> if \<exists>r \<in> set (fp_rows p). fr_attr r = ''Archived'' then Accepted else AskArchived
            | Some False \<Rightarrow>
                (case fp_boxes p ''UpdateDiskSpace'' of
                   None \<Rightarrow> TypeError
                 | Some True \<Rightarrow>
                     if \<exists>r \<in> set (fp_rows p). fr_attr r \<in> {''EndDateTime'', ''EndTime'', ''EndDate''} then Accepted else AskEndTime
                 | Some False \<Rightarrow>
                     (case fp_boxes p ''Background'' of
                        None \<Rightarrow> TypeError
                      | Some True \<Rightarrow>
                          (case js_or (background_conditions p) of
                             None \<Rightarrow> TypeError
                           | Some True \<Rightarrow> Accepted
                           | Some False \<Rightarrow> AcceptedNoAction)
                      | Some False \<Rightarrow> Accepted))))"

text \<open>
  Whether the form is submitted after the \<^verbatim>\<open>submit\<close> event: \<open>answer\<close> is what the user answers to a
  question. An exception in the listener does not prevent the submission.
\<close>

definition lets_through :: "bool \<Rightarrow> verdict \<Rightarrow> bool" where
  "lets_through answer v \<longleftrightarrow> v \<in> {Accepted, AcceptedNoAction, TypeError} \<or> v \<in> {AskArchived, AskEndTime} \<and> answer"

section \<open>Events\<close>

definition send_out :: "filter_out \<Rightarrow> filter_page \<Rightarrow> filter_page" where
  "send_out out p = p\<lparr>fp_sent := fp_sent p @ [(out, fp_rows p)]\<rparr>"

text \<open>\<^verbatim>\<open>form.submit()\<close> raises no \<^verbatim>\<open>submit\<close> event.\<close>

definition submitAction :: "string \<Rightarrow> filter_page \<Rightarrow> filter_page" where
  "submitAction act p = send_out (Submitted act) (p\<lparr>fp_action := act\<rparr>)"

definition deleteFilter :: "bool \<Rightarrow> filter_page \<Rightarrow> filter_page" where
  "deleteFilter answer p = (if answer then submitAction ''delete'' p else p)"

definition submitToEvents :: "filter_page \<Rightarrow> filter_page" where
  "submitToEvents p = send_out (Navigated ''events'') (p\<lparr>fp_action := []\<rparr>)"

definition submitToMontageReview :: "filter_page \<Rightarrow> filter_page" where
  "submitToMontageReview p = send_out (Navigated ''montagereview'') p"

definition submitToExport :: "filter_page \<Rightarrow> filter_page" where
  "submitToExport p = send_out (Navigated ''export'') p"

definition onSubmit :: "bool \<Rightarrow> filter_page \<Rightarrow> filter_page" where
  "onSubmit answer p = (if lets_through answer (filter_validateForm p) then send_out (Submitted (fp_action p)) p else p)"

definition resetFilter :: "filter_page \<Rightarrow> filter_page" where
  "resetFilter p = p\<lparr>fp_rows := map reset_row (fp_rows p), fp_boxes := fp_boxes_dflt p, fp_limit := fp_limit_dflt p,
     fp_cmd := fp_cmd_dflt p, fp_name := fp_name_dflt p\<rparr>"

text \<open>What the user does to a control.\<close>

fun pick :: "string \<Rightarrow> cell \<Rightarrow> cell" where
  "pick v (Select i os d s) = Select i os d (if v \<in> set os then Some v else s)"
| "pick v c = c"

fun type_text :: "string \<Rightarrow> cell \<Rightarrow> cell" where
  "type_text t (Input num i s) = Input num i (if num then number_text t else t)"
| "type_text t c = c"

definition upd_row :: "nat \<Rightarrow> (filter_row \<Rightarrow> filter_row) \<Rightarrow> filter_page \<Rightarrow> filter_page" where
  "upd_row k f p = p\<lparr>fp_rows := (fp_rows p)[k := f (fp_rows p ! k)]\<rparr>"

text \<open>The attribute's handler builds all rows again.\<close>

definition checkValue :: "filter_env \<Rightarrow> filter_page \<Rightarrow> filter_page" where
  "checkValue env p = p\<lparr>fp_rows := parseRows env (fp_rows p)\<rparr>"

text \<open>The checkbox of a command has no handler, and only system editors have it.\<close>

definition click_box :: "string \<Rightarrow> filter_page \<Rightarrow> filter_page" where
  "click_box b p = (case fp_boxes p b of
     None \<Rightarrow> p
   | Some c \<Rightarrow>
       if b = ''AutoExecute'' then (if fp_canEditSystem p then p\<lparr>fp_boxes := (fp_boxes p)(b \<mapsto> \<not> c)\<rparr> else p)
       else updateButtons (p\<lparr>fp_boxes := (fp_boxes p)(b \<mapsto> \<not> c)\<rparr>))"

datatype filter_event = AddTerm nat | DelTerm nat | ChooseAttr nat string | ChooseCnj nat string
  | ChooseObr nat string | ChooseCbr nat string | ChooseOp nat string | ChooseVal nat string | TypeVal nat string
  | Tick string | TypeLimit string | TypeCmd string | TypeName string
  | ClickSave | ClickSaveAs | ClickExecute | ClickDelete bool | ListMatches | ViewMatches | ExportMatches
  | SubmitEvent bool | ClickReset

definition fp_exec :: "filter_env \<Rightarrow> filter_event \<Rightarrow> filter_page \<Rightarrow> filter_page" where
  "fp_exec env ev p = (let n = length (fp_rows p) in case ev of
     AddTerm k \<Rightarrow> if k < n then p\<lparr>fp_rows := addTerm env k (fp_rows p)\<rparr> else p
   | DelTerm k \<Rightarrow> if k < n \<and> \<not> fr_del_disabled (fp_rows p ! k) then p\<lparr>fp_rows := delTerm env k (fp_rows p)\<rparr> else p
   | ChooseAttr k a \<Rightarrow> if k < n \<and> a \<in> set (fe_attrs env) then checkValue env (upd_row k (\<lambda>r. r\<lparr>fr_attr := a\<rparr>) p) else p
   | ChooseCnj k v \<Rightarrow> if k < n then upd_row k (\<lambda>r. r\<lparr>fr_cnj := pick v (fr_cnj r)\<rparr>) p else p
   | ChooseObr k v \<Rightarrow> if k < n then upd_row k (\<lambda>r. r\<lparr>fr_obr := pick v (fr_obr r)\<rparr>) p else p
   | ChooseCbr k v \<Rightarrow> if k < n then upd_row k (\<lambda>r. r\<lparr>fr_cbr := pick v (fr_cbr r)\<rparr>) p else p
   | ChooseOp k v \<Rightarrow> if k < n then upd_row k (\<lambda>r. r\<lparr>fr_op := pick v (fr_op r)\<rparr>) p else p
   | ChooseVal k v \<Rightarrow> if k < n then upd_row k (\<lambda>r. r\<lparr>fr_val := pick v (fr_val r)\<rparr>) p else p
   | TypeVal k t \<Rightarrow> if k < n then upd_row k (\<lambda>r. r\<lparr>fr_val := type_text t (fr_val r)\<rparr>) p else p
   | Tick b \<Rightarrow> click_box b p
   | TypeLimit t \<Rightarrow> p\<lparr>fp_limit := number_text t\<rparr>
   | TypeCmd t \<Rightarrow> if fp_canEditSystem p then updateButtons (p\<lparr>fp_cmd := t\<rparr>) else p
   | TypeName t \<Rightarrow> updateButtons (p\<lparr>fp_name := t\<rparr>)
   | ClickSave \<Rightarrow> if fp_save_disabled p then p else submitAction ''Save'' p
   | ClickSaveAs \<Rightarrow> if fp_save_disabled p then p else submitAction ''SaveAs'' p
   | ClickExecute \<Rightarrow> if fp_execute_disabled p then p else submitAction ''execute'' p
   | ClickDelete answer \<Rightarrow> if fp_delete_disabled p then p else deleteFilter answer p
   | ListMatches \<Rightarrow> submitToEvents p
   | ViewMatches \<Rightarrow> submitToMontageReview p
   | ExportMatches \<Rightarrow> submitToExport p
   | SubmitEvent answer \<Rightarrow> onSubmit answer p
   | ClickReset \<Rightarrow> resetFilter p)"

definition filter_initPage :: "filter_env \<Rightarrow> filter_page \<Rightarrow> filter_page" where
  "filter_initPage env p = checkValue env (updateButtons p)"

text \<open>The page after a sequence of events, from what the server rendered.\<close>

definition filter_run :: "filter_env \<Rightarrow> filter_page \<Rightarrow> filter_event list \<Rightarrow> filter_page" where
  "filter_run env p evs = fold (fp_exec env) evs (filter_initPage env p)"

section \<open>Building the rows\<close>

definition select_ok :: "nat \<Rightarrow> string list \<Rightarrow> cell \<Rightarrow> bool" where
  "select_ok i os c \<longleftrightarrow> (case c of
     Select j os' d v \<Rightarrow> j = i \<and> os' = os \<and> pred_option (\<lambda>x. x \<in> set os) d \<and> pred_option (\<lambda>x. x \<in> set os) v
   | _ \<Rightarrow> False)"

definition input_ok :: "bool \<Rightarrow> nat \<Rightarrow> cell \<Rightarrow> bool" where
  "input_ok num i c \<longleftrightarrow> (case c of Input num' j s \<Rightarrow> num' = num \<and> j = i \<and> (num \<longrightarrow> number_text s = s) | _ \<Rightarrow> False)"

definition val_ok :: "filter_env \<Rightarrow> string \<Rightarrow> nat \<Rightarrow> cell \<Rightarrow> bool" where
  "val_ok env a i c \<longleftrightarrow> (case value_options env a of
     Some os \<Rightarrow> select_ok i os c
   | None \<Rightarrow> input_ok (a = ''DiskPercent'') i c)"

text \<open>The connective and the brackets fall back to their first option.\<close>

definition first_ok :: "nat \<Rightarrow> string list \<Rightarrow> cell \<Rightarrow> bool" where
  "first_ok i os c \<longleftrightarrow> select_ok i os c \<and> (case c of Select j os' d v \<Rightarrow> os \<noteq> [] \<and> d = Some (hd os) | _ \<Rightarrow> False)"

definition bracket_ok :: "nat \<Rightarrow> nat \<Rightarrow> cell \<Rightarrow> bool" where
  "bracket_ok n i c \<longleftrightarrow> (if n > 2 then first_ok i (bracket_options n) c else c = Blank)"

definition cnj_ok :: "nat \<Rightarrow> cell \<Rightarrow> bool" where
  "cnj_ok i c \<longleftrightarrow> (if i = 0 then c = Blank else first_ok i conjTypes c)"

definition op_ok :: "nat \<Rightarrow> cell \<Rightarrow> bool" where
  "op_ok i c \<longleftrightarrow> (\<exists>a. select_ok i (op_options a) c)"

definition value_ok :: "filter_env \<Rightarrow> nat \<Rightarrow> cell \<Rightarrow> bool" where
  "value_ok env i c \<longleftrightarrow> (\<exists>a. val_ok env a i c)"

text \<open>Row \<open>i\<close> of \<open>n\<close>; \<open>row_fits\<close>: its operator and value belong to its attribute.\<close>

definition row_ok :: "filter_env \<Rightarrow> nat \<Rightarrow> nat \<Rightarrow> filter_row \<Rightarrow> bool" where
  "row_ok env n i r \<longleftrightarrow>
     fr_attr_name r = i \<and> cnj_ok i (fr_cnj r) \<and> bracket_ok n i (fr_obr r) \<and> bracket_ok n i (fr_cbr r)
     \<and> fr_del_disabled r = (n = 1) \<and> op_ok i (fr_op r) \<and> value_ok env i (fr_val r)"

definition row_fits :: "filter_env \<Rightarrow> nat \<Rightarrow> filter_row \<Rightarrow> bool" where
  "row_fits env i r \<longleftrightarrow> select_ok i (op_options (fr_attr r)) (fr_op r) \<and> val_ok env (fr_attr r) i (fr_val r)"

lemma find_set: "find P xs = Some x \<Longrightarrow> x \<in> set xs \<and> P x"
  by (auto simp: find_Some_iff)

lemma find_rev_set: "pred_option (\<lambda>x. x \<in> set os) (find P (rev os))"
  using find_set[of P "rev os"] by (cases "find P (rev os)") auto

lemma jq_set_ok [simp]: "select_ok i os c \<Longrightarrow> select_ok i os (jq_set v c)"
  by (cases c) (auto simp: select_ok_def find_rev_set)

lemma new_select_ok [simp]: "select_ok i os (new_select i os)" "select_ok i os (new_select_at i os key)"
  by (cases os; simp add: new_select_def new_select_at_def select_ok_def first_option_def)+

lemma new_op_ok [simp]: "select_ok i os (new_op os i v)"
  by (cases v) simp_all

lemma first_ok_new [simp]: "os \<noteq> [] \<Longrightarrow> first_ok i os (new_select i os)"
  using new_select_ok(1)[of i os] by (cases os) (simp_all add: first_ok_def new_select_def first_option_def)

lemma first_ok_set [simp]: "first_ok i os c \<Longrightarrow> first_ok i os (jq_set v c)"
  using jq_set_ok[of i os c v] unfolding first_ok_def by (cases c) simp_all

lemma option_lists [simp]: "conjTypes \<noteq> []" "2 < n \<Longrightarrow> bracket_options n \<noteq> []"
  by (simp_all add: conjTypes_def bracket_options_def)

lemma number_text_idem [simp]: "number_text (number_text s) = number_text s"
  by (simp add: number_text_def)

lemma number_text_Nil [simp]: "number_text [] = []"
  by (simp add: number_text_def)

lemma parse_cnj_ok [simp]: "cnj_ok i (parse_cnj i c)"
  by (simp add: parse_cnj_def cnj_ok_def)

lemma parse_bracket_ok [simp]: "bracket_ok n i (parse_bracket n i c)"
  by (simp add: parse_bracket_def bracket_ok_def)

lemma input_ok_new: "input_ok num i (jq_set w (Input num i []))"
  by (simp add: input_ok_def Let_def)

lemma parse_val_ok [simp]: "val_ok env a i (parse_val env a i c)"
  by (cases "value_options env a") (simp_all add: parse_val_def val_ok_def val_widget_def input_ok_new del: jq_set.simps)

lemma parse_op_ok [simp]: "select_ok i (op_options a) (parse_op a i c)"
  by (simp add: parse_op_def Let_def)

lemma row_fits_parse: "row_fits env i (parse_row env n i r)"
  by (simp add: row_fits_def parse_row_def)

lemma row_ok_parse: "row_ok env n i (parse_row env n i r)"
  unfolding row_ok_def op_ok_def value_ok_def by (simp add: parse_row_def) (meson parse_op_ok parse_val_ok)

lemma parseRows_length [simp]: "length (parseRows env rs) = length rs"
  by (simp add: parseRows_def)

lemma parseRows_nth: "i < length rs \<Longrightarrow> parseRows env rs ! i = parse_row env (length rs) i (rs ! i)"
  by (simp add: parseRows_def nth_enumerate_eq)

definition rows_ok :: "filter_env \<Rightarrow> filter_row list \<Rightarrow> bool" where
  "rows_ok env rs \<longleftrightarrow> rs \<noteq> [] \<and> (\<forall>i < length rs. row_ok env (length rs) i (rs ! i))"

definition rows_fit :: "filter_env \<Rightarrow> filter_row list \<Rightarrow> bool" where
  "rows_fit env rs \<longleftrightarrow> (\<forall>i < length rs. row_fits env i (rs ! i))"

lemma parseRows_ok: "rs \<noteq> [] \<Longrightarrow> rows_ok env (parseRows env rs)"
  by (auto simp: rows_ok_def parseRows_nth row_ok_parse simp flip: length_greater_0_conv)

lemma parseRows_fit [simp]: "rows_fit env (parseRows env rs)"
  by (simp add: rows_fit_def parseRows_nth row_fits_parse)

text \<open>What the user does to a control, and a reset, leave it the control it is.\<close>

lemma pick_ok [simp]: "select_ok i os c \<Longrightarrow> select_ok i os (pick v c)"
  by (cases c) (auto simp: select_ok_def)

lemma reset_ok [simp]: "select_ok i os c \<Longrightarrow> select_ok i os (reset_cell c)"
  by (cases c) (auto simp: select_ok_def)

lemma first_ok_steps [simp]: "first_ok i os c \<Longrightarrow> first_ok i os (pick v c)" "first_ok i os c \<Longrightarrow> first_ok i os (reset_cell c)"
  using pick_ok[of i os c v] reset_ok[of i os c] unfolding first_ok_def by (cases c; simp)+

lemma pick_bracket [simp]: "bracket_ok n i c \<Longrightarrow> bracket_ok n i (pick v c)"
  by (auto simp: bracket_ok_def split: if_splits)

lemma reset_bracket [simp]: "bracket_ok n i c \<Longrightarrow> bracket_ok n i (reset_cell c)"
  by (auto simp: bracket_ok_def split: if_splits)

lemma input_ok_steps [simp]:
  "input_ok num i c \<Longrightarrow> input_ok num i (pick v c)" "input_ok num i c \<Longrightarrow> input_ok num i (type_text v c)"
  "input_ok num i c \<Longrightarrow> input_ok num i (reset_cell c)" "input_ok num i c \<Longrightarrow> input_ok num i (jq_set w c)"
  by (cases c; simp add: input_ok_def Let_def)+

lemma type_select [simp]: "select_ok i os c \<Longrightarrow> type_text v c = c"
  by (cases c) (simp_all add: select_ok_def)

lemma val_ok_steps [simp]:
  "val_ok env a i c \<Longrightarrow> val_ok env a i (pick v c)" "val_ok env a i c \<Longrightarrow> val_ok env a i (type_text v c)"
  "val_ok env a i c \<Longrightarrow> val_ok env a i (reset_cell c)"
  by (cases "value_options env a"; simp add: val_ok_def)+

lemma op_ok_steps [simp]: "op_ok i c \<Longrightarrow> op_ok i (pick v c)" "op_ok i c \<Longrightarrow> op_ok i (reset_cell c)"
  unfolding op_ok_def by (meson pick_ok reset_ok)+

lemma value_ok_steps [simp]:
  "value_ok env i c \<Longrightarrow> value_ok env i (pick v c)" "value_ok env i c \<Longrightarrow> value_ok env i (type_text v c)"
  "value_ok env i c \<Longrightarrow> value_ok env i (reset_cell c)"
  unfolding value_ok_def by (meson val_ok_steps)+

lemma cnj_ok_steps [simp]: "cnj_ok i c \<Longrightarrow> cnj_ok i (pick v c)" "cnj_ok i c \<Longrightarrow> cnj_ok i (reset_cell c)"
  by (auto simp: cnj_ok_def split: if_splits)

lemma row_ok_steps [simp]:
  assumes "row_ok env n i r"
  shows "row_ok env n i (r\<lparr>fr_cnj := pick v (fr_cnj r)\<rparr>)" "row_ok env n i (r\<lparr>fr_obr := pick v (fr_obr r)\<rparr>)"
    "row_ok env n i (r\<lparr>fr_cbr := pick v (fr_cbr r)\<rparr>)" "row_ok env n i (r\<lparr>fr_op := pick v (fr_op r)\<rparr>)"
    "row_ok env n i (r\<lparr>fr_val := pick v (fr_val r)\<rparr>)" "row_ok env n i (r\<lparr>fr_val := type_text v (fr_val r)\<rparr>)"
    "row_ok env n i (reset_row r)"
  using assms by (simp_all add: row_ok_def reset_row_def)

lemma row_fits_steps [simp]:
  assumes "row_fits env i r"
  shows "row_fits env i (r\<lparr>fr_cnj := c\<rparr>)" "row_fits env i (r\<lparr>fr_obr := c\<rparr>)" "row_fits env i (r\<lparr>fr_cbr := c\<rparr>)"
    "row_fits env i (r\<lparr>fr_op := pick v (fr_op r)\<rparr>)"
    "row_fits env i (r\<lparr>fr_val := pick v (fr_val r)\<rparr>)" "row_fits env i (r\<lparr>fr_val := type_text v (fr_val r)\<rparr>)"
  using assms by (simp_all add: row_fits_def)

lemma rows_ok_upd:
  assumes "rows_ok env (fp_rows p)" "k < length (fp_rows p)"
    and "\<And>r. row_ok env (length (fp_rows p)) k r \<Longrightarrow> row_ok env (length (fp_rows p)) k (f r)"
  shows "rows_ok env (fp_rows (upd_row k f p))"
  using assms by (auto simp: rows_ok_def upd_row_def nth_list_update)

lemma rows_fit_upd:
  assumes "rows_fit env (fp_rows p)" "\<And>r. row_fits env k r \<Longrightarrow> row_fits env k (f r)"
  shows "rows_fit env (fp_rows (upd_row k f p))"
  unfolding rows_fit_def
proof (intro allI impI)
  fix i assume i: "i < length (fp_rows (upd_row k f p))"
  then show "row_fits env i (fp_rows (upd_row k f p) ! i)"
    using assms by (cases "i = k") (simp_all add: rows_fit_def upd_row_def)
qed

lemma fp_rows_simps [simp]:
  "fp_rows (updateButtons p) = fp_rows p" "fp_rows (click_box b p) = fp_rows p"
  "fp_rows (submitAction act p) = fp_rows p" "fp_rows (deleteFilter ans p) = fp_rows p"
  "fp_rows (submitToEvents p) = fp_rows p" "fp_rows (submitToMontageReview p) = fp_rows p"
  "fp_rows (submitToExport p) = fp_rows p" "fp_rows (onSubmit ans p) = fp_rows p"
  by (simp_all add: updateButtons_def click_box_def submitAction_def deleteFilter_def submitToEvents_def submitToMontageReview_def
      submitToExport_def onSubmit_def send_out_def Let_def split: option.splits)

text \<open>A row can be deleted only while there are others.\<close>

lemma delTerm_ok:
  assumes "rows_ok env rs" "k < length rs" "\<not> fr_del_disabled (rs ! k)"
  shows "rows_ok env (delTerm env k rs)" "length (delTerm env k rs) = length rs - 1" "2 \<le> length rs"
proof -
  have "length rs \<noteq> 1" using assms by (auto simp: rows_ok_def row_ok_def)
  with assms(2) show "2 \<le> length rs" by auto
  then show "length (delTerm env k rs) = length rs - 1" using assms(2) by (simp add: delTerm_def)
  have "take k rs @ drop (Suc k) rs \<noteq> []" using assms(2) \<open>2 \<le> length rs\<close> by (cases k) auto
  then show "rows_ok env (delTerm env k rs)" unfolding delTerm_def by (rule parseRows_ok)
qed

lemma addTerm_ok: "rows_ok env (addTerm env k rs)" "rows_fit env (addTerm env k rs)" "rows_fit env (delTerm env k rs)"
  by (simp_all add: addTerm_def delTerm_def parseRows_ok)

lemma fp_exec_ok:
  assumes "rows_ok env (fp_rows p)"
  shows "rows_ok env (fp_rows (fp_exec env ev p))"
proof (cases ev)
  case (ChooseAttr k a)
  have "fp_rows (upd_row k f p) \<noteq> []" for f using assms by (simp add: upd_row_def rows_ok_def)
  then show ?thesis using assms ChooseAttr by (simp add: fp_exec_def Let_def checkValue_def parseRows_ok)
next
  case ClickReset
  then show ?thesis using assms by (simp add: fp_exec_def Let_def resetFilter_def rows_ok_def)
qed (use assms in \<open>simp_all add: fp_exec_def Let_def rows_ok_upd delTerm_ok addTerm_ok\<close>)

lemma fp_exec_fit:
  assumes "rows_fit env (fp_rows p)" "ev \<noteq> ClickReset"
  shows "rows_fit env (fp_rows (fp_exec env ev p))"
  using assms by (cases ev) (simp_all add: fp_exec_def Let_def rows_fit_upd addTerm_ok checkValue_def)

section \<open>Numbered rows\<close>

lemma fold_preserves: "P x \<Longrightarrow> (\<And>y e. e \<in> set es \<Longrightarrow> P y \<Longrightarrow> P (f e y)) \<Longrightarrow> P (fold f es x)"
  by (induction es arbitrary: x) auto

lemma filter_run_ok: "fp_rows p \<noteq> [] \<Longrightarrow> rows_ok env (fp_rows (filter_run env p evs))"
  unfolding filter_run_def
  by (rule fold_preserves) (simp_all add: filter_initPage_def checkValue_def parseRows_ok fp_exec_ok)

lemma filter_run_fit: "ClickReset \<notin> set evs \<Longrightarrow> rows_fit env (fp_rows (filter_run env p evs))"
  unfolding filter_run_def
  by (rule fold_preserves) (auto simp: filter_initPage_def checkValue_def intro: fp_exec_fit)

lemma elem_value_None: "elem_value c = None \<longleftrightarrow> c = Blank"
  by (cases c rule: elem_value.cases) simp_all

lemma ok_not_Blank [simp]: "\<not> select_ok i os Blank" "\<not> first_ok i os Blank" "\<not> val_ok env a i Blank" "\<not> value_ok env i Blank"
  by (auto simp: select_ok_def first_ok_def val_ok_def value_ok_def input_ok_def split: option.splits)

lemma check_rows_TypeError:
  "(\<And>r. r \<in> set rs \<Longrightarrow> (br \<longrightarrow> fr_obr r \<noteq> Blank \<and> fr_cbr r \<noteq> Blank) \<and> fr_val r \<noteq> Blank)
    \<Longrightarrow> check_rows br rs ob cb \<noteq> Inl TypeError"
proof (induction rs arbitrary: ob cb)
  case (Cons r rs)
  then show ?case using Cons.prems[of r] elem_value_None[of "fr_obr r"] elem_value_None[of "fr_cbr r"] elem_value_None[of "fr_val r"]
    by (auto split: option.splits)
qed simp

lemma rows_ok_present:
  assumes "rows_ok env rs" "r \<in> set rs"
  shows "(length rs > 2 \<longrightarrow> fr_obr r \<noteq> Blank \<and> fr_cbr r \<noteq> Blank) \<and> fr_val r \<noteq> Blank"
proof -
  obtain i where "i < length rs" "r = rs ! i" using assms(2) by (auto simp: in_set_conv_nth)
  then have "row_ok env (length rs) i r" using assms(1) by (simp add: rows_ok_def)
  then show ?thesis by (auto simp: row_ok_def bracket_ok_def)
qed

text \<open>A page with one row as the server renders it, and what leads to four rows with a bracket round two.\<close>

definition ex_fenv :: filter_env where
  "ex_fenv = \<lparr>fe_attrs = [''Id'', ''Name'', ''Archived'', ''ExistsInFileSystem''], fe_monitor_keys = [''1'', ''2''],
     fe_zones = [(''7'', ''2'')], fe_states = [''1''], fe_servers = [''NULL''], fe_storage = [[], ''0''],
     fe_sorted_monitors = [''2'', ''1''], fe_monitor_name = (\<lambda>m. ''Cam'' @ m), fe_tags = [''0'']\<rparr>"

definition ex_frow :: filter_row where
  "ex_frow = \<lparr>fr_cnj = Blank, fr_obr = Blank, fr_attr = ''Name'', fr_attr_dflt = ''Name'', fr_attr_name = 0,
     fr_op = Select 0 opTypes (Some ''LIKE'') (Some ''LIKE''), fr_val = Input False 0 ''door'', fr_cbr = Blank, fr_del_disabled = True\<rparr>"

definition ex_fpage :: filter_page where
  "ex_fpage = \<lparr>fp_rows = [ex_frow], fp_boxes = (\<lambda>b. Some False), fp_boxes_dflt = (\<lambda>b. Some False), fp_limit = ''10'',
     fp_limit_dflt = ''10'', fp_cmd = [], fp_cmd_dflt = [], fp_name = ''night'', fp_name_dflt = ''night'', fp_id = 4,
     fp_canEditEvents = True, fp_canViewEvents = True, fp_canEditSystem = True, fp_owner = True, fp_execute_disabled = True,
     fp_save_disabled = True, fp_delete_disabled = True, fp_action = [], fp_sent = []\<rparr>"

definition ex_fevs :: "filter_event list" where
  "ex_fevs = [AddTerm 0, AddTerm 1, AddTerm 2, TypeVal 1 ''a'', TypeVal 2 ''b'', TypeVal 3 ''c'', ChooseObr 1 ''2'', ChooseCbr 2 ''1'',
     ChooseCbr 3 ''1'']"

lemma ex_fpage_rows: "fp_rows ex_fpage \<noteq> []" "ClickReset \<notin> set ex_fevs"
  by (simp_all add: ex_fpage_def ex_fevs_def)

lemma ex_fpage_length: "length (fp_rows (filter_run ex_fenv ex_fpage ex_fevs)) = 4"
  by code_simp

lemma ex_fpage_bracket: "jq_val (fr_obr (fp_rows (filter_run ex_fenv ex_fpage ex_fevs) ! 1)) = Str (nat_to_str 2)"
  by code_simp

lemma ex_fpage_values:
  "map (\<lambda>r. elem_value (fr_val r)) (fp_rows (filter_run ex_fenv ex_fpage ex_fevs)) = map Some [''door'', ''a'', ''b'', ''c'']"
  by code_simp

lemma ex_fpage_filled: "r \<in> set (fp_rows (filter_run ex_fenv ex_fpage ex_fevs)) \<Longrightarrow> elem_value (fr_val r) \<noteq> Some []"
proof -
  assume "r \<in> set (fp_rows (filter_run ex_fenv ex_fpage ex_fevs))"
  then have "elem_value (fr_val r) \<in> set (map (\<lambda>r. elem_value (fr_val r)) (fp_rows (filter_run ex_fenv ex_fpage ex_fevs)))" by simp
  then show ?thesis unfolding ex_fpage_values by auto
qed

lemmas ex_fpage_levels = ex_fpage_length ex_fpage_bracket

text \<open>
  C7. In every run of the filter page the controls of every row carry its number, only the rows after
  the first have a connective, the rows have brackets exactly when there are three or more, and
  the last row cannot be deleted, so that the check of the form finds every control it
  reads. Until the form is reset, the operators and values offered are those of the attribute.
\<close>

theorem filter_rows_numbered:
  assumes "fp_rows p \<noteq> []"
  shows "rows_ok env (fp_rows (filter_run env p evs))
    \<and> check_rows (length (fp_rows (filter_run env p evs)) > 2) (fp_rows (filter_run env p evs)) (Some 0) (Some 0) \<noteq> Inl TypeError
    \<and> (ClickReset \<in> set evs \<or> rows_fit env (fp_rows (filter_run env p evs)))"
proof -
  have ok: "rows_ok env (fp_rows (filter_run env p evs))" by (rule filter_run_ok[OF assms])
  moreover have "check_rows (length (fp_rows (filter_run env p evs)) > 2) (fp_rows (filter_run env p evs)) (Some 0) (Some 0)
      \<noteq> Inl TypeError"
    by (rule check_rows_TypeError) (use rows_ok_present[OF ok] in auto)
  ultimately show ?thesis using filter_run_fit by blast
qed

theorem filter_rows_numbered_witness:
  "rows_ok ex_fenv (fp_rows (filter_run ex_fenv ex_fpage ex_fevs))
    \<and> check_rows (length (fp_rows (filter_run ex_fenv ex_fpage ex_fevs)) > 2) (fp_rows (filter_run ex_fenv ex_fpage ex_fevs)) (Some 0) (Some 0)
      \<noteq> Inl TypeError
    \<and> rows_fit ex_fenv (fp_rows (filter_run ex_fenv ex_fpage ex_fevs))"
  using filter_rows_numbered[OF ex_fpage_rows(1), of ex_fenv ex_fevs] ex_fpage_rows(2) by blast

section \<open>Deleting a row\<close>

lemma find_equal: "find (\<lambda>x. x = v) xs = (if v \<in> set xs then Some v else None)"
  by (induction xs) auto

lemma jq_val_set: "select_ok i os c \<Longrightarrow> jq_val (jq_set (Str v) c) = (if v \<in> set os then Str v else Null)"
  by (cases c) (simp_all add: select_ok_def find_equal)

lemma jq_val_new: "jq_val (jq_set (Str v) (new_select i os)) = (if v \<in> set os then Str v else Null)"
  by (rule jq_val_set[OF new_select_ok(1)])

lemma jq_val_new_op: "jq_val (new_op os i (Str v)) = (if v \<in> set os then Str v else Null)"
  by (simp only: new_op.simps jq_val_set[OF new_select_ok(2)])

lemma select_value: "select_ok i os c \<Longrightarrow> jq_val c = Null \<or> (\<exists>v \<in> set os. jq_val c = Str v)"
  by (cases c rule: jq_val.cases) (auto simp: select_ok_def)

lemma delTerm_nth:
  assumes "k < length rs" "j < length rs" "j \<noteq> k"
  shows "delTerm env k rs ! (if j < k then j else j - 1)
    = parse_row env (length rs - 1) (if j < k then j else j - 1) (rs ! j)"
proof -
  let ?j = "if j < k then j else j - 1" and ?l = "take k rs @ drop (Suc k) rs"
  have "?j < length ?l" "length ?l = length rs - 1" using assms by auto
  moreover have "?l ! ?j = rs ! j" using assms by (auto simp: nth_append min_def)
  ultimately show ?thesis by (simp add: delTerm_def parseRows_nth)
qed

lemma parse_val_keeps:
  assumes "val_ok env a i c" "jq_val c \<noteq> Null"
  shows "jq_val (parse_val env a j c) = jq_val c"
proof (cases "value_options env a")
  case (Some os)
  then obtain v where v: "v \<in> set os" "jq_val c = Str v" using assms select_value[of i os c] by (auto simp: val_ok_def)
  have "v \<noteq> []" if "a = ''ExistsInFileSystem''" using that v(1) Some by (auto simp: value_options_def split: if_splits)
  then show ?thesis using v Some by (simp add: parse_val_def val_widget_def jq_val_new)
next
  case None
  then obtain num s where c: "c = Input num i s" "num = (a = ''DiskPercent'')" "num \<longrightarrow> number_text s = s"
    using assms(1) by (auto simp: val_ok_def input_ok_def split: cell.splits)
  have "a \<noteq> ''ExistsInFileSystem''" using None by (auto simp: value_options_def)
  then show ?thesis using c None by (simp add: parse_val_def val_widget_def Let_def)
qed

lemma parse_op_keeps:
  assumes "select_ok i (op_options a) c" "jq_val c \<noteq> Null" "a \<noteq> ''Archived''"
  shows "jq_val (parse_op a j c) = jq_val c"
proof -
  obtain v where v: "v \<in> set (op_options a)" "jq_val c = Str v" using select_value[OF assms(1)] assms(2) by auto
  have "[] \<notin> set (op_options a)" by (simp add: op_options_def tags_opTypes_def opTypes_def)
  with v(1) have "v \<noteq> []" by auto
  then show ?thesis using v assms(3) by (simp add: parse_op_def Let_def jq_val_new_op del: new_op.simps)
qed

lemma parse_op_Archived: "jq_val (parse_op ''Archived'' i c) = Str ''=''"
  by (simp add: parse_op_def jq_val_new_op op_options_def opTypes_def del: new_op.simps)

lemma bracket_option: "nat_to_str m \<in> set (bracket_options n) \<longleftrightarrow> m < n - 1"
  by (auto simp: bracket_options_def nat_to_str_inj)

lemma parse_bracket_value:
  "jq_val c = Str (nat_to_str m) \<Longrightarrow> 2 < n \<Longrightarrow> jq_val (parse_bracket n i c) = (if m < n - 1 then Str (nat_to_str m) else Null)"
  by (simp add: parse_bracket_def jq_val_new bracket_option)

lemma bracket_after: "n \<le> 3 \<or> jq_val c \<noteq> Str (nat_to_str m)
    \<or> jq_val (parse_bracket (n - Suc 0) i c) = (if m < n - 2 then Str (nat_to_str m) else Null)"
proof (cases "n \<le> 3 \<or> jq_val c \<noteq> Str (nat_to_str m)")
  case False
  then have "2 < n - Suc 0" "n - Suc 0 - 1 = n - 2" by linarith+
  then show ?thesis using parse_bracket_value[of c m "n - Suc 0" i] False by simp
qed blast



section \<open>Checking\<close>

text \<open>The level a bracket select holds; \<open>None\<close> where nothing is selected.\<close>

definition bracket_level :: "cell \<Rightarrow> int option" where
  "bracket_level c = (case elem_value c of None \<Rightarrow> None | Some s \<Rightarrow> parseInt s)"

lemma parseInt_Nil: "parseInt [] = None"
  by (simp add: parseInt_def split_sign_def strip_hex_def digits_prefix_def starts_with_def)

definition bracket_total :: "(filter_row \<Rightarrow> cell) \<Rightarrow> filter_row list \<Rightarrow> int" where
  "bracket_total f rs = sum_list (map (\<lambda>r. the (bracket_level (f r))) rs)"

lemma foldl_add_int:
  "foldl add_int ob ls = (case ob of None \<Rightarrow> None | Some x \<Rightarrow> if None \<in> set ls then None else Some (x + sum_list (map the ls)))"
  by (induction ls arbitrary: ob) (auto simp: add_int_def split: option.splits)

lemma check_rows_eq:
  assumes "\<And>r. r \<in> set rs \<Longrightarrow> (br \<longrightarrow> fr_obr r \<noteq> Blank \<and> fr_cbr r \<noteq> Blank) \<and> fr_val r \<noteq> Blank"
  shows "check_rows br rs ob cb =
    (if \<exists>r \<in> set rs. elem_value (fr_val r) = Some [] then Inl BadValue
     else Inr (if br then (foldl add_int ob (map (bracket_level \<circ> fr_obr) rs), foldl add_int cb (map (bracket_level \<circ> fr_cbr) rs))
               else (ob, cb)))"
  using assms
proof (induction rs arbitrary: ob cb)
  case (Cons r rs)
  obtain v where v: "elem_value (fr_val r) = Some v" using Cons.prems[of r] elem_value_None[of "fr_val r"] by auto
  have lev: "\<exists>x y. elem_value (fr_obr r) = Some x \<and> elem_value (fr_cbr r) = Some y" if br
    using that Cons.prems[of r] elem_value_None by auto
  have IH: "check_rows br rs ob cb = (if \<exists>r \<in> set rs. elem_value (fr_val r) = Some [] then Inl BadValue
     else Inr (if br then (foldl add_int ob (map (bracket_level \<circ> fr_obr) rs), foldl add_int cb (map (bracket_level \<circ> fr_cbr) rs))
               else (ob, cb)))" for ob cb
    using Cons.prems by (intro Cons.IH) auto
  show ?case
  proof (cases br)
    case True
    then obtain x y where "elem_value (fr_obr r) = Some x" "elem_value (fr_cbr r) = Some y" using lev by auto
    then show ?thesis using True v IH by (simp add: bracket_level_def)
  qed (use IH in \<open>simp add: v\<close>)
qed simp

text \<open>What \<^verbatim>\<open>validateForm\<close> asks of the rows.\<close>

definition brackets_balanced :: "filter_row list \<Rightarrow> bool" where
  "brackets_balanced rs \<longleftrightarrow> length rs \<le> 2
     \<or> (\<forall>r \<in> set rs. bracket_level (fr_obr r) \<noteq> None \<and> bracket_level (fr_cbr r) \<noteq> None)
       \<and> bracket_total fr_obr rs = bracket_total fr_cbr rs"

lemma None_image: "None \<in> f ` S \<longleftrightarrow> (\<exists>r \<in> S. f r = None)"
  by (auto simp: image_iff eq_commute)

lemma check_rows_BadValue:
  assumes "rows_ok env rs" "\<exists>r \<in> set rs. elem_value (fr_val r) = Some []"
  shows "check_rows (length rs > 2) rs (Some 0) (Some 0) = Inl BadValue"
  using check_rows_eq[OF rows_ok_present[OF assms(1)], of rs "Some 0" "Some 0"] assms(2) by simp

lemma check_rows_balanced:
  assumes "rows_ok env rs" "\<not> (\<exists>r \<in> set rs. elem_value (fr_val r) = Some [])"
  obtains ob cb where "check_rows (length rs > 2) rs (Some 0) (Some 0) = Inr (ob, cb)"
    "(ob \<noteq> None \<and> cb \<noteq> None \<and> ob = cb) = brackets_balanced rs"
proof (cases "length rs > 2")
  case True
  let ?l = "\<lambda>f. foldl add_int (Some 0) (map (bracket_level \<circ> f) rs)"
  have "check_rows (length rs > 2) rs (Some 0) (Some 0) = Inr (?l fr_obr, ?l fr_cbr)"
    using check_rows_eq[OF rows_ok_present[OF assms(1)], of rs "Some 0" "Some 0"] assms(2) True by simp
  moreover have "?l f = (if \<exists>r \<in> set rs. bracket_level (f r) = None then None else Some (bracket_total f rs))" for f
    by (simp add: foldl_add_int None_image bracket_total_def o_def)
  ultimately show ?thesis using True by (intro that[of "?l fr_obr" "?l fr_cbr"]) (auto simp: brackets_balanced_def)
next
  case False
  then show ?thesis
    using check_rows_eq[OF rows_ok_present[OF assms(1)], of rs "Some 0" "Some 0"] assms(2)
    by (intro that[of "Some 0" "Some 0"]) (simp_all add: brackets_balanced_def)
qed

lemma js_or_Some: "None \<notin> set cs \<Longrightarrow> js_or cs \<noteq> None"
  by (induction cs rule: js_or.induct) auto

text \<open>
  C19. Where the check of the form runs, it lets a query through exactly when every value is filled in, the numbers of
  opened and closed brackets are the same with one selected in every row, the limit has only digits, and the user
  agrees to deleting without a term on the archived status, or to compacting without a term on the end. The order of the brackets is not looked at.
\<close>

theorem validateForm_exact:
  assumes "rows_ok env (fp_rows p)"
    and "\<And>b. b \<in> {''AutoDelete'', ''UpdateDiskSpace'', ''Background''} \<Longrightarrow> fp_boxes p b \<noteq> None"
  shows "lets_through answer (filter_validateForm p) \<longleftrightarrow>
     (\<forall>r \<in> set (fp_rows p). elem_value (fr_val r) \<noteq> Some []) \<and> brackets_balanced (fp_rows p)
     \<and> (\<forall>c \<in> set (fp_limit p). is_digit c)
     \<and> (fp_boxes p ''AutoDelete'' = Some True \<longrightarrow> answer \<or> (\<exists>r \<in> set (fp_rows p). fr_attr r = ''Archived''))
     \<and> (fp_boxes p ''AutoDelete'' = Some False \<and> fp_boxes p ''UpdateDiskSpace'' = Some True
          \<longrightarrow> answer \<or> (\<exists>r \<in> set (fp_rows p). fr_attr r \<in> {''EndDateTime'', ''EndTime'', ''EndDate''}))"
proof (cases "\<exists>r \<in> set (fp_rows p). elem_value (fr_val r) = Some []")
  case True
  then have "filter_validateForm p = BadValue" using check_rows_BadValue[OF assms(1)] by (simp add: filter_validateForm_def)
  then show ?thesis using True by (auto simp: lets_through_def)
next
  case False
  obtain ob cb where
    c: "check_rows (length (fp_rows p) > 2) (fp_rows p) (Some 0) (Some 0) = Inr (ob, cb)"
       "(ob \<noteq> None \<and> cb \<noteq> None \<and> ob = cb) = brackets_balanced (fp_rows p)"
    by (rule check_rows_balanced[OF assms(1) False])
  obtain d u bk where b: "fp_boxes p ''AutoDelete'' = Some d" "fp_boxes p ''UpdateDiskSpace'' = Some u" "fp_boxes p ''Background'' = Some bk"
    using assms(2)[of "''AutoDelete''"] assms(2)[of "''UpdateDiskSpace''"] assms(2)[of "''Background''"] by auto
  have vals: "\<forall>r \<in> set (fp_rows p). elem_value (fr_val r) \<noteq> Some []" using False by blast
  have bg: "lets_through answer (case js_or cs of None \<Rightarrow> TypeError | Some True \<Rightarrow> Accepted | Some False \<Rightarrow> AcceptedNoAction)" for cs
    by (auto simp: lets_through_def split: option.splits bool.splits)
  show ?thesis
  proof (cases "brackets_balanced (fp_rows p) \<and> (\<forall>c \<in> set (fp_limit p). is_digit c)")
    case bal: True
    then obtain x where x: "ob = Some x" "cb = Some x" using c(2) by auto
    have "filter_validateForm p =
        (if d then (if \<exists>r \<in> set (fp_rows p). fr_attr r = ''Archived'' then Accepted else AskArchived)
         else if u then (if \<exists>r \<in> set (fp_rows p). fr_attr r \<in> {''EndDateTime'', ''EndTime'', ''EndDate''} then Accepted else AskEndTime)
         else if bk then (case js_or (background_conditions p) of None \<Rightarrow> TypeError | Some True \<Rightarrow> Accepted | Some False \<Rightarrow> AcceptedNoAction)
         else Accepted)"
      using bal by (cases d; cases u; cases bk) (simp_all add: filter_validateForm_def c(1) b x)
    then show ?thesis using bal vals b bg by (cases d; cases u; cases bk) (auto simp: lets_through_def)
  next
    case bad: False
    have "filter_validateForm p \<in> {BadBrackets, BadLimit}" using bad c(2) by (auto simp: filter_validateForm_def c(1))
    then show ?thesis using bad by (auto simp: lets_through_def)
  qed
qed

theorem validateForm_exact_witness:
  "lets_through False (filter_validateForm (filter_run ex_fenv ex_fpage ex_fevs))"
proof (subst validateForm_exact[OF filter_run_ok[OF ex_fpage_rows(1)]], goal_cases)
  case 2
  have "brackets_balanced (fp_rows (filter_run ex_fenv ex_fpage ex_fevs))" by code_simp
  moreover have "\<forall>r \<in> set (fp_rows (filter_run ex_fenv ex_fpage ex_fevs)). elem_value (fr_val r) \<noteq> Some []" using ex_fpage_filled by blast
  moreover have "\<forall>c \<in> set (fp_limit (filter_run ex_fenv ex_fpage ex_fevs)). is_digit c" by code_simp
  moreover have "fp_boxes (filter_run ex_fenv ex_fpage ex_fevs) ''AutoDelete'' = Some False"
    "fp_boxes (filter_run ex_fenv ex_fpage ex_fevs) ''UpdateDiskSpace'' = Some False" by code_simp+
  ultimately show ?case by simp
qed (auto, code_simp+)

lemma elem_value_jq: "jq_val c = Str v \<Longrightarrow> elem_value c = Some v"
  by (cases c rule: elem_value.cases) simp_all

lemma elem_value_Null: "jq_val c = Null \<Longrightarrow> elem_value c = Some []"
  by (cases c rule: elem_value.cases) simp_all

lemma val_ok_jq: "val_ok env a i c \<Longrightarrow> elem_value c \<noteq> Some [] \<Longrightarrow> jq_val c \<noteq> Null \<and> (\<exists>v. v \<noteq> [] \<and> jq_val c = Str v)"
  by (cases c rule: elem_value.cases) (auto simp: val_ok_def select_ok_def input_ok_def split: option.splits)

lemma parse_row_value_filled:
  assumes "row_fits env i r" "elem_value (fr_val r) \<noteq> Some []"
  shows "elem_value (fr_val (parse_row env n j r)) \<noteq> Some []"
proof -
  obtain v where v: "v \<noteq> []" "jq_val (fr_val r) = Str v"
    using val_ok_jq[of env "fr_attr r" i "fr_val r"] assms by (auto simp: row_fits_def)
  then have "jq_val (fr_val (parse_row env n j r)) = Str v"
    using parse_val_keeps[of env "fr_attr r" i "fr_val r" j] assms(1) by (simp add: parse_row_def row_fits_def)
  then show ?thesis using v(1) by (simp add: elem_value_jq)
qed

lemma delTerm_member:
  assumes "r \<in> set (delTerm env k rs)" "k < length rs"
  obtains j i where "j < length rs" "j \<noteq> k" "r = parse_row env (length rs - 1) i (rs ! j)"
proof -
  obtain i where i: "i < length rs - 1" "r = delTerm env k rs ! i"
    using assms by (auto simp: in_set_conv_nth delTerm_def)
  show ?thesis
  proof (cases "i < k")
    case True
    then show ?thesis using delTerm_nth[of k rs i env] i assms(2) by (intro that[of i i]) auto
  next
    case False
    then show ?thesis using delTerm_nth[of k rs "Suc i" env] i assms(2) by (intro that[of "Suc i" i]) auto
  qed
qed

text \<open>
  Where one of at least four rows is deleted and another opens the highest level of brackets, that bracket
  is left with nothing selected, and the check rejects the query over its brackets although every
  value is filled in. Building the rows once more turns it into no bracket.
\<close>

lemma deleted_row_breaks_brackets:
  assumes "fp_rows p \<noteq> []" "ClickReset \<notin> set evs" "q = filter_run env p evs" "n = length (fp_rows q)"
    and "3 < n" "k < n" "j < n" "j \<noteq> k" "jq_val (fr_obr (fp_rows q ! j)) = Str (nat_to_str (n - 2))"
    and "\<forall>i < n. i \<noteq> k \<longrightarrow> elem_value (fr_val (fp_rows q ! i)) \<noteq> Some []"
  shows "filter_validateForm (fp_exec env (DelTerm k) q) = BadBrackets
    \<and> jq_val (fr_obr (parseRows env (fp_rows (fp_exec env (DelTerm k) q)) ! (if j < k then j else j - 1))) = Str ''0''"
proof -
  let ?rs = "fp_rows q" and ?j = "if j < k then j else j - 1" and ?q = "fp_exec env (DelTerm k) q"
  have ok: "rows_ok env ?rs" and fit: "rows_fit env ?rs"
    using filter_run_ok[OF assms(1)] filter_run_fit[OF assms(2)] assms(3) by simp_all
  have en: "\<not> fr_del_disabled (?rs ! k)" using ok assms(4-6) by (auto simp: rows_ok_def row_ok_def)
  then have rows: "fp_rows ?q = delTerm env k ?rs" using assms(4,6) by (simp add: fp_exec_def)
  have len: "length (delTerm env k ?rs) = n - 1" and ok': "rows_ok env (delTerm env k ?rs)"
    using delTerm_ok[OF ok _ en] assms(4,6) by simp_all
  have j': "?j < n - 1" using assms(5-8) by auto
  have rj: "fp_rows ?q ! ?j = parse_row env (n - 1) ?j (?rs ! j)"
    using delTerm_nth[of k ?rs j env] assms(4,6-8) rows by simp
  have null: "jq_val (fr_obr (fp_rows ?q ! ?j)) = Null"
    using bracket_after[of n "fr_obr (?rs ! j)" "n - 2" ?j] assms(5,9) unfolding rj by (simp add: parse_row_def)
  have "\<not> (\<exists>r \<in> set (delTerm env k ?rs). elem_value (fr_val r) = Some [])"
  proof
    assume "\<exists>r \<in> set (delTerm env k ?rs). elem_value (fr_val r) = Some []"
    then obtain r i j where "elem_value (fr_val r) = Some []" "j < n" "j \<noteq> k" "r = parse_row env (n - 1) i (?rs ! j)"
      using delTerm_member[of _ env k ?rs] assms(4,6) by metis
    then show False using parse_row_value_filled[of env j "?rs ! j" "n - 1" i] fit assms(4,10) by (simp add: rows_fit_def)
  qed
  then obtain ob cb where c: "check_rows (length (delTerm env k ?rs) > 2) (delTerm env k ?rs) (Some 0) (Some 0) = Inr (ob, cb)"
      "(ob \<noteq> None \<and> cb \<noteq> None \<and> ob = cb) = brackets_balanced (delTerm env k ?rs)"
    by (rule check_rows_balanced[OF ok'])
  have "bracket_level (fr_obr (fp_rows ?q ! ?j)) = None" using null by (simp add: bracket_level_def elem_value_Null parseInt_Nil)
  moreover have "fp_rows ?q ! ?j \<in> set (delTerm env k ?rs)" using rows len j' by (metis nth_mem)
  ultimately have "\<not> brackets_balanced (delTerm env k ?rs)" using len assms(5) by (auto simp: brackets_balanced_def)
  then have "filter_validateForm ?q = BadBrackets" using c by (simp add: filter_validateForm_def rows)
  moreover have "jq_val (fr_obr (parseRows env (fp_rows ?q) ! ?j)) = Str ''0''"
  proof -
    have "?j < length (fp_rows ?q)" using rows len j' by simp
    then have "fr_obr (parseRows env (fp_rows ?q) ! ?j) = parse_bracket (n - 1) ?j (fr_obr (fp_rows ?q ! ?j))"
      using rows len by (simp add: parseRows_nth parse_row_def)
    moreover have "''0'' = nat_to_str 0" by code_simp
    ultimately show ?thesis using null assms(5) bracket_option[of 0 "n - 1"] by (simp add: parse_bracket_def jq_val_new del: nat_to_str.simps)
  qed
  ultimately show ?thesis by blast
qed

section \<open>Changing an attribute, resetting, saving\<close>

text \<open>
  Choosing an attribute keeps the operator only if the new attribute offers it. If not, none is selected,
  even where the old one was the default, unless the attribute is Archived; a default is chosen only where there was none before.
\<close>

lemma chosen_attribute_operator:
  assumes "fp_rows p \<noteq> []" "q = filter_run env p evs" "k < length (fp_rows q)" "a \<in> set (fe_attrs env)"
  shows "jq_val (fr_op (fp_rows (fp_exec env (ChooseAttr k a) q) ! k)) =
     (if a = ''Archived'' then Str ''=''
      else if jq_val (fr_op (fp_rows q ! k)) = Null then Str (default_op a)
      else if \<exists>v \<in> set (op_options a). jq_val (fr_op (fp_rows q ! k)) = Str v then jq_val (fr_op (fp_rows q ! k))
      else Null)"
proof -
  let ?c = "fr_op (fp_rows q ! k)"
  have "row_ok env (length (fp_rows q)) k (fp_rows q ! k)"
    using filter_run_ok[OF assms(1), of env evs] assms(2,3) by (simp add: rows_ok_def)
  then obtain b where "select_ok k (op_options b) ?c" by (auto simp: row_ok_def op_ok_def)
  then have v: "jq_val ?c = Null \<or> (\<exists>v \<in> set (op_options b). jq_val ?c = Str v)" by (rule select_value)
  have ne: "[] \<notin> set (op_options b)" for b by (simp add: op_options_def tags_opTypes_def opTypes_def)
  have d: "default_op a \<in> set (op_options a)" "a = ''Archived'' \<Longrightarrow> ''='' \<in> set (op_options a)"
    by (simp_all add: op_options_def default_op_def tags_opTypes_def opTypes_def)
  have "default_op a \<noteq> []" by (simp add: default_op_def)
  have "fr_op (fp_rows (fp_exec env (ChooseAttr k a) q) ! k) = parse_op a k ?c"
    using assms(3,4) by (simp add: fp_exec_def checkValue_def upd_row_def parseRows_nth parse_row_def)
  then show ?thesis
    using v ne[of b] d by (auto simp: parse_op_def Let_def jq_val_new_op simp del: new_op.simps)
qed

lemma reset_first: "first_ok i os c \<Longrightarrow> jq_val (reset_cell c) = Str (hd os)"
  by (cases c) (auto simp: first_ok_def)

text \<open>
  The reset button does not bring back the query that was loaded, even on an untouched page: afterwards every value that is
  typed is empty, every bracket is gone and every connective is \<^verbatim>\<open>and\<close>.
\<close>

lemma reset_empties_query:
  assumes "fp_rows p \<noteq> []" "r \<in> set (fp_rows (fp_exec env ClickReset (filter_run env p evs)))"
  shows "(case fr_val r of Input num i s \<Rightarrow> s = [] | _ \<Rightarrow> True)
    \<and> jq_val (fr_obr r) \<in> {Undef, Str ''0''} \<and> jq_val (fr_cbr r) \<in> {Undef, Str ''0''}
    \<and> jq_val (fr_cnj r) \<in> {Undef, Str ''and''}"
proof -
  let ?rs = "fp_rows (filter_run env p evs)"
  obtain i where i: "i < length ?rs" "r = reset_row (?rs ! i)"
    using assms(2) by (auto simp: fp_exec_def resetFilter_def in_set_conv_nth)
  have ok: "row_ok env (length ?rs) i (?rs ! i)" using filter_run_ok[OF assms(1), of env evs] i(1) by (simp add: rows_ok_def)
  have z: "hd (bracket_options n) = ''0''" if "2 < n" for n
    using that by (cases n) (simp_all add: bracket_options_def hd_map, code_simp)
  have br: "bracket_ok (length ?rs) i c \<Longrightarrow> jq_val (reset_cell c) \<in> {Undef, Str ''0''}" for c
    using reset_first[of i "bracket_options (length ?rs)" c] z by (auto simp: bracket_ok_def split: if_splits)
  have cn: "cnj_ok i c \<Longrightarrow> jq_val (reset_cell c) \<in> {Undef, Str ''and''}" for c
    using reset_first[of i conjTypes c] by (auto simp: cnj_ok_def conjTypes_def split: if_splits)
  have "(case reset_cell c of Input num i s \<Rightarrow> s = [] | _ \<Rightarrow> True)" for c by (cases c) simp_all
  then show ?thesis using ok br cn i(2) by (simp add: row_ok_def reset_row_def)
qed

text \<open>
  The buttons never check the query: with a value cleared, which \<^verbatim>\<open>validateForm\<close> rejects, saving
  and executing still send it.
\<close>

lemma saving_skips_check:
  assumes "fp_rows p \<noteq> []" "q = filter_run env p evs" "k < length (fp_rows q)" "fr_val (fp_rows q ! k) = Input num i s"
    and "q' = fp_exec env (TypeVal k []) q"
  shows "filter_validateForm q' = BadValue
    \<and> (fp_save_disabled q' \<or> fp_sent (fp_exec env ClickSave q') = fp_sent q' @ [(Submitted ''Save'', fp_rows q')])
    \<and> (fp_execute_disabled q' \<or> fp_sent (fp_exec env ClickExecute q') = fp_sent q' @ [(Submitted ''execute'', fp_rows q')])"
proof -
  have "rows_ok env (fp_rows q')" using filter_run_ok[OF assms(1), of env evs] assms(2,5) by (simp add: fp_exec_ok)
  moreover have q': "fp_rows q' = (fp_rows q)[k := (fp_rows q ! k)\<lparr>fr_val := Input num i []\<rparr>]"
    using assms(3-5) by (simp add: fp_exec_def upd_row_def)
  have "(fp_rows q ! k)\<lparr>fr_val := Input num i []\<rparr> \<in> set (fp_rows q')"
    using assms(3) unfolding q' by (rule set_update_memI)
  then have "\<exists>r \<in> set (fp_rows q'). elem_value (fr_val r) = Some []" by force
  ultimately have "filter_validateForm q' = BadValue" by (simp add: filter_validateForm_def check_rows_BadValue)
  then show ?thesis by (simp add: fp_exec_def Let_def submitAction_def send_out_def)
qed

end
