(* ===== verification/Stream_Listeners.thy ===== *)
theory Stream_Listeners
  imports Js_Text
begin

text \<open>
  The registry of event listeners (\<^verbatim>\<open>web/skins/classic/js/skin.js\<close>, class \<^verbatim>\<open>ManageEventListener\<close>) and the
  listeners a monitor's live stream keeps in it (\<^verbatim>\<open>web/js/MonitorStream.js\<close>:
  \<^verbatim>\<open>handlerEventListenerStream\<close>, \<^verbatim>\<open>createVolumeSlider\<close>, \<^verbatim>\<open>streamListener\<close>, \<^verbatim>\<open>stop\<close>). The first part is a
  locale of what a registry promises, interpreted on the class; the second an executable machine of one
  monitor whose listeners are called when an event is fired. The commands and timers of that monitor are in
  \<^verbatim>\<open>Monitor_State\<close> and \<^verbatim>\<open>Monitor_Players\<close>.
\<close>

declare nat_to_str.simps [simp del]

section \<open>The registry\<close>

text \<open>
  An attached listener: element, type, function and the flag \<^verbatim>\<open>capture\<close>, which is how the browser tells
  listeners apart. A key of the object of listeners is a string.
\<close>

type_synonym ('e, 'l) attach = "'e \<times> string \<times> 'l \<times> bool"

record ('e, 'l) listeners =
  lm_ids :: "(string \<times> ('e, 'l) attach) list"
  lm_idx :: nat
  lm_dom :: "('e, 'l) attach list"

text \<open>The browser's \<^verbatim>\<open>addEventListener\<close> ignores a listener it already has.\<close>

definition dom_add :: "'a \<Rightarrow> 'a list \<Rightarrow> 'a list" where
  "dom_add a d = (if a \<in> set d then d else d @ [a])"

definition lm_remove :: "string \<Rightarrow> ('e, 'l) listeners \<Rightarrow> string option \<times> ('e, 'l) listeners" where
  "lm_remove i r = (case map_of (lm_ids r) i of
     None \<Rightarrow> (None, r)
   | Some a \<Rightarrow> (Some i, r\<lparr>lm_ids := filter (\<lambda>p. fst p \<noteq> i) (lm_ids r), lm_dom := filter (\<lambda>b. b \<noteq> a) (lm_dom r)\<rparr>))"

text \<open>The flag is false where the method throws because the id is taken.\<close>

definition privateAdd :: "string \<Rightarrow> ('e, 'l) attach \<Rightarrow> string option \<Rightarrow> ('e, 'l) listeners \<Rightarrow> bool \<times> ('e, 'l) listeners" where
  "privateAdd i a rep r =
     (let r1 = (case rep of None \<Rightarrow> r | Some x \<Rightarrow> snd (lm_remove x r))
      in case map_of (lm_ids r1) i of
           Some _ \<Rightarrow> (False, r1)
         | None \<Rightarrow> (True, r1\<lparr>lm_ids := lm_ids r1 @ [(i, a)], lm_dom := dom_add a (lm_dom r1)\<rparr>))"

definition lm_add :: "('e, 'l) attach \<Rightarrow> string option \<Rightarrow> ('e, 'l) listeners \<Rightarrow> string option \<times> ('e, 'l) listeners" where
  "lm_add a rep r =
     (let i = nat_to_str (lm_idx r); (ok, r') = privateAdd i a rep (r\<lparr>lm_idx := lm_idx r + 1\<rparr>)
      in (if ok then Some i else None, r'))"

definition lm_addById :: "string \<Rightarrow> ('e, 'l) attach \<Rightarrow> string option \<Rightarrow> ('e, 'l) listeners \<Rightarrow> string option \<times> ('e, 'l) listeners" where
  "lm_addById i a rep r = (let (ok, r') = privateAdd i a rep r in (if ok then Some i else None, r'))"

definition lm_length :: "('e, 'l) listeners \<Rightarrow> nat" where
  "lm_length r = length (lm_ids r)"

definition lm_empty :: "('e, 'l) listeners" where
  "lm_empty = \<lparr>lm_ids = [], lm_idx = 1, lm_dom = []\<rparr>"

section \<open>What a registry promises\<close>

text \<open>
  \<open>held\<close> is what is registered under an id, \<open>attached\<close> what the browser calls. A client only
  adds listeners that are not attached yet.
\<close>

locale listener_registry =
  fixes inv :: "'s \<Rightarrow> bool" and held :: "'s \<Rightarrow> string \<Rightarrow> 'a option" and attached :: "'s \<Rightarrow> 'a set"
    and add :: "'a \<Rightarrow> string option \<Rightarrow> 's \<Rightarrow> string option \<times> 's" and remove :: "string \<Rightarrow> 's \<Rightarrow> string option \<times> 's"
  assumes attached_held: "inv s \<Longrightarrow> attached s = ran (held s)"
    and held_inj: "inv s \<Longrightarrow> inj_on (held s) (dom (held s))"
    and remove_inv: "inv s \<Longrightarrow> inv (snd (remove i s))"
    and remove_held: "inv s \<Longrightarrow> held (snd (remove i s)) = (held s)(i := None)"
    and remove_result: "inv s \<Longrightarrow> fst (remove i s) = (if held s i = None then None else Some i)"
    and add_inv: "inv s \<Longrightarrow> a \<notin> attached s \<Longrightarrow> inv (snd (add a rep s))"
    and add_held: "inv s \<Longrightarrow> a \<notin> attached s \<Longrightarrow> \<exists>i. fst (add a rep s) = Some i \<and> held s i = None
      \<and> held (snd (add a rep s)) = (case rep of None \<Rightarrow> held s | Some x \<Rightarrow> (held s)(x := None))(i \<mapsto> a)"
begin

text \<open>Removing an id detaches its listener and no other.\<close>

lemma remove_detaches: "inv s \<Longrightarrow> held s i = Some a \<Longrightarrow> attached (snd (remove i s)) = attached s - {a}"
proof -
  assume s: "inv s" "held s i = Some a"
  have "ran ((held s)(i := None)) = ran (held s) - {a}"
  proof (intro set_eqI iffI)
    fix b assume "b \<in> ran ((held s)(i := None))"
    then obtain j where "j \<noteq> i" "held s j = Some b" by (auto simp: ran_def split: if_splits)
    then show "b \<in> ran (held s) - {a}" using s held_inj[OF s(1)] by (auto simp: ran_def inj_on_def dom_def)
  next
    fix b assume "b \<in> ran (held s) - {a}"
    then obtain j where "held s j = Some b" "b \<noteq> a" by (auto simp: ran_def)
    then show "b \<in> ran ((held s)(i := None))" using s(2) by (auto simp: ran_def intro!: exI[of _ j])
  qed
  then show ?thesis using s by (simp add: attached_held remove_inv remove_held)
qed

lemma remove_unknown: "inv s \<Longrightarrow> held s i = None \<Longrightarrow> attached (snd (remove i s)) = attached s"
  by (simp add: attached_held remove_inv remove_held fun_upd_idem)

text \<open>Adding with \<^verbatim>\<open>replaceId\<close> exchanges one listener for another.\<close>

lemma add_attaches: "inv s \<Longrightarrow> a \<notin> attached s \<Longrightarrow> attached (snd (add a None s)) = insert a (attached s)"
proof -
  assume s: "inv s" "a \<notin> attached s"
  then obtain i where "held s i = None" "held (snd (add a None s)) = (held s)(i \<mapsto> a)" using add_held[of s a None] by auto
  then show ?thesis using s by (simp add: attached_held add_inv)
qed

lemma add_replaces:
  assumes "inv s" "a \<notin> attached s" "held s x = Some b"
  shows "attached (snd (add a (Some x) s)) = insert a (attached s - {b})"
proof -
  obtain i where i: "held s i = None" "held (snd (add a (Some x) s)) = ((held s)(x := None))(i \<mapsto> a)"
    using add_held[OF assms(1,2), of "Some x"] by auto
  have "ran ((held s)(x := None)) = attached s - {b}"
    using remove_detaches[OF assms(1,3)] assms(1) by (simp add: attached_held remove_inv remove_held)
  moreover have "((held s)(x := None)) i = None" using i(1) by simp
  ultimately show ?thesis using i(2) assms by (simp add: attached_held add_inv)
qed

end

text \<open>
  The class keeps these promises while its ids come from its counter: what the browser calls are
  the registered listeners in the order they were registered.
\<close>

definition lm_inv :: "('e, 'l) listeners \<Rightarrow> bool" where
  "lm_inv r \<longleftrightarrow> lm_dom r = map snd (lm_ids r) \<and> distinct (map fst (lm_ids r)) \<and> distinct (map snd (lm_ids r))
     \<and> (\<forall>i \<in> fst ` set (lm_ids r). \<exists>n < lm_idx r. i = nat_to_str n)"

lemma lm_remove_parts:
  "lm_ids (snd (lm_remove i r)) = filter (\<lambda>p. fst p \<noteq> i) (lm_ids r)" "lm_idx (snd (lm_remove i r)) = lm_idx r"
  by (auto simp: lm_remove_def map_of_eq_None_iff split: option.splits intro!: filter_True [symmetric])

lemma distinct_map_filter_snd:
  "distinct (map fst ps) \<Longrightarrow> distinct (map snd ps) \<Longrightarrow> map_of ps i = Some a
    \<Longrightarrow> map snd (filter (\<lambda>p. fst p \<noteq> i) ps) = filter (\<lambda>b. b \<noteq> a) (map snd ps)"
proof (induction ps)
  case (Cons p ps)
  show ?case
  proof (cases "fst p = i")
    case True
    then have "snd p = a" using Cons.prems(3) by (cases p) simp
    moreover have "filter (\<lambda>q. fst q \<noteq> fst p) ps = ps" using Cons.prems(1) by (auto simp: filter_id_conv image_iff)
    moreover have "filter (\<lambda>b. b \<noteq> snd p) (map snd ps) = map snd ps" using Cons.prems(2) by (auto simp: filter_id_conv image_iff)
    ultimately show ?thesis using True by simp
  next
    case False
    then have m: "map_of ps i = Some a" using Cons.prems(3) by (cases p) auto
    then have "a \<in> set (map snd ps)" by (force dest: map_of_SomeD)
    then have "snd p \<noteq> a" using Cons.prems(2) by auto
    then show ?thesis using False m Cons by simp
  qed
qed simp

lemma lm_remove_inv: "lm_inv r \<Longrightarrow> lm_inv (snd (lm_remove i r))"
proof (cases "map_of (lm_ids r) i")
  case (Some a)
  assume r: "lm_inv r"
  then show ?thesis using Some distinct_map_filter_snd[of "lm_ids r" i a]
    by (auto simp: lm_inv_def lm_remove_def distinct_map_filter)
qed (simp add: lm_remove_def)

lemma map_of_filter_key: "map_of (filter (\<lambda>p. fst p \<noteq> i) ps) = (map_of ps)(i := None)"
  by (induction ps) (auto simp: fun_eq_iff)

lemma lm_held_remove: "map_of (lm_ids (snd (lm_remove i r))) = (map_of (lm_ids r))(i := None)"
  unfolding lm_remove_parts map_of_filter_key ..

lemma lm_fresh_id: "lm_inv r \<Longrightarrow> map_of (lm_ids r) (nat_to_str (lm_idx r)) = None"
  by (force simp: lm_inv_def map_of_eq_None_iff nat_to_str_inj)

lemma lm_inv_idx: "lm_inv r \<Longrightarrow> lm_inv (r\<lparr>lm_idx := lm_idx r + 1\<rparr>)"
  by (simp add: lm_inv_def) (meson less_SucI)

lemma lm_remove_idx: "lm_remove x (r\<lparr>lm_idx := n\<rparr>) = (fst (lm_remove x r), (snd (lm_remove x r))\<lparr>lm_idx := n\<rparr>)"
  by (auto simp: lm_remove_def split: option.splits)

lemma lm_remove_dom: "set (lm_dom (snd (lm_remove i r))) \<subseteq> set (lm_dom r)"
  by (auto simp: lm_remove_def split: option.splits)

lemma single_map_add: "m i = None \<Longrightarrow> [i \<mapsto> a] ++ m = m(i \<mapsto> a)"
  by (auto simp: fun_eq_iff map_add_def split: option.splits)

text \<open>What an addition does, with the listener it replaces taken away first.\<close>

definition lm_replaced :: "string option \<Rightarrow> ('e, 'l) listeners \<Rightarrow> ('e, 'l) listeners" where
  "lm_replaced rep r = (case rep of None \<Rightarrow> r | Some x \<Rightarrow> snd (lm_remove x r))"

lemma lm_replaced_inv: "lm_inv r \<Longrightarrow> lm_inv (lm_replaced rep r)"
  by (simp add: lm_replaced_def lm_remove_inv split: option.splits)

lemma lm_replaced_parts:
  "lm_idx (lm_replaced rep r) = lm_idx r" "set (lm_dom (lm_replaced rep r)) \<subseteq> set (lm_dom r)"
  "map_of (lm_ids (lm_replaced rep r)) = (case rep of None \<Rightarrow> map_of (lm_ids r) | Some x \<Rightarrow> (map_of (lm_ids r))(x := None))"
  using lm_remove_dom by (auto simp: lm_replaced_def lm_remove_parts map_of_filter_key split: option.splits)

lemma lm_add_eq:
  assumes "lm_inv r" "a \<notin> set (lm_dom r)"
  shows "lm_add a rep r = (Some (nat_to_str (lm_idx r)),
    (lm_replaced rep r)\<lparr>lm_idx := lm_idx r + 1, lm_ids := lm_ids (lm_replaced rep r) @ [(nat_to_str (lm_idx r), a)],
       lm_dom := lm_dom (lm_replaced rep r) @ [a]\<rparr>)"
proof -
  have "map_of (lm_ids (lm_replaced rep r)) (nat_to_str (lm_idx r)) = None"
    using lm_fresh_id[OF assms(1)] by (simp add: lm_replaced_parts split: option.splits)
  moreover have "a \<notin> set (lm_dom (lm_replaced rep r))" using assms(2) lm_replaced_parts(2) by blast
  ultimately show ?thesis
    by (cases rep) (simp_all add: lm_add_def privateAdd_def lm_replaced_def lm_remove_idx dom_add_def Let_def)
qed

lemma lm_add_inv:
  assumes "lm_inv r" "a \<notin> set (lm_dom r)"
  shows "lm_inv (snd (lm_add a rep r))"
proof -
  have i: "lm_inv (lm_replaced rep r)" by (rule lm_replaced_inv[OF assms(1)])
  have "nat_to_str (lm_idx r) \<notin> fst ` set (lm_ids (lm_replaced rep r))"
    using lm_fresh_id[OF i] by (simp add: lm_replaced_parts(1) map_of_eq_None_iff)
  moreover have "a \<notin> set (lm_dom (lm_replaced rep r))" using assms(2) lm_replaced_parts(2) by blast
  ultimately show ?thesis
    using i unfolding lm_add_eq[OF assms]
    by (simp add: lm_inv_def lm_replaced_parts) (metis less_Suc_eq)
qed

interpretation lm: listener_registry lm_inv "\<lambda>r. map_of (lm_ids r)" "\<lambda>r. set (lm_dom r)" lm_add lm_remove
proof (unfold_locales, goal_cases)
  case (1 s)
  then show ?case by (simp add: lm_inv_def ran_distinct)
next
  case (2 s)
  then have d: "distinct (map fst (lm_ids s))" "distinct (map snd (lm_ids s))" by (simp_all add: lm_inv_def)
  show ?case
  proof (rule inj_onI)
    fix i j assume "i \<in> dom (map_of (lm_ids s))" and eq: "map_of (lm_ids s) i = map_of (lm_ids s) j"
    then obtain a where "(i, a) \<in> set (lm_ids s)" "(j, a) \<in> set (lm_ids s)" by (metis domD map_of_SomeD)
    moreover have "inj_on snd (set (lm_ids s))" using d(2) by (simp add: distinct_map)
    ultimately show "i = j" by (metis Pair_inject inj_onD snd_conv)
  qed
next
  case (7 s a rep)
  have "map_of (lm_ids (lm_replaced rep s)) (nat_to_str (lm_idx s)) = None"
    using lm_fresh_id[OF lm_replaced_inv[OF 7(1)]] by (simp add: lm_replaced_parts(1))
  then show ?case
    using lm_fresh_id[OF 7(1)] unfolding lm_add_eq[OF 7]
    by (intro exI[of _ "nat_to_str (lm_idx s)"]) (simp add: single_map_add lm_replaced_parts(3))
next
  case (3 s i)
  then show ?case by (rule lm_remove_inv)
next
  case (4 s i)
  show ?case by (rule lm_held_remove)
next
  case (5 s i)
  show ?case by (simp add: lm_remove_def split: option.splits)
next
  case (6 s a rep)
  then show ?case by (rule lm_add_inv)
qed

text \<open>
  Where the same function is registered twice, the browser has it once: removing one of the two ids
  detaches it for both.
\<close>

lemma duplicate_detaches_both:
  assumes "lm_inv r" "a \<notin> set (lm_dom r)"
  shows "let (i, r1) = lm_add a None r; (j, r2) = lm_add a None r1; r3 = snd (lm_remove (the i) r2)
         in i \<noteq> j \<and> map_of (lm_ids r3) (the j) = Some a \<and> a \<notin> set (lm_dom r3)"
proof -
  define i where "i = nat_to_str (lm_idx r)"
  define j where "j = nat_to_str (Suc (lm_idx r))"
  define r1 where "r1 = r\<lparr>lm_idx := lm_idx r + 1, lm_ids := lm_ids r @ [(i, a)], lm_dom := lm_dom r @ [a]\<rparr>"
  have add1: "lm_add a None r = (Some i, r1)"
    using lm_add_eq[OF assms, of None] by (simp add: i_def r1_def lm_replaced_def)
  have inv1: "lm_inv r1" using lm_add_inv[OF assms, of None] add1 by simp
  have ij: "i \<noteq> j" by (simp add: i_def j_def nat_to_str_inj)
  have free: "map_of (lm_ids r1) j = None" using lm_fresh_id[OF inv1] by (simp add: r1_def j_def)
  moreover have "lm_idx r1 = Suc (lm_idx r)" "a \<in> set (lm_dom r1)" by (simp_all add: r1_def)
  ultimately have add2: "lm_add a None r1 = (Some j, r1\<lparr>lm_idx := lm_idx r1 + 1, lm_ids := lm_ids r1 @ [(j, a)]\<rparr>)"
    by (simp add: lm_add_def privateAdd_def Let_def dom_add_def j_def)
  have "map_of (lm_ids r) i = None" using lm_fresh_id[OF assms(1)] by (simp add: i_def)
  then have "map_of (lm_ids r1) i = Some a" by (simp add: r1_def single_map_add)
  then have "map_of (lm_ids r1 @ [(j, a)]) i = Some a" by simp
  then show ?thesis
    using ij by (simp add: add1 add2 Let_def lm_remove_def map_of_filter_key single_map_add free)
qed

section \<open>The listeners of a monitor\<close>

text \<open>
  The functions a monitor attaches, with the playback session they were made for; each is a new function object, told
  apart by a stamp.
\<close>

datatype ml_fn = OnPlay nat | OnTracks nat | OnPause nat | OnError nat | OnVolume | OnUnload
datatype ml_target = Window | Elem nat

type_synonym ml_attach = "(ml_target, nat \<times> ml_fn) attach"

text \<open>
  The fields \<open>h_*\<close> are the entries of \<^verbatim>\<open>handlerEventListener\<close>. \<open>ml_el\<close>: the element of the stream;
  \<open>ml_slider\<close>: the page has a volume slider for it. \<open>ml_volumes\<close> counts the volume changes that were
  handled, \<open>ml_lookups\<close> the searches for tracks, \<open>ml_kills\<close> the calls of \<^verbatim>\<open>kill\<close> when the page is left.
\<close>

record mlisten =
  ml_reg :: "(ml_target, nat \<times> ml_fn) listeners"
  h_tracks :: "string option"
  h_kill :: "string option"
  h_play :: "string option"
  h_volume :: "string option"
  h_pause :: "string option"
  h_error :: "string option"
  ml_session :: nat
  ml_active :: bool
  ml_started :: bool
  ml_starting :: bool
  ml_el :: nat
  ml_stamp :: nat
  ml_slider :: bool
  ml_volumes :: nat
  ml_lookups :: nat
  ml_kills :: nat

definition ml_add :: "ml_target \<Rightarrow> string \<Rightarrow> ml_fn \<Rightarrow> string option \<Rightarrow> mlisten \<Rightarrow> string option \<times> mlisten" where
  "ml_add el ty fn rep s =
     (let (i, r) = lm_add (el, ty, (ml_stamp s, fn), False) rep (ml_reg s)
      in (i, s\<lparr>ml_reg := r, ml_stamp := ml_stamp s + 1\<rparr>))"

text \<open>Removing the listener of an entry, which may be undefined.\<close>

definition ml_remove :: "string option \<Rightarrow> mlisten \<Rightarrow> string option \<times> mlisten" where
  "ml_remove h s = (case h of
     None \<Rightarrow> (None, s)
   | Some i \<Rightarrow> (let (x, r) = lm_remove i (ml_reg s) in (x, s\<lparr>ml_reg := r\<rparr>)))"

definition ml_drop :: "string option \<Rightarrow> mlisten \<Rightarrow> mlisten" where
  "ml_drop h s = snd (ml_remove h s)"

text \<open>
  \<^verbatim>\<open>streamSessionActive\<close>: a stream has no field \<^verbatim>\<open>sessionActive\<close>, so only the session is compared.
\<close>

definition sessionActive :: "nat \<Rightarrow> mlisten \<Rightarrow> bool" where
  "sessionActive k s \<longleftrightarrow> k = ml_session s"

definition handlerEventListenerStream :: "mlisten \<Rightarrow> mlisten" where
  "handlerEventListenerStream s =
     (let k = ml_session s;
          (i, s1) = ml_add (Elem (ml_el s)) ''play'' (OnPlay k) (h_play s) s; s2 = s1\<lparr>h_play := i\<rparr>;
          (j, s3) = ml_add (Elem (ml_el s)) ''pause'' (OnPause k) None s2; s4 = s3\<lparr>h_pause := j\<rparr>;
          (l, s5) = ml_add (Elem (ml_el s)) ''error'' (OnError k) None s4
      in s5\<lparr>h_error := l\<rparr>)"

text \<open>\<^verbatim>\<open>streamListener\<close>, called as \<^verbatim>\<open>streamListenerBind\<close>.\<close>

definition streamListener :: "mlisten \<Rightarrow> mlisten" where
  "streamListener s = (let (i, s1) = ml_add Window ''beforeunload'' OnUnload None s in s1\<lparr>h_kill := i\<rparr>)"

definition createVolumeSlider :: "mlisten \<Rightarrow> mlisten" where
  "createVolumeSlider s =
     (if \<not> ml_slider s \<or> h_volume s \<noteq> None then s
      else (let (i, s1) = ml_add (Elem (ml_el s)) ''volumechange'' OnVolume None s in s1\<lparr>h_volume := i\<rparr>))"

text \<open>The beginning of \<^verbatim>\<open>stop\<close>: an entry of the volume is cleared only if its listener was still registered.\<close>

definition ml_stop :: "mlisten \<Rightarrow> mlisten" where
  "ml_stop s =
     (let s1 = ml_drop (h_play s) (ml_drop (h_kill s) (ml_drop (h_tracks s) (s\<lparr>ml_starting := False\<rparr>)));
          (x, s2) = ml_remove (h_volume s1) s1;
          s3 = (if x = h_volume s1 then s2\<lparr>h_volume := None\<rparr> else s2)
      in (ml_drop (h_error s3) (ml_drop (h_pause s3) s3))\<lparr>ml_started := False\<rparr>)"

text \<open>The body of the listener of \<^verbatim>\<open>play\<close>.\<close>

definition on_play :: "nat \<Rightarrow> mlisten \<Rightarrow> mlisten" where
  "on_play k s =
     (let s1 = createVolumeSlider s;
          (i, s2) = ml_add (Elem (ml_el s1)) ''zm:tracksReceived'' (OnTracks k) (h_tracks s1) s1
      in s2\<lparr>h_tracks := i, ml_lookups := ml_lookups s2 + 1\<rparr>)"

text \<open>
  What an event runs. \<open>ok\<close> is whether the tracks that were received do for the player; if not, and after an error, the
  stream is restarted, which stops it and starts it later.
\<close>

definition run_listener :: "bool \<Rightarrow> ml_attach \<Rightarrow> mlisten \<Rightarrow> mlisten" where
  "run_listener ok a s = (case snd (fst (snd (snd a))) of
     OnPlay k \<Rightarrow> if sessionActive k s then on_play k s else s
   | OnTracks k \<Rightarrow> if sessionActive k s \<and> ml_started s \<and> \<not> ok then ml_stop s else s
   | OnPause k \<Rightarrow> if sessionActive k s then ml_drop (h_volume s) s else s
   | OnError k \<Rightarrow> if sessionActive k s then ml_stop s else s
   | OnVolume \<Rightarrow> s\<lparr>ml_volumes := ml_volumes s + 1\<rparr>
   | OnUnload \<Rightarrow> (ml_stop s)\<lparr>ml_kills := ml_kills s + 1\<rparr>)"

text \<open>The browser calls the listeners it had when the event was fired, but none that was removed meanwhile.\<close>

definition ml_fire :: "bool \<Rightarrow> ml_target \<Rightarrow> string \<Rightarrow> mlisten \<Rightarrow> mlisten" where
  "ml_fire ok el ty s =
     fold (\<lambda>a s. if a \<in> set (lm_dom (ml_reg s)) then run_listener ok a s else s)
       (filter (\<lambda>a. fst a = el \<and> fst (snd a) = ty) (lm_dom (ml_reg s))) s"

text \<open>
  Opening a player on the element \<open>el\<close>: every player but go2rtc makes a new session, and every one but zms
  attaches the listeners of the stream. Then, at once or for Janus when its library calls back, comes
  the listener of the page's end. \<^verbatim>\<open>starting\<close> stays true until the stream is stopped.
\<close>

definition ml_begin :: "bool \<Rightarrow> nat \<Rightarrow> mlisten \<Rightarrow> mlisten" where
  "ml_begin new el s =
     s\<lparr>ml_starting := True, ml_session := (if new then ml_session s + 1 else ml_session s), ml_el := el\<rparr>"

definition ml_open :: "bool \<Rightarrow> nat \<Rightarrow> mlisten \<Rightarrow> mlisten" where
  "ml_open new el s = handlerEventListenerStream (ml_begin new el s)"

definition ml_opened :: "mlisten \<Rightarrow> mlisten" where
  "ml_opened s = streamListener (s\<lparr>ml_started := True\<rparr>)"

datatype ml_event = StartPlayer bool nat | StartZms nat | StartJanus nat | JanusReady | StopStream | Fired bool ml_target string | Activate bool

definition ml_exec :: "ml_event \<Rightarrow> mlisten \<Rightarrow> mlisten" where
  "ml_exec ev s = (case ev of
     StartPlayer new el \<Rightarrow> if \<not> ml_active s \<or> ml_started s \<or> ml_starting s then s else ml_opened (ml_open new el s)
   | StartZms el \<Rightarrow> if \<not> ml_active s \<or> ml_started s \<or> ml_starting s then s else ml_opened (ml_begin True el s)
   | StartJanus el \<Rightarrow> if \<not> ml_active s \<or> ml_started s \<or> ml_starting s then s else ml_open True el s
   | JanusReady \<Rightarrow> if ml_starting s then ml_opened s else s
   | StopStream \<Rightarrow> ml_stop s
   | Fired ok el ty \<Rightarrow> ml_fire ok el ty s
   | Activate b \<Rightarrow> s\<lparr>ml_active := b\<rparr>)"

definition ml_init :: "bool \<Rightarrow> mlisten" where
  "ml_init slider = \<lparr>ml_reg = lm_empty, h_tracks = None, h_kill = None, h_play = None, h_volume = None, h_pause = None,
     h_error = None, ml_session = 0, ml_active = True, ml_started = False, ml_starting = False, ml_el = 0, ml_stamp = 0,
     ml_slider = slider, ml_volumes = 0, ml_lookups = 0, ml_kills = 0\<rparr>"

definition ml_run :: "bool \<Rightarrow> ml_event list \<Rightarrow> mlisten" where
  "ml_run slider evs = fold ml_exec evs (ml_init slider)"

section \<open>Invariants\<close>

text \<open>No callback of Janus comes when the stream has started already.\<close>

fun janus_timely :: "ml_event list \<Rightarrow> mlisten \<Rightarrow> bool" where
  "janus_timely [] s = True"
| "janus_timely (ev # evs) s = ((ev \<noteq> JanusReady \<or> \<not> ml_started s) \<and> janus_timely evs (ml_exec ev s))"

text \<open>
  A property of the monitor that every operation keeps holds in every run. The operations may use the invariant \<open>I\<close>
  of the registry.
\<close>

locale stream_invariant =
  fixes P :: "mlisten \<Rightarrow> bool" and janus :: bool
  assumes play: "P s \<Longrightarrow> ml_started s \<or> ml_starting s \<Longrightarrow> P (on_play k s)"
    and pause: "P s \<Longrightarrow> P (ml_drop (h_volume s) s)"
    and stop: "P s \<Longrightarrow> P (ml_stop s)"
    and volume: "P s \<Longrightarrow> a \<in> set (lm_dom (ml_reg s)) \<Longrightarrow> snd (fst (snd (snd a))) = OnVolume \<Longrightarrow> P (s\<lparr>ml_volumes := n\<rparr>)"
    and kills: "P s \<Longrightarrow> P (s\<lparr>ml_kills := n\<rparr>)"
    and activate: "P s \<Longrightarrow> P (s\<lparr>ml_active := b\<rparr>)"
    and start: "P s \<Longrightarrow> \<not> ml_started s \<Longrightarrow> \<not> ml_starting s \<Longrightarrow> P (ml_opened (ml_open new el s)) \<and> P (ml_open new el s) \<and> P (ml_opened (ml_begin new el s))"
    and ready: "P s \<Longrightarrow> janus \<or> \<not> ml_started s \<Longrightarrow> P (ml_opened s)"
    and playing: "P s \<Longrightarrow> a \<in> set (lm_dom (ml_reg s)) \<Longrightarrow> snd (fst (snd (snd a))) = OnPlay k \<Longrightarrow> ml_started s \<or> ml_starting s"
begin

lemma listener: "P s \<Longrightarrow> a \<in> set (lm_dom (ml_reg s)) \<Longrightarrow> P (run_listener ok a s)"
  using playing by (auto simp: run_listener_def play pause stop kills intro: volume split: ml_fn.splits)

lemma fire: "P s \<Longrightarrow> P (ml_fire ok el ty s)"
proof -
  have "P s \<Longrightarrow> P (fold (\<lambda>a s. if a \<in> set (lm_dom (ml_reg s)) then run_listener ok a s else s) as s)" for "as" s
    by (induction "as" arbitrary: s) (auto simp: listener)
  then show "P s \<Longrightarrow> P (ml_fire ok el ty s)" by (simp add: ml_fire_def)
qed

lemma exec: "P s \<Longrightarrow> janus \<or> ev \<noteq> JanusReady \<or> \<not> ml_started s \<Longrightarrow> P (ml_exec ev s)"
  using start ready by (cases ev) (auto simp: ml_exec_def fire stop activate)

lemma run: "P s \<Longrightarrow> janus \<or> janus_timely evs s \<Longrightarrow> P (fold ml_exec evs s)"
  by (induction evs arbitrary: s) (auto simp: exec)

end

text \<open>
  Every registered function is under its own entry; with \<open>b\<close> that includes the one for the page's end. While the
  stream is stopped there is none.
\<close>

fun entry_holds :: "bool \<Rightarrow> mlisten \<Rightarrow> string \<Rightarrow> ml_fn \<Rightarrow> bool" where
  "entry_holds b s i (OnPlay k) = (h_play s = Some i)"
| "entry_holds b s i (OnTracks k) = (h_tracks s = Some i)"
| "entry_holds b s i (OnPause k) = (h_pause s = Some i)"
| "entry_holds b s i (OnError k) = (h_error s = Some i)"
| "entry_holds b s i OnVolume = (h_volume s = Some i)"
| "entry_holds b s i OnUnload = (b \<longrightarrow> h_kill s = Some i)"

definition fn_of :: "string \<times> ml_attach \<Rightarrow> ml_fn" where
  "fn_of p = snd (fst (snd (snd (snd p))))"

definition stamp_of :: "string \<times> ml_attach \<Rightarrow> nat" where
  "stamp_of p = fst (fst (snd (snd (snd p))))"

fun event_name :: "ml_fn \<Rightarrow> string" where
  "event_name (OnPlay k) = ''play''"
| "event_name (OnTracks k) = ''zm:tracksReceived''"
| "event_name (OnPause k) = ''pause''"
| "event_name (OnError k) = ''error''"
| "event_name OnVolume = ''volumechange''"
| "event_name OnUnload = ''beforeunload''"

definition ml_inv :: "bool \<Rightarrow> mlisten \<Rightarrow> bool" where
  "ml_inv b s \<longleftrightarrow> lm_inv (ml_reg s)
     \<and> (\<forall>p \<in> set (lm_ids (ml_reg s)). stamp_of p < ml_stamp s \<and> fst (snd (snd p)) = event_name (fn_of p)
          \<and> entry_holds b s (fst p) (fn_of p)
          \<and> (ml_started s \<or> (if fn_of p = OnUnload then \<not> b else ml_starting s)))
     \<and> (\<forall>i. h_volume s = Some i \<longrightarrow> (\<exists>n < lm_idx (ml_reg s). i = nat_to_str n))"

text \<open>Additions and removals in the terms of the entries.\<close>

lemma ml_add_eq:
  assumes "lm_inv (ml_reg s)" "\<forall>p \<in> set (lm_ids (ml_reg s)). stamp_of p < ml_stamp s"
  obtains r where "ml_add el ty fn rep s = (Some (nat_to_str (lm_idx (ml_reg s))), s\<lparr>ml_reg := r, ml_stamp := ml_stamp s + 1\<rparr>)"
    "lm_inv r" "lm_idx r = lm_idx (ml_reg s) + 1"
    "lm_ids r = filter (\<lambda>p. Some (fst p) \<noteq> rep) (lm_ids (ml_reg s)) @ [(nat_to_str (lm_idx (ml_reg s)), (el, ty, (ml_stamp s, fn), False))]"
proof -
  let ?a = "(el, ty, (ml_stamp s, fn), False)"
  have "?a \<notin> set (lm_dom (ml_reg s))"
  proof
    assume "?a \<in> set (lm_dom (ml_reg s))"
    then obtain p where "p \<in> set (lm_ids (ml_reg s))" "snd p = ?a" using assms(1) by (auto simp: lm_inv_def)
    then show False using assms(2) by (auto simp: stamp_of_def)
  qed
  note eq = lm_add_eq[OF assms(1) this, of rep] and inv = lm_add_inv[OF assms(1) this, of rep]
  have "lm_ids (lm_replaced rep (ml_reg s)) = filter (\<lambda>p. Some (fst p) \<noteq> rep) (lm_ids (ml_reg s))"
    by (cases rep) (simp_all add: lm_replaced_def lm_remove_parts)
  then show ?thesis using inv
    by (intro that[of "snd (lm_add ?a rep (ml_reg s))"]) (simp_all add: ml_add_def eq)
qed

lemma ml_drop_parts:
  "ml_drop h s = s\<lparr>ml_reg := ml_reg (ml_drop h s)\<rparr>"
  "lm_ids (ml_reg (ml_drop h s)) = filter (\<lambda>p. Some (fst p) \<noteq> h) (lm_ids (ml_reg s))"
  "lm_idx (ml_reg (ml_drop h s)) = lm_idx (ml_reg s)"
  "lm_inv (ml_reg s) \<Longrightarrow> lm_inv (ml_reg (ml_drop h s))"
  using lm_remove_inv[of "ml_reg s"]
  by (cases h; auto simp: ml_drop_def ml_remove_def lm_remove_parts case_prod_beta Let_def)+

lemma ml_remove_eq: "ml_remove h s = (if \<exists>i. h = Some i \<and> map_of (lm_ids (ml_reg s)) i \<noteq> None then h else None, ml_drop h s)"
  by (cases h) (auto simp: ml_remove_def ml_drop_def lm_remove_def case_prod_beta Let_def split: option.splits)

lemma ml_drop_fields [simp]:
  "h_tracks (ml_drop h s) = h_tracks s" "h_kill (ml_drop h s) = h_kill s" "h_play (ml_drop h s) = h_play s"
  "h_volume (ml_drop h s) = h_volume s" "h_pause (ml_drop h s) = h_pause s" "h_error (ml_drop h s) = h_error s"
  "ml_session (ml_drop h s) = ml_session s" "ml_active (ml_drop h s) = ml_active s" "ml_started (ml_drop h s) = ml_started s"
  "ml_starting (ml_drop h s) = ml_starting s" "ml_stamp (ml_drop h s) = ml_stamp s" "ml_volumes (ml_drop h s) = ml_volumes s"
  by (subst ml_drop_parts(1); simp)+

lemma ml_stop_parts:
  "lm_ids (ml_reg (ml_stop s)) =
     filter (\<lambda>p. Some (fst p) \<notin> {h_tracks s, h_kill s, h_play s, h_volume s, h_pause s, h_error s}) (lm_ids (ml_reg s))"
  "lm_idx (ml_reg (ml_stop s)) = lm_idx (ml_reg s)" "lm_inv (ml_reg s) \<Longrightarrow> lm_inv (ml_reg (ml_stop s))"
  "ml_started (ml_stop s) = False" "ml_starting (ml_stop s) = False" "ml_stamp (ml_stop s) = ml_stamp s"
  "ml_volumes (ml_stop s) = ml_volumes s" "h_kill (ml_stop s) = h_kill s"
  "h_volume (ml_stop s) = h_volume s \<or> h_volume (ml_stop s) = None"
  "h_volume s = Some i \<Longrightarrow> map_of (lm_ids (ml_reg s)) i = None \<Longrightarrow> h_volume (ml_stop s) = Some i"
  by (auto simp: ml_stop_def ml_remove_eq Let_def ml_drop_parts(2-4) map_of_eq_None_iff intro!: filter_cong)

lemma ml_stop_inv: "ml_inv b s \<Longrightarrow> ml_inv b (ml_stop s)"
proof -
  assume s: "ml_inv b s"
  have un: "fn_of p = OnUnload \<and> \<not> b" if "p \<in> set (lm_ids (ml_reg (ml_stop s)))" for p
  proof -
    have p: "p \<in> set (lm_ids (ml_reg s))" "Some (fst p) \<notin> {h_tracks s, h_kill s, h_play s, h_volume s, h_pause s, h_error s}"
      using that by (simp_all add: ml_stop_parts(1))
    have "entry_holds b s (fst p) (fn_of p)" using s p(1) by (simp add: ml_inv_def)
    then show ?thesis using p(2) by (cases "fn_of p") auto
  qed
  have st: "stamp_of p < ml_stamp s \<and> fst (snd (snd p)) = event_name (fn_of p)" if "p \<in> set (lm_ids (ml_reg (ml_stop s)))" for p
    using that s by (simp add: ml_stop_parts(1) ml_inv_def)
  have vol: "\<exists>n < lm_idx (ml_reg s). i = nat_to_str n" if i: "h_volume (ml_stop s) = Some i" for i
  proof -
    have "h_volume s = Some i" using i ml_stop_parts(9)[of s] by auto
    then show ?thesis using s unfolding ml_inv_def by blast
  qed
  have "lm_inv (ml_reg (ml_stop s))" using s ml_stop_parts(3) by (simp add: ml_inv_def)
  moreover have "stamp_of p < ml_stamp (ml_stop s) \<and> fst (snd (snd p)) = event_name (fn_of p) \<and> entry_holds b (ml_stop s) (fst p) (fn_of p)
      \<and> (ml_started (ml_stop s) \<or> (if fn_of p = OnUnload then \<not> b else ml_starting (ml_stop s)))"
    if "p \<in> set (lm_ids (ml_reg (ml_stop s)))" for p
    using un[OF that] st[OF that] by (simp add: ml_stop_parts(6))
  ultimately show ?thesis unfolding ml_inv_def using vol by (simp add: ml_stop_parts(2))
qed

lemma ml_drop_volume_inv: "ml_inv b s \<Longrightarrow> ml_inv b (ml_drop (h_volume s) s)"
proof -
  assume s: "ml_inv b s"
  let ?t = "ml_drop (h_volume s) s"
  have "entry_holds b ?t i fn = entry_holds b s i fn" for i fn by (cases fn) simp_all
  moreover have "set (lm_ids (ml_reg ?t)) \<subseteq> set (lm_ids (ml_reg s))" by (auto simp: ml_drop_parts(2))
  moreover have "lm_inv (ml_reg ?t)" using s by (simp add: ml_inv_def ml_drop_parts(4))
  ultimately show ?thesis using s unfolding ml_inv_def ml_drop_fields ml_drop_parts(3) by blast
qed

text \<open>An addition whose id goes to the entry of its function, while no other function of that kind stays.\<close>

fun fn_kind :: "ml_fn \<Rightarrow> nat" where
  "fn_kind (OnPlay k) = 0"
| "fn_kind (OnTracks k) = 1"
| "fn_kind (OnPause k) = 2"
| "fn_kind (OnError k) = 3"
| "fn_kind OnVolume = 4"
| "fn_kind OnUnload = 5"

fun set_entry :: "ml_fn \<Rightarrow> string option \<Rightarrow> mlisten \<Rightarrow> mlisten" where
  "set_entry (OnPlay k) i s = s\<lparr>h_play := i\<rparr>"
| "set_entry (OnTracks k) i s = s\<lparr>h_tracks := i\<rparr>"
| "set_entry (OnPause k) i s = s\<lparr>h_pause := i\<rparr>"
| "set_entry (OnError k) i s = s\<lparr>h_error := i\<rparr>"
| "set_entry OnVolume i s = s\<lparr>h_volume := i\<rparr>"
| "set_entry OnUnload i s = s\<lparr>h_kill := i\<rparr>"

lemma fn_kind5: "fn_kind fn = 5 \<Longrightarrow> fn = OnUnload"
  by (cases fn) simp_all

definition attach_as :: "ml_target \<Rightarrow> string \<Rightarrow> ml_fn \<Rightarrow> string option \<Rightarrow> mlisten \<Rightarrow> mlisten" where
  "attach_as el ty fn rep s = (let (i, s1) = ml_add el ty fn rep s in set_entry fn i s1)"

lemma entry_holds_set: "entry_holds b (set_entry fn i s) j fn' =
    (if fn_kind fn = fn_kind fn' then (fn' = OnUnload \<and> \<not> b) \<or> i = Some j else entry_holds b s j fn')"
  by (cases fn; cases fn'; simp)

lemma entry_holds_reg [simp]: "entry_holds b (s\<lparr>ml_reg := r, ml_stamp := n\<rparr>) i fn = entry_holds b s i fn"
  by (cases fn) simp_all

lemma set_entry_fields [simp]:
  "ml_reg (set_entry fn i s) = ml_reg s" "ml_stamp (set_entry fn i s) = ml_stamp s" "ml_started (set_entry fn i s) = ml_started s"
  "ml_starting (set_entry fn i s) = ml_starting s" "ml_volumes (set_entry fn i s) = ml_volumes s"
  "h_volume (set_entry fn i s) = (if fn_kind fn = 4 then i else h_volume s)"
  by (cases fn; simp)+

lemma attach_as_inv:
  assumes s: "ml_inv b s" "ml_started s \<or> (if fn = OnUnload then \<not> b else ml_starting s)" and ty: "ty = event_name fn"
    and sole: "\<And>p. p \<in> set (lm_ids (ml_reg s)) \<Longrightarrow> Some (fst p) \<noteq> rep \<Longrightarrow> fn_kind (fn_of p) = fn_kind fn \<Longrightarrow> fn_of p = OnUnload \<and> \<not> b"
  shows "ml_inv b (attach_as el ty fn rep s)"
    and "lm_ids (ml_reg (attach_as el ty fn rep s)) = filter (\<lambda>p. Some (fst p) \<noteq> rep) (lm_ids (ml_reg s))
        @ [(nat_to_str (lm_idx (ml_reg s)), (el, ty, (ml_stamp s, fn), False))]"
    and "\<exists>r. attach_as el ty fn rep s = set_entry fn (Some (nat_to_str (lm_idx (ml_reg s)))) (s\<lparr>ml_reg := r, ml_stamp := ml_stamp s + 1\<rparr>)"
    and "lm_idx (ml_reg (attach_as el ty fn rep s)) = lm_idx (ml_reg s) + 1"
proof -
  have inv: "lm_inv (ml_reg s)" "\<forall>p \<in> set (lm_ids (ml_reg s)). stamp_of p < ml_stamp s" using s(1) by (simp_all add: ml_inv_def)
  let ?i = "nat_to_str (lm_idx (ml_reg s))" and ?new = "(nat_to_str (lm_idx (ml_reg s)), (el, ty, (ml_stamp s, fn), False))"
  obtain r where r: "ml_add el ty fn rep s = (Some ?i, s\<lparr>ml_reg := r, ml_stamp := ml_stamp s + 1\<rparr>)"
    "lm_inv r" "lm_idx r = lm_idx (ml_reg s) + 1" "lm_ids r = filter (\<lambda>p. Some (fst p) \<noteq> rep) (lm_ids (ml_reg s)) @ [?new]"
    by (rule ml_add_eq[OF inv])
  have t: "attach_as el ty fn rep s = set_entry fn (Some ?i) (s\<lparr>ml_reg := r, ml_stamp := ml_stamp s + 1\<rparr>)"
    by (simp add: attach_as_def r(1))
  then show "\<exists>r. attach_as el ty fn rep s = set_entry fn (Some ?i) (s\<lparr>ml_reg := r, ml_stamp := ml_stamp s + 1\<rparr>)" by blast
  show "lm_ids (ml_reg (attach_as el ty fn rep s)) = filter (\<lambda>p. Some (fst p) \<noteq> rep) (lm_ids (ml_reg s)) @ [?new]"
    using r(4) by (simp add: t)
  show "lm_idx (ml_reg (attach_as el ty fn rep s)) = lm_idx (ml_reg s) + 1" using r(3) by (simp add: t)
  have "stamp_of p < ml_stamp s + 1 \<and> fst (snd (snd p)) = event_name (fn_of p)
      \<and> entry_holds b (attach_as el ty fn rep s) (fst p) (fn_of p)
      \<and> (ml_started s \<or> (if fn_of p = OnUnload then \<not> b else ml_starting s))" if "p \<in> set (lm_ids r)" for p
  proof (cases "p = ?new")
    case True
    have "entry_holds b (attach_as el ty fn rep s) (fst p) fn" by (simp add: True t entry_holds_set)
    then show ?thesis using True s(2) ty by (auto simp: stamp_of_def fn_of_def)
  next
    case False
    then have p: "p \<in> set (lm_ids (ml_reg s))" "Some (fst p) \<noteq> rep" using that r(4) by auto
    then have "stamp_of p < ml_stamp s" "fst (snd (snd p)) = event_name (fn_of p)" "entry_holds b s (fst p) (fn_of p)"
      "ml_started s \<or> (if fn_of p = OnUnload then \<not> b else ml_starting s)"
      using s(1) unfolding ml_inv_def by blast+
    then show ?thesis using sole[OF p] by (auto simp: t entry_holds_set)
  qed
  moreover have "\<exists>n < lm_idx r. j = nat_to_str n" if j: "h_volume (attach_as el ty fn rep s) = Some j" for j
  proof (cases "fn_kind fn = 4")
    case True
    then show ?thesis using j r(3) by (auto simp: t)
  next
    case False
    then have "h_volume s = Some j" using j by (simp add: t)
    then obtain n where "n < lm_idx (ml_reg s)" "j = nat_to_str n" using s(1) unfolding ml_inv_def by blast
    then show ?thesis using r(3) by (intro exI[of _ n]) simp
  qed
  moreover have eqs: "ml_reg (attach_as el ty fn rep s) = r" "ml_stamp (attach_as el ty fn rep s) = ml_stamp s + 1"
    "ml_started (attach_as el ty fn rep s) = ml_started s" "ml_starting (attach_as el ty fn rep s) = ml_starting s"
    by (simp_all add: t)
  ultimately show "ml_inv b (attach_as el ty fn rep s)" unfolding ml_inv_def eqs using r(2) by blast
qed

text \<open>The operations in these terms.\<close>

lemma on_play_eq: "on_play k s = (let s1 = createVolumeSlider s; s2 = attach_as (Elem (ml_el s1)) ''zm:tracksReceived'' (OnTracks k) (h_tracks s1) s1
    in s2\<lparr>ml_lookups := ml_lookups s2 + 1\<rparr>)"
  by (simp add: on_play_def attach_as_def Let_def case_prod_beta)

lemma createVolumeSlider_eq: "createVolumeSlider s =
    (if \<not> ml_slider s \<or> h_volume s \<noteq> None then s else attach_as (Elem (ml_el s)) ''volumechange'' OnVolume None s)"
  by (simp add: createVolumeSlider_def attach_as_def Let_def case_prod_beta)

lemma streamListener_eq: "streamListener s = attach_as Window ''beforeunload'' OnUnload None s"
  by (simp add: streamListener_def attach_as_def Let_def case_prod_beta)

lemma handlerEventListenerStream_eq: "handlerEventListenerStream s =
    (let k = ml_session s; e = Elem (ml_el s)
     in attach_as e ''error'' (OnError k) None (attach_as e ''pause'' (OnPause k) None (attach_as e ''play'' (OnPlay k) (h_play s) s)))"
  by (simp add: handlerEventListenerStream_def attach_as_def Let_def case_prod_beta)

lemma ml_inv_lookups [simp]: "ml_inv b (s\<lparr>ml_lookups := n\<rparr>) = ml_inv b s"
proof -
  have "entry_holds b (s\<lparr>ml_lookups := n\<rparr>) i fn = entry_holds b s i fn" for i fn by (cases fn) simp_all
  then show ?thesis by (simp add: ml_inv_def)
qed

text \<open>The only function of a kind is the one its entry names.\<close>

lemma ml_inv_entry:
  assumes "ml_inv b s" "p \<in> set (lm_ids (ml_reg s))"
  shows "fn_kind (fn_of p) = 0 \<Longrightarrow> h_play s = Some (fst p)" "fn_kind (fn_of p) = 1 \<Longrightarrow> h_tracks s = Some (fst p)"
    "fn_kind (fn_of p) = 4 \<Longrightarrow> h_volume s = Some (fst p)"
    "\<not> ml_started s \<Longrightarrow> \<not> ml_starting s \<Longrightarrow> fn_of p = OnUnload \<and> \<not> b"
proof -
  have "entry_holds b s (fst p) (fn_of p)" "ml_started s \<or> (if fn_of p = OnUnload then \<not> b else ml_starting s)"
    using assms unfolding ml_inv_def by blast+
  then show "fn_kind (fn_of p) = 0 \<Longrightarrow> h_play s = Some (fst p)" "fn_kind (fn_of p) = 1 \<Longrightarrow> h_tracks s = Some (fst p)"
    "fn_kind (fn_of p) = 4 \<Longrightarrow> h_volume s = Some (fst p)"
    "\<not> ml_started s \<Longrightarrow> \<not> ml_starting s \<Longrightarrow> fn_of p = OnUnload \<and> \<not> b"
    by (cases "fn_of p"; simp split: if_splits)+
qed

lemma createVolumeSlider_inv:
  assumes "ml_inv b s" "ml_started s \<or> ml_starting s"
  shows "ml_inv b (createVolumeSlider s) \<and> (ml_started (createVolumeSlider s) \<or> ml_starting (createVolumeSlider s))"
proof (cases "\<not> ml_slider s \<or> h_volume s \<noteq> None")
  case False
  note a = attach_as_inv[where b = b and s = s and fn = OnVolume and ty = "''volumechange''" and rep = None
      and el = "Elem (ml_el s)", simplified, OF assms]
  have sole: "fn_of p = OnUnload \<and> \<not> b" if "p \<in> set (lm_ids (ml_reg s))" "fn_kind (fn_of p) = fn_kind OnVolume" for p
    using ml_inv_entry(3)[OF assms(1) that(1)] that(2) False by simp
  then show ?thesis using a(1,3) False assms(2) by (auto simp: createVolumeSlider_eq)
qed (use assms in \<open>simp add: createVolumeSlider_eq\<close>)

lemma on_play_inv:
  assumes "ml_inv b s" "ml_started s \<or> ml_starting s"
  shows "ml_inv b (on_play k s)"
proof -
  have i: "ml_inv b (createVolumeSlider s)" "ml_started (createVolumeSlider s) \<or> ml_starting (createVolumeSlider s)"
    using createVolumeSlider_inv[OF assms] by simp_all
  then show ?thesis using ml_inv_entry(2)[OF i(1)] by (auto simp: on_play_eq Let_def intro!: attach_as_inv(1))
qed

definition fns_in :: "ml_fn set \<Rightarrow> mlisten \<Rightarrow> bool" where
  "fns_in F s \<longleftrightarrow> (\<forall>p \<in> set (lm_ids (ml_reg s)). fn_of p \<in> F)"

lemma attach_as_step:
  assumes s: "ml_inv b s" "ml_started s \<or> ml_starting s \<and> fn \<noteq> OnUnload" and F: "fns_in F s" and ty: "ty = event_name fn"
    and sole: "\<forall>f \<in> F. fn_kind f = fn_kind fn \<longrightarrow> f = OnUnload \<and> \<not> b"
  shows "ml_inv b (attach_as el ty fn rep s) \<and> (ml_started (attach_as el ty fn rep s) \<or> ml_starting (attach_as el ty fn rep s))
    \<and> fns_in (insert fn F) (attach_as el ty fn rep s)"
proof -
  have sole': "fn_of p = OnUnload \<and> \<not> b"
    if "p \<in> set (lm_ids (ml_reg s))" "Some (fst p) \<noteq> rep" "fn_kind (fn_of p) = fn_kind fn" for p
    using that F sole unfolding fns_in_def by blast
  have s2: "ml_started s \<or> (if fn = OnUnload then \<not> b else ml_starting s)" using s(2) by auto
  note s' = s(1) s2
  have inv: "ml_inv b (attach_as el ty fn rep s)" by (rule attach_as_inv(1)[OF s' ty sole'])
  have ids: "lm_ids (ml_reg (attach_as el ty fn rep s)) = filter (\<lambda>p. Some (fst p) \<noteq> rep) (lm_ids (ml_reg s))
        @ [(nat_to_str (lm_idx (ml_reg s)), (el, ty, (ml_stamp s, fn), False))]"
    by (rule attach_as_inv(2)[OF s' ty sole'])
  obtain r where r: "attach_as el ty fn rep s = set_entry fn (Some (nat_to_str (lm_idx (ml_reg s)))) (s\<lparr>ml_reg := r, ml_stamp := ml_stamp s + 1\<rparr>)"
    using attach_as_inv(3)[OF s' ty sole'] by blast
  have "ml_started (attach_as el ty fn rep s) \<or> ml_starting (attach_as el ty fn rep s)" using s(2) by (auto simp: r)
  moreover have "fns_in (insert fn F) (attach_as el ty fn rep s)"
    using F unfolding fns_in_def ids by (auto simp: fn_of_def)
  ultimately show ?thesis using inv by blast
qed

lemma listeners_start_inv:
  assumes "ml_inv b s" "\<not> ml_started s" "\<not> ml_starting s"
  shows "ml_inv b (ml_opened (ml_open new el s)) \<and> ml_inv b (ml_open new el s) \<and> ml_inv b (ml_opened (ml_begin new el s))"
proof -
  let ?s = "ml_begin new el s" and ?k = "ml_session (ml_begin new el s)" and ?e = "Elem el"
  let ?F = "{f. f = OnUnload \<and> \<not> b}"
  have idle: "fns_in ?F ?s" using ml_inv_entry(4)[OF assms(1)] assms(2,3) by (simp add: fns_in_def ml_begin_def)
  have "entry_holds b ?s i fn = entry_holds b s i fn" for i fn by (cases fn) (simp_all add: ml_begin_def)
  moreover have "ml_reg ?s = ml_reg s" "ml_stamp ?s = ml_stamp s" "h_volume ?s = h_volume s" "ml_starting ?s" "ml_started ?s = ml_started s"
    by (simp_all add: ml_begin_def)
  ultimately have inv: "ml_inv b ?s" "ml_started ?s \<or> ml_starting ?s"
    using assms(1) unfolding ml_inv_def by (auto split: if_splits)
  define s1 where "s1 = attach_as ?e ''play'' (OnPlay ?k) (h_play s) ?s"
  define s2 where "s2 = attach_as ?e ''pause'' (OnPause ?k) None s1"
  define s3 where "s3 = attach_as ?e ''error'' (OnError ?k) None s2"
  have i1: "ml_inv b s1" "ml_started s1 \<or> ml_starting s1" "fns_in (insert (OnPlay ?k) ?F) s1"
    using attach_as_step[OF inv(1) _ idle, where fn = "OnPlay ?k" and ty = "''play''" and el = ?e and rep = "h_play s"] inv(2) unfolding s1_def by auto
  have i2: "ml_inv b s2" "ml_started s2 \<or> ml_starting s2" "fns_in (insert (OnPause ?k) (insert (OnPlay ?k) ?F)) s2"
    using attach_as_step[OF i1(1) _ i1(3), where fn = "OnPause ?k" and ty = "''pause''" and el = ?e and rep = None] i1(2) unfolding s2_def by auto
  have i3: "ml_inv b s3" "ml_started s3 \<or> ml_starting s3"
    "fns_in (insert (OnError ?k) (insert (OnPause ?k) (insert (OnPlay ?k) ?F))) s3"
    using attach_as_step[OF i2(1) _ i2(3), where fn = "OnError ?k" and ty = "''error''" and el = ?e and rep = None] i2(2) unfolding s3_def by auto
  have open3: "ml_open new el s = s3"
    by (simp add: ml_open_def handlerEventListenerStream_eq s1_def s2_def s3_def Let_def) (simp add: ml_begin_def)
  let ?t = "s3\<lparr>ml_started := True\<rparr>"
  have "entry_holds b ?t i fn = entry_holds b s3 i fn" for i fn by (cases fn) simp_all
  then have t: "ml_inv b ?t" "ml_started ?t"
    "fns_in (insert (OnError ?k) (insert (OnPause ?k) (insert (OnPlay ?k) ?F))) ?t"
    using i3 by (simp_all add: ml_inv_def fns_in_def)
  have "ml_inv b (attach_as Window ''beforeunload'' OnUnload None ?t)"
    using attach_as_step[OF t(1) disjI1[OF t(2)] t(3), where fn = OnUnload and ty = "''beforeunload''" and el = Window and rep = None] by auto
  moreover have "ml_inv b (ml_opened ?s)"
  proof -
    let ?z = "?s\<lparr>ml_started := True\<rparr>"
    have "entry_holds b ?z i fn = entry_holds b ?s i fn" for i fn by (cases fn) simp_all
    then have z: "ml_inv b ?z" "ml_started ?z" "fns_in ?F ?z"
      using inv idle by (simp_all add: ml_inv_def fns_in_def)
    then show ?thesis
      using attach_as_step[OF z(1) disjI1[OF z(2)] z(3), where fn = OnUnload and ty = "''beforeunload''" and el = Window and rep = None] unfolding ml_opened_def streamListener_eq by auto
  qed
  ultimately show ?thesis using i3(1) unfolding open3 ml_opened_def streamListener_eq by blast
qed

text \<open>Unless functions for the page's end may stay, none is there before the stream has started.\<close>

lemma ready_inv:
  assumes "ml_inv b s" "\<not> b \<or> \<not> ml_started s"
  shows "ml_inv b (ml_opened s)"
proof -
  let ?t = "s\<lparr>ml_started := True\<rparr>"
  have "entry_holds b ?t i fn = entry_holds b s i fn" for i fn by (cases fn) simp_all
  then have "ml_inv b ?t" using assms(1) by (simp add: ml_inv_def)
  moreover have "fn_of p = OnUnload \<and> \<not> b" if "p \<in> set (lm_ids (ml_reg s))" "fn_kind (fn_of p) = 5" for p
    using assms fn_kind5 [OF that(2)] that(1) by (auto simp: ml_inv_def)
  ultimately have "ml_inv b (attach_as Window ''beforeunload'' OnUnload None ?t)"
    by (intro attach_as_inv(1)) auto
  then show ?thesis by (simp add: ml_opened_def streamListener_eq)
qed

lemma ml_inv_frame:
  "ml_inv b (s\<lparr>ml_volumes := n\<rparr>) = ml_inv b s" "ml_inv b (s\<lparr>ml_kills := n\<rparr>) = ml_inv b s"
  "ml_inv b (s\<lparr>ml_active := c\<rparr>) = ml_inv b s"
proof -
  have "entry_holds b (s\<lparr>ml_volumes := n\<rparr>) i fn = entry_holds b s i fn" "entry_holds b (s\<lparr>ml_kills := n\<rparr>) i fn = entry_holds b s i fn"
    "entry_holds b (s\<lparr>ml_active := c\<rparr>) i fn = entry_holds b s i fn" for i fn by (cases fn; simp)+
  then show "ml_inv b (s\<lparr>ml_volumes := n\<rparr>) = ml_inv b s" "ml_inv b (s\<lparr>ml_kills := n\<rparr>) = ml_inv b s"
    "ml_inv b (s\<lparr>ml_active := c\<rparr>) = ml_inv b s" by (simp_all add: ml_inv_def)
qed

text \<open>The registered functions are those the browser calls.\<close>

lemma ml_attached:
  assumes "ml_inv b s" "a \<in> set (lm_dom (ml_reg s))"
  obtains p where "p \<in> set (lm_ids (ml_reg s))" "snd (fst (snd (snd a))) = fn_of p"
proof -
  have "a \<in> snd ` set (lm_ids (ml_reg s))" using assms by (simp add: ml_inv_def lm_inv_def)
  then show ?thesis using that by (auto simp: fn_of_def)
qed

lemma ml_inv_playing:
  "ml_inv b s \<Longrightarrow> a \<in> set (lm_dom (ml_reg s)) \<Longrightarrow> snd (fst (snd (snd a))) = OnPlay k \<Longrightarrow> ml_started s \<or> ml_starting s"
  using ml_attached[of b s a] ml_inv_entry(4)[of b s] by (metis ml_fn.distinct(9))

interpretation tidy: stream_invariant "ml_inv True" False
  by unfold_locales (simp_all add: on_play_inv ml_drop_volume_inv ml_stop_inv ml_inv_frame listeners_start_inv ready_inv ml_inv_playing)

interpretation loose: stream_invariant "ml_inv False" True
  by unfold_locales (simp_all add: on_play_inv ml_drop_volume_inv ml_stop_inv ml_inv_frame listeners_start_inv ready_inv ml_inv_playing)

lemma ml_init_inv: "ml_inv b (ml_init slider)"
  by (simp add: ml_inv_def ml_init_def lm_inv_def lm_empty_def)

lemma ml_run_inv: "ml_inv False (ml_run slider evs)" "janus_timely evs (ml_init slider) \<Longrightarrow> ml_inv True (ml_run slider evs)"
  unfolding ml_run_def by (rule loose.run tidy.run; simp add: ml_init_inv)+

section \<open>The volume listener after a pause\<close>

text \<open>
  The entry of the volume names an id that is not registered any more: nothing will attach the
  listener again. \<open>v\<close> counts the volume changes that were handled before.
\<close>

definition silent :: "nat \<Rightarrow> string \<Rightarrow> mlisten \<Rightarrow> bool" where
  "silent v i s \<longleftrightarrow> ml_inv False s \<and> h_volume s = Some i \<and> map_of (lm_ids (ml_reg s)) i = None \<and> ml_volumes s = v"

lemma lm_privateAdd_other: "j \<noteq> i \<Longrightarrow> map_of (lm_ids r) i = None \<Longrightarrow> map_of (lm_ids (snd (privateAdd j a rep r))) i = None"
  by (auto simp: privateAdd_def Let_def map_add_def lm_held_remove split: option.splits)

text \<open>No addition takes an id that has been given out.\<close>

definition given :: "string \<Rightarrow> mlisten \<Rightarrow> bool" where
  "given i s \<longleftrightarrow> (\<exists>n < lm_idx (ml_reg s). i = nat_to_str n) \<and> map_of (lm_ids (ml_reg s)) i = None"

lemma attach_as_eq: "attach_as el ty fn rep s =
    (let p = privateAdd (nat_to_str (lm_idx (ml_reg s))) (el, ty, (ml_stamp s, fn), False) rep ((ml_reg s)\<lparr>lm_idx := lm_idx (ml_reg s) + 1\<rparr>)
     in set_entry fn (if fst p then Some (nat_to_str (lm_idx (ml_reg s))) else None) (s\<lparr>ml_reg := snd p, ml_stamp := ml_stamp s + 1\<rparr>))"
  by (simp add: attach_as_def ml_add_def lm_add_def case_prod_beta Let_def)

lemma attach_as_frame [simp]:
  "ml_volumes (attach_as el ty fn rep s) = ml_volumes s"
  "fn_kind fn \<noteq> 4 \<Longrightarrow> h_volume (attach_as el ty fn rep s) = h_volume s"
  by (simp_all add: attach_as_eq Let_def)

lemma attach_as_given [simp]: "given i s \<Longrightarrow> given i (attach_as el ty fn rep s)"
proof -
  assume "given i s"
  let ?j = "nat_to_str (lm_idx (ml_reg s))"
  let ?p = "privateAdd ?j (el, ty, (ml_stamp s, fn), False) rep ((ml_reg s)\<lparr>lm_idx := lm_idx (ml_reg s) + 1\<rparr>)"
  obtain n where n: "n < lm_idx (ml_reg s)" "i = nat_to_str n" "map_of (lm_ids (ml_reg s)) i = None"
    using \<open>given i s\<close> by (auto simp: given_def)
  have "?j \<noteq> i" using n by (simp add: nat_to_str_inj)
  then have "map_of (lm_ids (snd ?p)) i = None" using n(3) by (intro lm_privateAdd_other) simp_all
  moreover have "lm_idx (snd ?p) = lm_idx (ml_reg s) + 1"
    by (auto simp: privateAdd_def Let_def lm_remove_parts split: option.splits)
  ultimately show "given i (attach_as el ty fn rep s)"
    using n(1,2) by (auto simp: given_def attach_as_eq Let_def less_SucI intro!: exI[of _ n])
qed

lemma given_frame [simp]: "given i (s\<lparr>ml_lookups := k\<rparr>) = given i s"
  by (simp add: given_def)

lemma silent_given: "silent v i s \<longleftrightarrow> ml_inv False s \<and> given i s \<and> h_volume s = Some i \<and> ml_volumes s = v"
  by (auto simp: silent_def given_def ml_inv_def)

lemma silent_begin:
  "given i s \<Longrightarrow> given i (ml_begin new el s) \<and> ml_volumes (ml_begin new el s) = ml_volumes s \<and> h_volume (ml_begin new el s) = h_volume s"
  by (simp add: given_def ml_begin_def)

lemma silent_open:
  "given i s \<Longrightarrow> given i (ml_open new el s) \<and> ml_volumes (ml_open new el s) = ml_volumes s \<and> h_volume (ml_open new el s) = h_volume s"
  using silent_begin[of i s new el] by (simp add: ml_open_def handlerEventListenerStream_eq Let_def)

lemma silent_opened: "given i s \<Longrightarrow> given i (ml_opened s) \<and> ml_volumes (ml_opened s) = ml_volumes s \<and> h_volume (ml_opened s) = h_volume s"
proof -
  assume "given i s"
  then have "given i (s\<lparr>ml_started := True\<rparr>)" by (simp add: given_def)
  then show ?thesis by (simp add: ml_opened_def streamListener_eq)
qed

lemma silent_play: "silent v i s \<Longrightarrow> ml_started s \<or> ml_starting s \<Longrightarrow> silent v i (on_play k s)"
  using on_play_inv[of False s k] by (simp add: silent_given) (simp add: on_play_eq createVolumeSlider_eq Let_def)

lemma silent_stop: "silent v i s \<Longrightarrow> silent v i (ml_stop s)"
  by (simp add: silent_def ml_stop_inv ml_stop_parts(1,7,10) map_of_eq_None_iff image_iff)

lemma silent_drop: "silent v i s \<Longrightarrow> silent v i (ml_drop (h_volume s) s)"
  using ml_drop_volume_inv[of False s] by (auto simp: silent_def ml_drop_parts(2) map_of_eq_None_iff)

lemma silent_no_volume: "silent v i s \<Longrightarrow> a \<in> set (lm_dom (ml_reg s)) \<Longrightarrow> snd (fst (snd (snd a))) \<noteq> OnVolume"
proof
  assume s: "silent v i s" "a \<in> set (lm_dom (ml_reg s))" "snd (fst (snd (snd a))) = OnVolume"
  then have inv: "ml_inv False s" by (simp add: silent_def)
  obtain p where p: "p \<in> set (lm_ids (ml_reg s))" "OnVolume = fn_of p" using ml_attached[OF inv s(2)] s(3) by metis
  then have "h_volume s = Some (fst p)" using ml_inv_entry(3)[OF inv p(1)] by (simp flip: p(2))
  then show False using s(1) p(1) by (auto simp: silent_def map_of_eq_None_iff)
qed

interpretation silent: stream_invariant "silent v i" True for v i
proof (unfold_locales, goal_cases)
  case (4 s a n)
  then show ?case using silent_no_volume by blast
next
  case (7 s new el)
  then show ?case
    using listeners_start_inv[of False s new el] silent_open[of i s new el] silent_opened[of i "ml_open new el s"]
      silent_begin[of i s new el] silent_opened[of i "ml_begin new el s"] by (simp add: silent_given)
next
  case (8 s)
  then show ?case using ready_inv[of False s] silent_opened[of i s] by (simp add: silent_given)
next
  case (9 s a k)
  then show ?case using ml_inv_playing[of False s a k] by (simp add: silent_def)
qed (simp_all add: silent_play silent_stop silent_drop, simp_all add: silent_def ml_inv_frame)

text \<open>Firing \<^verbatim>\<open>pause\<close> while its listener is attached and its session lasts removes the listener of the volume.\<close>

lemma drop_volume_again: "ml_drop h (ml_drop h s) = ml_drop h s"
proof (cases h)
  case (Some i)
  let ?s = "ml_drop (Some i) s"
  have "map_of (lm_ids (ml_reg ?s)) i = None" by (auto simp: ml_drop_parts(2) map_of_eq_None_iff)
  then have "lm_remove i (ml_reg ?s) = (None, ml_reg ?s)" by (simp add: lm_remove_def)
  then have "ml_drop (Some i) ?s = ?s" by (simp add: ml_drop_def[of "Some i" ?s] ml_remove_def)
  then show ?thesis using Some by simp
qed (simp add: ml_drop_def ml_remove_def)

lemma pause_listeners:
  fixes ok :: bool
  defines "g \<equiv> \<lambda>a s. if a \<in> set (lm_dom (ml_reg s)) then run_listener ok a s else s"
  assumes "\<forall>a \<in> set as. \<exists>k. snd (fst (snd (snd a))) = OnPause k"
  shows "fold g as (ml_drop (h_volume s) s) = ml_drop (h_volume s) s"
    and "\<forall>a \<in> set as. a \<in> set (lm_dom (ml_reg s)) \<Longrightarrow> \<exists>a \<in> set as. \<exists>k. snd (fst (snd (snd a))) = OnPause k \<and> sessionActive k s
      \<Longrightarrow> fold g as s = ml_drop (h_volume s) s"
proof -
  have r: "run_listener ok a t = (if sessionActive k t then ml_drop (h_volume t) t else t)" if "snd (fst (snd (snd a))) = OnPause k" for a k t
    using that by (simp add: run_listener_def)
  have again: "fold g bs (ml_drop (h_volume s) s) = ml_drop (h_volume s) s" if "\<forall>a \<in> set bs. \<exists>k. snd (fst (snd (snd a))) = OnPause k" for bs
    using that by (induction bs) (auto simp: g_def r drop_volume_again)
  then show "fold g as (ml_drop (h_volume s) s) = ml_drop (h_volume s) s" using assms(2) by blast
  show "\<forall>a \<in> set as. a \<in> set (lm_dom (ml_reg s)) \<Longrightarrow> \<exists>a \<in> set as. \<exists>k. snd (fst (snd (snd a))) = OnPause k \<and> sessionActive k s
      \<Longrightarrow> fold g as s = ml_drop (h_volume s) s"
    using assms(2)
  proof (induction "as")
    case (Cons a "as")
    then obtain k where k: "snd (fst (snd (snd a))) = OnPause k" by auto
    show ?case
    proof (cases "sessionActive k s")
      case True
      then have "g a s = ml_drop (h_volume s) s" using Cons.prems(1) by (simp add: g_def r[OF k])
      then show ?thesis using again[of "as"] Cons.prems(3) by simp
    next
      case False
      then have "g a s = s" by (simp add: g_def r[OF k])
      then show ?thesis using Cons False k by auto
    qed
  qed simp
qed

text \<open>
  C37. Once a playing stream whose volume is listened to has been paused, no later change of its volume is
  handled: the listener is removed but its entry keeps the id, so that neither playing on nor stopping and starting the stream
  attaches another.
\<close>

theorem volume_listener_lost:
  assumes "s = ml_run slider evs" "h_volume s \<noteq> None"
    and "(e, ''pause'', (t, OnPause k), c) \<in> set (lm_dom (ml_reg s))" "sessionActive k s"
    and "s' = fold ml_exec later (ml_exec (Fired ok e ''pause'') s)"
  shows "ml_volumes s' = ml_volumes s \<and> (\<forall>a \<in> set (lm_dom (ml_reg s')). snd (fst (snd (snd a))) \<noteq> OnVolume)"
proof -
  have inv: "ml_inv False s" unfolding assms(1) by (rule ml_run_inv)
  obtain i where i: "h_volume s = Some i" using assms(2) by blast
  let ?as = "filter (\<lambda>a. fst a = e \<and> fst (snd a) = ''pause'') (lm_dom (ml_reg s))"
  have "\<exists>k. snd (fst (snd (snd a))) = OnPause k" if "a \<in> set ?as" for a
  proof -
    have "a \<in> snd ` set (lm_ids (ml_reg s))" using that inv by (simp add: ml_inv_def lm_inv_def)
    then obtain p where p: "p \<in> set (lm_ids (ml_reg s))" "a = snd p" by blast
    then have "event_name (fn_of p) = ''pause''" using that inv by (simp add: ml_inv_def)
    then show ?thesis using p(2) by (cases "fn_of p") (simp_all add: fn_of_def)
  qed
  moreover have "(e, ''pause'', (t, OnPause k), c) \<in> set ?as" using assms(3) by simp
  ultimately have "ml_exec (Fired ok e ''pause'') s = ml_drop (h_volume s) s"
    using assms(4) unfolding ml_exec_def ml_fire_def ml_event.case by (intro pause_listeners(2)) fastforce+
  moreover have "silent (ml_volumes s) i (ml_drop (h_volume s) s)"
    using ml_drop_volume_inv[OF inv] i by (auto simp: silent_def ml_drop_parts(2) map_of_eq_None_iff)
  ultimately have "silent (ml_volumes s) i s'" unfolding assms(5) by (auto intro: silent.run)
  then show ?thesis using silent_no_volume by (auto simp: silent_def)
qed

theorem volume_listener_lost_witness:
  "let s = ml_run True [StartPlayer True 1, Fired True (Elem 1) ''play'']
   in ml_volumes (fold ml_exec [Fired True (Elem 1) ''play'', StopStream, StartPlayer True 1, Fired True (Elem 1) ''volumechange'']
        (ml_exec (Fired True (Elem 1) ''pause'') s)) = ml_volumes s"
proof -
  have *: "h_volume (ml_run True [StartPlayer True 1, Fired True (Elem 1) ''play'']) \<noteq> None"
    "(Elem 1, ''pause'', (1, OnPause 1), False) \<in> set (lm_dom (ml_reg (ml_run True [StartPlayer True 1, Fired True (Elem 1) ''play''])))"
    "sessionActive 1 (ml_run True [StartPlayer True 1, Fired True (Elem 1) ''play''])" by code_simp+
  show ?thesis
    unfolding Let_def using volume_listener_lost[OF refl * refl, of "[Fired True (Elem 1) ''play'', StopStream, StartPlayer True 1, Fired True (Elem 1) ''volumechange'']" True]
    by blast
qed

text \<open>
  C9. Stopping a stream detaches every function that was attached through the registry (for playing, tracks, pausing,
  errors, the volume and the page's end), in whatever order its events came, unless a callback of Janus had come while
  the stream was already started; even then only functions for the page's end can stay.
\<close>

theorem stop_detaches_listeners:
  assumes "s = ml_exec StopStream (ml_run slider evs)"
  shows "(janus_timely evs (ml_init slider) \<longrightarrow> lm_dom (ml_reg s) = [])
    \<and> (\<lambda>a. snd (fst (snd (snd a)))) ` set (lm_dom (ml_reg s)) \<subseteq> {OnUnload}"
proof -
  have stopped: "\<not> ml_started s" "\<not> ml_starting s" by (simp_all add: assms ml_exec_def ml_stop_parts)
  have inv: "ml_inv False s" using ml_run_inv(1)[of slider evs] by (simp add: assms ml_exec_def ml_stop_inv)
  have "snd (fst (snd (snd a))) = OnUnload" if "a \<in> set (lm_dom (ml_reg s))" for a
    using ml_attached[OF inv that] ml_inv_entry(4)[OF inv] stopped by metis
  moreover have "lm_dom (ml_reg s) = []" if "janus_timely evs (ml_init slider)"
  proof -
    have inv: "ml_inv True s" using ml_run_inv(2)[OF that] by (simp add: assms ml_exec_def ml_stop_inv)
    have "p \<notin> set (lm_ids (ml_reg s))" for p using ml_inv_entry(4)[OF inv, of p] stopped by blast
    then have "lm_ids (ml_reg s) = []" using hd_in_set by blast
    then show ?thesis using inv by (simp add: ml_inv_def lm_inv_def)
  qed
  ultimately show ?thesis by (auto simp: image_subset_iff)
qed

theorem stop_detaches_listeners_witness:
  "lm_dom (ml_reg (ml_exec StopStream (ml_run True [StartJanus 1, JanusReady, Fired True (Elem 1) ''play'']))) = []"
proof -
  have "janus_timely [StartJanus 1, JanusReady, Fired True (Elem 1) ''play''] (ml_init True)" by code_simp
  then show ?thesis using stop_detaches_listeners [OF refl] by blast
qed

text \<open>Two callbacks of Janus leave a listener of the page's end behind.\<close>

lemma janus_twice_leaks:
  "length (lm_dom (ml_reg (ml_run True [StartJanus 1, JanusReady, JanusReady, StopStream]))) = 1"
  by code_simp

section \<open>The registry as a map\<close>

datatype 'a reg_op = RAdd 'a "string option" | RRemove string

fun reg_run :: "('e, 'l) attach reg_op list \<Rightarrow> ('e, 'l) listeners \<Rightarrow> ('e, 'l) listeners" where
  "reg_run [] r = r"
| "reg_run (RAdd a rep # ops) r = reg_run ops (snd (lm_add a rep r))"
| "reg_run (RRemove i # ops) r = reg_run ops (snd (lm_remove i r))"

text \<open>Whether a client only adds listeners that are not attached at that moment.\<close>

fun adds_fresh :: "('e, 'l) attach reg_op list \<Rightarrow> ('e, 'l) listeners \<Rightarrow> bool" where
  "adds_fresh [] r = True"
| "adds_fresh (RAdd a rep # ops) r = (a \<notin> set (lm_dom r) \<and> adds_fresh ops (snd (lm_add a rep r)))"
| "adds_fresh (RRemove i # ops) r = adds_fresh ops (snd (lm_remove i r))"

text \<open>The abstract registry is a map and the number of the next id.\<close>

fun abs_run :: "'a reg_op list \<Rightarrow> (string \<rightharpoonup> 'a) \<times> nat \<Rightarrow> (string \<rightharpoonup> 'a) \<times> nat" where
  "abs_run [] m = m"
| "abs_run (RAdd a rep # ops) m =
     abs_run ops ((case rep of None \<Rightarrow> fst m | Some x \<Rightarrow> (fst m)(x := None))(nat_to_str (snd m) \<mapsto> a), snd m + 1)"
| "abs_run (RRemove i # ops) m = abs_run ops ((fst m)(i := None), snd m)"

text \<open>What holds of the registry even where a function is added twice.\<close>

definition lm_weak :: "('e, 'l) listeners \<Rightarrow> bool" where
  "lm_weak r \<longleftrightarrow> distinct (map fst (lm_ids r)) \<and> (\<forall>i \<in> fst ` set (lm_ids r). \<exists>n < lm_idx r. i = nat_to_str n)
     \<and> set (lm_dom r) \<subseteq> snd ` set (lm_ids r) \<and> distinct (lm_dom r)"

lemma lm_weak_fresh: "lm_weak r \<Longrightarrow> map_of (lm_ids r) (nat_to_str (lm_idx r)) = None"
  by (force simp: lm_weak_def map_of_eq_None_iff nat_to_str_inj)

lemma lm_weak_remove: "lm_weak r \<Longrightarrow> lm_weak (snd (lm_remove i r))"
proof (cases "map_of (lm_ids r) i")
  case (Some a)
  assume r: "lm_weak r"
  have "b \<in> snd ` set (filter (\<lambda>p. fst p \<noteq> i) (lm_ids r))" if "b \<in> set (lm_dom r)" "b \<noteq> a" for b
  proof -
    have "b \<in> snd ` set (lm_ids r)" using r that(1) by (auto simp: lm_weak_def)
    then obtain j where j: "(j, b) \<in> set (lm_ids r)" by auto
    then have "map_of (lm_ids r) j = Some b" using r by (simp add: lm_weak_def)
    then show ?thesis using j Some that(2) by force
  qed
  then show ?thesis using r Some by (auto simp: lm_weak_def lm_remove_def distinct_map_filter)
qed (simp add: lm_remove_def)

lemma lm_weak_add:
  assumes "lm_weak r"
  shows "lm_weak (snd (lm_add a rep r))"
    and "map_of (lm_ids (snd (lm_add a rep r))) = (case rep of None \<Rightarrow> map_of (lm_ids r) | Some x \<Rightarrow> (map_of (lm_ids r))(x := None))
      (nat_to_str (lm_idx r) \<mapsto> a)"
    and "lm_idx (snd (lm_add a rep r)) = lm_idx r + 1"
proof -
  let ?q = "lm_replaced rep r" and ?i = "nat_to_str (lm_idx r)"
  have w: "lm_weak ?q" using assms lm_weak_remove by (cases rep) (simp_all add: lm_replaced_def)
  have free: "map_of (lm_ids ?q) ?i = None" using lm_weak_fresh [OF w] by (simp add: lm_replaced_parts(1))
  then have eq: "lm_add a rep r = (Some ?i, ?q\<lparr>lm_idx := lm_idx r + 1, lm_ids := lm_ids ?q @ [(?i, a)], lm_dom := dom_add a (lm_dom ?q)\<rparr>)"
    by (cases rep) (simp_all add: lm_add_def privateAdd_def lm_replaced_def lm_remove_idx Let_def)
  have idx: "\<exists>n < lm_idx r + 1. i = nat_to_str n" if "i \<in> fst ` set (lm_ids ?q)" for i
  proof -
    have "\<forall>i \<in> fst ` set (lm_ids ?q). \<exists>n < lm_idx ?q. i = nat_to_str n" using w unfolding lm_weak_def by (elim conjE)
    from bspec [OF this that] obtain n where "n < lm_idx ?q" "i = nat_to_str n" by (elim exE conjE)
    then show ?thesis using lm_replaced_parts(1)[of rep r] by (intro exI[of _ n]) simp
  qed
  show "lm_weak (snd (lm_add a rep r))"
  proof -
    have dom: "set (dom_add a (lm_dom ?q)) = insert a (set (lm_dom ?q))" "distinct (dom_add a (lm_dom ?q)) = distinct (lm_dom ?q)"
      by (auto simp: dom_add_def)
    have "?i \<notin> fst ` set (lm_ids ?q)" using free by (simp add: map_of_eq_None_iff)
    moreover have "distinct (map fst (lm_ids ?q))" "set (lm_dom ?q) \<subseteq> snd ` set (lm_ids ?q)" "distinct (lm_dom ?q)"
      using w unfolding lm_weak_def by blast+
    ultimately show ?thesis unfolding eq lm_weak_def using idx dom
      by (auto simp del: One_nat_def add_Suc_right intro!: exI[of _ "lm_idx r"])
  qed
  show "map_of (lm_ids (snd (lm_add a rep r))) = (case rep of None \<Rightarrow> map_of (lm_ids r) | Some x \<Rightarrow> (map_of (lm_ids r))(x := None))
      (nat_to_str (lm_idx r) \<mapsto> a)" "lm_idx (snd (lm_add a rep r)) = lm_idx r + 1"
    using free unfolding eq by (simp_all add: single_map_add flip: lm_replaced_parts(3))
qed

lemma reg_run_abs:
  "lm_weak r \<Longrightarrow> lm_weak (reg_run ops r)
     \<and> (map_of (lm_ids (reg_run ops r)), lm_idx (reg_run ops r)) = abs_run ops (map_of (lm_ids r), lm_idx r)"
proof (induction ops r rule: reg_run.induct)
  case (2 a rep ops r)
  then show ?case using lm_weak_add [OF 2(2), of a rep] by (cases rep) (simp_all add: fun_upd_def)
next
  case (3 i ops r)
  then show ?case using lm_weak_remove [of r i] by (simp add: lm_remove_parts map_of_filter_key [of i] fun_upd_def)
qed simp

lemma reg_run_inv: "lm_inv r \<Longrightarrow> adds_fresh ops r \<Longrightarrow> lm_inv (reg_run ops r)"
  by (induction ops r rule: reg_run.induct) (simp_all add: lm_add_inv lm_remove_inv)

text \<open>
  C8. The registry refines a map from ids to listeners: after any sequence of additions (with or without
  replacement) and removals, what is registered under each id is what the map holds, every id is new, the count is that of the map, and the
  browser calls only what is registered, each once. Where no function was added while it was attached, it
  calls all that is registered. (Where one was, the removal of either id detaches it for both.)
\<close>

theorem registry_refines_map:
  shows "map_of (lm_ids (reg_run ops lm_empty)) = fst (abs_run ops (Map.empty, 1))
    \<and> fst (abs_run ops (Map.empty, 1)) (nat_to_str (lm_idx (reg_run ops lm_empty))) = None
    \<and> lm_length (reg_run ops lm_empty) = card (dom (fst (abs_run ops (Map.empty, 1))))
    \<and> set (lm_dom (reg_run ops lm_empty)) \<subseteq> ran (fst (abs_run ops (Map.empty, 1)))
    \<and> distinct (lm_dom (reg_run ops lm_empty))
    \<and> (adds_fresh ops lm_empty \<longrightarrow> set (lm_dom (reg_run ops lm_empty)) = ran (fst (abs_run ops (Map.empty, 1))))"
proof -
  let ?r = "reg_run ops lm_empty"
  have "lm_weak (lm_empty :: ('a, 'b) listeners)" by (simp add: lm_weak_def lm_empty_def)
  note run = reg_run_abs [OF this, of ops]
  then have w: "lm_weak ?r" by blast
  have "(map_of (lm_ids ?r), lm_idx ?r) = abs_run ops (Map.empty, 1)" using run by (simp add: lm_empty_def)
  then have m: "fst (abs_run ops (Map.empty, 1)) = map_of (lm_ids ?r)" by (metis fst_conv)
  have d: "distinct (map fst (lm_ids ?r))" using w by (simp add: lm_weak_def)
  then have "length (map fst (lm_ids ?r)) = card (set (map fst (lm_ids ?r)))" by (metis distinct_card)
  then have n: "lm_length ?r = card (dom (map_of (lm_ids ?r)))" by (simp add: lm_length_def dom_map_of_conv_image_fst)
  have "set (lm_dom ?r) = ran (map_of (lm_ids ?r))" if "adds_fresh ops lm_empty"
  proof -
    have "lm_inv (lm_empty :: ('a, 'b) listeners)" by (simp add: lm_inv_def lm_empty_def)
    from lm.attached_held [OF reg_run_inv [OF this that]] show ?thesis .
  qed
  moreover have "set (lm_dom ?r) \<subseteq> ran (map_of (lm_ids ?r))" "distinct (lm_dom ?r)"
    using w ran_distinct [OF d] by (simp_all add: lm_weak_def)
  ultimately show ?thesis using n lm_weak_fresh [OF w] unfolding m by blast
qed

theorem registry_refines_map_witness:
  "set (lm_dom (reg_run [RAdd (1::nat, ''play'', 2::nat, False) None, RAdd (1, ''pause'', 3, False) (Some ''1''), RRemove ''7''] lm_empty))
     = {(1, ''pause'', 3, False)}"
proof -
  let ?ops = "[RAdd (1::nat, ''play'', 2::nat, False) None, RAdd (1, ''pause'', 3, False) (Some ''1''), RRemove ''7'']"
  have "adds_fresh ?ops lm_empty" by code_simp
  then have "set (lm_dom (reg_run ?ops lm_empty)) = ran (map_of (lm_ids (reg_run ?ops lm_empty)))"
    using registry_refines_map [of ?ops] by simp
  moreover have "lm_ids (reg_run ?ops lm_empty) = [(''2'', 1, ''pause'', 3, False)]" by code_simp
  ultimately show ?thesis by simp
qed

end
