(* ===== verification/Page_Helpers.thy ===== *)
theory Page_Helpers
  imports Auth_Helpers Level_Graph "HOL-Library.Word"
begin

unbundle bit_operations_syntax

text \<open>
  The helpers every page shares (\<^verbatim>\<open>web/skins/classic/js/skin.js\<close>): escaping, label formats, times, sizes, scales, cookies,
  UUIDs and the address of go2rtc. Numbers are exact; a cookie jar holds the cookies of the site with the path the
  helpers give them. A text that must be JSON is read by the parameter \<open>parse\<close>.
\<close>

section \<open>Escaping\<close>

definition apostrophe :: char where "apostrophe = CHR 0x27"

definition escapeHTML :: "string \<Rightarrow> string" where
  "escapeHTML s = replace_all apostrophe ''&#39;'' (replace_all quote ''&quot;'' (replace_all (CHR ''>'') ''&gt;''
     (replace_all (CHR ''<'') ''&lt;'' (replace_all (CHR ''&'') ''&amp;'' s))))"

text \<open>What a browser shows for a text with these references.\<close>

fun html_text :: "string \<Rightarrow> string" where
  "html_text [] = []"
| "html_text (c # s) =
     (if c \<noteq> CHR ''&'' then c # html_text s
      else if starts_with ''amp;'' s then CHR ''&'' # html_text (drop 4 s)
      else if starts_with ''lt;'' s then CHR ''<'' # html_text (drop 3 s)
      else if starts_with ''gt;'' s then CHR ''>'' # html_text (drop 3 s)
      else if starts_with ''quot;'' s then quote # html_text (drop 5 s)
      else if starts_with ''#39;'' s then apostrophe # html_text (drop 4 s)
      else c # html_text s)"

definition esc_char :: "char \<Rightarrow> string" where
  "esc_char c = (if c = CHR ''&'' then ''&amp;'' else if c = CHR ''<'' then ''&lt;'' else if c = CHR ''>'' then ''&gt;''
     else if c = quote then ''&quot;'' else if c = apostrophe then ''&#39;'' else [c])"

section \<open>Label formats\<close>

definition label_replacements :: "string \<Rightarrow> (char \<times> string) list" where
  "label_replacements name =
    [(CHR ''a'', ''ddd''), (CHR ''A'', ''dddd''), (CHR ''b'', ''MMM''), (CHR ''B'', ''MMMM''), (CHR ''d'', ''DD''),
     (CHR ''e'', ''D''), (CHR ''F'', ''YYYY-MM-DD''), (CHR ''H'', ''HH''), (CHR ''I'', ''hh''), (CHR ''j'', ''DDDD''),
     (CHR ''k'', ''H''), (CHR ''l'', ''h''), (CHR ''m'', ''MM''), (CHR ''M'', ''mm''), (CHR ''p'', ''A''),
     (CHR ''r'', ''hh:mm:ss A''), (CHR ''S'', ''ss''), (CHR ''u'', ''E''), (CHR ''w'', ''d''), (CHR ''W'', ''WW''),
     (CHR ''y'', ''YY''), (CHR ''Y'', ''YYYY''), (CHR ''z'', ''ZZ''), (CHR ''Z'', ''z''), (CHR ''f'', ''SS''),
     (CHR ''N'', ''['' @ name @ '']''), (CHR ''%'', ''%'')]"

text \<open>The dollar patterns of \<^verbatim>\<open>replace\<close> where the pattern is a text.\<close>

fun expand_plain :: "string \<Rightarrow> string \<Rightarrow> string \<Rightarrow> string \<Rightarrow> string" where
  "expand_plain pre matched post (c # d # s) =
     (if c \<noteq> CHR ''$'' then c # expand_plain pre matched post (d # s)
      else if d = CHR ''$'' then CHR ''$'' # expand_plain pre matched post s
      else if d = CHR ''&'' then matched @ expand_plain pre matched post s
      else if d = CHR 0x60 then pre @ expand_plain pre matched post s
      else if d = CHR 0x27 then post @ expand_plain pre matched post s
      else c # expand_plain pre matched post (d # s))"
| "expand_plain pre matched post s = s"

text \<open>\<^verbatim>\<open>replace\<close> replaces the first occurrence only.\<close>

fun find_sub :: "string \<Rightarrow> string \<Rightarrow> (string \<times> string) option" where
  "find_sub pat s =
     (if starts_with pat s then Some ([], drop (length pat) s)
      else case s of [] \<Rightarrow> None | c # r \<Rightarrow> map_option (\<lambda>(p, q). (c # p, q)) (find_sub pat r))"

definition replace_first :: "string \<Rightarrow> string \<Rightarrow> string \<Rightarrow> string" where
  "replace_first pat v s = (case find_sub pat s of
     None \<Rightarrow> s
   | Some (pre, post) \<Rightarrow> pre @ expand_plain pre pat post v @ post)"

definition convertLabelFormat :: "string \<Rightarrow> string \<Rightarrow> string" where
  "convertLabelFormat fmt name = fold (\<lambda>(k, v). replace_first (CHR ''%'' # [k]) v) (label_replacements name) fmt"

text \<open>What the conversion is meant to be: every directive translated where it stands.\<close>

fun translate_label :: "string \<Rightarrow> string \<Rightarrow> string" where
  "translate_label name (c # d # s) =
     (if c = CHR ''%'' then (case map_of (label_replacements name) d of
        Some v \<Rightarrow> v @ translate_label name s
      | None \<Rightarrow> c # d # translate_label name s)
      else c # translate_label name (d # s))"
| "translate_label name s = s"

section \<open>Times and sizes\<close>

text \<open>\<^verbatim>\<open>toFixed(n)\<close> of a number that is not negative; zero counts as no rounding.\<close>

definition pad_start :: "nat \<Rightarrow> string \<Rightarrow> string" where
  "pad_start n s = replicate (n - length s) (CHR ''0'') @ s"

definition toFixed :: "nat \<Rightarrow> rat \<Rightarrow> string" where
  "toFixed n x = (let k = nat (math_round (x * 10 ^ n)) in
     nat_to_str (k div 10 ^ n) @ (if n = 0 then [] else CHR ''.'' # pad_start n (nat_to_str (k mod 10 ^ n))))"

definition rat_mod :: "rat \<Rightarrow> nat \<Rightarrow> rat" where
  "rat_mod x n = x - of_nat n * of_int \<lfloor>x / of_nat n\<rfloor>"

definition formatSeconds :: "rat \<Rightarrow> nat \<Rightarrow> string" where
  "formatSeconds seconds digits =
     (if seconds < 10 then CHR ''0'' # (if digits \<noteq> 0 then toFixed digits seconds else take 4 (rat_to_str seconds))
      else if digits \<noteq> 0 then toFixed digits seconds else take 5 (rat_to_str seconds))"

definition secsToTime :: "rat \<Rightarrow> nat \<Rightarrow> string" where
  "secsToTime seconds digits =
     (if seconds < 60 then if digits \<noteq> 0 then toFixed digits seconds else rat_to_str seconds
      else if seconds < 60 * 60 then
        int_to_str \<lfloor>seconds / 60\<rfloor> @ '':'' @ formatSeconds (rat_mod seconds 60) digits
      else (let mins = \<lfloor>rat_mod seconds 3600 / 60\<rfloor> in
        int_to_str \<lfloor>seconds / 3600\<rfloor> @ '':'' @ (if mins < 10 then CHR ''0'' # int_to_str mins else int_to_str mins)
          @ '':'' @ formatSeconds (rat_mod seconds 60) digits))"

definition units :: "string list" where
  "units = [''B'', ''kB'', ''MB'', ''GB'', ''TB'', ''PB'', ''EB'', ''ZB'', ''YB'']"

text \<open>The constant \<^verbatim>\<open>0.9\<close> is the double next to it.\<close>

definition nine_tenths :: rat where "nine_tenths = 8106479329266893 / 9007199254740992"

function size_loop :: "rat \<Rightarrow> nat \<Rightarrow> rat \<times> nat" where
  "size_loop n i = (if n / 1024 > nine_tenths then size_loop (n / 1024) (i + 1) else (n, i))"
  by pat_completeness auto

termination
proof (relation "measure (\<lambda>(n, i). nat \<lceil>n\<rceil>)", goal_cases)
  case (2 n i)
  then have "n > 900" by (simp add: nine_tenths_def)
  then have "\<lceil>n / 1024\<rceil> < \<lceil>n\<rceil>" "0 < \<lceil>n\<rceil>" by linarith+
  then show ?case by simp
qed simp

declare size_loop.simps [simp del]

definition human_filesize :: "rat \<Rightarrow> nat \<Rightarrow> string" where
  "human_filesize n precision =
     (let (s, i) = size_loop n 0; factor = 10 ^ precision
      in rat_to_str (of_int (math_round (s * factor)) / factor) @ (if i < length units then units ! i else ''undefined''))"

section \<open>Scales\<close>

text \<open>
  The height of the window, of the element and the bottom of what stands below it, the width of the container; \<open>None\<close>
  without a container.
\<close>

record fit =
  fit_width :: int
  fit_height :: int
  autoScale :: int

definition scaleToFit :: "rat \<Rightarrow> rat \<Rightarrow> rat \<Rightarrow> rat \<Rightarrow> rat \<Rightarrow> rat option \<Rightarrow> rat \<Rightarrow> fit option" where
  "scaleToFit baseWidth baseHeight viewport bottomLoc outer container panZoom = map_option (\<lambda>cw.
     (let ratio = baseWidth / baseHeight;
          h0 = viewport - (bottomLoc - outer); w0 = ratio * h0;
          (w, h) = (if h0 < 0 \<or> w0 > cw then (cw, cw / ratio) else (w0, h0));
          s = 5 * \<lfloor>of_int (math_round (w / baseWidth * 100 * panZoom)) / (5::rat)\<rfloor>
      in \<lparr>fit_width = \<lfloor>w\<rfloor>, fit_height = \<lfloor>h\<rfloor>, autoScale = (if s < 10 then 10 else s)\<rparr>)) container"

definition calculateOverlayDimensions :: "rat \<Rightarrow> rat \<Rightarrow> rat \<Rightarrow> rat \<Rightarrow> (int \<times> int) option" where
  "calculateOverlayDimensions imgWidth imgHeight innerWidth innerHeight =
     (if imgWidth = 0 \<or> imgHeight = 0 then None
      else (let aspect = imgWidth / imgHeight; maxW = innerWidth * (6 / 10); maxH = innerHeight * (7 / 10);
                (w, h) = (if maxW / aspect > maxH then (maxH * aspect, maxH) else (maxW, maxW / aspect))
            in Some (math_round w, math_round h)))"

definition calculateOverlayScale :: "string \<Rightarrow> rat \<Rightarrow> int" where
  "calculateOverlayScale monitorWidth overlayWidth = (case parseInt monitorWidth of
     None \<Rightarrow> 100
   | Some m \<Rightarrow> if m \<le> 0 then 100 else max 5 (min 100 (math_round (100 * overlayWidth / of_int m))))"

section \<open>Cookies\<close>

text \<open>
  How long a cookie lives: to the end of the session, for \<^verbatim>\<open>max-age\<close> seconds, or for the seconds the caller gives,
  after which it expires.
\<close>

datatype lifetime = Session | MaxAge int | Expires int

type_synonym cookie_jar = "(string \<times> string \<times> lifetime) list"

definition sessionCookies :: "string list" where
  "sessionCookies = [''zmFilter_StartDateTime'', ''zmFilter_EndDateTime'']"

text \<open>A value that is neither text nor boolean is passed as its JSON text.\<close>

datatype cookie_value = Text string | Flag bool | Json string

fun cookie_text :: "cookie_value \<Rightarrow> string" where
  "cookie_text (Text s) = s"
| "cookie_text (Flag b) = (if b then ''true'' else [])"
| "cookie_text (Json s) = s"

definition cookie_lifetime :: "string \<Rightarrow> int \<Rightarrow> lifetime" where
  "cookie_lifetime name seconds =
     (if seconds \<noteq> 0 then Expires seconds else if name \<in> set sessionCookies then Session else MaxAge 2147483647)"

text \<open>
  What a browser does with \<^verbatim>\<open>name=value; ...\<close>: the name ends at the first equals sign, the value at the first
  semicolon, blanks around either are dropped; a cookie of that name is replaced where it
  stands, and one that has expired is removed. Attributes in what follows that semicolon are overridden by those of \<^verbatim>\<open>setCookie\<close>.
\<close>

definition cookie_trim :: "string \<Rightarrow> string" where
  "cookie_trim s = (let wsp = (\<lambda>c. c = CHR '' '' \<or> c = CHR 0x09) in rev (dropWhile wsp (rev (dropWhile wsp s))))"

definition jar_put :: "string \<Rightarrow> string \<Rightarrow> lifetime \<Rightarrow> cookie_jar \<Rightarrow> cookie_jar" where
  "jar_put n v t jar =
     (if n = [] \<and> v = [] then jar
      else if (case t of Expires s \<Rightarrow> s \<le> 0 | _ \<Rightarrow> False) then filter (\<lambda>c. fst c \<noteq> n) jar
      else if n \<in> fst ` set jar then map (\<lambda>c. if fst c = n then (n, v, t) else c) jar
      else jar @ [(n, v, t)])"

definition document_cookie_set :: "string \<Rightarrow> lifetime \<Rightarrow> cookie_jar \<Rightarrow> cookie_jar" where
  "document_cookie_set pair t jar =
     (let p = takeWhile (\<lambda>c. c \<noteq> CHR '';'') pair in
      if CHR ''='' \<notin> set p then jar_put [] (cookie_trim p) t jar
      else jar_put (cookie_trim (takeWhile (\<lambda>c. c \<noteq> CHR ''='') p)) (cookie_trim (tl (dropWhile (\<lambda>c. c \<noteq> CHR ''='') p))) t jar)"

definition document_cookie :: "cookie_jar \<Rightarrow> string" where
  "document_cookie jar = join ''; '' (map (\<lambda>(n, v, t). if n = [] then v else n @ ''='' @ v) jar)"

definition setCookie :: "string \<Rightarrow> cookie_value \<Rightarrow> int \<Rightarrow> cookie_jar \<Rightarrow> cookie_jar" where
  "setCookie name v seconds jar =
     document_cookie_set (name @ ''='' @ cookie_text v) (cookie_lifetime name seconds) jar"

text \<open>The loop ends at the first part that starts with the name.\<close>

fun cookie_loop :: "string \<Rightarrow> string list \<Rightarrow> string option" where
  "cookie_loop nameEQ [] = None"
| "cookie_loop nameEQ (c # cs) =
     (let d = dropWhile (\<lambda>x. x = CHR '' '') c
      in if starts_with nameEQ d then Some (drop (length nameEQ) d) else cookie_loop nameEQ cs)"

datatype 'v cookie_read = Absent | Plain string | Parsed 'v

definition getCookie :: "(string \<Rightarrow> 'v option) \<Rightarrow> string \<Rightarrow> cookie_jar \<Rightarrow> 'v cookie_read" where
  "getCookie parse name jar =
     (case cookie_loop (name @ ''='') (split_on (\<lambda>c. c = CHR '';'') (document_cookie jar)) of
        None \<Rightarrow> Absent
      | Some s \<Rightarrow> (case parse s of None \<Rightarrow> Plain s | Some v \<Rightarrow> Parsed v))"

section \<open>UUIDs and addresses\<close>

definition hex_lower :: "nat \<Rightarrow> char" where
  "hex_lower d = ''0123456789abcdef'' ! d"

fun nat_to_hex_lower :: "nat \<Rightarrow> string" where
  "nat_to_hex_lower n = (if n < 16 then [hex_lower n] else nat_to_hex_lower (n div 16) @ [hex_lower (n mod 16)])"

definition hex_byte :: "8 word \<Rightarrow> string" where
  "hex_byte b = pad_start 2 (nat_to_hex_lower (unat b))"

text \<open>\<open>bytes\<close>: the sixteen bytes of \<^verbatim>\<open>getRandomValues\<close>.\<close>

definition uuid_bytes :: "8 word list \<Rightarrow> 8 word list" where
  "uuid_bytes bytes = (let b = bytes[6 := (bytes ! 6 AND 0x0f) OR 0x40] in b[8 := (b ! 8 AND 0x3f) OR 0x80])"

definition uuid_text :: "8 word list \<Rightarrow> string" where
  "uuid_text bytes = (let hex = map hex_byte bytes in
     concat (take 4 hex) @ ''-'' @ concat (take 2 (drop 4 hex)) @ ''-'' @ concat (take 2 (drop 6 hex)) @ ''-''
       @ concat (take 2 (drop 8 hex)) @ ''-'' @ concat (take 6 (drop 10 hex)))"

datatype crypto = RandomUUID string | RandomValues "8 word list" | NoCrypto

fun generateUUID :: "crypto \<Rightarrow> string option" where
  "generateUUID (RandomUUID u) = Some u"
| "generateUUID (RandomValues bytes) = Some (uuid_text (uuid_bytes bytes))"
| "generateUUID NoCrypto = None"

definition stringToNumber :: "string \<Rightarrow> int option" where
  "stringToNumber s = parseInt (filter is_digit s)"

definition strip_slashes :: "string \<Rightarrow> string" where
  "strip_slashes p = rev (dropWhile (\<lambda>c. c = CHR ''/'') (rev p))"

definition ends_with :: "string \<Rightarrow> string \<Rightarrow> bool" where
  "ends_with suf s = starts_with (rev suf) (rev s)"

definition go2rtc_path :: "string \<Rightarrow> string" where
  "go2rtc_path pathname = (let p = strip_slashes pathname in if ends_with ''/api'' p then p else p @ ''/api'')"

section \<open>Escaping in one pass\<close>

lemma quote_char: "quote = CHR 0x22"
  by code_simp

lemmas html_chars = quote_char apostrophe_def

lemma replace_all_append [simp]: "replace_all c r (s @ t) = replace_all c r s @ replace_all c r t"
  by (simp add: replace_all_def)

lemma replace_all_concat: "replace_all c r (concat (map f s)) = concat (map (\<lambda>x. replace_all c r (f x)) s)"
  by (induction s) (simp_all, simp add: replace_all_def)

lemma escapeHTML_concat: "escapeHTML s = concat (map esc_char s)"
proof -
  have one: "replace_all apostrophe ''&#39;'' (replace_all quote ''&quot;'' (replace_all (CHR ''>'') ''&gt;''
     (replace_all (CHR ''<'') ''&lt;'' (if x = CHR ''&'' then ''&amp;'' else [x])))) = esc_char x" for x
    by (simp add: replace_all_def esc_char_def html_chars)
  have "escapeHTML s = replace_all apostrophe ''&#39;'' (replace_all quote ''&quot;'' (replace_all (CHR ''>'') ''&gt;''
     (replace_all (CHR ''<'') ''&lt;'' (concat (map (\<lambda>x. if x = CHR ''&'' then ''&amp;'' else [x]) s)))))"
    unfolding escapeHTML_def by (simp add: replace_all_def[of "CHR ''&''"])
  then show ?thesis unfolding replace_all_concat one .
qed

lemma html_text_esc: "html_text (esc_char c @ s) = c # html_text s"
  by (simp add: esc_char_def starts_with_def html_chars)

lemma html_text_escape: "html_text (concat (map esc_char s)) = s"
  by (induction s) (simp_all add: html_text_esc del: html_text.simps(2))

lemma esc_char_safe: "set (esc_char c) \<inter> {CHR ''<'', CHR ''>'', quote, apostrophe} = {}"
  by (auto simp: esc_char_def html_chars)

text \<open>
  C23. The five replacements of escapeHTML amount to escaping every character where it stands: a browser shows the text
  again, and no character is left that could end an attribute or open an element.
\<close>

theorem escapeHTML_exact:
  "escapeHTML s = concat (map esc_char s) \<and> html_text (escapeHTML s) = s
    \<and> set (escapeHTML s) \<inter> {CHR ''<'', CHR ''>'', quote, apostrophe} = {}"
proof -
  have "set (concat (map esc_char s)) \<inter> {CHR ''<'', CHR ''>'', quote, apostrophe} = {}"
    using esc_char_safe by fastforce
  then show ?thesis unfolding escapeHTML_concat html_text_escape by blast
qed

section \<open>Sizes\<close>

lemma size_loop_spec:
  "0 \<le> n \<Longrightarrow> size_loop n i = (s, k) \<Longrightarrow> i \<le> k \<and> s * 1024 ^ (k - i) = n \<and> 0 \<le> s \<and> s \<le> 1024 * nine_tenths
    \<and> (i = k \<or> s > nine_tenths)"
proof (induction n i rule: size_loop.induct)
  case (1 n i)
  show ?case
  proof (cases "n / 1024 > nine_tenths")
    case True
    then have "size_loop (n / 1024) (i + 1) = (s, k)" using "1.prems"(2) by (subst (asm) size_loop.simps) simp
    then have ih: "i + 1 \<le> k" "s * 1024 ^ (k - (i + 1)) = n / 1024" "0 \<le> s" "s \<le> 1024 * nine_tenths" "i + 1 = k \<or> s > nine_tenths"
      using "1.IH"[OF True] "1.prems"(1) by simp_all
    moreover have "s * 1024 ^ (k - i) = n"
    proof -
      have "k - i = Suc (k - (i + 1))" using ih(1) by simp
      then show ?thesis using ih(2) by simp
    qed
    moreover have "s > nine_tenths" using ih(2,5) True by auto
    ultimately show ?thesis by simp
  next
    case False
    then have "s = n" "k = i" using "1.prems"(2) by (simp_all add: size_loop.simps[of n i])
    then show ?thesis using "1.prems"(1) False by simp
  qed
qed

lemma round_scaled_error: "\<bar>of_int (math_round (x * f)) / f - x\<bar> \<le> 1 / (2 * f)" if "0 < f" for x f :: rat
proof -
  have "\<bar>of_int (math_round (x * f)) - x * f\<bar> \<le> 1 / 2" by (rule math_round_error)
  moreover have "of_int (math_round (x * f)) / f - x = (of_int (math_round (x * f)) - x * f) / f" using that by (simp add: field_simps)
  ultimately show ?thesis using that by (simp add: abs_divide field_simps)
qed

text \<open>
  human_filesize prints a size within half a unit of its last decimal, in the unit in which the number is at most 921.6 and, past
  plain bytes, more than nine tenths, to within that rounding. The unit has a name exactly while the size is at most nine tenths of 1024 to the ninth.
\<close>

lemma human_filesize_exact:
  assumes "0 \<le> n"
  shows "\<exists>i m. human_filesize n p = rat_to_str m @ (if i < 9 then units ! i else ''undefined'')
    \<and> \<bar>m * 1024 ^ i - n\<bar> \<le> 1024 ^ i / (2 * 10 ^ p)
    \<and> n \<le> 1024 ^ i * (1024 * nine_tenths) \<and> (i = 0 \<or> 1024 ^ i * nine_tenths < n) \<and> (i < 9) = (n \<le> 1024 ^ 9 * nine_tenths)"
proof -
  obtain s i where si: "size_loop n 0 = (s, i)" by fastforce
  have spec: "s * 1024 ^ i = n" "0 \<le> s" "s \<le> 1024 * nine_tenths" "i = 0 \<or> s > nine_tenths"
    using size_loop_spec[OF assms si] by simp_all
  let ?m = "of_int (math_round (s * 10 ^ p)) / 10 ^ p :: rat"
  have "human_filesize n p = rat_to_str ?m @ (if i < 9 then units ! i else ''undefined'')"
    by (simp add: human_filesize_def si units_def Let_def)
  moreover have "\<bar>?m * 1024 ^ i - n\<bar> \<le> 1024 ^ i / (2 * 10 ^ p)"
  proof -
    have "?m * 1024 ^ i - n = (?m - s) * 1024 ^ i" by (simp add: spec(1)[symmetric] left_diff_distrib)
    moreover have "\<bar>?m - s\<bar> \<le> 1 / (2 * 10 ^ p)" by (rule round_scaled_error) simp
    ultimately have "\<bar>?m * 1024 ^ i - n\<bar> = \<bar>?m - s\<bar> * 1024 ^ i" "\<bar>?m - s\<bar> * 1024 ^ i \<le> 1 / (2 * 10 ^ p) * 1024 ^ i"
      by (simp_all only: abs_mult, simp) (rule mult_right_mono, simp_all)
    then show ?thesis by simp
  qed
  moreover have bound: "n \<le> 1024 ^ i * (1024 * nine_tenths)"
    using mult_left_mono[OF spec(3), of "1024 ^ i"] spec(1) by (simp add: mult.commute)
  moreover have up: "i = 0 \<or> 1024 ^ i * nine_tenths < n" using spec(1,4) by (auto simp: mult.commute)
  moreover have "(i < 9) = (n \<le> 1024 ^ 9 * nine_tenths)"
  proof
    assume "i < 9"
    then have "(1024 :: rat) ^ i * 1024 \<le> 1024 ^ 9" using power_increasing[of "Suc i" 9 "1024 :: rat"] by simp
    moreover have "0 < nine_tenths" by (simp add: nine_tenths_def)
    ultimately have "1024 ^ i * (1024 * nine_tenths) \<le> 1024 ^ 9 * nine_tenths"
      using mult_right_mono[of "1024 ^ i * 1024" "1024 ^ 9" nine_tenths] by (simp only: mult.assoc less_imp_le)
    then show "n \<le> 1024 ^ 9 * nine_tenths" using bound by linarith
  next
    assume n: "n \<le> 1024 ^ 9 * nine_tenths"
    show "i < 9"
    proof (rule ccontr)
      assume "\<not> i < 9"
      then have "(1024 :: rat) ^ 9 \<le> 1024 ^ i" by (intro power_increasing) simp_all
      moreover have "0 < nine_tenths" by (simp add: nine_tenths_def)
      ultimately have "1024 ^ 9 * nine_tenths \<le> 1024 ^ i * nine_tenths" by (simp add: mult_right_mono)
      then show False using up n \<open>\<not> i < 9\<close> by auto
    qed
  qed
  ultimately show ?thesis by (intro exI[of _ i] exI[of _ ?m] conjI)
qed

section \<open>Times\<close>

lemma nat_to_str_small:
  "k < 100 \<Longrightarrow> nat_to_str k = (if k < 10 then [digit_char k] else [digit_char (k div 10), digit_char (k mod 10)])"
  by (subst nat_to_str.simps, subst nat_to_str.simps) auto

definition colon_parts :: "string \<Rightarrow> nat list" where
  "colon_parts s = map (digits_val 10 digit_val) (split_on (\<lambda>c. c = CHR '':'') s)"

definition read_time :: "string \<Rightarrow> nat" where
  "read_time s = foldl (\<lambda>a p. 60 * a + p) 0 (colon_parts s)"

lemma rat_mod_of_nat: "0 < m \<Longrightarrow> rat_mod (of_nat n) m = of_nat (n mod m)"
proof -
  assume "0 < m"
  have "\<lfloor>of_nat n / of_nat m :: rat\<rfloor> = int (n div m)" by (rule floor_divide_of_nat_eq)
  then have "rat_mod (of_nat n) m = of_nat n - of_nat m * of_nat (n div m)" by (simp add: rat_mod_def)
  also have "\<dots> = of_nat (n mod m)"
  proof -
    have "(of_nat n :: rat) = of_nat m * of_nat (n div m) + of_nat (n mod m)" by (metis mult_div_mod_eq of_nat_add of_nat_mult)
    then show ?thesis by simp
  qed
  finally show ?thesis .
qed

definition two :: "nat \<Rightarrow> string" where
  "two k = (if k < 10 then CHR ''0'' # nat_to_str k else nat_to_str k)"

lemma formatSeconds_nat: "k < 60 \<Longrightarrow> formatSeconds (of_nat k) 0 = two k"
  by (auto simp: formatSeconds_def rat_to_str_of_nat two_def nat_to_str_small)

lemma floor_nat_div: "\<lfloor>of_nat n / 60 :: rat\<rfloor> = int (n div 60)" "\<lfloor>of_nat n / 3600 :: rat\<rfloor> = int (n div 3600)"
  using floor_divide_of_nat_eq[of n 60, where 'a = rat] floor_divide_of_nat_eq[of n 3600, where 'a = rat] by simp_all

lemma secsToTime_nat: "secsToTime (of_nat n) 0 =
    (if n < 60 then nat_to_str n else if n < 3600 then nat_to_str (n div 60) @ '':'' @ two (n mod 60)
     else nat_to_str (n div 3600) @ '':'' @ two (n mod 3600 div 60) @ '':'' @ two (n mod 60))"
proof -
  have m: "rat_mod (of_nat n) 60 = of_nat (n mod 60)" "rat_mod (of_nat n) 3600 = of_nat (n mod 3600)"
    by (simp_all add: rat_mod_of_nat)
  have lt: "(of_nat n :: rat) < 60 \<longleftrightarrow> n < 60" "(of_nat n :: rat) < 60 * 60 \<longleftrightarrow> n < 3600"
    by (metis of_nat_less_iff of_nat_numeral, simp)
  have s: "int (n mod 3600 div 60) < 10 \<longleftrightarrow> n mod 3600 div 60 < 10" by linarith
  show ?thesis
    unfolding secsToTime_def lt m floor_nat_div Let_def s
    by (simp add: rat_to_str_of_nat formatSeconds_nat int_to_str_def two_def nat_div_distrib)
qed

lemma digits_val_two: "k < 100 \<Longrightarrow> digits_val 10 digit_val (two k) = k"
proof -
  assume k: "k < 100"
  have "digit_val (CHR ''0'') = 0" by code_simp
  then have "digits_val 10 digit_val (CHR ''0'' # s) = digits_val 10 digit_val s" for s by (simp add: digits_val_def)
  then show ?thesis by (simp add: two_def nat_to_str_val)
qed

lemma two_plain: "k < 100 \<Longrightarrow> length (two k) = 2 \<and> (\<forall>c \<in> set (two k). c \<noteq> CHR '':'')"
proof -
  assume k: "k < 100"
  have "\<not> is_digit (CHR '':'')" by code_simp
  then have "\<forall>c \<in> set (nat_to_str k). c \<noteq> CHR '':''" using all_digits_nat[of k] by auto
  then show ?thesis using k by (auto simp: two_def nat_to_str_small)
qed

lemma nat_no_colon: "\<forall>c \<in> set (nat_to_str n). c \<noteq> CHR '':''"
proof -
  have "\<not> is_digit (CHR '':'')" by code_simp
  then show ?thesis using all_digits_nat[of n] by auto
qed

lemma split_colon_join:
  assumes "\<forall>s \<in> set ss. \<forall>c \<in> set s. c \<noteq> CHR '':''" "ss \<noteq> []"
  shows "split_on (\<lambda>c. c = CHR '':'') (join '':'' ss) = ss"
  using assms by (intro split_on_join) auto

lemma secsToTime_parts: "split_on (\<lambda>c. c = CHR '':'') (secsToTime (of_nat n) 0) =
    (if n < 60 then [nat_to_str n] else if n < 3600 then [nat_to_str (n div 60), two (n mod 60)]
     else [nat_to_str (n div 3600), two (n mod 3600 div 60), two (n mod 60)])"
proof -
  have t: "\<forall>c \<in> set (two (n mod 60)). c \<noteq> CHR '':''" "\<forall>c \<in> set (two (n mod 3600 div 60)). c \<noteq> CHR '':''"
    using two_plain[of "n mod 60"] two_plain[of "n mod 3600 div 60"] by auto
  consider "n < 60" | "\<not> n < 60" "n < 3600" | "\<not> n < 3600" by blast
  then show ?thesis
  proof cases
    case 1
    then show ?thesis using split_colon_join[of "[nat_to_str n]"] nat_no_colon by (simp add: secsToTime_nat)
  next
    case 2
    then show ?thesis using split_colon_join[of "[nat_to_str (n div 60), two (n mod 60)]"] nat_no_colon t by (simp add: secsToTime_nat)
  next
    case 3
    then show ?thesis
      using split_colon_join[of "[nat_to_str (n div 3600), two (n mod 3600 div 60), two (n mod 60)]"] nat_no_colon t
      by (simp add: secsToTime_nat)
  qed
qed

text \<open>
  For whole seconds the text of secsToTime can be read back: hours, minutes and seconds in base sixty give the number, and every
  part after the first has two digits.
\<close>

lemma secsToTime_reads_back:
  "read_time (secsToTime (of_nat n) 0) = n
    \<and> set (map length (tl (split_on (\<lambda>c. c = CHR '':'') (secsToTime (of_nat n) 0)))) \<subseteq> {2}"
proof -
  have v: "digits_val 10 digit_val (two (n mod 60)) = n mod 60" "digits_val 10 digit_val (two (n mod 3600 div 60)) = n mod 3600 div 60"
    by (simp_all add: digits_val_two)
  have l: "length (two (n mod 60)) = 2" "length (two (n mod 3600 div 60)) = 2"
    using two_plain[of "n mod 60"] two_plain[of "n mod 3600 div 60"] by auto
  have "n mod 3600 mod 60 = n mod 60" by (rule mod_mod_cancel) simp
  then have "60 * (n mod 3600 div 60) + n mod 60 = n mod 3600" using mult_div_mod_eq[of 60 "n mod 3600"] by simp
  moreover have "3600 * (n div 3600) + n mod 3600 = n" by (rule mult_div_mod_eq)
  moreover have "60 * (60 * a + b) + c = 3600 * a + (60 * b + c)" for a b c :: nat by simp
  ultimately have "60 * (60 * (n div 3600) + n mod 3600 div 60) + n mod 60 = n" by metis
  then have "read_time (secsToTime (of_nat n) 0) = n"
    unfolding read_time_def colon_parts_def secsToTime_parts by (simp add: v nat_to_str_val)
  moreover have "set (map length (tl (split_on (\<lambda>c. c = CHR '':'') (secsToTime (of_nat n) 0)))) \<subseteq> {2}"
    unfolding secsToTime_parts by (simp add: l)
  ultimately show ?thesis by blast
qed

text \<open>With rounding the seconds can reach sixty, or gain a third digit.\<close>

lemma secsToTime_rounding:
  "secsToTime (119999 / 1000) 2 = ''1:60.00''" "secsToTime (69996 / 1000) 2 = ''1:010.00''"
proof -
  have d: "two 0 = ''00''" "nat_to_str 60 = ''60''" "nat_to_str 10 = ''10''" "nat_to_str 0 = ''0''" "nat_to_str (Suc 0) = ''1''" by code_simp+
  have fl: "\<lfloor>119999 / 60000 :: rat\<rfloor> = 1" "\<lfloor>5833 / 5000 :: rat\<rfloor> = 1" "\<lfloor>30002 / 5 :: rat\<rfloor> = 6000" "\<lfloor>10001 / 10 :: rat\<rfloor> = 1000"
    by (rule floor_unique; simp)+
  show "secsToTime (119999 / 1000) 2 = ''1:60.00''" "secsToTime (69996 / 1000) 2 = ''1:010.00''"
    by (simp_all add: secsToTime_def formatSeconds_def rat_mod_def toFixed_def math_round_def Let_def pad_start_def int_to_str_def d fl)
qed

section \<open>Label formats\<close>

datatype label_token = Lit char | Dir char

fun token_text :: "label_token \<Rightarrow> string" where
  "token_text (Lit c) = [c]"
| "token_text (Dir k) = [CHR ''%'', k]"

fun is_dir :: "label_token \<Rightarrow> bool" where
  "is_dir (Lit c) = False"
| "is_dir (Dir k) = True"

definition label_text :: "label_token list \<Rightarrow> string" where
  "label_text ts = concat (map token_text ts)"

definition plain_label :: "label_token list \<Rightarrow> bool" where
  "plain_label ts \<longleftrightarrow> Lit (CHR ''%'') \<notin> set ts \<and> Dir (CHR ''%'') \<notin> set ts"

definition subst_dir :: "char \<Rightarrow> string \<Rightarrow> label_token list \<Rightarrow> label_token list" where
  "subst_dir k v ts = concat (map (\<lambda>t. if t = Dir k then map Lit v else [t]) ts)"

definition subst_dirs :: "(char \<times> string) list \<Rightarrow> label_token list \<Rightarrow> label_token list" where
  "subst_dirs reps ts = concat (map (\<lambda>t. case t of
     Lit c \<Rightarrow> [t]
   | Dir k \<Rightarrow> (case map_of reps k of Some v \<Rightarrow> map Lit v | None \<Rightarrow> [t])) ts)"

lemma label_text_simps [simp]:
  "label_text [] = []" "label_text (t # ts) = token_text t @ label_text ts" "label_text (us @ vs) = label_text us @ label_text vs"
  "label_text (map Lit v) = v"
  by (simp_all add: label_text_def comp_def)

lemma plain_label_simps [simp]:
  "plain_label []" "plain_label (t # ts) \<longleftrightarrow> t \<noteq> Lit (CHR ''%'') \<and> t \<noteq> Dir (CHR ''%'') \<and> plain_label ts"
  "plain_label (us @ vs) \<longleftrightarrow> plain_label us \<and> plain_label vs"
  by (auto simp: plain_label_def)

declare find_sub.simps [simp del]

lemma find_sub_step: "\<not> starts_with pat (c # r) \<Longrightarrow> find_sub pat (c # r) = map_option (\<lambda>(p, q). (c # p, q)) (find_sub pat r)"
  by (subst find_sub.simps) simp

lemma starts_pair: "starts_with [a, b] (c # s) \<longleftrightarrow> c = a \<and> (case s of [] \<Rightarrow> False | d # _ \<Rightarrow> d = b)"
  by (cases s) (auto simp: starts_with_def)

lemma find_sub_absent: "plain_label ts \<Longrightarrow> Dir k \<notin> set ts \<Longrightarrow> find_sub [CHR ''%'', k] (label_text ts) = None"
proof (induction ts)
  case Nil
  then show ?case by (subst find_sub.simps) (simp add: starts_with_def)
next
  case (Cons t ts)
  then show ?case by (cases t) (auto simp: find_sub_step starts_pair)
qed

lemma find_sub_found:
  "plain_label us \<Longrightarrow> Dir k \<notin> set us \<Longrightarrow> find_sub [CHR ''%'', k] (label_text us @ CHR ''%'' # k # r) = Some (label_text us, r)"
proof (induction us)
  case Nil
  then show ?case by (subst find_sub.simps) (simp add: starts_with_def)
next
  case (Cons t us)
  then show ?case by (cases t) (auto simp: find_sub_step starts_pair split: list.splits)
qed

lemma expand_plain_id: "CHR ''$'' \<notin> set v \<Longrightarrow> expand_plain pre m post v = v"
  by (induction pre m post v rule: expand_plain.induct) auto

lemma subst_dir_absent: "Dir k \<notin> set ts \<Longrightarrow> subst_dir k v ts = ts"
  by (induction ts) (auto simp: subst_dir_def)

lemma subst_dir_append: "subst_dir k v (us @ vs) = subst_dir k v us @ subst_dir k v vs"
  by (simp add: subst_dir_def)

lemma replace_first_dir:
  assumes "plain_label ts" "distinct (filter is_dir ts)" "CHR ''$'' \<notin> set v"
  shows "replace_first [CHR ''%'', k] v (label_text ts) = label_text (subst_dir k v ts)"
proof (cases "Dir k \<in> set ts")
  case False
  then show ?thesis using assms(1) by (simp add: replace_first_def find_sub_absent subst_dir_absent)
next
  case True
  then obtain us vs where ts: "ts = us @ Dir k # vs" "Dir k \<notin> set us" by (meson split_list_first)
  then have vs: "Dir k \<notin> set vs" using assms(2) by auto
  have "subst_dir k v (Dir k # vs) = map Lit v @ subst_dir k v vs" by (simp add: subst_dir_def)
  then show ?thesis using assms(1,3) ts(2) vs unfolding ts(1)
    by (simp add: replace_first_def find_sub_found expand_plain_id subst_dir_append subst_dir_absent)
qed

lemma subst_dir_plain: "plain_label ts \<Longrightarrow> CHR ''%'' \<notin> set v \<Longrightarrow> plain_label (subst_dir k v ts)"
  by (auto simp: plain_label_def subst_dir_def split: if_splits)

lemma filter_dir_subst: "filter is_dir (subst_dir k v ts) = filter (\<lambda>t. t \<noteq> Dir k) (filter is_dir ts)"
proof -
  have "filter is_dir (map Lit v) = []" by (simp add: filter_empty_conv)
  then show ?thesis by (induction ts) (auto simp: subst_dir_def)
qed

lemma subst_dirs_Cons: "subst_dirs reps (subst_dir k v ts) = subst_dirs ((k, v) # reps) ts"
proof -
  have "subst_dirs reps (map Lit w) = map Lit w" for w by (induction w) (simp_all add: subst_dirs_def)
  then show ?thesis by (induction ts) (auto simp: subst_dirs_def subst_dir_def split: label_token.splits)
qed

lemma fold_replace_dirs:
  "\<lbrakk>plain_label ts; distinct (filter is_dir ts); \<forall>(k, v) \<in> set reps. CHR ''%'' \<notin> set v \<and> CHR ''$'' \<notin> set v\<rbrakk>
    \<Longrightarrow> fold (\<lambda>(k, v). replace_first [CHR ''%'', k] v) reps (label_text ts) = label_text (subst_dirs reps ts)
      \<and> plain_label (subst_dirs reps ts)"
proof (induction reps arbitrary: ts)
  case Nil
  have "subst_dirs [] ts = ts" by (induction ts) (auto simp: subst_dirs_def split: label_token.splits)
  then show ?case using Nil by simp
next
  case (Cons kv reps)
  obtain k v where kv: "kv = (k, v)" by fastforce
  then have v: "CHR ''%'' \<notin> set v" "CHR ''$'' \<notin> set v" using Cons.prems(3) by auto
  have "distinct (filter is_dir (subst_dir k v ts))" using Cons.prems(2) unfolding filter_dir_subst by (rule distinct_filter)
  from Cons.IH[OF subst_dir_plain[OF Cons.prems(1) v(1)] this] show ?case
    using Cons.prems(3) replace_first_dir[OF Cons.prems(1,2) v(2)] by (simp add: kv subst_dirs_Cons)
qed

lemma translate_plain: "c \<noteq> CHR ''%'' \<Longrightarrow> translate_label name (c # s) = c # translate_label name s"
  by (cases s) simp_all

lemma translate_label_text:
  "plain_label ts \<Longrightarrow> translate_label name (label_text ts) = label_text (subst_dirs (label_replacements name) ts)"
proof (induction ts)
  case (Cons t ts)
  then show ?case
    by (cases t) (auto simp: translate_plain subst_dirs_def split: option.splits)
qed (simp add: subst_dirs_def)

text \<open>
  A label format in which no directive is repeated and no percent sign stands alone is converted as intended, every directive
  where it stands, in spite of the 27 replacements working on each other's results; the monitor's name must be
  free of percent and dollar signs.
\<close>

lemma label_format_translated:
  assumes "plain_label ts" "distinct (filter is_dir ts)" "set name \<inter> {CHR ''%'', CHR ''$''} = {}"
  shows "convertLabelFormat (label_text ts) name = translate_label name (label_text ts)"
proof -
  define reps where "reps = butlast (label_replacements name)"
  have split: "label_replacements name = reps @ [(CHR ''%'', ''%'')]"
    by (simp add: reps_def label_replacements_def)
  have "\<forall>(k, v) \<in> set reps. CHR ''%'' \<notin> set v \<and> CHR ''$'' \<notin> set v"
    using assms(3) by (auto simp: reps_def label_replacements_def)
  note f = fold_replace_dirs[OF assms(1,2) this]
  have no: "Dir (CHR ''%'') \<notin> set us" if "plain_label us" for us using that by (simp add: plain_label_def)
  have "convertLabelFormat (label_text ts) name = replace_first [CHR ''%'', CHR ''%''] ''%'' (label_text (subst_dirs reps ts))"
    using f by (simp add: convertLabelFormat_def split)
  also have "\<dots> = label_text (subst_dirs reps ts)"
    using f no by (simp add: replace_first_def find_sub_absent)
  also have "subst_dirs reps ts = subst_dirs (label_replacements name) ts"
    using no[OF assms(1)] unfolding subst_dirs_def split
    by (intro arg_cong[of _ _ concat] map_cong refl) (auto simp: map_of_append map_add_def split: label_token.splits option.splits)
  finally show ?thesis by (simp add: translate_label_text[OF assms(1)])
qed

text \<open>A repeated directive stays, and a doubled percent sign does not protect what follows it.\<close>

lemma label_format_repeats:
  "convertLabelFormat ''%H-%H'' ''x'' = ''HH-%H''" "convertLabelFormat ''%%d'' ''x'' = ''%DD''"
  by code_simp+

section \<open>Cookies\<close>

definition cookie_name :: "string \<Rightarrow> bool" where
  "cookie_name n \<longleftrightarrow> n \<noteq> [] \<and> cookie_trim n = n \<and> CHR ''='' \<notin> set n \<and> CHR '';'' \<notin> set n"

definition cookie_ok :: "string \<Rightarrow> bool" where
  "cookie_ok v \<longleftrightarrow> cookie_trim v = v \<and> CHR '';'' \<notin> set v"

definition jar_ok :: "cookie_jar \<Rightarrow> bool" where
  "jar_ok jar \<longleftrightarrow> (\<forall>c \<in> set jar. cookie_name (fst c) \<and> cookie_ok (fst (snd c))) \<and> distinct (map fst jar)"

lemma cookie_trim_hd: "cookie_trim n = n \<Longrightarrow> n \<noteq> [] \<Longrightarrow> hd n \<noteq> CHR '' ''"
proof
  assume n: "cookie_trim n = n" "n \<noteq> []" "hd n = CHR '' ''"
  let ?w = "\<lambda>c. c = CHR '' '' \<or> c = CHR 0x09"
  have "length (dropWhile ?w n) < length n" using n(2,3) length_dropWhile_le[of ?w "tl n"] by (cases n) (auto simp: less_Suc_eq_le)
  moreover have "length (cookie_trim n) \<le> length (dropWhile ?w n)"
    using length_dropWhile_le[of ?w "rev (dropWhile ?w n)"] by (simp add: cookie_trim_def Let_def)
  ultimately show False using n(1) by simp
qed

definition pair_text :: "string \<times> string \<times> lifetime \<Rightarrow> string" where
  "pair_text c = fst c @ ''='' @ fst (snd c)"

lemma split_semicolons:
  "\<forall>t \<in> set (s # ss). CHR '';'' \<notin> set t
    \<Longrightarrow> split_on (\<lambda>c. c = CHR '';'') (join ''; '' (s # ss)) = s # map (Cons (CHR '' '')) ss"
proof (induction ss arbitrary: s)
  case Nil
  then show ?case by (auto intro: split_on_no_sep)
next
  case (Cons t ss)
  have "join ''; '' (s # t # ss) = s @ CHR '';'' # join ''; '' ((CHR '' '' # t) # ss)" by (cases ss) simp_all
  moreover have "split_on (\<lambda>c. c = CHR '';'') (join ''; '' ((CHR '' '' # t) # ss)) = (CHR '' '' # t) # map (Cons (CHR '' '')) ss"
    using Cons.prems by (intro Cons.IH) simp
  moreover have "\<forall>c \<in> set s. \<not> c = CHR '';''" using Cons.prems by auto
  then have "split_on (\<lambda>c. c = CHR '';'') (s @ CHR '';'' # u) = s # split_on (\<lambda>c. c = CHR '';'') u" for u
    by (intro split_on_append_sep) simp_all
  ultimately show ?case by (simp only: list.map)
qed

lemma starts_pair_text:
  assumes "CHR ''='' \<notin> set m" "CHR ''='' \<notin> set (fst c)"
  shows "starts_with (m @ ''='') (pair_text c) \<longleftrightarrow> m = fst c"
proof
  assume "starts_with (m @ ''='') (pair_text c)"
  then obtain r where r: "fst c @ CHR ''='' # fst (snd c) = m @ CHR ''='' # r"
    unfolding starts_with_def pair_text_def by (metis append_Cons append_Nil append_assoc append_take_drop_id)
  have t: "takeWhile (\<lambda>x. x \<noteq> CHR ''='') (n @ CHR ''='' # u) = n" if "CHR ''='' \<notin> set n" for n u
    using that by (induction n) auto
  show "m = fst c" using t[OF assms(2)] t[OF assms(1)] r by metis
qed (simp add: starts_with_def pair_text_def)

lemma drop_spaces_pair: "cookie_name (fst c) \<Longrightarrow> dropWhile (\<lambda>x. x = CHR '' '') (pair_text c) = pair_text c"
  using cookie_trim_hd[of "fst c"] by (cases "fst c") (auto simp: cookie_name_def pair_text_def)

lemma cookie_loop_pairs:
  assumes "CHR ''='' \<notin> set m" "\<forall>c \<in> set jar. cookie_name (fst c)"
  shows "cookie_loop (m @ ''='') (map (Cons (CHR '' '')) (map pair_text jar)) = map_option fst (map_of jar m)"
    and "cookie_loop (m @ ''='') (map pair_text jar) = map_option fst (map_of jar m)"
proof -
  have c: "dropWhile (\<lambda>x. x = CHR '' '') (pair_text c) = pair_text c" "starts_with (m @ ''='') (pair_text c) = (m = fst c)"
    if "c \<in> set jar" for c
  proof -
    have n: "cookie_name (fst c)" using assms(2) that by blast
    then show "dropWhile (\<lambda>x. x = CHR '' '') (pair_text c) = pair_text c" by (rule drop_spaces_pair)
    show "starts_with (m @ ''='') (pair_text c) = (m = fst c)" using n assms(1) by (intro starts_pair_text) (simp_all add: cookie_name_def)
  qed
  have d: "drop (Suc (length m)) (pair_text (m, v, t)) = v" for v t by (simp add: pair_text_def)
  show "cookie_loop (m @ ''='') (map (Cons (CHR '' '')) (map pair_text jar)) = map_option fst (map_of jar m)"
    using c by (induction jar) (auto simp: Let_def d)
  show "cookie_loop (m @ ''='') (map pair_text jar) = map_option fst (map_of jar m)"
    using c by (induction jar) (auto simp: Let_def d)
qed

lemma cookie_loop_jar:
  assumes "jar_ok jar" "CHR ''='' \<notin> set m"
  shows "cookie_loop (m @ ''='') (split_on (\<lambda>c. c = CHR '';'') (document_cookie jar)) = map_option fst (map_of jar m)"
proof -
  have names: "\<forall>c \<in> set jar. cookie_name (fst c)" using assms(1) by (simp add: jar_ok_def)
  have "document_cookie jar = join ''; '' (map pair_text jar)"
    using names unfolding document_cookie_def
    by (intro arg_cong[of _ _ "join _"] map_cong refl) (auto simp: pair_text_def cookie_name_def)
  moreover have "\<forall>t \<in> set (map pair_text jar). CHR '';'' \<notin> set t"
    using assms(1) by (auto simp: jar_ok_def pair_text_def cookie_name_def cookie_ok_def)
  ultimately show ?thesis
  proof (cases jar)
    case Nil
    then show ?thesis by (simp add: document_cookie_def Let_def starts_with_def)
  next
    case (Cons c cs)
    then have "split_on (\<lambda>c. c = CHR '';'') (document_cookie jar) = pair_text c # map (Cons (CHR '' '')) (map pair_text cs)"
      using split_semicolons[of "pair_text c" "map pair_text cs"] \<open>document_cookie jar = _\<close> \<open>\<forall>t \<in> set (map pair_text jar). _\<close> by simp
    moreover have "cookie_loop (m @ ''='') (pair_text c # us) = (if m = fst c then Some (fst (snd c)) else cookie_loop (m @ ''='') us)" for us
      using cookie_loop_pairs(2)[of m "[c]"] names assms(2) Cons by (auto simp: Let_def split: if_splits)
    ultimately show ?thesis
      using cookie_loop_pairs(1)[of m cs] names assms(2) Cons by (cases c) auto
  qed
qed

lemma takeWhile_name: "c \<notin> set n \<Longrightarrow> takeWhile (\<lambda>x. x \<noteq> c) (n @ c # u) = n" "c \<notin> set n \<Longrightarrow> dropWhile (\<lambda>x. x \<noteq> c) (n @ c # u) = c # u"
  by (induction n) auto

lemma setCookie_put:
  assumes "cookie_name n" "cookie_ok (cookie_text v)"
  shows "setCookie n v secs jar = jar_put n (cookie_text v) (cookie_lifetime n secs) jar"
proof -
  have "takeWhile (\<lambda>c. c \<noteq> CHR '';'') (n @ ''='' @ cookie_text v) = n @ ''='' @ cookie_text v"
    using assms by (intro takeWhile_eq_all_conv[THEN iffD2]) (auto simp: cookie_name_def cookie_ok_def)
  then show ?thesis
    using assms unfolding setCookie_def document_cookie_set_def
    by (simp only: Let_def) (simp add: takeWhile_name cookie_name_def cookie_ok_def)
qed

lemma map_of_put:
  assumes "n \<noteq> []" "case t of Expires s \<Rightarrow> 0 < s | _ \<Rightarrow> True"
  shows "map_of (jar_put n v t jar) = (map_of jar)(n \<mapsto> (v, t))"
proof -
  have live: "\<not> (case t of Expires s \<Rightarrow> s \<le> 0 | _ \<Rightarrow> False)" using assms(2) by (auto split: lifetime.splits)
  have "n \<in> fst ` set jar \<Longrightarrow> map_of (map (\<lambda>c. if fst c = n then (n, v, t) else c) jar) = (map_of jar)(n \<mapsto> (v, t))"
  proof (induction jar)
    case (Cons c jar)
    show ?case
    proof (cases "n \<in> fst ` set jar")
      case True
      then show ?thesis using Cons.IH by (cases c) (auto simp: fun_eq_iff)
    next
      case False
      then have "map (\<lambda>c. if fst c = n then (n, v, t) else c) jar = jar" by (intro map_idI) force
      then show ?thesis using Cons.prems False by (cases c) (auto simp: fun_eq_iff)
    qed
  qed simp
  moreover have "map_of (jar @ [(n, v, t)]) = (map_of jar)(n \<mapsto> (v, t))" if "n \<notin> fst ` set jar"
  proof -
    have "map_of jar n = None" using that by (simp add: map_of_eq_None_iff)
    then show ?thesis by (auto simp: map_add_def fun_eq_iff split: option.splits)
  qed
  ultimately show ?thesis using assms(1) live by (auto simp: jar_put_def)
qed

lemma jar_put_ok:
  assumes "jar_ok jar" "cookie_name n" "cookie_ok v"
  shows "jar_ok (jar_put n v t jar)"
proof -
  have m: "map fst (map (\<lambda>c. if fst c = n then (n, v, t) else c) jar) = map fst jar" by (induction jar) auto
  have "jar_ok (map (\<lambda>c. if fst c = n then (n, v, t) else c) jar)"
    using assms unfolding jar_ok_def m by auto
  moreover have "jar_ok (filter (\<lambda>c. fst c \<noteq> n) jar)" using assms(1) by (simp add: jar_ok_def distinct_map_filter)
  moreover have "jar_ok (jar @ [(n, v, t)])" if "n \<notin> fst ` set jar" using assms that by (auto simp: jar_ok_def)
  ultimately show ?thesis using assms(1) unfolding jar_put_def by presburger
qed

text \<open>
  C24. A cookie that setCookie writes is the one getCookie reads, unchanged (a boolean false as the empty text, JSON parsed), every other
  cookie reads as before, and the jar stays well-formed; for names without equals sign and texts without semicolon and outer blanks.
\<close>

theorem cookie_read_back:
  assumes "jar_ok jar" "cookie_name n" "cookie_ok (cookie_text v)" "0 \<le> secs" "CHR ''='' \<notin> set m"
  shows "getCookie parse m (setCookie n v secs jar) =
      (if m = n then (case parse (cookie_text v) of None \<Rightarrow> Plain (cookie_text v) | Some x \<Rightarrow> Parsed x) else getCookie parse m jar)
    \<and> jar_ok (setCookie n v secs jar)"
proof -
  have ok: "jar_ok (setCookie n v secs jar)" using assms(1-3) by (simp add: setCookie_put jar_put_ok)
  have "map_of (setCookie n v secs jar) = (map_of jar)(n \<mapsto> (cookie_text v, cookie_lifetime n secs))"
    using assms(2-4) by (simp add: setCookie_put cookie_name_def cookie_lifetime_def map_of_put)
  then have "map_option fst (map_of (setCookie n v secs jar) m) = (if m = n then Some (cookie_text v) else map_option fst (map_of jar m))"
    by simp
  then show ?thesis
    using ok unfolding getCookie_def cookie_loop_jar[OF ok assms(5)] cookie_loop_jar[OF assms(1,5)] by simp
qed

theorem cookie_read_back_witness:
  "getCookie (\<lambda>s. if s = ''[1,2]'' then Some [1::nat, 2] else None) ''zmMonitors''
     (setCookie ''zmMonitors'' (Json ''[1,2]'') 0 (setCookie ''zmMonitors2'' (Flag False) 60 [])) = Parsed [1, 2]"
proof -
  have j: "jar_ok (setCookie ''zmMonitors2'' (Flag False) 60 [])" by code_simp
  have n: "cookie_name ''zmMonitors''" "cookie_ok (cookie_text (Json ''[1,2]''))" "CHR ''='' \<notin> set ''zmMonitors''" by code_simp+
  show ?thesis
    using cookie_read_back[OF j n(1,2) order_refl n(3), where parse = "\<lambda>s. if s = ''[1,2]'' then Some [1::nat, 2] else None"] by simp
qed

lemma cookie_cut_at_semicolon:
  "getCookie (\<lambda>s. None :: unit option) ''zmFilter'' (setCookie ''zmFilter'' (Text ''a;b'') 0 []) = Plain ''a''"
  by code_simp

section \<open>UUIDs\<close>

declare nat_to_hex_lower.simps [simp del]

lemma unat_byte: "unat (b :: 8 word) < 256"
  using unsigned_less[of b] by simp

lemma hex_byte_digits: "hex_byte b = [hex_lower (unat b div 16), hex_lower (unat b mod 16)]"
proof -
  note lt = unat_byte[of b]
  have one: "k < 16 \<Longrightarrow> nat_to_hex_lower k = [hex_lower k]" for k by (subst nat_to_hex_lower.simps) simp
  have z: "hex_lower 0 = CHR ''0''" by code_simp
  show ?thesis
  proof (cases "unat b < 16")
    case True
    then show ?thesis by (simp add: hex_byte_def pad_start_def one z)
  next
    case False
    then have "nat_to_hex_lower (unat b) = [hex_lower (unat b div 16), hex_lower (unat b mod 16)]"
      using lt by (subst nat_to_hex_lower.simps) (simp add: one)
    then show ?thesis by (simp add: hex_byte_def pad_start_def)
  qed
qed

lemma less_16_cases: "(n::nat) < 16 \<longleftrightarrow> n \<in> {0, 1, 2, 3, 4, 5, 6, 7, 8, 9, 10, 11, 12, 13, 14, 15}"
  by simp presburger

lemma hex_lower_inj: "a < 16 \<Longrightarrow> b < 16 \<Longrightarrow> hex_lower a = hex_lower b \<longleftrightarrow> a = b"
proof -
  have "distinct ''0123456789abcdef''" by simp
  then show "a < 16 \<Longrightarrow> b < 16 \<Longrightarrow> ?thesis" by (simp add: hex_lower_def nth_eq_iff_index_eq)
qed

lemma hex_lower_in: "a < 16 \<Longrightarrow> hex_lower a \<in> set ''0123456789abcdef''"
  unfolding hex_lower_def by (rule nth_mem) simp

lemma hex_byte_inj: "hex_byte b = hex_byte c \<longleftrightarrow> b = c"
proof
  assume eq: "hex_byte b = hex_byte c"
  have lt: "unat b div 16 < 16" "unat c div 16 < 16" using unat_byte[of b] unat_byte[of c] by simp_all
  then have "unat b div 16 = unat c div 16" "unat b mod 16 = unat c mod 16"
    using eq by (simp_all add: hex_byte_digits hex_lower_inj)
  then have "unat b = unat c" by (metis mult_div_mod_eq)
  then show "b = c" by (rule word_unat_eq_iff[THEN iffD2])
qed simp

lemma sixteen: "length bs = 16 \<Longrightarrow> \<exists>b0 b1 b2 b3 b4 b5 b6 b7 b8 b9 b10 b11 b12 b13 b14 b15.
    bs = [b0, b1, b2, b3, b4, b5, b6, b7, b8, b9, b10, b11, b12, b13, b14, b15]"
  by (simp add: eval_nat_numeral length_Suc_conv) blast

lemma version_nibble: "unat ((b AND 0x0f) OR 0x40 :: 8 word) div 16 = 4"
proof -
  have "unat b AND 15 = unat b mod 16"
    using take_bit_eq_mask[of 4 "unat b"] by (simp add: take_bit_eq_mod mask_eq_exp_minus_1)
  then have "unat ((b AND 0x0f) OR 0x40 :: 8 word) = (unat b mod 16) OR 64"
    by (simp add: unsigned_or_eq unsigned_and_eq)
  moreover have "unat b mod 16 \<in> {0, 1, 2, 3, 4, 5, 6, 7, 8, 9, 10, 11, 12, 13, 14, 15}"
    using less_16_cases[of "unat b mod 16"] by simp
  ultimately show ?thesis by auto
qed

lemma variant_nibble: "unat ((b AND 0x3f) OR 0x80 :: 8 word) div 16 \<in> {8, 9, 10, 11}"
proof -
  have "unat b AND 63 = unat b mod 64"
    using take_bit_eq_mask[of 6 "unat b"] by (simp add: take_bit_eq_mod mask_eq_exp_minus_1)
  then have eq: "unat ((b AND 0x3f) OR 0x80 :: 8 word) = (unat b mod 64) OR 128"
    by (simp add: unsigned_or_eq unsigned_and_eq)
  have "((unat b mod 64) OR 128) div 16 = (unat b mod 64 div 16) OR 8"
    using drop_bit_or[of 4 "unat b mod 64" 128] by (simp add: drop_bit_eq_div)
  moreover have "k < 4 \<Longrightarrow> k \<in> {0, 1, 2, 3}" for k :: nat by simp presburger
  then have "unat b mod 64 div 16 \<in> {0, 1, 2, 3}" by (simp only: less_mult_imp_div_less)
  ultimately show ?thesis unfolding eq by auto
qed

lemma version_bits: "((x :: 8 word) AND 0x0f) OR 0x40 = (y AND 0x0f) OR 0x40 \<longleftrightarrow> x AND 0x0f = y AND 0x0f"
proof
  assume "(x AND 0x0f) OR 0x40 = (y AND 0x0f) OR 0x40"
  then have "((x AND 0x0f) OR 0x40) AND 0x0f = ((y AND 0x0f) OR 0x40) AND 0x0f" by simp
  then show "x AND 0x0f = y AND 0x0f" by (simp add: bit.conj_disj_distrib2 and.assoc)
qed simp

lemma variant_bits: "((x :: 8 word) AND 0x3f) OR 0x80 = (y AND 0x3f) OR 0x80 \<longleftrightarrow> x AND 0x3f = y AND 0x3f"
proof
  assume "(x AND 0x3f) OR 0x80 = (y AND 0x3f) OR 0x80"
  then have "((x AND 0x3f) OR 0x80) AND 0x3f = ((y AND 0x3f) OR 0x80) AND 0x3f" by simp
  then show "x AND 0x3f = y AND 0x3f" by (simp add: bit.conj_disj_distrib2 and.assoc)
qed simp

lemma uuid_bytes_same:
  assumes "length bytes = 16" "length bytes' = 16"
  shows "uuid_bytes bytes = uuid_bytes bytes' \<longleftrightarrow>
    take 6 bytes = take 6 bytes' \<and> bytes ! 6 AND 0x0f = bytes' ! 6 AND 0x0f \<and> bytes ! 7 = bytes' ! 7 \<and>
    bytes ! 8 AND 0x3f = bytes' ! 8 AND 0x3f \<and> drop 9 bytes = drop 9 bytes'"
proof -
  obtain a0 a1 a2 a3 a4 a5 a6 a7 a8 a9 a10 a11 a12 a13 a14 a15
    where a: "bytes = [a0, a1, a2, a3, a4, a5, a6, a7, a8, a9, a10, a11, a12, a13, a14, a15]"
    using sixteen[OF assms(1)] by blast
  obtain b0 b1 b2 b3 b4 b5 b6 b7 b8 b9 b10 b11 b12 b13 b14 b15
    where b: "bytes' = [b0, b1, b2, b3, b4, b5, b6, b7, b8, b9, b10, b11, b12, b13, b14, b15]"
    using sixteen[OF assms(2)] by blast
  show ?thesis by (simp add: a b uuid_bytes_def version_bits variant_bits)
qed
text \<open>
  C39. Where the browser gives random bytes only, the UUID is one of version 4: 36 characters, hyphens in their four places, lower-case
  hexadecimal digits elsewhere, version digit 4 and variant digit 8, 9, a or b; and two sequences of sixteen bytes give the same UUID exactly when they agree in every bit
  except the six that version and variant overwrite.
\<close>

theorem uuid_version4:
  assumes "length bytes = 16" "length bytes' = 16"
  shows "\<exists>u. generateUUID (RandomValues bytes) = Some u \<and> length u = 36
      \<and> map ((!) u) [8, 13, 18, 23] = ''----'' \<and> u ! 14 = CHR ''4'' \<and> u ! 19 \<in> set ''89ab''
      \<and> set (filter (\<lambda>c. c \<noteq> CHR ''-'') u) \<subseteq> set ''0123456789abcdef''
      \<and> (generateUUID (RandomValues bytes') = Some u) =
        (take 6 bytes = take 6 bytes' \<and> bytes ! 6 AND 0x0f = bytes' ! 6 AND 0x0f \<and> bytes ! 7 = bytes' ! 7 \<and>
         bytes ! 8 AND 0x3f = bytes' ! 8 AND 0x3f \<and> drop 9 bytes = drop 9 bytes')"
proof -
  obtain a0 a1 a2 a3 a4 a5 a6 a7 a8 a9 a10 a11 a12 a13 a14 a15
    where a: "bytes = [a0, a1, a2, a3, a4, a5, a6, a7, a8, a9, a10, a11, a12, a13, a14, a15]"
    using sixteen[OF assms(1)] by blast
  obtain b0 b1 b2 b3 b4 b5 b6 b7 b8 b9 b10 b11 b12 b13 b14 b15
    where b: "bytes' = [b0, b1, b2, b3, b4, b5, b6, b7, b8, b9, b10, b11, b12, b13, b14, b15]"
    using sixteen[OF assms(2)] by blast
  let ?v = "\<lambda>x :: 8 word. (x AND 0x0f) OR 0x40" and ?r = "\<lambda>x :: 8 word. (x AND 0x3f) OR 0x80"
  have ua: "uuid_bytes bytes = [a0, a1, a2, a3, a4, a5, ?v a6, a7, ?r a8, a9, a10, a11, a12, a13, a14, a15]"
    by (simp add: a uuid_bytes_def)
  have ub: "uuid_bytes bytes' = [b0, b1, b2, b3, b4, b5, ?v b6, b7, ?r b8, b9, b10, b11, b12, b13, b14, b15]"
    by (simp add: b uuid_bytes_def)
  have uuid_eq: "uuid_text [c0, c1, c2, c3, c4, c5, c6, c7, c8, c9, c10, c11, c12, c13, c14, c15] =
      hex_byte c0 @ hex_byte c1 @ hex_byte c2 @ hex_byte c3 @ ''-'' @ hex_byte c4 @ hex_byte c5 @ ''-'' @ hex_byte c6 @ hex_byte c7 @ ''-''
      @ hex_byte c8 @ hex_byte c9 @ ''-'' @ hex_byte c10 @ hex_byte c11 @ hex_byte c12 @ hex_byte c13 @ hex_byte c14 @ hex_byte c15"
    for c0 c1 c2 c3 c4 c5 c6 c7 c8 c9 c10 c11 c12 c13 c14 c15 by (simp add: uuid_text_def)
  let ?u = "uuid_text (uuid_bytes bytes)"
  have len: "length (hex_byte x) = 2" for x by (simp add: hex_byte_digits)
  have "(generateUUID (RandomValues bytes') = Some ?u) = (uuid_bytes bytes = uuid_bytes bytes')"
    unfolding generateUUID.simps ua ub uuid_eq by (auto simp: append_eq_append_conv len hex_byte_inj)
  moreover have "length ?u = 36" unfolding ua uuid_eq by (simp add: len)
  moreover have "map ((!) ?u) [8, 13, 18, 23] = ''----''" unfolding ua uuid_eq by (simp add: hex_byte_digits)
  moreover have "?u ! 14 = CHR ''4''" "?u ! 19 \<in> set ''89ab''"
  proof -
    have "hex_lower 4 = CHR ''4''" by code_simp
    then show "?u ! 14 = CHR ''4''" unfolding ua uuid_eq by (simp add: hex_byte_digits version_nibble)
    have "hex_lower ` {8, 9, 10, 11} = set ''89ab''" by code_simp
    moreover have "?u ! 19 = hex_lower (unat (?r a8) div 16)" unfolding ua uuid_eq by (simp add: hex_byte_digits)
    ultimately show "?u ! 19 \<in> set ''89ab''" using variant_nibble[of a8] by blast
  qed
  moreover have "set (filter (\<lambda>c. c \<noteq> CHR ''-'') ?u) \<subseteq> set ''0123456789abcdef''"
  proof -
    have h: "set (hex_byte x) \<subseteq> set ''0123456789abcdef''" for x
      using hex_lower_in[of "unat x div 16"] hex_lower_in[of "unat x mod 16"] unat_byte[of x] by (simp add: hex_byte_digits)
    then have h': "set (hex_byte x) \<subseteq> insert (CHR ''-'') (set ''0123456789abcdef'')" for x by blast
    have "set ?u \<subseteq> insert (CHR ''-'') (set ''0123456789abcdef'')"
      unfolding ua uuid_eq set_append by (intro Un_least h') simp_all
    then show ?thesis unfolding set_filter by blast
  qed
  ultimately show ?thesis unfolding uuid_bytes_same[OF assms, symmetric] by (intro exI[of _ ?u]) simp
qed

theorem uuid_version4_witness:
  "generateUUID (RandomValues (replicate 16 0)) = Some ''00000000-0000-4000-8000-000000000000''
    \<and> generateUUID (RandomValues (replicate 16 255)) \<noteq> generateUUID (RandomValues (replicate 16 0))"
proof -
  have "generateUUID (RandomValues (replicate 16 0)) = Some ''00000000-0000-4000-8000-000000000000''" by code_simp
  moreover have "uuid_bytes (replicate 16 0) \<noteq> uuid_bytes (replicate 16 255)" by code_simp
  ultimately show ?thesis
    using uuid_version4[of "replicate 16 0" "replicate 16 255"] by (auto simp del: generateUUID.simps)
qed

section \<open>Scales\<close>

lemma five_floor: "5 * \<lfloor>of_int k / (5::rat)\<rfloor> \<le> k \<and> k < 5 * \<lfloor>of_int k / (5::rat)\<rfloor> + 5"
proof -
  have "\<lfloor>of_int k / of_int 5 :: rat\<rfloor> = k div 5" by (rule floor_divide_of_int_eq)
  then have "\<lfloor>of_int k / (5::rat)\<rfloor> = k div 5" by simp
  then show ?thesis by presburger
qed

text \<open>
  scaleToFit gives a size no wider than the container, no higher than the room that is left where there is any, with the proportions of the
  picture to within the rounding of the sides, and a scale that is a multiple of five, at least ten, and never above the exact one by more than its rounding.
\<close>

lemma scaleToFit_fits:
  assumes "0 < bw" "0 < bh" "0 \<le> cw" "scaleToFit bw bh viewport bottomLoc outer (Some cw) pz = Some f"
    and "room = viewport - (bottomLoc - outer)" "width = (if room < 0 \<or> bw / bh * room > cw then cw else bw / bh * room)"
  shows "of_int (fit_width f) \<le> cw \<and> (room < 0 \<or> of_int (fit_height f) \<le> room)
    \<and> - bh < of_int (fit_width f) * bh - of_int (fit_height f) * bw \<and> of_int (fit_width f) * bh - of_int (fit_height f) * bw < bw
    \<and> autoScale f mod 5 = 0 \<and> 10 \<le> autoScale f
    \<and> (autoScale f = 10 \<or> of_int (autoScale f) \<le> width / bw * 100 * pz + 1 / 2)
    \<and> width / bw * 100 * pz - 11 / 2 < of_int (autoScale f)"
proof -
  define h where "h = (if room < 0 \<or> bw / bh * room > cw then cw / (bw / bh) else room)"
  define e where "e = width / bw * 100 * pz"
  define s where "s = 5 * \<lfloor>of_int (math_round e) / (5::rat)\<rfloor>"
  have f: "f = \<lparr>fit_width = \<lfloor>width\<rfloor>, fit_height = \<lfloor>h\<rfloor>, autoScale = (if s < 10 then 10 else s)\<rparr>"
  proof -
    have "(if room < 0 \<or> cw < bw / bh * room then (cw, cw / (bw / bh)) else (bw / bh * room, room)) = (width, h)"
      by (simp add: assms(6) h_def)
    then have "scaleToFit bw bh viewport bottomLoc outer (Some cw) pz =
        Some \<lparr>fit_width = \<lfloor>width\<rfloor>, fit_height = \<lfloor>h\<rfloor>, autoScale = (if s < 10 then 10 else s)\<rparr>"
      unfolding scaleToFit_def Let_def assms(5)[symmetric] by (simp only: option.map prod.case e_def s_def)
    then show ?thesis using assms(4) by simp
  qed
  have ratio: "width * bh = h * bw" using assms(1,2) by (simp add: assms(6) h_def field_simps)
  have "width \<le> cw" by (auto simp: assms(6))
  then have w: "of_int \<lfloor>width\<rfloor> \<le> cw" by linarith
  have "room < 0 \<or> h \<le> room"
  proof (cases "room < 0 \<or> bw / bh * room \<le> cw")
    case False
    then have "cw * bh \<le> room * bw" using assms(1,2) by (simp add: field_simps not_le less_imp_le)
    then show ?thesis using False assms(1,2) by (auto simp: h_def field_simps)
  qed (auto simp: h_def)
  then have hr: "room < 0 \<or> of_int \<lfloor>h\<rfloor> \<le> room" by linarith
  have dw: "0 \<le> width - of_int \<lfloor>width\<rfloor>" "width - of_int \<lfloor>width\<rfloor> < 1" and dh: "0 \<le> h - of_int \<lfloor>h\<rfloor>" "h - of_int \<lfloor>h\<rfloor> < 1" by linarith+
  have "of_int \<lfloor>width\<rfloor> * bh - of_int \<lfloor>h\<rfloor> * bw = (h - of_int \<lfloor>h\<rfloor>) * bw - (width - of_int \<lfloor>width\<rfloor>) * bh"
    using ratio by (simp add: algebra_simps)
  moreover have "0 \<le> (h - of_int \<lfloor>h\<rfloor>) * bw" "(h - of_int \<lfloor>h\<rfloor>) * bw < bw" using dh assms(1) by (simp_all add: mult_less_cancel_right2)
  moreover have "0 \<le> (width - of_int \<lfloor>width\<rfloor>) * bh" "(width - of_int \<lfloor>width\<rfloor>) * bh < bh" using dw assms(2) by (simp_all add: mult_less_cancel_right2)
  ultimately have shape: "- bh < of_int \<lfloor>width\<rfloor> * bh - of_int \<lfloor>h\<rfloor> * bw" "of_int \<lfloor>width\<rfloor> * bh - of_int \<lfloor>h\<rfloor> * bw < bw" by linarith+
  have r: "\<bar>of_int (math_round e) - e\<bar> \<le> 1 / 2" by (rule math_round_error)
  have s1: "s \<le> math_round e" "math_round e < s + 5" using five_floor[of "math_round e"] by (simp_all add: s_def)
  have up: "of_int s \<le> e + 1 / 2"
  proof -
    have "(of_int s :: rat) \<le> of_int (math_round e)" using s1(1) by simp
    then show ?thesis using r by linarith
  qed
  have low: "e - 11 / 2 < of_int s"
  proof -
    have "(of_int (math_round e) :: rat) < of_int (s + 5)" using s1(2) by (simp only: of_int_less_iff)
    then have "(of_int (math_round e) :: rat) < of_int s + 5" by simp
    then show ?thesis using r by linarith
  qed
  have "s mod 5 = 0" by (simp add: s_def)
  moreover have "e - 11 / 2 < of_int (if s < 10 then 10 else s)"
  proof (cases "s < 10")
    case True
    then have "(of_int s :: rat) \<le> 10" by (metis less_imp_le of_int_le_iff of_int_numeral)
    then show ?thesis using low True by simp
  qed (use low in simp)
  ultimately show ?thesis
    using w hr shape up by (simp add: f e_def)
qed

lemma overlay_scale_range: "5 \<le> calculateOverlayScale m w \<and> calculateOverlayScale m w \<le> 100"
  by (auto simp: calculateOverlayScale_def split: option.splits)

lemma overlay_dimensions_fit:
  assumes "0 < iw" "0 < ih" "0 \<le> ww" "0 \<le> wh"
  shows "\<exists>w h. calculateOverlayDimensions iw ih ww wh = Some (w, h) \<and> 0 \<le> w \<and> w \<le> math_round (ww * (6 / 10))
    \<and> 0 \<le> h \<and> h \<le> math_round (wh * (7 / 10))"
proof -
  let ?a = "iw / ih" and ?W = "ww * (6 / 10)" and ?H = "wh * (7 / 10)"
  have a: "0 < ?a" and W: "0 \<le> ?W" and H: "0 \<le> ?H" using assms by simp_all
  have z: "0 \<le> x \<Longrightarrow> 0 \<le> math_round x" for x :: rat using math_round_mono[of 0 x] math_round_of_int[of 0] by simp
  show ?thesis
  proof (cases "?W / ?a > ?H")
    case True
    have "0 < a \<Longrightarrow> H < W / a \<Longrightarrow> H * a \<le> W" for a W H :: rat by (simp add: pos_less_divide_eq)
    from this[OF a True] have "math_round (?H * ?a) \<le> math_round ?W" by (rule math_round_mono)
    moreover have "0 \<le> math_round (?H * ?a)" "0 \<le> math_round ?H" using z[OF mult_nonneg_nonneg[OF H less_imp_le[OF a]]] z[OF H] .
    moreover have "calculateOverlayDimensions iw ih ww wh = Some (math_round (?H * ?a), math_round ?H)"
      using True assms(1,2) unfolding calculateOverlayDimensions_def Let_def by (simp only: if_True prod.case) simp
    ultimately show ?thesis by blast
  next
    case False
    have "math_round (?W / ?a) \<le> math_round ?H" using False by (intro math_round_mono) (simp only: not_less)
    moreover have "0 \<le> math_round (?W / ?a)" "0 \<le> math_round ?W" using z[OF divide_nonneg_pos[OF W a]] z[OF W] .
    moreover have "calculateOverlayDimensions iw ih ww wh = Some (math_round ?W, math_round (?W / ?a))"
      using False assms(1,2) unfolding calculateOverlayDimensions_def Let_def by (simp only: if_False prod.case) simp
    ultimately show ?thesis by blast
  qed
qed

section \<open>The address of go2rtc\<close>

lemma ends_with_append [simp]: "ends_with suf (p @ suf)"
  by (simp add: ends_with_def starts_with_def)

lemma strip_slashes_id: "p = [] \<or> last p \<noteq> CHR ''/'' \<Longrightarrow> strip_slashes p = p"
  by (cases p rule: rev_cases) (auto simp: strip_slashes_def)

lemma strip_slashes_append: "strip_slashes (p @ replicate n (CHR ''/'')) = strip_slashes p"
proof -
  have "dropWhile (\<lambda>c. c = CHR ''/'') (replicate n (CHR ''/'') @ r) = dropWhile (\<lambda>c. c = CHR ''/'') r" for r by (induction n) simp_all
  then show ?thesis by (simp add: strip_slashes_def)
qed

text \<open>However many slashes end the address, and whether or not it names the API, the path is the same, and giving the result again does not change it.\<close>

lemma go2rtc_path_normal:
  "go2rtc_path (p @ replicate n (CHR ''/'')) = go2rtc_path p" "go2rtc_path (go2rtc_path p) = go2rtc_path p" "ends_with ''/api'' (go2rtc_path p)"
proof -
  show "go2rtc_path (p @ replicate n (CHR ''/'')) = go2rtc_path p" by (simp add: go2rtc_path_def strip_slashes_append)
  show e: "ends_with ''/api'' (go2rtc_path p)" by (simp add: go2rtc_path_def Let_def)
  obtain r where "rev (go2rtc_path p) = rev ''/api'' @ r"
    using e unfolding ends_with_def starts_with_def by (metis append_take_drop_id)
  then have "rev (go2rtc_path p) = CHR ''i'' # ''pa/'' @ r" by simp
  then have "last (go2rtc_path p) = CHR ''i''" by (metis last_rev list.sel(1) rev_rev_ident)
  then show "go2rtc_path (go2rtc_path p) = go2rtc_path p"
    using e strip_slashes_id[of "go2rtc_path p"] by (simp add: go2rtc_path_def[of "go2rtc_path p"])
qed

end
