(* ===== verification/Watch_Page.thy ===== *)
theory Watch_Page
  imports Js_Text
begin

text \<open>
  The page that watches one monitor and cycles through several (\<^verbatim>\<open>web/skins/classic/views/js/watch.js\<close>): the countdown,
  the buttons of the player, what is stopped when the page is hidden, frozen or left and started again afterwards, and the
  question whether anyone is still watching. A stream is reduced to whether it may play, is starting and has started;
  \<^verbatim>\<open>Monitor_Stream\<close> has the rest. The last section is the older page of the same purpose
  (\<^verbatim>\<open>cycle.js\<close>).
\<close>

section \<open>The page\<close>

text \<open>
  What the stream reports when a handler asks: that it is paused, that it is delayed, that its element has a
  picture, that it has failed for good, and whether a start succeeds at once.
\<close>

record report =
  rp_paused :: bool
  rp_delayed :: bool
  rp_ready :: bool
  rp_failed :: bool
  rp_ok :: bool

datatype prev_started = NoPrev | Played | Paused | Stopped

text \<open>
  \<open>wp_running\<close>: the intervals that tick. \<open>wp_modal\<close>: the modal question once it is in the page, with what each of its handlers
  found \<^verbatim>\<open>cycle\<close> to be, and whether it is shown; \<open>wp_loading\<close> the same for each request of it under way.
  \<open>wp_waits\<close> counts the functions that wait for a fresh credential.
\<close>

record watch_page =
  wp_idx :: nat
  wp_cycle :: bool
  wp_seconds :: int
  wp_running :: "nat list"
  wp_timer :: "nat option"
  wp_next :: nat
  wp_prevStarted :: prev_started
  wp_prevCycle :: bool
  wp_hideTimer :: bool
  wp_hidden :: bool
  wp_waits :: nat
  wp_idle :: bool
  wp_modal :: "(bool list \<times> bool) option"
  wp_loading :: "bool list"
  ws_active :: bool
  ws_starting :: bool
  ws_started :: bool
  wp_buttons :: "string \<rightharpoonup> string \<times> bool"

text \<open>The monitors of the page, the period chosen, and which monitors keep a replay buffer.\<close>

record watch_env =
  we_count :: nat
  we_period :: int
  we_replay :: "nat \<Rightarrow> bool"

section \<open>Buttons\<close>

definition setButtonState :: "string \<Rightarrow> string \<Rightarrow> watch_page \<Rightarrow> watch_page" where
  "setButtonState b cls s = (case wp_buttons s b of
     None \<Rightarrow> s
   | Some _ \<Rightarrow> s\<lparr>wp_buttons := (wp_buttons s)(b \<mapsto>
       (cls, cls = ''unavail'' \<or> cls = ''active'' \<and> (b = ''pauseBtn'' \<or> b = ''playBtn'')))\<rparr>)"

definition setButtonStateWatch :: "string \<Rightarrow> string \<Rightarrow> watch_page \<Rightarrow> watch_page" where
  "setButtonStateWatch b cls s = (case wp_buttons s b of
     None \<Rightarrow> s
   | Some _ \<Rightarrow> s\<lparr>wp_buttons := (wp_buttons s)(b \<mapsto> (cls, cls = ''unavail''))\<rparr>)"

definition replay_buttons :: "watch_env \<Rightarrow> string \<Rightarrow> watch_page \<Rightarrow> watch_page" where
  "replay_buttons env cls s =
     (if we_replay env (wp_idx s)
      then setButtonState ''fastRevBtn'' cls (setButtonState ''slowRevBtn'' cls
             (setButtonState ''slowFwdBtn'' cls (setButtonState ''fastFwdBtn'' cls s)))
      else s)"

definition onPause :: "watch_env \<Rightarrow> watch_page \<Rightarrow> watch_page" where
  "onPause env s = replay_buttons env ''inactive'' (setButtonState ''stopBtn'' ''inactive''
     (setButtonStateWatch ''playBtn'' ''active'' (setButtonStateWatch ''pauseBtn'' ''hidden'' s)))"

definition onPlay :: "watch_env \<Rightarrow> report \<Rightarrow> watch_page \<Rightarrow> watch_page" where
  "onPlay env r s = replay_buttons env (if rp_delayed r then ''inactive'' else ''unavail'')
     (setButtonStateWatch ''playBtn'' ''hidden'' (setButtonStateWatch ''stopBtn'' ''inactive''
       (setButtonStateWatch ''pauseBtn'' ''inactive'' s)))"

definition controls_stopped :: "watch_env \<Rightarrow> watch_page \<Rightarrow> watch_page" where
  "controls_stopped env s = setButtonStateWatch ''pauseBtn'' ''hidden'' (setButtonStateWatch ''stopBtn'' ''unavail''
     (setButtonStateWatch ''playBtn'' ''inactive'' (replay_buttons env ''unavail'' s)))"

section \<open>The stream\<close>

definition ws_start :: "report \<Rightarrow> watch_page \<Rightarrow> watch_page" where
  "ws_start r s = (if \<not> ws_active s \<or> ws_started s \<or> ws_starting s then s
     else s\<lparr>ws_starting := True, ws_started := rp_ok r\<rparr>)"

definition ws_stop :: "watch_page \<Rightarrow> watch_page" where
  "ws_stop s = s\<lparr>ws_starting := False, ws_started := False\<rparr>"

text \<open>Playing on a stream that has started only tells it to; starting one that was stopped is \<^verbatim>\<open>start\<close>.\<close>

definition streamCmdPlay :: "watch_env \<Rightarrow> report \<Rightarrow> watch_page \<Rightarrow> watch_page" where
  "streamCmdPlay env r s =
     (if wp_hidden s then s\<lparr>wp_prevStarted := Played\<rparr>
      else (let s1 = (onPlay env r s)\<lparr>ws_active := True\<rparr> in if ws_started s1 then s1 else ws_start r s1))"

definition streamCmdStop :: "watch_env \<Rightarrow> watch_page \<Rightarrow> watch_page" where
  "streamCmdStop env s = controls_stopped env (ws_stop (s\<lparr>ws_active := False\<rparr>))"

definition streamCmdPause :: "watch_env \<Rightarrow> watch_page \<Rightarrow> watch_page" where
  "streamCmdPause env s = onPause env s"

section \<open>Cycling\<close>

definition clear_cycle :: "watch_page \<Rightarrow> watch_page" where
  "clear_cycle s = s\<lparr>wp_running := (case wp_timer s of None \<Rightarrow> wp_running s | Some i \<Rightarrow> filter (\<lambda>j. j \<noteq> i) (wp_running s))\<rparr>"

definition cyclePause :: "watch_page \<Rightarrow> watch_page" where
  "cyclePause s = (clear_cycle s)\<lparr>wp_cycle := False\<rparr>"

definition cycleStart :: "watch_env \<Rightarrow> watch_page \<Rightarrow> watch_page" where
  "cycleStart env s =
     (let s1 = clear_cycle s
      in s1\<lparr>wp_seconds := (if wp_seconds s1 = 0 then we_period env else wp_seconds s1),
            wp_running := wp_running s1 @ [wp_next s1], wp_timer := Some (wp_next s1), wp_next := wp_next s1 + 1, wp_cycle := True\<rparr>)"

definition cycleStop :: "watch_page \<Rightarrow> watch_page" where
  "cycleStop s = cyclePause (s\<lparr>wp_seconds := 0\<rparr>)"

text \<open>The stream of the old monitor is killed, a new one is made for the new monitor and told to play.\<close>

definition streamReStart :: "watch_env \<Rightarrow> report \<Rightarrow> watch_page \<Rightarrow> watch_page" where
  "streamReStart env r s = setButtonStateWatch ''stopBtn'' ''active''
     (streamCmdPlay env r (s\<lparr>ws_active := True, ws_starting := False, ws_started := False\<rparr>))"

definition cycleNext :: "watch_env \<Rightarrow> report \<Rightarrow> watch_page \<Rightarrow> watch_page" where
  "cycleNext env r s =
     (let s1 = clear_cycle s; s2 = streamReStart env r (s1\<lparr>wp_idx := (wp_idx s1 + 1) mod we_count env\<rparr>)
      in if wp_cycle s2 then cycleStart env s2 else s2)"

definition cyclePrev :: "watch_env \<Rightarrow> report \<Rightarrow> watch_page \<Rightarrow> watch_page" where
  "cyclePrev env r s =
     (let s1 = clear_cycle s;
          s2 = streamReStart env r (s1\<lparr>wp_idx := (if wp_idx s1 = 0 then we_count env - 1 else wp_idx s1 - 1)\<rparr>)
      in if wp_cycle s2 then cycleStart env s2 else s2)"

definition nextCycleView :: "watch_env \<Rightarrow> report \<Rightarrow> watch_page \<Rightarrow> watch_page" where
  "nextCycleView env r s =
     (let s1 = (if rp_ready r then s\<lparr>wp_seconds := wp_seconds s - 1\<rparr> else s)
      in if wp_seconds s1 \<le> 0 \<or> rp_failed r then cycleNext env r s1 else s1)"

section \<open>Leaving and coming back\<close>

definition stopPage :: "report \<Rightarrow> watch_page \<Rightarrow> watch_page" where
  "stopPage r s =
     (let s1 = s\<lparr>wp_hideTimer := False, wp_prevCycle := wp_cycle s\<rparr>;
          s2 = (if wp_prevCycle s1 then cycleStop s1 else s1)
      in if ws_started s2
         then (if rp_paused r then s2\<lparr>wp_prevStarted := Paused\<rparr>
               else ws_stop (s2\<lparr>wp_prevStarted := Played, ws_active := False\<rparr>))
         else s2\<lparr>wp_prevStarted := Stopped\<rparr>)"

definition startPage :: "watch_page \<Rightarrow> watch_page" where
  "startPage s = s\<lparr>wp_hideTimer := False, wp_waits := wp_waits s + 1\<rparr>"

text \<open>The function that runs once the credential is known to be fresh.\<close>

definition page_fresh :: "watch_env \<Rightarrow> report \<Rightarrow> watch_page \<Rightarrow> watch_page" where
  "page_fresh env r s =
     (let s1 = (if wp_prevStarted s = Played \<and> \<not> wp_idle s
                then ws_start r ((onPlay env r (s\<lparr>wp_prevStarted := NoPrev\<rparr>))\<lparr>ws_active := True\<rparr>)
                else if rp_paused r then s\<lparr>wp_prevStarted := NoPrev\<rparr> else s)
      in if wp_prevCycle s1 then cycleStart env (s1\<lparr>wp_prevCycle := False\<rparr>) else s1)"

definition stopPlayback :: "watch_env \<Rightarrow> watch_page \<Rightarrow> watch_page" where
  "stopPlayback env s =
     (let s1 = streamCmdStop env (s\<lparr>wp_idle := True\<rparr>); cycle_was = wp_cycle s1; s2 = cyclePause s1
      in case wp_modal s2 of
           None \<Rightarrow> s2\<lparr>wp_loading := wp_loading s2 @ [cycle_was]\<rparr>
         | Some (hs, _) \<Rightarrow> s2\<lparr>wp_modal := Some (hs, True)\<rparr>)"

text \<open>
  The reply to a request of the modal: the handler and the call that shows it go to the element that is in the page already, if
  there is one, which the reply has just replaced.
\<close>

definition modal_loaded :: "watch_page \<Rightarrow> watch_page" where
  "modal_loaded s = (case wp_loading s of
     [] \<Rightarrow> s
   | c # cs \<Rightarrow> s\<lparr>wp_loading := cs, wp_modal := Some (case wp_modal s of None \<Rightarrow> ([c], True) | Some _ \<Rightarrow> ([], False))\<rparr>)"

definition modal_handler :: "watch_env \<Rightarrow> report \<Rightarrow> bool \<Rightarrow> watch_page \<Rightarrow> watch_page" where
  "modal_handler env r cycle_was s =
     (let s1 = streamCmdPlay env r (s\<lparr>wp_idle := False\<rparr>) in if cycle_was then cycleStart env s1 else s1)"

definition modal_closed :: "watch_env \<Rightarrow> report \<Rightarrow> watch_page \<Rightarrow> watch_page" where
  "modal_closed env r s = (case wp_modal s of
     Some (hs, True) \<Rightarrow> fold (modal_handler env r) hs (s\<lparr>wp_modal := Some (hs, False)\<rparr>)
   | _ \<Rightarrow> s)"

section \<open>Events\<close>

text \<open>
  \<open>Resumed\<close> is the tenth of a second after the page was resumed or shown again. \<open>Late\<close>, \<open>Fails\<close> and \<open>Retry\<close> are
  what a stream does by itself: start at last, stop over an error, and be started again after one.
\<close>

datatype watch_event = Tick nat report | CyclePlay | CyclePauseClick | CycleNextClick report | CyclePrevClick report
  | PlayClick report | PauseClick | StopClick
  | Hidden | HideTimeout report | Visible | Frozen report | PageHidden report | Resumed | Fresh report
  | Idle | ModalLoaded | ModalClosed report | Late | Fails | Retry report

fun watch_exec :: "watch_env \<Rightarrow> watch_event \<Rightarrow> watch_page \<Rightarrow> watch_page" where
  "watch_exec env (Tick i r) s = (if i \<in> set (wp_running s) then nextCycleView env r s else s)"
| "watch_exec env CyclePlay s = cycleStart env s"
| "watch_exec env CyclePauseClick s = cyclePause s"
| "watch_exec env (CycleNextClick r) s = cycleNext env r s"
| "watch_exec env (CyclePrevClick r) s = cyclePrev env r s"
| "watch_exec env (PlayClick r) s = streamCmdPlay env r s"
| "watch_exec env PauseClick s = streamCmdPause env s"
| "watch_exec env StopClick s = streamCmdStop env s"
| "watch_exec env Hidden s = s\<lparr>wp_hidden := True, wp_hideTimer := True\<rparr>"
| "watch_exec env (HideTimeout r) s = (if wp_hideTimer s then stopPage r s else s)"
| "watch_exec env Visible s = startPage (s\<lparr>wp_hidden := False\<rparr>)"
| "watch_exec env (Frozen r) s = stopPage r s"
| "watch_exec env (PageHidden r) s = stopPage r s"
| "watch_exec env Resumed s = (if wp_hidden s then s else startPage s)"
| "watch_exec env (Fresh r) s = (page_fresh env r ^^ wp_waits s) (s\<lparr>wp_waits := 0\<rparr>)"
| "watch_exec env Idle s = stopPlayback env s"
| "watch_exec env ModalLoaded s = modal_loaded s"
| "watch_exec env (ModalClosed r) s = modal_closed env r s"
| "watch_exec env Late s = (if ws_starting s then s\<lparr>ws_started := True\<rparr> else s)"
| "watch_exec env Fails s = ws_stop s"
| "watch_exec env (Retry r) s = ws_start r s"

text \<open>The page as it is opened on the monitor \<open>k\<close>, cycling if that is asked for and there is more than one monitor.\<close>

definition watch_init :: "watch_env \<Rightarrow> nat \<Rightarrow> bool \<Rightarrow> report \<Rightarrow> watch_page" where
  "watch_init env k cycling r =
     (let s = \<lparr>wp_idx = k, wp_cycle = cycling, wp_seconds = 0, wp_running = [], wp_timer = None, wp_next = 1, wp_prevStarted = NoPrev,
         wp_prevCycle = False, wp_hideTimer = False, wp_hidden = False, wp_waits = 0, wp_idle = False, wp_modal = None, wp_loading = [],
         ws_active = True, ws_starting = False, ws_started = False,
         wp_buttons = (\<lambda>b. if b \<in> {''pauseBtn'', ''playBtn'', ''stopBtn'', ''fastFwdBtn'', ''slowFwdBtn'', ''slowRevBtn'', ''fastRevBtn''}
           then Some ('''', False) else None)\<rparr>;
         s1 = (if we_count env > 1 \<and> cycling then cycleStart env s else cyclePause s)
      in setButtonStateWatch ''stopBtn'' ''active'' (streamCmdPlay env r s1))"

definition watch_run :: "watch_env \<Rightarrow> watch_event list \<Rightarrow> watch_page \<Rightarrow> watch_page" where
  "watch_run env evs s = fold (watch_exec env) evs s"

section \<open>What the operations leave alone\<close>

lemma setButtonState_fields [simp]:
  "wp_idx (setButtonState b c s) = wp_idx s" "wp_cycle (setButtonState b c s) = wp_cycle s"
  "wp_seconds (setButtonState b c s) = wp_seconds s" "wp_running (setButtonState b c s) = wp_running s"
  "wp_timer (setButtonState b c s) = wp_timer s" "wp_next (setButtonState b c s) = wp_next s"
  "wp_prevStarted (setButtonState b c s) = wp_prevStarted s" "wp_prevCycle (setButtonState b c s) = wp_prevCycle s"
  "wp_hideTimer (setButtonState b c s) = wp_hideTimer s" "wp_hidden (setButtonState b c s) = wp_hidden s"
  "wp_waits (setButtonState b c s) = wp_waits s" "wp_idle (setButtonState b c s) = wp_idle s"
  "wp_modal (setButtonState b c s) = wp_modal s" "wp_loading (setButtonState b c s) = wp_loading s"
  "ws_active (setButtonState b c s) = ws_active s" "ws_starting (setButtonState b c s) = ws_starting s"
  "ws_started (setButtonState b c s) = ws_started s"
  by (simp_all add: setButtonState_def split: option.split)

lemma setButtonStateWatch_fields [simp]:
  "wp_idx (setButtonStateWatch b c s) = wp_idx s" "wp_cycle (setButtonStateWatch b c s) = wp_cycle s"
  "wp_seconds (setButtonStateWatch b c s) = wp_seconds s" "wp_running (setButtonStateWatch b c s) = wp_running s"
  "wp_timer (setButtonStateWatch b c s) = wp_timer s" "wp_next (setButtonStateWatch b c s) = wp_next s"
  "wp_prevStarted (setButtonStateWatch b c s) = wp_prevStarted s" "wp_prevCycle (setButtonStateWatch b c s) = wp_prevCycle s"
  "wp_hideTimer (setButtonStateWatch b c s) = wp_hideTimer s" "wp_hidden (setButtonStateWatch b c s) = wp_hidden s"
  "wp_waits (setButtonStateWatch b c s) = wp_waits s" "wp_idle (setButtonStateWatch b c s) = wp_idle s"
  "wp_modal (setButtonStateWatch b c s) = wp_modal s" "wp_loading (setButtonStateWatch b c s) = wp_loading s"
  "ws_active (setButtonStateWatch b c s) = ws_active s" "ws_starting (setButtonStateWatch b c s) = ws_starting s"
  "ws_started (setButtonStateWatch b c s) = ws_started s"
  by (simp_all add: setButtonStateWatch_def split: option.split)

lemma replay_buttons_fields [simp]:
  "wp_idx (replay_buttons env c s) = wp_idx s" "wp_cycle (replay_buttons env c s) = wp_cycle s"
  "wp_seconds (replay_buttons env c s) = wp_seconds s" "wp_running (replay_buttons env c s) = wp_running s"
  "wp_timer (replay_buttons env c s) = wp_timer s" "wp_next (replay_buttons env c s) = wp_next s"
  "wp_prevStarted (replay_buttons env c s) = wp_prevStarted s" "wp_prevCycle (replay_buttons env c s) = wp_prevCycle s"
  "wp_hideTimer (replay_buttons env c s) = wp_hideTimer s" "wp_hidden (replay_buttons env c s) = wp_hidden s"
  "wp_waits (replay_buttons env c s) = wp_waits s" "wp_idle (replay_buttons env c s) = wp_idle s"
  "wp_modal (replay_buttons env c s) = wp_modal s" "wp_loading (replay_buttons env c s) = wp_loading s"
  "ws_active (replay_buttons env c s) = ws_active s" "ws_starting (replay_buttons env c s) = ws_starting s"
  "ws_started (replay_buttons env c s) = ws_started s"
  by (simp_all add: replay_buttons_def)

lemma onPause_fields [simp]:
  "wp_idx (onPause env s) = wp_idx s" "wp_cycle (onPause env s) = wp_cycle s" "wp_seconds (onPause env s) = wp_seconds s"
  "wp_running (onPause env s) = wp_running s" "wp_timer (onPause env s) = wp_timer s" "wp_next (onPause env s) = wp_next s"
  "wp_prevStarted (onPause env s) = wp_prevStarted s" "wp_prevCycle (onPause env s) = wp_prevCycle s"
  "wp_hideTimer (onPause env s) = wp_hideTimer s" "wp_hidden (onPause env s) = wp_hidden s" "wp_waits (onPause env s) = wp_waits s"
  "wp_idle (onPause env s) = wp_idle s" "wp_modal (onPause env s) = wp_modal s" "wp_loading (onPause env s) = wp_loading s"
  "ws_active (onPause env s) = ws_active s" "ws_starting (onPause env s) = ws_starting s" "ws_started (onPause env s) = ws_started s"
  by (simp_all add: onPause_def)

lemma onPlay_fields [simp]:
  "wp_idx (onPlay env r s) = wp_idx s" "wp_cycle (onPlay env r s) = wp_cycle s" "wp_seconds (onPlay env r s) = wp_seconds s"
  "wp_running (onPlay env r s) = wp_running s" "wp_timer (onPlay env r s) = wp_timer s" "wp_next (onPlay env r s) = wp_next s"
  "wp_prevStarted (onPlay env r s) = wp_prevStarted s" "wp_prevCycle (onPlay env r s) = wp_prevCycle s"
  "wp_hideTimer (onPlay env r s) = wp_hideTimer s" "wp_hidden (onPlay env r s) = wp_hidden s" "wp_waits (onPlay env r s) = wp_waits s"
  "wp_idle (onPlay env r s) = wp_idle s" "wp_modal (onPlay env r s) = wp_modal s" "wp_loading (onPlay env r s) = wp_loading s"
  "ws_active (onPlay env r s) = ws_active s" "ws_starting (onPlay env r s) = ws_starting s"
  "ws_started (onPlay env r s) = ws_started s"
  by (simp_all add: onPlay_def)

lemma controls_stopped_fields [simp]:
  "wp_idx (controls_stopped env s) = wp_idx s" "wp_cycle (controls_stopped env s) = wp_cycle s"
  "wp_seconds (controls_stopped env s) = wp_seconds s" "wp_running (controls_stopped env s) = wp_running s"
  "wp_timer (controls_stopped env s) = wp_timer s" "wp_next (controls_stopped env s) = wp_next s"
  "wp_prevStarted (controls_stopped env s) = wp_prevStarted s" "wp_prevCycle (controls_stopped env s) = wp_prevCycle s"
  "wp_hideTimer (controls_stopped env s) = wp_hideTimer s" "wp_hidden (controls_stopped env s) = wp_hidden s"
  "wp_waits (controls_stopped env s) = wp_waits s" "wp_idle (controls_stopped env s) = wp_idle s"
  "wp_modal (controls_stopped env s) = wp_modal s" "wp_loading (controls_stopped env s) = wp_loading s"
  "ws_active (controls_stopped env s) = ws_active s" "ws_starting (controls_stopped env s) = ws_starting s"
  "ws_started (controls_stopped env s) = ws_started s"
  by (simp_all add: controls_stopped_def)

lemma streamCmdPlay_fields [simp]:
  "wp_idx (streamCmdPlay env r s) = wp_idx s" "wp_cycle (streamCmdPlay env r s) = wp_cycle s"
  "wp_seconds (streamCmdPlay env r s) = wp_seconds s" "wp_running (streamCmdPlay env r s) = wp_running s"
  "wp_timer (streamCmdPlay env r s) = wp_timer s" "wp_next (streamCmdPlay env r s) = wp_next s"
  "wp_prevCycle (streamCmdPlay env r s) = wp_prevCycle s" "wp_hideTimer (streamCmdPlay env r s) = wp_hideTimer s"
  "wp_hidden (streamCmdPlay env r s) = wp_hidden s" "wp_waits (streamCmdPlay env r s) = wp_waits s"
  "wp_idle (streamCmdPlay env r s) = wp_idle s" "wp_modal (streamCmdPlay env r s) = wp_modal s"
  "wp_loading (streamCmdPlay env r s) = wp_loading s"
  by (simp_all add: streamCmdPlay_def ws_start_def Let_def)

lemma streamCmdStop_fields [simp]:
  "wp_idx (streamCmdStop env s) = wp_idx s" "wp_cycle (streamCmdStop env s) = wp_cycle s"
  "wp_seconds (streamCmdStop env s) = wp_seconds s" "wp_running (streamCmdStop env s) = wp_running s"
  "wp_timer (streamCmdStop env s) = wp_timer s" "wp_next (streamCmdStop env s) = wp_next s"
  "wp_prevStarted (streamCmdStop env s) = wp_prevStarted s" "wp_prevCycle (streamCmdStop env s) = wp_prevCycle s"
  "wp_hideTimer (streamCmdStop env s) = wp_hideTimer s" "wp_hidden (streamCmdStop env s) = wp_hidden s"
  "wp_waits (streamCmdStop env s) = wp_waits s" "wp_idle (streamCmdStop env s) = wp_idle s"
  "wp_modal (streamCmdStop env s) = wp_modal s" "wp_loading (streamCmdStop env s) = wp_loading s"
  by (simp_all add: streamCmdStop_def ws_stop_def)

lemma streamReStart_fields [simp]:
  "wp_idx (streamReStart env r s) = wp_idx s" "wp_cycle (streamReStart env r s) = wp_cycle s"
  "wp_seconds (streamReStart env r s) = wp_seconds s" "wp_running (streamReStart env r s) = wp_running s"
  "wp_timer (streamReStart env r s) = wp_timer s" "wp_next (streamReStart env r s) = wp_next s"
  "wp_prevCycle (streamReStart env r s) = wp_prevCycle s" "wp_hideTimer (streamReStart env r s) = wp_hideTimer s"
  "wp_hidden (streamReStart env r s) = wp_hidden s" "wp_waits (streamReStart env r s) = wp_waits s"
  "wp_idle (streamReStart env r s) = wp_idle s" "wp_modal (streamReStart env r s) = wp_modal s"
  "wp_loading (streamReStart env r s) = wp_loading s"
  by (simp_all add: streamReStart_def)

section \<open>One interval\<close>

definition watch_ok :: "watch_env \<Rightarrow> watch_page \<Rightarrow> bool" where
  "watch_ok env s \<longleftrightarrow>
     wp_running s = (if wp_cycle s then [the (wp_timer s)] else []) \<and> (wp_cycle s \<longrightarrow> wp_timer s \<noteq> None) \<and>
     (\<forall>i. wp_timer s = Some i \<longrightarrow> i < wp_next s) \<and> wp_idx s < we_count env"

lemma clear_cycle_running: "watch_ok env s \<Longrightarrow> wp_running (clear_cycle s) = []"
  by (auto simp: watch_ok_def clear_cycle_def split: option.split if_splits)

lemma cleared_start_ok:
  assumes "wp_running (clear_cycle s) = []" "wp_idx s < we_count env"
  shows "watch_ok env (cycleStart env s)"
  using assms by (simp add: watch_ok_def cycleStart_def Let_def clear_cycle_def)

lemma cleared_pause_ok:
  assumes "wp_running (clear_cycle s) = []" "wp_idx s < we_count env" "\<forall>i. wp_timer s = Some i \<longrightarrow> i < wp_next s"
  shows "watch_ok env (cyclePause s)"
  using assms by (simp add: watch_ok_def cyclePause_def clear_cycle_def)

lemma watch_ok_fields:
  "watch_ok env s \<Longrightarrow> wp_running t = wp_running s \<Longrightarrow> wp_cycle t = wp_cycle s \<Longrightarrow> wp_timer t = wp_timer s \<Longrightarrow>
   wp_next t = wp_next s \<Longrightarrow> wp_idx t = wp_idx s \<Longrightarrow> watch_ok env t"
  by (simp add: watch_ok_def)

lemma cycleStart_ok: "watch_ok env s \<Longrightarrow> watch_ok env (cycleStart env s)"
  by (rule cleared_start_ok, erule clear_cycle_running) (simp add: watch_ok_def)

lemma cyclePause_ok: "watch_ok env s \<Longrightarrow> watch_ok env (cyclePause s)"
  by (rule cleared_pause_ok, erule clear_cycle_running) (simp_all add: watch_ok_def)

lemma cycleStop_ok: "watch_ok env s \<Longrightarrow> watch_ok env (cycleStop s)"
  unfolding cycleStop_def by (rule cyclePause_ok) (rule watch_ok_fields, simp_all)

lemma ws_fields [simp]:
  "wp_running (ws_start r s) = wp_running s" "wp_cycle (ws_start r s) = wp_cycle s" "wp_timer (ws_start r s) = wp_timer s"
  "wp_next (ws_start r s) = wp_next s" "wp_idx (ws_start r s) = wp_idx s" "wp_seconds (ws_start r s) = wp_seconds s"
  "wp_prevCycle (ws_start r s) = wp_prevCycle s" "wp_modal (ws_start r s) = wp_modal s" "wp_loading (ws_start r s) = wp_loading s"
  "wp_prevStarted (ws_start r s) = wp_prevStarted s"
  by (simp_all add: ws_start_def)

lemma moved_ok:
  fixes r :: report
  assumes "watch_ok env s" and m: "m < we_count env"
  defines "t \<equiv> streamReStart env r ((clear_cycle s)\<lparr>wp_idx := m\<rparr>)"
  shows "watch_ok env (if wp_cycle t then cycleStart env t else t)"
proof -
  have run: "wp_running t = []" and ix: "wp_idx t < we_count env"
    and tm: "\<forall>i. wp_timer t = Some i \<longrightarrow> i < wp_next t"
    using clear_cycle_running [OF assms(1)] assms(1) m by (simp_all add: t_def clear_cycle_def watch_ok_def)
  have "wp_running (clear_cycle t) = []" by (simp add: clear_cycle_def run split: option.split)
  then have "watch_ok env (cycleStart env t)" using ix by (rule cleared_start_ok)
  moreover have "\<not> wp_cycle t \<Longrightarrow> watch_ok env t" using run ix tm by (simp add: watch_ok_def)
  ultimately show ?thesis by simp
qed

lemma clear_cycle_idx [simp]: "wp_idx (clear_cycle s) = wp_idx s"
  by (simp add: clear_cycle_def)

lemma cycleNext_ok:
  assumes "watch_ok env s"
  shows "watch_ok env (cycleNext env r s)"
proof -
  have "0 < we_count env" using assms by (auto simp: watch_ok_def)
  then have "(wp_idx s + 1) mod we_count env < we_count env" by simp
  then show ?thesis unfolding cycleNext_def Let_def clear_cycle_idx by (rule moved_ok [OF assms])
qed

lemma cyclePrev_ok:
  assumes "watch_ok env s"
  shows "watch_ok env (cyclePrev env r s)"
proof -
  have "(if wp_idx s = 0 then we_count env - 1 else wp_idx s - 1) < we_count env" using assms by (auto simp: watch_ok_def)
  then show ?thesis unfolding cyclePrev_def Let_def clear_cycle_idx by (rule moved_ok [OF assms])
qed

lemma nextCycleView_ok: "watch_ok env s \<Longrightarrow> watch_ok env (nextCycleView env r s)"
proof -
  assume ok: "watch_ok env s"
  let ?t = "if rp_ready r then s\<lparr>wp_seconds := wp_seconds s - 1\<rparr> else s"
  have "watch_ok env ?t" by (rule watch_ok_fields [OF ok]) simp_all
  then show ?thesis by (simp add: nextCycleView_def Let_def cycleNext_ok)
qed

lemma stopPage_ok: "watch_ok env s \<Longrightarrow> watch_ok env (stopPage r s)"
proof -
  assume ok: "watch_ok env s"
  let ?s1 = "s\<lparr>wp_hideTimer := False, wp_prevCycle := wp_cycle s\<rparr>"
  have "watch_ok env ?s1" by (rule watch_ok_fields [OF ok]) simp_all
  then have "watch_ok env (if wp_prevCycle ?s1 then cycleStop ?s1 else ?s1)" by (cases "wp_cycle s") (simp_all add: cycleStop_ok)
  then show ?thesis unfolding stopPage_def Let_def by (rule watch_ok_fields) (simp_all add: ws_stop_def)
qed

lemma page_fresh_ok: "watch_ok env s \<Longrightarrow> watch_ok env (page_fresh env r s)"
proof -
  assume ok: "watch_ok env s"
  define t where "t = (if wp_prevStarted s = Played \<and> \<not> wp_idle s
                then ws_start r ((onPlay env r (s\<lparr>wp_prevStarted := NoPrev\<rparr>))\<lparr>ws_active := True\<rparr>)
                else if rp_paused r then s\<lparr>wp_prevStarted := NoPrev\<rparr> else s)"
  have t: "watch_ok env t" by (rule watch_ok_fields [OF ok]) (simp_all add: t_def)
  have "watch_ok env (t\<lparr>wp_prevCycle := False\<rparr>)" by (rule watch_ok_fields [OF t]) simp_all
  then show ?thesis using t by (simp add: page_fresh_def Let_def cycleStart_ok flip: t_def)
qed

lemma modal_handler_ok: "watch_ok env s \<Longrightarrow> watch_ok env (modal_handler env r c s)"
proof -
  assume ok: "watch_ok env s"
  have "watch_ok env (streamCmdPlay env r (s\<lparr>wp_idle := False\<rparr>))" by (rule watch_ok_fields [OF ok]) simp_all
  then show ?thesis by (simp add: modal_handler_def Let_def cycleStart_ok)
qed

lemma modal_closed_ok: "watch_ok env s \<Longrightarrow> watch_ok env (modal_closed env r s)"
proof -
  assume ok: "watch_ok env s"
  have fold: "watch_ok env (fold (modal_handler env r) hs t)" if "watch_ok env t" for hs t
    using that by (induction hs arbitrary: t) (simp_all add: modal_handler_ok)
  have "watch_ok env (s\<lparr>wp_modal := m\<rparr>)" for m by (rule watch_ok_fields [OF ok]) simp_all
  then show ?thesis using ok fold by (auto simp: modal_closed_def split: option.split bool.split)
qed

lemma stopPlayback_ok: "watch_ok env s \<Longrightarrow> watch_ok env (stopPlayback env s)"
proof -
  assume ok: "watch_ok env s"
  define t where "t = cyclePause (streamCmdStop env (s\<lparr>wp_idle := True\<rparr>))"
  have "watch_ok env (streamCmdStop env (s\<lparr>wp_idle := True\<rparr>))" by (rule watch_ok_fields [OF ok]) simp_all
  then have t: "watch_ok env t" by (simp add: t_def cyclePause_ok)
  have "watch_ok env (t\<lparr>wp_loading := l\<rparr>)" "watch_ok env (t\<lparr>wp_modal := m\<rparr>)" for l m
    by (rule watch_ok_fields [OF t], simp_all)+
  then show ?thesis by (simp add: stopPlayback_def Let_def split: option.split flip: t_def)
qed

lemma watch_exec_ok:
  assumes ok: "watch_ok env s"
  shows "watch_ok env (watch_exec env e s)"
proof (cases e)
  case (Fresh r)
  have "watch_ok env (s\<lparr>wp_waits := 0\<rparr>)" by (rule watch_ok_fields [OF ok]) simp_all
  then have "watch_ok env ((page_fresh env r ^^ n) (s\<lparr>wp_waits := 0\<rparr>))" for n by (induction n) (simp_all add: page_fresh_ok)
  with Fresh show ?thesis by simp
next
  case ModalLoaded
  then show ?thesis using ok by (auto simp: modal_loaded_def split: list.split intro: watch_ok_fields)
qed (use ok in \<open>auto simp: startPage_def ws_stop_def streamCmdPause_def nextCycleView_ok cycleStart_ok cyclePause_ok
  cycleNext_ok cyclePrev_ok stopPage_ok stopPlayback_ok modal_closed_ok intro: watch_ok_fields\<close>)

lemma watch_run_ok: "watch_ok env s \<Longrightarrow> watch_ok env (watch_run env evs s)"
  by (induction evs arbitrary: s) (simp_all add: watch_run_def watch_exec_ok)

lemma watch_init_ok:
  assumes "k < we_count env"
  shows "watch_ok env (watch_init env k cycling r)"
  using assms unfolding watch_init_def Let_def
  by (cases cycling) (auto simp: watch_ok_def cycleStart_def cyclePause_def clear_cycle_def Let_def)

text \<open>
  C10. However the page is used, its countdown has one interval while it cycles and none otherwise, the interval that runs is the one
  whose number is kept, and the monitor shown is one of those of the page.
\<close>

theorem watch_one_timer:
  assumes "k < we_count env"
  shows "wp_running (watch_run env evs (watch_init env k cycling r)) =
      (if wp_cycle (watch_run env evs (watch_init env k cycling r))
       then [the (wp_timer (watch_run env evs (watch_init env k cycling r)))] else []) \<and>
    wp_idx (watch_run env evs (watch_init env k cycling r)) < we_count env"
  using watch_run_ok [OF watch_init_ok [OF assms], of evs cycling r] by (simp only: watch_ok_def simp_thms)

text \<open>Three monitors, a period of two seconds, a stream that starts at once and plays.\<close>

definition three_monitors :: watch_env where
  "three_monitors = \<lparr>we_count = 3, we_period = 2, we_replay = (\<lambda>i. i = 1)\<rparr>"

definition plays_at_once :: report where
  "plays_at_once = \<lparr>rp_paused = False, rp_delayed = False, rp_ready = True, rp_failed = False, rp_ok = True\<rparr>"

theorem watch_one_timer_witness:
  "wp_running (watch_run three_monitors [Tick 1 plays_at_once, CyclePlay, Tick 2 plays_at_once] (watch_init three_monitors 2 True plays_at_once)) =
      (if wp_cycle (watch_run three_monitors [Tick 1 plays_at_once, CyclePlay, Tick 2 plays_at_once] (watch_init three_monitors 2 True plays_at_once))
       then [the (wp_timer (watch_run three_monitors [Tick 1 plays_at_once, CyclePlay, Tick 2 plays_at_once]
              (watch_init three_monitors 2 True plays_at_once)))] else []) \<and>
    wp_idx (watch_run three_monitors [Tick 1 plays_at_once, CyclePlay, Tick 2 plays_at_once] (watch_init three_monitors 2 True plays_at_once))
      < we_count three_monitors"
  by (rule watch_one_timer) (simp add: three_monitors_def)

section \<open>The countdown\<close>

text \<open>One second of a page that cycles.\<close>

definition second :: "watch_env \<Rightarrow> report \<Rightarrow> watch_page \<Rightarrow> watch_page" where
  "second env r s = watch_exec env (Tick (the (wp_timer s)) r) s"

lemma clear_cycle_fields [simp]:
  "wp_seconds (clear_cycle s) = wp_seconds s" "wp_cycle (clear_cycle s) = wp_cycle s"
  by (simp_all add: clear_cycle_def)

lemma cycleNext_idx [simp]: "wp_idx (cycleNext env r s) = (wp_idx s + 1) mod we_count env"
  by (simp add: cycleNext_def cycleStart_def Let_def)

lemma cycleNext_cycle [simp]: "wp_cycle (cycleNext env r s) = wp_cycle s"
  by (simp add: cycleNext_def cycleStart_def Let_def)

lemma cycleNext_seconds:
  "wp_cycle s \<Longrightarrow> wp_seconds (cycleNext env r s) = (if wp_seconds s = 0 then we_period env else wp_seconds s)"
  by (simp add: cycleNext_def cycleStart_def Let_def)

lemma cyclePrev_idx: "wp_idx (cyclePrev env r s) = (if wp_idx s = 0 then we_count env - 1 else wp_idx s - 1)"
  by (simp add: cyclePrev_def cycleStart_def Let_def)

lemma second_step:
  assumes "watch_ok env s" "wp_cycle s" "rp_ready r" "\<not> rp_failed r"
  shows "second env r s =
    (if wp_seconds s \<le> 1 then cycleNext env r (s\<lparr>wp_seconds := wp_seconds s - 1\<rparr>) else s\<lparr>wp_seconds := wp_seconds s - 1\<rparr>)"
  using assms by (simp add: second_def nextCycleView_def watch_ok_def)

text \<open>A stream that never has a picture and never counts as failed stops the countdown.\<close>

lemma stalled_countdown: "\<not> rp_ready r \<Longrightarrow> \<not> rp_failed r \<Longrightarrow> 0 < wp_seconds s \<Longrightarrow> watch_exec env (Tick i r) s = s"
  by (simp add: nextCycleView_def)

text \<open>After a monitor that failed, the next one has the seconds the failed one had left.\<close>

lemma failed_monitor_seconds:
  assumes "watch_ok env s" "wp_cycle s" "\<not> rp_ready r" "rp_failed r" "wp_seconds s \<noteq> 0"
  shows "wp_seconds (second env r s) = wp_seconds s"
  using assms by (simp add: second_def nextCycleView_def watch_ok_def cycleNext_seconds)

lemma cyclePrev_undoes:
  assumes "wp_idx s < we_count env"
  shows "wp_idx (cyclePrev env r (cycleNext env r' s)) = wp_idx s"
proof (cases "wp_idx s + 1 = we_count env")
  case True
  then show ?thesis by (simp add: cyclePrev_idx flip: True)
next
  case False
  with assms show ?thesis by (simp add: cyclePrev_idx)
qed

lemma period_step:
  assumes "0 < (p::nat)"
  shows "Suc k div p = (if k mod p + 1 = p then k div p + 1 else k div p)"
    and "Suc k mod p = (if k mod p + 1 = p then 0 else k mod p + 1)"
  using assms by (simp_all add: div_Suc mod_Suc)

text \<open>
  C22. While every monitor plays, each is shown for exactly the period chosen, and they are shown in order, round and round: after
  any number of seconds the page shows the monitor so many whole periods further on, with the rest of its period to run.
\<close>

theorem watch_countdown_exact:
  assumes "watch_ok env s" "wp_cycle s" "wp_seconds s = we_period env" "we_period env = int p" "0 < p"
    and "rp_ready r" "\<not> rp_failed r"
  shows "wp_idx ((second env r ^^ k) s) = (wp_idx s + k div p) mod we_count env \<and>
    wp_seconds ((second env r ^^ k) s) = int p - int (k mod p) \<and> wp_cycle ((second env r ^^ k) s)"
proof -
  have "watch_ok env ((second env r ^^ k) s) \<and> wp_idx ((second env r ^^ k) s) = (wp_idx s + k div p) mod we_count env \<and>
    wp_seconds ((second env r ^^ k) s) = int p - int (k mod p) \<and> wp_cycle ((second env r ^^ k) s)"
  proof (induction k)
    case 0
    then show ?case using assms by (simp add: watch_ok_def)
  next
    case (Suc k)
    let ?t = "(second env r ^^ k) s"
    have ok: "watch_ok env (second env r ?t)" using Suc unfolding second_def by (intro watch_exec_ok) simp
    have lt: "k mod p < p" using assms(5) by simp
    have zero: "k mod p + 1 = p \<Longrightarrow> int p - int (k mod p) - 1 = 0" by linarith
    have step: "second env r ?t = (if k mod p + 1 = p then cycleNext env r (?t\<lparr>wp_seconds := 0\<rparr>)
        else ?t\<lparr>wp_seconds := int p - int (k mod p) - 1\<rparr>)"
      using second_step [of env ?t r] Suc assms(6,7) lt zero by (cases "k mod p + 1 = p") auto
    show ?case
    proof (cases "k mod p + 1 = p")
      case True
      then show ?thesis using step Suc assms ok by (simp add: cycleNext_seconds period_step mod_simps ac_simps)
    next
      case False
      then show ?thesis using step Suc assms ok lt by (simp add: period_step)
    qed
  qed
  then show ?thesis by simp
qed

theorem watch_countdown_exact_witness:
  "wp_idx ((second three_monitors plays_at_once ^^ 5) (watch_init three_monitors 2 True plays_at_once)) = (2 + 5 div 2) mod 3 \<and>
   wp_seconds ((second three_monitors plays_at_once ^^ 5) (watch_init three_monitors 2 True plays_at_once)) = int 2 - int (5 mod 2) \<and>
   wp_cycle ((second three_monitors plays_at_once ^^ 5) (watch_init three_monitors 2 True plays_at_once))"
proof -
  have idx: "wp_idx (watch_init three_monitors 2 True plays_at_once) = 2" "we_count three_monitors = 3"
    by (simp_all add: watch_init_def three_monitors_def cycleStart_def clear_cycle_def)
  show ?thesis
    using watch_countdown_exact [of three_monitors "watch_init three_monitors 2 True plays_at_once" 2 plays_at_once 5] watch_init_ok [of 2 three_monitors True]
    unfolding idx by (simp add: watch_init_def three_monitors_def plays_at_once_def cycleStart_def clear_cycle_def)
qed

section \<open>Coming back\<close>

text \<open>What can happen by itself while the page is not shown: the streams' own events, and the ticks of intervals that are gone.\<close>

fun is_noise :: "watch_event \<Rightarrow> bool" where
  "is_noise (Tick i r) \<longleftrightarrow> True"
| "is_noise Late \<longleftrightarrow> True"
| "is_noise Fails \<longleftrightarrow> True"
| "is_noise (Retry r) \<longleftrightarrow> True"
| "is_noise _ \<longleftrightarrow> False"

definition dormant :: "watch_page \<Rightarrow> bool" where
  "dormant s \<longleftrightarrow> wp_running s = [] \<and> \<not> ws_active s \<and> \<not> ws_starting s \<and> \<not> ws_started s"

lemma noise_dormant:
  assumes "dormant s" "is_noise e"
  shows "watch_exec env e s = s"
  using assms by (cases e) (auto simp: dormant_def ws_stop_def ws_start_def)

lemma noise_run: "dormant s \<Longrightarrow> list_all is_noise evs \<Longrightarrow> watch_run env evs s = s"
  by (induction evs) (simp_all add: watch_run_def noise_dormant)

lemma stopPage_playing:
  assumes "watch_ok env s" "ws_started s" "\<not> rp_paused r"
  shows "dormant (stopPage r s)" "wp_prevStarted (stopPage r s) = Played" "wp_prevCycle (stopPage r s) = wp_cycle s"
    "wp_hidden (stopPage r s) = wp_hidden s" "wp_waits (stopPage r s) = wp_waits s" "wp_idle (stopPage r s) = wp_idle s"
    "wp_idx (stopPage r s) = wp_idx s" "wp_seconds (stopPage r s) = (if wp_cycle s then 0 else wp_seconds s)" "\<not> wp_cycle (stopPage r s)"
  using assms by (auto simp: stopPage_def dormant_def ws_stop_def cycleStop_def cyclePause_def clear_cycle_def watch_ok_def Let_def)



section \<open>Stopped twice\<close>

text \<open>What the browser and the stream do, the user nothing.\<close>

fun is_background :: "watch_event \<Rightarrow> bool" where
  "is_background Hidden \<longleftrightarrow> True"
| "is_background (HideTimeout r) \<longleftrightarrow> True"
| "is_background Visible \<longleftrightarrow> True"
| "is_background (Frozen r) \<longleftrightarrow> True"
| "is_background (PageHidden r) \<longleftrightarrow> True"
| "is_background Resumed \<longleftrightarrow> True"
| "is_background (Fresh r) \<longleftrightarrow> True"
| "is_background e \<longleftrightarrow> is_noise e"

definition forgotten :: "watch_page \<Rightarrow> bool" where
  "forgotten s \<longleftrightarrow> dormant s \<and> \<not> wp_cycle s \<and> \<not> wp_prevCycle s \<and> wp_prevStarted s \<noteq> Played"

lemma forgotten_fields:
  "forgotten s \<Longrightarrow> wp_running t = wp_running s \<Longrightarrow> ws_active t = ws_active s \<Longrightarrow> ws_starting t = ws_starting s \<Longrightarrow>
   ws_started t = ws_started s \<Longrightarrow> wp_cycle t = wp_cycle s \<Longrightarrow> wp_prevCycle t = wp_prevCycle s \<Longrightarrow>
   wp_prevStarted t = wp_prevStarted s \<Longrightarrow> forgotten t"
  by (simp add: forgotten_def dormant_def)

lemma forgotten_stop: "forgotten s \<Longrightarrow> forgotten (stopPage r s)"
  by (simp add: forgotten_def dormant_def stopPage_def Let_def)

lemma forgotten_fresh: "forgotten s \<Longrightarrow> forgotten (page_fresh env r s)"
  by (simp add: forgotten_def dormant_def page_fresh_def Let_def)

lemma forgotten_step:
  assumes f: "forgotten s" and b: "is_background e"
  shows "forgotten (watch_exec env e s)"
proof (cases "is_noise e")
  case True
  then show ?thesis using f noise_dormant [of s e env] by (simp add: forgotten_def)
next
  case False
  show ?thesis
  proof (cases e)
    case (Fresh r)
    have "forgotten (s\<lparr>wp_waits := 0\<rparr>)" by (rule forgotten_fields [OF f]) simp_all
    then have "forgotten ((page_fresh env r ^^ n) (s\<lparr>wp_waits := 0\<rparr>))" for n by (induction n) (simp_all add: forgotten_fresh)
    with Fresh show ?thesis by simp
  qed (use f b False in \<open>auto simp: startPage_def forgotten_stop intro: forgotten_fields\<close>)
qed

lemma forgotten_run: "forgotten s \<Longrightarrow> list_all is_background evs \<Longrightarrow> forgotten (watch_run env evs s)"
  by (induction evs arbitrary: s) (simp_all add: watch_run_def forgotten_step)

lemma stop_twice_forgotten:
  assumes "watch_ok env s" "ws_started s" "\<not> rp_paused r"
  shows "forgotten (stopPage r' (stopPage r s))"
  using stopPage_playing [OF assms] by (simp add: forgotten_def dormant_def stopPage_def Let_def)

text \<open>
  C38. A page that plays and is stopped twice before it is shown again, as when the fifteen seconds of a hidden page have passed and it
  is frozen then, has forgotten that it played and that it cycled: whatever the browser reports afterwards, neither starts again
  until the user asks for it.
\<close>

theorem second_stop_forgets:
  assumes "watch_ok env s" "ws_started s" "\<not> rp_paused r" "list_all is_background evs"
  shows "let t = watch_run env ([Hidden, HideTimeout r, Frozen r'] @ evs) s in \<not> ws_started t \<and> \<not> ws_starting t \<and> \<not> wp_cycle t"
proof -
  let ?h = "s\<lparr>wp_hidden := True, wp_hideTimer := True\<rparr>"
  have "watch_ok env ?h" by (rule watch_ok_fields [OF assms(1)]) simp_all
  then have "forgotten (stopPage r' (stopPage r ?h))" using assms by (intro stop_twice_forgotten [of env]) simp_all
  then have "forgotten (watch_run env evs (stopPage r' (stopPage r ?h)))" by (rule forgotten_run [OF _ assms(4)])
  then show ?thesis by (simp add: watch_run_def forgotten_def dormant_def Let_def)
qed

theorem second_stop_forgets_witness:
  "\<not> ws_started (watch_run three_monitors ([Hidden, HideTimeout plays_at_once, Frozen plays_at_once] @
      [Resumed, Visible, Fresh plays_at_once]) (watch_init three_monitors 0 True plays_at_once))"
proof -
  have "ws_started (watch_init three_monitors 0 True plays_at_once)"
    by (simp add: watch_init_def three_monitors_def plays_at_once_def cycleStart_def clear_cycle_def streamReStart_def
        streamCmdPlay_def ws_start_def)
  moreover have "watch_ok three_monitors (watch_init three_monitors 0 True plays_at_once)"
    by (rule watch_init_ok) (simp add: three_monitors_def)
  ultimately show ?thesis
    using second_stop_forgets [of three_monitors "watch_init three_monitors 0 True plays_at_once" plays_at_once
        "[Resumed, Visible, Fresh plays_at_once]" plays_at_once]
    unfolding Let_def by (simp add: plays_at_once_def)
qed

text \<open>
  A page that is shown and hidden again before its credential is fresh starts its stream all the same: the function that
  waited does not look at whether the page is shown.
\<close>

lemma starts_while_hidden:
  assumes "wp_prevStarted s = Played" "\<not> wp_idle s" "\<not> ws_starting s" "\<not> ws_started s" "wp_waits s = 0"
  shows "let t = watch_run env [Visible, Hidden, Fresh r] s in ws_starting t \<and> wp_hidden t"
  using assms by (auto simp: watch_run_def startPage_def page_fresh_def ws_start_def cycleStart_def clear_cycle_def Let_def)

section \<open>Is anyone watching\<close>

text \<open>The question is in the page, with the one handler it was loaded with.\<close>

definition asked_once :: "bool \<Rightarrow> watch_page \<Rightarrow> bool" where
  "asked_once c s \<longleftrightarrow> wp_loading s = [] \<and> (\<exists>shown. wp_modal s = Some ([c], shown))"

lemma asked_fields: "asked_once c s \<Longrightarrow> wp_loading t = wp_loading s \<Longrightarrow> wp_modal t = wp_modal s \<Longrightarrow> asked_once c t"
  by (simp add: asked_once_def)

lemma cycle_modal [simp]:
  "wp_modal (clear_cycle s) = wp_modal s" "wp_loading (clear_cycle s) = wp_loading s"
  "wp_modal (cyclePause s) = wp_modal s" "wp_loading (cyclePause s) = wp_loading s"
  "wp_modal (cycleStart env s) = wp_modal s" "wp_loading (cycleStart env s) = wp_loading s"
  "wp_modal (cycleStop s) = wp_modal s" "wp_loading (cycleStop s) = wp_loading s"
  "wp_modal (cycleNext env r s) = wp_modal s" "wp_loading (cycleNext env r s) = wp_loading s"
  "wp_modal (cyclePrev env r s) = wp_modal s" "wp_loading (cyclePrev env r s) = wp_loading s"
  "wp_modal (nextCycleView env r s) = wp_modal s" "wp_loading (nextCycleView env r s) = wp_loading s"
  "wp_modal (stopPage r s) = wp_modal s" "wp_loading (stopPage r s) = wp_loading s"
  "wp_modal (page_fresh env r s) = wp_modal s" "wp_loading (page_fresh env r s) = wp_loading s"
  "wp_modal (modal_handler env r c s) = wp_modal s" "wp_loading (modal_handler env r c s) = wp_loading s"
  by (simp_all add: clear_cycle_def cyclePause_def cycleStart_def cycleStop_def cycleNext_def cyclePrev_def nextCycleView_def
      stopPage_def page_fresh_def modal_handler_def ws_stop_def Let_def)

lemma asked_step:
  assumes a: "asked_once c s"
  shows "asked_once c (watch_exec env e s)"
proof (cases e)
  case (Fresh r)
  have "asked_once c (s\<lparr>wp_waits := 0\<rparr>)" by (rule asked_fields [OF a]) simp_all
  then have "asked_once c ((page_fresh env r ^^ n) (s\<lparr>wp_waits := 0\<rparr>))" for n
    by (induction n) (simp_all add: asked_once_def)
  with Fresh show ?thesis by simp
next
  case Idle
  then show ?thesis using a by (auto simp: asked_once_def stopPlayback_def Let_def)
next
  case ModalLoaded
  then show ?thesis using a by (simp add: asked_once_def modal_loaded_def)
next
  case (ModalClosed r)
  then show ?thesis using a by (auto simp: asked_once_def modal_closed_def split: bool.split)
qed (use a in \<open>simp_all add: asked_once_def startPage_def ws_stop_def streamCmdPause_def ws_start_def\<close>)

lemma asked_run: "asked_once c s \<Longrightarrow> asked_once c (watch_run env evs s)"
  by (induction evs arbitrary: s) (simp_all add: watch_run_def asked_step)

lemma idle_return:
  assumes "asked_once c s"
  shows "wp_cycle (watch_run env [Idle, ModalClosed r] s) = c"
  using assms by (cases c) (auto simp: asked_once_def watch_run_def stopPlayback_def modal_closed_def modal_handler_def
      cyclePause_def cycleStart_def Let_def)

lemma first_question:
  assumes "wp_modal s = None" "wp_loading s = []"
  shows "asked_once (wp_cycle s) (watch_run env [Idle, ModalLoaded] s)"
  using assms by (auto simp: asked_once_def watch_run_def stopPlayback_def modal_loaded_def Let_def)

text \<open>
  Every time the question is answered, the page goes back to cycling or not as it did the first time it was asked, whatever
  the user chose in between: the handler of the question is made once and keeps the value it found then.
\<close>

lemma idle_return_uses_first_state:
  assumes "wp_modal s = None" "wp_loading s = []"
  shows "wp_cycle (watch_run env ([Idle, ModalLoaded] @ evs @ [Idle, ModalClosed r]) s) = wp_cycle s"
proof -
  have "asked_once (wp_cycle s) (watch_run env evs (watch_run env [Idle, ModalLoaded] s))"
    by (rule asked_run [OF first_question [OF assms]])
  from idle_return [OF this, of env r] show ?thesis by (simp add: watch_run_def)
qed

section \<open>The older page\<close>

text \<open>
  \<^verbatim>\<open>cycle.js\<close>: the page is loaded again for the next monitor, so only the interval is kept. \<open>cv_idx\<close> is the place in the list of
  monitors that the buttons count with; \<open>cv_at\<close> the place of the monitor whose page is asked for.
\<close>

record cycle_view =
  cv_idx :: int
  cv_at :: "int option"
  cv_running :: "nat list"
  cv_timer :: "nat option"
  cv_next :: nat
  cv_pause_disabled :: bool
  cv_play_disabled :: bool

definition cv_clear :: "cycle_view \<Rightarrow> cycle_view" where
  "cv_clear v = v\<lparr>cv_running := (case cv_timer v of None \<Rightarrow> cv_running v | Some i \<Rightarrow> filter (\<lambda>j. j \<noteq> i) (cv_running v))\<rparr>"

definition cv_interval :: "cycle_view \<Rightarrow> cycle_view" where
  "cv_interval v = v\<lparr>cv_running := cv_running v @ [cv_next v], cv_timer := Some (cv_next v), cv_next := cv_next v + 1\<rparr>"

definition cv_pause :: "cycle_view \<Rightarrow> cycle_view" where
  "cv_pause v = (cv_clear v)\<lparr>cv_pause_disabled := True, cv_play_disabled := False\<rparr>"

definition cv_start :: "cycle_view \<Rightarrow> cycle_view" where
  "cv_start v = (cv_interval (cv_clear v))\<lparr>cv_pause_disabled := False, cv_play_disabled := True\<rparr>"

definition cv_forward :: "int \<Rightarrow> cycle_view \<Rightarrow> cycle_view" where
  "cv_forward n v = (let i = (if cv_idx v + 1 \<ge> n then 0 else cv_idx v + 1) in v\<lparr>cv_idx := i, cv_at := Some i\<rparr>)"

definition cv_back :: "int \<Rightarrow> cycle_view \<Rightarrow> cycle_view" where
  "cv_back n v = (let i = (if cv_idx v - 1 < 0 then n - 1 else cv_idx v - 1) in v\<lparr>cv_idx := i, cv_at := Some i\<rparr>)"

datatype cv_click = CvPause | CvPlay | CvForward | CvBack

fun cv_exec :: "int \<Rightarrow> cv_click \<Rightarrow> cycle_view \<Rightarrow> cycle_view" where
  "cv_exec n CvPause v = cv_pause v"
| "cv_exec n CvPlay v = cv_start v"
| "cv_exec n CvForward v = cv_forward n v"
| "cv_exec n CvBack v = cv_back n v"

definition cv_init :: "int \<Rightarrow> cycle_view" where
  "cv_init k = cv_interval \<lparr>cv_idx = k, cv_at = None, cv_running = [], cv_timer = None, cv_next = 1,
     cv_pause_disabled = False, cv_play_disabled = False\<rparr>"

definition cv_ok :: "int \<Rightarrow> cycle_view \<Rightarrow> bool" where
  "cv_ok n v \<longleftrightarrow> 0 \<le> cv_idx v \<and> cv_idx v < n \<and> (\<exists>i. cv_timer v = Some i \<and> (cv_running v = [] \<or> cv_running v = [i]))"

lemma cv_exec_ok: "cv_ok n v \<Longrightarrow> cv_ok n (cv_exec n c v)"
  by (cases c) (auto simp: cv_ok_def cv_pause_def cv_start_def cv_forward_def cv_back_def cv_clear_def cv_interval_def Let_def)

text \<open>However the buttons are used, at most one interval runs and the place is one of the list.\<close>

lemma cycle_view_ok:
  assumes "0 \<le> k" "k < n"
  shows "cv_ok n (fold (cv_exec n) cs (cv_init k))"
proof -
  have run: "cv_ok n (fold (cv_exec n) cs v)" if "cv_ok n v" for v
    using that by (induction cs arbitrary: v) (simp_all add: cv_exec_ok)
  have "cv_ok n (cv_init k)" using assms by (simp add: cv_ok_def cv_init_def cv_interval_def)
  then show ?thesis by (rule run)
qed

lemma cv_back_forward: "cv_ok n v \<Longrightarrow> cv_idx (cv_back n (cv_forward n v)) = cv_idx v \<and> cv_idx (cv_forward n (cv_back n v)) = cv_idx v"
  by (auto simp: cv_ok_def cv_back_def cv_forward_def Let_def)

text \<open>The scale the older page asks for once a width in pixels is chosen, a percentage of the monitor's own.\<close>

definition cv_scale :: "int \<Rightarrow> int \<Rightarrow> int" where
  "cv_scale width monitor_width = (let scale = 100 * width div monitor_width in if scale > 100 then 100 else if scale \<le> 0 then 100 else scale)"

lemma cv_scale_range: "0 < cv_scale w m \<and> cv_scale w m \<le> 100"
  by (simp add: cv_scale_def Let_def)

end
