(* ===== verification/Spec2Isabelle.thy ===== *)
theory Spec2Isabelle
  imports Auth_Helpers Table_Helpers Zms_Hints Zone_Object_Size Level_Graph Encoder_Templates Ffmpeg_Options
    Event_Stream Monitor_Stream Monitor_Media Annotation_Editor Monitor_Links Montage_Review
    Montage_Layout Event_Playback Filter_Editor Stream_Listeners Page_Helpers Watch_Page
begin

text \<open>
  Verification library for the browser scripts of ZoneMinder, a video surveillance system. Daemons in C++ capture cameras, record
  events and stream them (\<^verbatim>\<open>zms\<close>), PHP pages present them, and the JavaScript modelled here runs in those pages: it owns the
  connections to \<^verbatim>\<open>zms\<close>, keeps the credential of the page alive, draws and edits zones, annotations and filters, and plays live and
  recorded video. All paths below are under \<^verbatim>\<open>src/\<close>, page scripts (\<^verbatim>\<open>views/js/\<close>) under \<^verbatim>\<open>web/skins/classic/\<close>. Definitions have the
  names of the functions they translate, with a prefix where the name is taken.

  \<^bold>\<open>Common ground.\<close>
  \<^item> \<open>Js_Prelude\<close>, \<open>Js_Text\<close>: the fragment of the language the scripts use. A number is exact (rational) or one of NaN and the
    infinities; the rounding of the 53-bit significand is not modelled, except where a constant is compared with (\<open>nine_tenths\<close>). Texts
    are character lists. Printing, \<^verbatim>\<open>parseInt\<close>, \<^verbatim>\<open>parseFloat\<close>, truthiness and the fields of forms are defined here, with the round trips
    that the components rest on and the collections of simplification rules.
  \<^item> \<open>Auth_Helpers\<close> (\<^verbatim>\<open>web/js/auth-helpers.js\<close>, and \<^verbatim>\<open>setNavBar\<close> of \<^verbatim>\<open>web/skins/classic/js/skin.js\<close>): the credential, the functions that
    put it into addresses, and the page-wide machine that asks whether it is still good (\<open>auth_step\<close>): callbacks wait for a probe and
    run once. Every page and stream below waits on it before it reconnects.
  \<^item> \<open>Table_Helpers\<close> (\<^verbatim>\<open>web/js/table-helpers.js\<close>): requests of tables that are put off while the page is hidden. What it needs of the
    credential is the locale \<open>fresh_gate\<close>, interpreted on \<open>whenAuthFresh\<close> and on the direct call.
  \<^item> \<open>Page_Helpers\<close> (\<^verbatim>\<open>skin.js\<close>): escaping, labels, times, sizes, cookies, UUIDs, scales. UUID bytes are 8-bit words.

  \<^bold>\<open>Live streams.\<close>
  \<^item> \<open>Monitor_State\<close>, \<open>Monitor_Players\<close>, \<open>Monitor_Stream\<close> (\<^verbatim>\<open>web/js/MonitorStream.js\<close>): one monitor. The first holds the record
    \<open>mstream\<close> and how it is stopped and killed, the second the table of players and the search for the next one, the third replies,
    reconnects, scale and the machine of all its events. Connections opened and commands sent go to a log; the
    invariant accounts for every connection in it, and \<open>late_reconnect_loses_zms\<close> shows one way in which the code loses one.
  \<^item> \<open>Monitor_Media\<close> (\<^verbatim>\<open>MonitorStream.js\<close>, \<^verbatim>\<open>web/js/video-stream.js\<close>): the packet queue of a stream played through Media Source
    Extensions, and its refinement of a first-in first-out channel.
  \<^item> \<open>Stream_Listeners\<close> (\<^verbatim>\<open>skin.js\<close>, \<^verbatim>\<open>MonitorStream.js\<close>): the registry of listeners (locale \<open>listener_registry\<close>, interpreted on the
    class \<^verbatim>\<open>ManageEventListener\<close>), and the listeners a monitor keeps in it, which are run when an event is fired.
  \<^item> \<open>Watch_Page\<close> (\<^verbatim>\<open>views/js/watch.js\<close>, \<^verbatim>\<open>views/js/cycle.js\<close>): the page that shows one monitor and cycles through several, with the
    stream reduced to whether it may play, is starting and has started: countdown, leaving, coming back, asking who still watches.

  \<^bold>\<open>Recorded events.\<close>
  \<^item> \<open>Event_Stream\<close> (\<^verbatim>\<open>web/js/EventStream.js\<close>): one connection to a recording: commands, polls, recovery with increasing delays.
  \<^item> \<open>Event_Playback\<close>, \<open>Zms_Hints\<close> (\<^verbatim>\<open>views/js/event.js\<close>, \<^verbatim>\<open>views/js/event-zms-hints.js\<close>): the transport controls for video.js and \<^verbatim>\<open>zms\<close>,
    and the neighbouring events that are looked up and sent to \<^verbatim>\<open>zms\<close> so that it can go on by itself; what \<^verbatim>\<open>zms\<close> keeps of
    them (\<open>zms_take\<close>) follows \<^verbatim>\<open>src/zm_eventstream.cpp\<close> and \<^verbatim>\<open>web/ajax/stream.php\<close>.
  \<^item> \<open>Level_Graph\<close> (\<^verbatim>\<open>web/js/LevelGraph.js\<close>): samples, alarm bands, the search under the pointer, the live meter.
  \<^item> \<open>Review_Frames\<close>, \<open>Montage_Review\<close> (\<^verbatim>\<open>views/js/montagereview.js\<close>): the events and frames received from the API and the searches over
    them; one clock that drives a stream of \<open>Event_Stream\<close> for each monitor, or single images at the slow speeds. The locales \<open>stream_op\<close>
    and \<open>kept_by_lookups\<close> state what an operation on the streams, or a lookup, leaves alone, and are interpreted on the page's own.
  \<^item> \<open>Montage_Layout\<close> (\<^verbatim>\<open>web/skins/classic/js/montage_common.js\<close>): fitting the monitors into the window by bisection over the scale.

  \<^bold>\<open>Editors.\<close>
  \<^item> \<open>Zone_Editor\<close>, \<open>Zone_Object_Size\<close> (\<^verbatim>\<open>views/js/zone.js\<close>, \<^verbatim>\<open>views/js/zone-object-size.js\<close>): the form of a zone, its polygon,
    validation, reset and change marks; the tool that derives thresholds from a box drawn on the picture works on that form.
  \<^item> \<open>Annotation_Editor\<close> (\<^verbatim>\<open>views/js/training.js\<close>): boxes on a frame, mouse, undo, detection, saving, replies in any order.
  \<^item> \<open>Filter_Editor\<close> (\<^verbatim>\<open>views/js/filter.js\<close>): the rows of a query and their numbered controls, the check of the form, the buttons.
  \<^item> \<open>Encoder_Templates\<close>, \<open>Ffmpeg_Options\<close> (\<^verbatim>\<open>views/js/monitor-encoder-templates.js\<close>, \<^verbatim>\<open>views/js/monitor-ffmpeg-options.js\<close>,
    \<^verbatim>\<open>views/js/cron.js\<close>): texts of parameters parsed, merged, checked and printed; the cron expression of a task.
  \<^item> \<open>Monitor_Links\<close> (\<^verbatim>\<open>web/js/MonitorLinkExpression.js\<close>): an expression over monitors shown as selects and read back.

  \<^bold>\<open>How a component is modelled.\<close> A page or object is a record of the variables the code keeps; a function of the code is a function
  on that record; user actions, timers, replies and events of the browser are steps: a datatype of events with one function that says what each does
  (\<open>watch_exec\<close>, \<open>fp_exec\<close>, \<open>ml_exec\<close> and so on), so that a run is a list of events in any order, or an inductive relation
  (\<open>auth_step\<close>, \<open>es_step\<close>, \<open>hint_step\<close>); properties hold for every run. Timers and listeners are kept with their ids, because an id that is overwritten leaves its timer running. Replies may come late,
  twice or not at all: they are events like others. What zms, the API or a library answers is an argument of the event that brings it.

  \<^bold>\<open>What the lemmas show.\<close> For the machines, an invariant that every event keeps and what follows from it (connections accounted for,
  callbacks run once, boxes on the frame, controls numbered, one countdown); for the algorithms, equivalence with what they
  should compute (searches, areas, layout, escaping); for texts, round trips; and, where the code does something it does not mean to, a
  theorem or lemma with the run that shows it. Each property stands after a text with its number and, if it has hypotheses, has a witness
  that applies it to a concrete state.

  \<^bold>\<open>Termination and bounds.\<close> All definitions are total functions on their data, most by structural recursion; loops over numbers have a
  measure (\<open>size_loop\<close>, the searches, the bisection). The exception is restarting a stream: \<open>restart\<close> and \<open>selectNextPlayer\<close> call
  each other, so the model is a partial function whose value \<open>None\<close> is not returning, and \<open>restart_returns_iff\<close> says exactly when
  it returns. No definition takes fuel. Numbers that may grow (connection ids, delays, error counts) are
  unbounded; the delays of a recovery and the number of its attempts are bounded by \<open>recovery_backs_off\<close>.

  \<^bold>\<open>Not modelled.\<close> Drawing on canvases and in SVG, styles and sizes that the browser computes; the construction of the DOM beyond
  the controls whose values the scripts read back; the negotiation of WebRTC and Janus, of which only the callbacks that reach the
  stream's state are events; pan, tilt and zoom, statistics panels, date pickers, dialogs, the navigation bar and the volume slider's
  look; page scripts that only bind handlers and fill tables (\<^verbatim>\<open>monitor.js\<close>, \<^verbatim>\<open>montage.js\<close>, \<^verbatim>\<open>console.js\<close>, \<^verbatim>\<open>events.js\<close>,
  \<^verbatim>\<open>options.js\<close> and others); vendored libraries, of which the scripts' use is a parameter; and everything else not in JavaScript: the
  daemons, the PHP pages (read for the conditions under which they render a control) and the Perl scripts.
\<close>

end
